(* ===== verification/Prelude.thy ===== *)
theory Prelude
  imports
    Complex_Main
    "HOL-Library.AList"
    "HOL-Library.Product_Lexorder"
    "HOL-Library.List_Lexorder"
    "HOL-Library.Char_ord"
begin

section \<open>Prelude: Python values, exceptions and stateful calls\<close>

text \<open>
  What every component of the development shares.

  \<^item> A Python \<open>str\<close> is a HOL \<open>string\<close>, one \<open>char\<close> for one code point (the model covers the
    code points below 256), so \<open>len\<close> is \<open>length\<close>.
  \<^item> A \<open>dict\<close> is an association list in insertion order: \<open>d[k] = v\<close> is \<open>AList.update\<close>, which
    overwrites in place or appends, exactly as a Python dictionary does, \<open>d.get(k)\<close> is
    \<open>map_of d k\<close>, and \<open>del d[k]\<close> is \<open>AList.delete\<close>.
  \<^item> A timezone-aware \<open>datetime\<close> is an \<open>int\<close> (microseconds since the epoch). The code reads the
    clock itself; the model takes the readings as arguments.
  \<^item> An exception is a value of \<^typ>\<open>string\<close>-carrying datatype \<open>exn\<close>; a call that reads and
    writes a state \<open>'s\<close> is a function \<open>'s \<Rightarrow> (exn + 'a) \<times> 's\<close>, so that what a call wrote before
    it raised stays written.
\<close>

type_synonym time = int
type_synonym ('k, 'v) dict = "('k \<times> 'v) list"

named_theorems py_simps "unfolding rules of the stateful-call combinators"
named_theorems dict_simps "lookups, keys and values of updated dictionaries"

subsection \<open>Exceptions\<close>

text \<open>
  One constructor per exception class that the modelled code raises or catches. The built-in
  classes carry their message, \<open>External\<close> stands for an exception of a class the sources do not
  name (raised by a database driver, an agent tool, \<open>\<dots>\<close>) and carries the class name.
\<close>

datatype exn =
    KeyError string
  | ValueError string
  | PermissionError string
  | RuntimeError string
  | AssertionError
  | StopIteration
  | ZeroDivisionError
  | TimeoutError
  | CancelledError
  | GeneratorExit
  | InvalidRunTransition string
  | HarnessBudgetExceeded string
  | HarnessPausedForClarification string
  | UnsafeRecoveryError string
  | ClarificationAlreadyAnswered string
  | ClarificationExpired string
  | ResumeReplay string
  | ResumeExpired string
  | ResumeInvalid string
  | ResumeNotFound string
  | ContextCompilationError string
  | TracePersistenceError string
  | QueryPlanAlignmentError string
  | External string

text \<open>\<open>type(exc).__name__\<close>.\<close>

fun exn_name :: "exn \<Rightarrow> string" where
  "exn_name (KeyError _) = ''KeyError''"
| "exn_name (ValueError _) = ''ValueError''"
| "exn_name (PermissionError _) = ''PermissionError''"
| "exn_name (RuntimeError _) = ''RuntimeError''"
| "exn_name AssertionError = ''AssertionError''"
| "exn_name StopIteration = ''StopIteration''"
| "exn_name ZeroDivisionError = ''ZeroDivisionError''"
| "exn_name TimeoutError = ''TimeoutError''"
| "exn_name CancelledError = ''CancelledError''"
| "exn_name GeneratorExit = ''GeneratorExit''"
| "exn_name (InvalidRunTransition _) = ''InvalidRunTransition''"
| "exn_name (HarnessBudgetExceeded _) = ''HarnessBudgetExceeded''"
| "exn_name (HarnessPausedForClarification _) = ''HarnessPausedForClarification''"
| "exn_name (UnsafeRecoveryError _) = ''UnsafeRecoveryError''"
| "exn_name (ClarificationAlreadyAnswered _) = ''ClarificationAlreadyAnswered''"
| "exn_name (ClarificationExpired _) = ''ClarificationExpired''"
| "exn_name (ResumeReplay _) = ''ResumeReplay''"
| "exn_name (ResumeExpired _) = ''ResumeExpired''"
| "exn_name (ResumeInvalid _) = ''ResumeInvalid''"
| "exn_name (ResumeNotFound _) = ''ResumeNotFound''"
| "exn_name (ContextCompilationError _) = ''ContextCompilationError''"
| "exn_name (TracePersistenceError _) = ''TracePersistenceError''"
| "exn_name (QueryPlanAlignmentError _) = ''QueryPlanAlignmentError''"
| "exn_name (External n) = n"

text \<open>What \<open>except Exception\<close> catches: everything but the two \<open>BaseException\<close> classes.\<close>

definition is_exception :: "exn \<Rightarrow> bool" where
  "is_exception e \<longleftrightarrow> e \<noteq> CancelledError \<and> e \<noteq> GeneratorExit"

subsection \<open>Stateful calls\<close>

type_synonym ('s, 'a) py = "'s \<Rightarrow> (exn + 'a) \<times> 's"

definition ret :: "'a \<Rightarrow> ('s, 'a) py" where
  "ret x s = (Inr x, s)"

definition raise :: "exn \<Rightarrow> ('s, 'a) py" where
  "raise e s = (Inl e, s)"

definition bindM :: "('s, 'a) py \<Rightarrow> ('a \<Rightarrow> ('s, 'b) py) \<Rightarrow> ('s, 'b) py" where
  "bindM m f s = (case m s of (Inl e, s') \<Rightarrow> (Inl e, s') | (Inr x, s') \<Rightarrow> f x s')"

definition thenM :: "('s, 'a) py \<Rightarrow> ('s, 'b) py \<Rightarrow> ('s, 'b) py" where
  "thenM m k = bindM m (\<lambda>_. k)"

text \<open>\<open>try: m except \<dots>: h exc\<close>; a handler that does not match re-raises.\<close>

definition catchM :: "('s, 'a) py \<Rightarrow> (exn \<Rightarrow> ('s, 'a) py) \<Rightarrow> ('s, 'a) py" where
  "catchM m h s = (case m s of (Inl e, s') \<Rightarrow> h e s' | (Inr x, s') \<Rightarrow> (Inr x, s'))"

definition getM :: "('s, 's) py" where
  "getM s = (Inr s, s)"

definition whenM :: "bool \<Rightarrow> ('s, unit) py \<Rightarrow> ('s, unit) py" where
  "whenM b m = (if b then m else ret ())"

lemma ret_apply [simp, py_simps]: "ret x s = (Inr x, s)"
  by (simp add: ret_def)

lemma raise_apply [simp, py_simps]: "raise e s = (Inl e, s)"
  by (simp add: raise_def)

lemma getM_apply [simp, py_simps]: "getM s = (Inr s, s)"
  by (simp add: getM_def)

lemma bindM_ret [simp]: "bindM (ret x) f = f x"
  by (rule ext) (simp add: bindM_def)

lemma bindM_raise [simp]: "bindM (raise e) f = raise e"
  by (rule ext) (simp add: bindM_def)

lemma bindM_assoc: "bindM (bindM m f) g = bindM m (\<lambda>x. bindM (f x) g)"
  by (rule ext) (simp add: bindM_def split: prod.splits sum.splits)

lemma bindM_Inl: "m s = (Inl e, s') \<Longrightarrow> bindM m f s = (Inl e, s')"
  by (simp add: bindM_def)

lemma bindM_Inr: "m s = (Inr x, s') \<Longrightarrow> bindM m f s = f x s'"
  by (simp add: bindM_def)

text \<open>A call of a composed operation returned: every part of it returned.\<close>

lemma bindM_InrE:
  assumes "bindM m f s = (Inr y, s'')"
  obtains x s' where "m s = (Inr x, s')" and "f x s' = (Inr y, s'')"
  using assms by (auto simp: bindM_def split: prod.splits sum.splits)

lemma bindM_cases:
  assumes "bindM m f s = (r, s'')"
  obtains (raised) e where "m s = (Inl e, s'')" and "r = Inl e"
  | (passed) x s' where "m s = (Inr x, s')" and "f x s' = (r, s'')"
  using assms by (auto simp: bindM_def split: prod.splits sum.splits)

text \<open>A predicate on the state that both parts keep is kept by their composition.\<close>

definition keeps :: "('s \<Rightarrow> bool) \<Rightarrow> ('s, 'a) py \<Rightarrow> bool" where
  "keeps P m \<longleftrightarrow> (\<forall>s. P s \<longrightarrow> P (snd (m s)))"

named_theorems keeps_rules "introduction rules of keeps, one per combinator"

lemma keepsI [intro?]: "(\<And>s. P s \<Longrightarrow> P (snd (m s))) \<Longrightarrow> keeps P m"
  by (simp add: keeps_def)

lemma keepsD: "keeps P m \<Longrightarrow> P s \<Longrightarrow> P (snd (m s))"
  by (simp add: keeps_def)

lemma keepsD': "keeps P m \<Longrightarrow> P s \<Longrightarrow> m s = (r, s') \<Longrightarrow> P s'"
  by (metis keepsD snd_conv)

lemma keeps_ret [simp, keeps_rules]: "keeps P (ret x)"
  by (simp add: keeps_def)

lemma keeps_raise [simp, keeps_rules]: "keeps P (raise e)"
  by (simp add: keeps_def)

lemma keeps_getM [simp, keeps_rules]: "keeps P getM"
  by (simp add: keeps_def)

lemma keeps_bindM [keeps_rules]: "keeps P m \<Longrightarrow> (\<And>x. keeps P (f x)) \<Longrightarrow> keeps P (bindM m f)"
  by (fastforce simp: keeps_def bindM_def split: prod.splits sum.splits)

lemma keeps_thenM [keeps_rules]: "keeps P m \<Longrightarrow> keeps P k \<Longrightarrow> keeps P (thenM m k)"
  by (simp add: thenM_def keeps_bindM)

lemma keeps_catchM [keeps_rules]: "keeps P m \<Longrightarrow> (\<And>e. keeps P (h e)) \<Longrightarrow> keeps P (catchM m h)"
  by (fastforce simp: keeps_def catchM_def split: prod.splits sum.splits)

lemma keeps_whenM [keeps_rules]: "(b \<Longrightarrow> keeps P m) \<Longrightarrow> keeps P (whenM b m)"
  by (simp add: whenM_def)

lemma keeps_if [keeps_rules]:
  "(b \<Longrightarrow> keeps P m) \<Longrightarrow> (\<not> b \<Longrightarrow> keeps P k) \<Longrightarrow> keeps P (if b then m else k)"
  by simp

lemma keeps_option [keeps_rules]:
  "(v = None \<Longrightarrow> keeps P m) \<Longrightarrow> (\<And>x. v = Some x \<Longrightarrow> keeps P (f x)) \<Longrightarrow>
   keeps P (case v of None \<Rightarrow> m | Some x \<Rightarrow> f x)"
  by (cases v) auto

lemma keeps_sum [keeps_rules]:
  "(\<And>x. v = Inl x \<Longrightarrow> keeps P (f x)) \<Longrightarrow> (\<And>y. v = Inr y \<Longrightarrow> keeps P (g y)) \<Longrightarrow>
   keeps P (case v of Inl x \<Rightarrow> f x | Inr y \<Rightarrow> g y)"
  by (cases v) auto

lemma keeps_let [keeps_rules]: "(\<And>x. x = v \<Longrightarrow> keeps P (f x)) \<Longrightarrow> keeps P (let x = v in f x)"
  by simp

subsection \<open>Dictionaries\<close>

lemma map_of_update [simp, dict_simps]:
  "map_of (AList.update k v d) k' = (if k' = k then Some v else map_of d k')"
  by (simp add: update_conv')

lemma dict_keys_update [simp, dict_simps]:
  "fst ` set (AList.update k v d) = insert k (fst ` set d)"
  by (metis dom_map_of_conv_image_fst dom_fun_upd option.distinct(1) update_conv')

lemma map_of_delete [simp, dict_simps]:
  "map_of (AList.delete k d) k' = (if k' = k then None else map_of d k')"
  by (simp add: delete_conv')

lemma map_of_map_values [dict_simps]:
  "map_of (map (\<lambda>(k, v). (k, f k v)) d) k = map_option (f k) (map_of d k)"
  by (induction d) auto

lemma map_of_SomeE_values: "map_of d k = Some v \<Longrightarrow> v \<in> snd ` set d"
  by (force dest: map_of_SomeD)

subsection \<open>\<open>str(int)\<close>, \<open>min\<close> and \<open>max\<close> with a key\<close>

fun str_nat :: "nat \<Rightarrow> string" where
  "str_nat n = (if n < 10 then [char_of (48 + n)]
                else str_nat (n div 10) @ [char_of (48 + n mod 10)])"

declare str_nat.simps [simp del]

definition str_int :: "int \<Rightarrow> string" where
  "str_int i = (if i < 0 then ''-'' @ str_nat (nat (- i)) else str_nat (nat i))"

text \<open>Python's \<open>min\<close> and \<open>max\<close> return the first of several extremal elements.\<close>

fun min_by :: "('a \<Rightarrow> 'b::linorder) \<Rightarrow> 'a \<Rightarrow> 'a list \<Rightarrow> 'a" where
  "min_by k x [] = x"
| "min_by k x (y # ys) = min_by k (if k y < k x then y else x) ys"

fun max_by :: "('a \<Rightarrow> 'b::linorder) \<Rightarrow> 'a \<Rightarrow> 'a list \<Rightarrow> 'a" where
  "max_by k x [] = x"
| "max_by k x (y # ys) = max_by k (if k x < k y then y else x) ys"

lemma min_by_in: "min_by k x ys \<in> insert x (set ys)"
proof (induction ys arbitrary: x)
  case (Cons y ys)
  show ?case using Cons.IH [of "if k y < k x then y else x"] by (auto split: if_splits)
qed simp

lemma min_by_le: "z \<in> insert x (set ys) \<Longrightarrow> k (min_by k x ys) \<le> k z"
proof (induction ys arbitrary: x z)
  case (Cons y ys)
  let ?x = "if k y < k x then y else x"
  have "k (min_by k ?x ys) \<le> k ?x" by (rule Cons.IH) simp
  moreover have "k ?x \<le> k x" "k ?x \<le> k y" by auto
  moreover have "z \<in> set ys \<Longrightarrow> k (min_by k ?x ys) \<le> k z" by (rule Cons.IH) simp
  ultimately show ?case using Cons.prems by (auto intro: order_trans)
qed simp

lemma max_by_in: "max_by k x ys \<in> insert x (set ys)"
proof (induction ys arbitrary: x)
  case (Cons y ys)
  show ?case using Cons.IH [of "if k x < k y then y else x"] by (auto split: if_splits)
qed simp

lemma max_by_ge: "z \<in> insert x (set ys) \<Longrightarrow> k z \<le> k (max_by k x ys)"
proof (induction ys arbitrary: x z)
  case (Cons y ys)
  let ?x = "if k x < k y then y else x"
  have "k ?x \<le> k (max_by k ?x ys)" by (rule Cons.IH) simp
  moreover have "k x \<le> k ?x" "k y \<le> k ?x" by auto
  moreover have "z \<in> set ys \<Longrightarrow> k z \<le> k (max_by k ?x ys)" by (rule Cons.IH) simp
  ultimately show ?case using Cons.prems by (auto intro: order_trans)
qed simp

text \<open>A strict extremum is what they return.\<close>

lemma min_by_strict:
  assumes "w \<in> insert x (set ys)" and "\<And>z. z \<in> insert x (set ys) \<Longrightarrow> z \<noteq> w \<Longrightarrow> k w < k z"
  shows "min_by k x ys = w"
  using min_by_in [of k x ys] min_by_le [OF assms(1), of k] assms(2) by (metis leD)

lemma max_by_strict:
  assumes "w \<in> insert x (set ys)" and "\<And>z. z \<in> insert x (set ys) \<Longrightarrow> z \<noteq> w \<Longrightarrow> k z < k w"
  shows "max_by k x ys = w"
  using max_by_in [of k x ys] max_by_ge [OF assms(1), of k] assms(2) by (metis leD)

subsection \<open>\<open>str.strip\<close> and \<open>str.join\<close>\<close>

text \<open>The characters below 256 that \<open>str.isspace\<close> accepts.\<close>

definition is_space :: "char \<Rightarrow> bool" where
  "is_space c \<longleftrightarrow> of_char c \<in> set [9, 10, 11, 12, 13, 28, 29, 30, 31, 32, 133, 160 :: nat]"

definition strip :: "string \<Rightarrow> string" where
  "strip s = rev (dropWhile is_space (rev (dropWhile is_space s)))"

lemma strip_Nil_iff: "strip s = [] \<longleftrightarrow> list_all is_space s"
proof
  assume "strip s = []"
  then have "\<forall>c \<in> set (dropWhile is_space s). is_space c"
    by (simp add: strip_def dropWhile_eq_Nil_conv)
  then have "dropWhile is_space s = []"
    using hd_dropWhile [of is_space s] by (metis hd_in_set)
  then show "list_all is_space s" by (simp add: dropWhile_eq_Nil_conv list_all_iff)
qed (auto simp: strip_def list_all_iff dropWhile_eq_Nil_conv dest: set_dropWhileD)

fun join_with :: "string \<Rightarrow> string list \<Rightarrow> string" where
  "join_with sep [] = []"
| "join_with sep [x] = x"
| "join_with sep (x # y # ys) = x @ sep @ join_with sep (y # ys)"

text \<open>\<open>int(x)\<close> of a float: truncation.\<close>

definition py_int :: "rat \<Rightarrow> int" where
  "py_int q = (if 0 \<le> q then \<lfloor>q\<rfloor> else \<lceil>q\<rceil>)"

lemma py_int_nonneg: "0 \<le> q \<Longrightarrow> 0 \<le> py_int q"
  by (simp add: py_int_def)

subsection \<open>\<open>str.lower\<close>, \<open>repr\<close> of strings and sets of strings\<close>

definition lower_char :: "char \<Rightarrow> char" where
  "lower_char c = (let n = of_char c :: nat in
     if 65 \<le> n \<and> n \<le> 90 \<or> 192 \<le> n \<and> n \<le> 222 \<and> n \<noteq> 215 then char_of (n + 32) else c)"

definition lower :: "string \<Rightarrow> string" where
  "lower s = map lower_char s"

fun starts_with :: "string \<Rightarrow> string \<Rightarrow> bool" where
  "starts_with [] s = True"
| "starts_with (p # ps) [] = False"
| "starts_with (p # ps) (c # cs) = (p = c \<and> starts_with ps cs)"

definition ends_with :: "string \<Rightarrow> string \<Rightarrow> bool" where
  "ends_with suffix s = starts_with (rev suffix) (rev s)"

text \<open>\<open>needle in hay\<close>.\<close>

fun contains :: "string \<Rightarrow> string \<Rightarrow> bool" where
  "contains needle [] = (needle = [])"
| "contains needle (c # cs) = (starts_with needle (c # cs) \<or> contains needle cs)"

lemma starts_with_append: "starts_with p s \<longleftrightarrow> (\<exists>r. s = p @ r)"
  by (induction p s rule: starts_with.induct) auto

lemma ends_with_append: "ends_with p s \<longleftrightarrow> (\<exists>r. s = r @ p)"
  by (auto simp: ends_with_def starts_with_append) (metis rev_append rev_rev_ident)

text \<open>\<open>repr\<close> of a string: the quote, and the escapes of the code points below 256.\<close>

definition hex_digit :: "nat \<Rightarrow> char" where
  "hex_digit n = ''0123456789abcdef'' ! (n mod 16)"

definition repr_char :: "char \<Rightarrow> char \<Rightarrow> string" where
  "repr_char quote c = (let n = of_char c :: nat in
     if c = quote \<or> n = 92 then [char_of (92::nat), c]
     else if n = 9 then [char_of (92::nat), CHR ''t'']
     else if n = 10 then [char_of (92::nat), CHR ''n'']
     else if n = 13 then [char_of (92::nat), CHR ''r'']
     else if n < 32 \<or> 127 \<le> n \<and> n \<le> 160 \<or> n = 173
       then [char_of (92::nat), CHR ''x'', hex_digit (n div 16), hex_digit n]
     else [c])"

definition repr_str :: "string \<Rightarrow> string" where
  "repr_str s =
     (let quote = (if char_of (39::nat) \<in> set s \<and> char_of (34::nat) \<notin> set s
                   then char_of (34::nat) else char_of (39::nat))
      in [quote] @ concat (map (repr_char quote) s) @ [quote])"

text \<open>The text of \<open>f"{sorted(xs)}"\<close> for a set of strings.\<close>

definition repr_sorted :: "string list \<Rightarrow> string" where
  "repr_sorted xs = ''['' @ join_with '', '' (map repr_str (sort (remdups xs))) @ '']''"

subsection \<open>Loops over a list\<close>

lemma foldl_keeps:
  assumes "P d" and "\<And>d y. P d \<Longrightarrow> y \<in> set ys \<Longrightarrow> P (f d y)"
  shows "P (foldl f d ys)"
  using assms by (induction ys arbitrary: d) auto

end
