(* ===== verification/Run_Model.thy ===== *)
theory Run_Model
  imports Prelude
begin

section \<open>Run states, budgets and records\<close>

text \<open>
  The data model of the harness, \<open>agent-service/app/harness/models.py\<close>: the run states with the
  table of allowed transitions, the operation kinds, the budget with its validation, and the
  records that a run store keeps.
\<close>

datatype run_status =
    RECEIVED | CONTEXT_BUILDING | LINKING | NEEDS_CLARIFICATION | PLANNING | GENERATING
  | VALIDATING | EXECUTING | CONTEXT_READY | MODEL_RUNNING | TOOL_RUNNING | VERIFYING
  | COMPLETED | FAILED | CANCELLED

text \<open>\<open>RunStatus.value\<close> (the enum is a \<open>StrEnum\<close>, each value is its name).\<close>

fun status_value :: "run_status \<Rightarrow> string" where
  "status_value RECEIVED = ''RECEIVED''"
| "status_value CONTEXT_BUILDING = ''CONTEXT_BUILDING''"
| "status_value LINKING = ''LINKING''"
| "status_value NEEDS_CLARIFICATION = ''NEEDS_CLARIFICATION''"
| "status_value PLANNING = ''PLANNING''"
| "status_value GENERATING = ''GENERATING''"
| "status_value VALIDATING = ''VALIDATING''"
| "status_value EXECUTING = ''EXECUTING''"
| "status_value CONTEXT_READY = ''CONTEXT_READY''"
| "status_value MODEL_RUNNING = ''MODEL_RUNNING''"
| "status_value TOOL_RUNNING = ''TOOL_RUNNING''"
| "status_value VERIFYING = ''VERIFYING''"
| "status_value COMPLETED = ''COMPLETED''"
| "status_value FAILED = ''FAILED''"
| "status_value CANCELLED = ''CANCELLED''"

definition TERMINAL_STATUSES :: "run_status list" where
  "TERMINAL_STATUSES = [COMPLETED, FAILED, CANCELLED, NEEDS_CLARIFICATION]"

abbreviation terminal :: "run_status \<Rightarrow> bool" where
  "terminal st \<equiv> st \<in> set TERMINAL_STATUSES"

fun ALLOWED_TRANSITIONS :: "run_status \<Rightarrow> run_status list" where
  "ALLOWED_TRANSITIONS RECEIVED = [CONTEXT_BUILDING, CONTEXT_READY, FAILED, CANCELLED]"
| "ALLOWED_TRANSITIONS CONTEXT_BUILDING = [LINKING, FAILED, CANCELLED]"
| "ALLOWED_TRANSITIONS LINKING = [NEEDS_CLARIFICATION, PLANNING, FAILED, CANCELLED]"
| "ALLOWED_TRANSITIONS NEEDS_CLARIFICATION = []"
| "ALLOWED_TRANSITIONS PLANNING = [GENERATING, FAILED, CANCELLED]"
| "ALLOWED_TRANSITIONS GENERATING =
     [NEEDS_CLARIFICATION, VALIDATING, TOOL_RUNNING, FAILED, CANCELLED]"
| "ALLOWED_TRANSITIONS VALIDATING = [EXECUTING, GENERATING, FAILED, CANCELLED]"
| "ALLOWED_TRANSITIONS EXECUTING = [VERIFYING, FAILED, CANCELLED]"
| "ALLOWED_TRANSITIONS CONTEXT_READY = [MODEL_RUNNING, FAILED, CANCELLED]"
| "ALLOWED_TRANSITIONS MODEL_RUNNING = [TOOL_RUNNING, VERIFYING, FAILED, CANCELLED]"
| "ALLOWED_TRANSITIONS TOOL_RUNNING =
     [NEEDS_CLARIFICATION, MODEL_RUNNING, GENERATING, VERIFYING, FAILED, CANCELLED]"
| "ALLOWED_TRANSITIONS VERIFYING = [GENERATING, COMPLETED, FAILED, CANCELLED]"
| "ALLOWED_TRANSITIONS COMPLETED = []"
| "ALLOWED_TRANSITIONS FAILED = []"
| "ALLOWED_TRANSITIONS CANCELLED = []"

abbreviation allowed :: "run_status \<Rightarrow> run_status \<Rightarrow> bool" where
  "allowed st st' \<equiv> st' \<in> set (ALLOWED_TRANSITIONS st)"

lemmas status_tables = TERMINAL_STATUSES_def ALLOWED_TRANSITIONS.simps

text \<open>The two tables agree: a state is terminal exactly when nothing may follow it, and every
  other state can be closed as failed or cancelled.\<close>

lemma terminal_iff_stuck: "terminal st \<longleftrightarrow> ALLOWED_TRANSITIONS st = []"
  by (cases st) (simp_all add: TERMINAL_STATUSES_def)

lemma allowed_not_terminal: "allowed st st' \<Longrightarrow> \<not> terminal st"
  by (cases st) (simp_all add: TERMINAL_STATUSES_def)

lemma allowed_close:
  "\<not> terminal st \<Longrightarrow> allowed st FAILED" "\<not> terminal st \<Longrightarrow> allowed st CANCELLED"
  by (cases st; simp add: TERMINAL_STATUSES_def)+

lemma not_allowed_RECEIVED: "\<not> allowed st RECEIVED"
  by (cases st) simp_all

lemma not_allowed_self: "\<not> allowed st st"
  by (cases st) simp_all

datatype operation_kind = READ_QUERY | BUSINESS_WRITE | APPROVAL

fun kind_value :: "operation_kind \<Rightarrow> string" where
  "kind_value READ_QUERY = ''READ_QUERY''"
| "kind_value BUSINESS_WRITE = ''BUSINESS_WRITE''"
| "kind_value APPROVAL = ''APPROVAL''"

subsection \<open>Budget\<close>

text \<open>\<open>timeout_seconds\<close> is a float of the source; only its sign is tested and the timer itself is
  not modelled, so the model keeps it as a rational.\<close>

record harness_budget =
  timeout_seconds :: rat
  max_tool_calls :: int
  max_read_retries :: int
  max_model_calls :: int
  max_context_tokens :: int
  max_clarification_turns :: int
  max_sql_validations :: int

definition default_budget :: harness_budget where
  "default_budget = \<lparr>timeout_seconds = 120, max_tool_calls = 8, max_read_retries = 2,
     max_model_calls = 6, max_context_tokens = 8192, max_clarification_turns = 2,
     max_sql_validations = 3\<rparr>"

text \<open>\<open>HarnessBudget.__post_init__\<close>: the budget itself, or the first failed check.\<close>

definition check_budget :: "harness_budget \<Rightarrow> exn + harness_budget" where
  "check_budget b =
     (if timeout_seconds b \<le> 0 then Inl (ValueError ''timeout_seconds must be positive'')
      else if max_tool_calls b < 1 then Inl (ValueError ''max_tool_calls must be at least 1'')
      else if max_read_retries b < 0 then Inl (ValueError ''max_read_retries cannot be negative'')
      else if max_model_calls b < 1 then Inl (ValueError ''max_model_calls must be at least 1'')
      else if max_context_tokens b < 1
        then Inl (ValueError ''max_context_tokens must be at least 1'')
      else if max_clarification_turns b < 0
        then Inl (ValueError ''max_clarification_turns cannot be negative'')
      else if max_sql_validations b < 1
        then Inl (ValueError ''max_sql_validations must be at least 1'')
      else Inr b)"

lemma default_budget_ok: "check_budget default_budget = Inr default_budget"
  by (simp add: check_budget_def default_budget_def)

lemma check_budget_Inr:
  "check_budget b = Inr b' \<Longrightarrow> b' = b \<and> 1 \<le> max_tool_calls b \<and> 0 \<le> max_read_retries b"
  by (auto simp: check_budget_def split: if_splits)

subsection \<open>Records\<close>

record run_record =
  run_id :: string
  user_id :: string
  conversation_id :: "string option"
  instruction_hash :: string
  status :: run_status
  failure_type :: "string option"
  tool_call_count :: int
  retry_count :: int
  created_at :: time
  updated_at :: time
  completed_at :: "time option"
  operation_kind :: operation_kind
  parent_run_id :: "string option"
  correlation_id :: string

text \<open>
  The constructor \<open>RunRecord(run_id=\<dots>, user_id=\<dots>, \<dots>)\<close> with the defaults of the dataclass:
  \<open>created\<close> and \<open>updated\<close> are the two clock readings of the default factories, and
  \<open>__post_init__\<close> fills a missing correlation id with the run id.
\<close>

definition new_run_record ::
  "time \<Rightarrow> time \<Rightarrow> string \<Rightarrow> string \<Rightarrow> string option \<Rightarrow> string \<Rightarrow> operation_kind \<Rightarrow>
   string option \<Rightarrow> string option \<Rightarrow> run_record" where
  "new_run_record created updated rid uid conv ihash kind parent corr =
     \<lparr>run_id = rid, user_id = uid, conversation_id = conv, instruction_hash = ihash,
      status = RECEIVED, failure_type = None, tool_call_count = 0, retry_count = 0,
      created_at = created, updated_at = updated, completed_at = None, operation_kind = kind,
      parent_run_id = parent,
      correlation_id = (case corr of None \<Rightarrow> rid | Some c \<Rightarrow> c)\<rparr>"

lemma new_run_record_sel [simp]:
  "run_id (new_run_record c u rid uid conv h k p co) = rid"
  "user_id (new_run_record c u rid uid conv h k p co) = uid"
  "conversation_id (new_run_record c u rid uid conv h k p co) = conv"
  "instruction_hash (new_run_record c u rid uid conv h k p co) = h"
  "status (new_run_record c u rid uid conv h k p co) = RECEIVED"
  "failure_type (new_run_record c u rid uid conv h k p co) = None"
  "tool_call_count (new_run_record c u rid uid conv h k p co) = 0"
  "retry_count (new_run_record c u rid uid conv h k p co) = 0"
  "completed_at (new_run_record c u rid uid conv h k p co) = None"
  "operation_kind (new_run_record c u rid uid conv h k p co) = k"
  "parent_run_id (new_run_record c u rid uid conv h k p co) = p"
  "correlation_id (new_run_record c u rid uid conv h k p (Some cc)) = cc"
  by (simp_all add: new_run_record_def)

record run_step =
  step_run_id :: string
  step_status :: run_status
  occurred_at :: time
  step_failure_type :: "string option"

text \<open>
  A checkpoint artifact is a JSON object of the caller, here a dictionary whose values are
  strings (the \<open>metadata\<close> value is opaque to the code); \<open>artifact.get(key)\<close> is true when the key
  is present with a non-empty value.
\<close>

type_synonym artifact = "(string, string) dict"

record run_checkpoint =
  checkpoint_id :: string
  cp_run_id :: string
  stage :: run_status
  artifacts :: "artifact list"
  safe_to_resume :: bool
  cp_created_at :: time

end
