(* ===== verification/Run_Contract.thy ===== *)
theory Run_Contract
  imports Run_Model
begin

section \<open>The contract of a run store\<close>

text \<open>
  The protocol \<open>RunStore\<close> of \<open>agent-service/app/harness/store.py\<close> as the harness, the
  clarification service and the tools use it. Its clients are written against the protocol and
  get an implementation by injection (\<open>InMemoryRunStore\<close> or \<open>PostgresRunStore\<close>), so the model
  gives them the operations as a record \<open>run_ops\<close> over an arbitrary state, and the locale
  \<open>run_store_contract\<close> states what the operations promise. A client's lemmas are proved once,
  from the contract; each implementation interprets the locale.
\<close>

text \<open>The record after a transition, and the message of a refused one.\<close>

definition moved :: "time \<Rightarrow> run_status \<Rightarrow> string option \<Rightarrow> run_record \<Rightarrow> run_record" where
  "moved now st ft r = r\<lparr>status := st, failure_type := ft, updated_at := now,
     completed_at := (if terminal st then Some now else completed_at r)\<rparr>"

definition transition_message :: "string \<Rightarrow> run_status \<Rightarrow> run_status \<Rightarrow> string" where
  "transition_message rid st st' =
     ''cannot transition run '' @ rid @ '' from '' @ status_value st @ '' to '' @ status_value st'"

text \<open>The records after the two counter updates.\<close>

definition counted_call :: "time \<Rightarrow> run_record \<Rightarrow> run_record" where
  "counted_call now r = r\<lparr>tool_call_count := tool_call_count r + 1, updated_at := now\<rparr>"

definition counted_retry :: "time \<Rightarrow> run_record \<Rightarrow> run_record" where
  "counted_retry now r = r\<lparr>retry_count := retry_count r + 1, updated_at := now\<rparr>"

definition fresh_record :: "run_record \<Rightarrow> bool" where
  "fresh_record r \<longleftrightarrow> status r = RECEIVED \<and> failure_type r = None \<and> completed_at r = None \<and>
     tool_call_count r = 0 \<and> retry_count r = 0"

lemma fresh_new_run_record [simp]: "fresh_record (new_run_record c u rid uid conv h k p co)"
  by (simp add: fresh_record_def)

subsection \<open>The life of a run\<close>

text \<open>
  \<open>evolves r r'\<close>: the later record \<open>r'\<close> of the same run. Its identity is unchanged, its counters
  have not gone down, it has not gone back to \<open>RECEIVED\<close>, and a terminal outcome is frozen:
  status, failure type and completion time.
\<close>

definition evolves :: "run_record \<Rightarrow> run_record \<Rightarrow> bool" where
  "evolves r r' \<longleftrightarrow>
     run_id r' = run_id r \<and> user_id r' = user_id r \<and> conversation_id r' = conversation_id r \<and>
     instruction_hash r' = instruction_hash r \<and> operation_kind r' = operation_kind r \<and>
     parent_run_id r' = parent_run_id r \<and> correlation_id r' = correlation_id r \<and>
     created_at r' = created_at r \<and>
     tool_call_count r \<le> tool_call_count r' \<and> retry_count r \<le> retry_count r' \<and>
     (status r \<noteq> RECEIVED \<longrightarrow> status r' \<noteq> RECEIVED) \<and>
     (terminal (status r) \<longrightarrow> status r' = status r \<and> failure_type r' = failure_type r \<and>
        completed_at r' = completed_at r)"

lemma evolves_refl [simp]: "evolves r r"
  by (simp add: evolves_def)

lemma evolves_trans: "evolves r r' \<Longrightarrow> evolves r' r'' \<Longrightarrow> evolves r r''"
  unfolding evolves_def by (metis order_trans)

lemma evolves_moved: "allowed (status r) st \<Longrightarrow> evolves r (moved now st ft r)"
  using allowed_not_terminal [of st "status r"] not_allowed_RECEIVED [of "status r"]
  by (auto simp: evolves_def moved_def)

lemma evolves_counted [simp]:
  "evolves r (counted_call now r)" "evolves r (counted_retry now r)"
  by (simp_all add: evolves_def counted_call_def counted_retry_def)

lemma counted_sel [simp]:
  "status (counted_call now r) = status r" "status (counted_retry now r) = status r"
  "tool_call_count (counted_call now r) = tool_call_count r + 1"
  "retry_count (counted_call now r) = retry_count r"
  "retry_count (counted_retry now r) = retry_count r + 1"
  "tool_call_count (counted_retry now r) = tool_call_count r"
  by (simp_all add: counted_call_def counted_retry_def)

lemma moved_sel [simp]:
  "status (moved now st ft r) = st" "run_id (moved now st ft r) = run_id r"
  "user_id (moved now st ft r) = user_id r" "failure_type (moved now st ft r) = ft"
  "tool_call_count (moved now st ft r) = tool_call_count r"
  "retry_count (moved now st ft r) = retry_count r"
  "operation_kind (moved now st ft r) = operation_kind r"
  "parent_run_id (moved now st ft r) = parent_run_id r"
  "conversation_id (moved now st ft r) = conversation_id r"
  "instruction_hash (moved now st ft r) = instruction_hash r"
  "correlation_id (moved now st ft r) = correlation_id r"
  by (simp_all add: moved_def)

subsection \<open>The operations and their laws\<close>

record 's run_ops =
  op_create :: "run_record \<Rightarrow> ('s, unit) py"
  op_transition :: "time \<Rightarrow> string \<Rightarrow> run_status \<Rightarrow> string option \<Rightarrow> ('s, run_record) py"
  op_get :: "string \<Rightarrow> ('s, run_record option) py"
  op_increment_tool_calls :: "time \<Rightarrow> string \<Rightarrow> ('s, int) py"
  op_increment_retries :: "time \<Rightarrow> string \<Rightarrow> ('s, int) py"

definition put_run :: "(string \<Rightarrow> run_record option) \<Rightarrow> string \<Rightarrow> run_record \<Rightarrow> string \<Rightarrow>
    run_record option" where
  "put_run v k r = v(k := Some r)"

lemma put_run_apply [simp]: "put_run v k r k' = (if k' = k then Some r else v k')"
  by (simp add: put_run_def)

locale run_store_contract =
  fixes ops :: "'s run_ops"
    and view :: "'s \<Rightarrow> string \<Rightarrow> run_record option"
    and invar :: "'s \<Rightarrow> bool"
  assumes get: "op_get ops rid s = (Inr (view s rid), s)"
    and view_run_id: "invar s \<Longrightarrow> view s rid = Some r \<Longrightarrow> run_id r = rid"
    and create_new: "invar s \<Longrightarrow> fresh_record r \<Longrightarrow> view s (run_id r) = None \<Longrightarrow>
      \<exists>s'. op_create ops r s = (Inr (), s') \<and> invar s' \<and> view s' = put_run (view s) (run_id r) r"
    and create_taken: "view s (run_id r) \<noteq> None \<Longrightarrow> \<exists>e. op_create ops r s = (Inl e, s)"
    and transition_missing: "view s rid = None \<Longrightarrow>
      op_transition ops now rid st ft s = (Inl (KeyError rid), s)"
    and transition_refused: "view s rid = Some r \<Longrightarrow> \<not> allowed (status r) st \<Longrightarrow>
      op_transition ops now rid st ft s =
        (Inl (InvalidRunTransition (transition_message rid (status r) st)), s)"
    and transition_done: "invar s \<Longrightarrow> view s rid = Some r \<Longrightarrow> allowed (status r) st \<Longrightarrow>
      \<exists>s'. op_transition ops now rid st ft s = (Inr (moved now st ft r), s') \<and> invar s' \<and>
        view s' = put_run (view s) rid (moved now st ft r)"
    and calls_missing: "view s rid = None \<Longrightarrow>
      op_increment_tool_calls ops now rid s = (Inl (KeyError rid), s)"
    and calls_done: "invar s \<Longrightarrow> view s rid = Some r \<Longrightarrow>
      \<exists>s'. op_increment_tool_calls ops now rid s = (Inr (tool_call_count r + 1), s') \<and> invar s' \<and>
        view s' = put_run (view s) rid (counted_call now r)"
    and retries_missing: "view s rid = None \<Longrightarrow>
      op_increment_retries ops now rid s = (Inl (KeyError rid), s)"
    and retries_done: "invar s \<Longrightarrow> view s rid = Some r \<Longrightarrow>
      \<exists>s'. op_increment_retries ops now rid s = (Inr (retry_count r + 1), s') \<and> invar s' \<and>
        view s' = put_run (view s) rid (counted_retry now r)"
begin

text \<open>\<open>grows s s'\<close>: the store is still well-formed and every run of \<open>s\<close> has evolved.\<close>

definition grows :: "'s \<Rightarrow> 's \<Rightarrow> bool" where
  "grows s s' \<longleftrightarrow> invar s' \<and>
     (\<forall>k r. view s k = Some r \<longrightarrow> (\<exists>r'. view s' k = Some r' \<and> evolves r r'))"

lemma grows_refl: "invar s \<Longrightarrow> grows s s"
  by (simp add: grows_def)

lemma grows_trans: "grows s s' \<Longrightarrow> grows s' s'' \<Longrightarrow> grows s s''"
  unfolding grows_def by (metis evolves_trans)

lemma grows_invar: "grows s s' \<Longrightarrow> invar s'"
  by (simp add: grows_def)

lemma grows_put:
  "invar s' \<Longrightarrow> view s' = put_run (view s) k r' \<Longrightarrow>
   (\<And>r. view s k = Some r \<Longrightarrow> evolves r r') \<Longrightarrow> grows s s'"
  by (simp add: grows_def)

lemma transition_grows:
  assumes "invar s"
  shows "grows s (snd (op_transition ops now rid st ft s))"
proof (cases "view s rid")
  case None
  with assms show ?thesis by (simp add: transition_missing grows_refl)
next
  case (Some r)
  show ?thesis
  proof (cases "allowed (status r) st")
    case False
    with assms Some show ?thesis by (simp add: transition_refused grows_refl)
  next
    case True
    from transition_done [OF assms Some True, of now ft] obtain s' where s':
      "op_transition ops now rid st ft s = (Inr (moved now st ft r), s')" "invar s'"
      "view s' = put_run (view s) rid (moved now st ft r)" by blast
    show ?thesis
      unfolding s'(1) snd_conv
      by (rule grows_put [OF s'(2,3)]) (use Some True evolves_moved in auto)
  qed
qed

lemma calls_grows: "invar s \<Longrightarrow> grows s (snd (op_increment_tool_calls ops now rid s))"
  by (cases "view s rid") (auto simp: calls_missing grows_refl dest!: calls_done [of s rid _ now]
      intro!: grows_put)

lemma retries_grows: "invar s \<Longrightarrow> grows s (snd (op_increment_retries ops now rid s))"
  by (cases "view s rid") (auto simp: retries_missing grows_refl
      dest!: retries_done [of s rid _ now] intro!: grows_put)

lemma create_grows: "invar s \<Longrightarrow> fresh_record r \<Longrightarrow> grows s (snd (op_create ops r s))"
proof (cases "view s (run_id r)")
  case None
  assume "invar s" "fresh_record r"
  from create_new [OF this None] None show ?thesis by (auto intro!: grows_put)
next
  case (Some r')
  assume "invar s" "fresh_record r"
  with create_taken [of s r] Some show ?thesis by (auto intro: grows_refl)
qed

lemma get_grows: "invar s \<Longrightarrow> grows s (snd (op_get ops rid s))"
  by (simp add: get grows_refl)

text \<open>A terminal run keeps its outcome while the store grows.\<close>

lemma grows_terminal:
  assumes "grows s s'" and "view s k = Some r" and "terminal (status r)"
  obtains r' where "view s' k = Some r'" and "status r' = status r"
  using assms by (auto simp: grows_def evolves_def)

end

end
