(* ===== verification/Sha256.thy ===== *)
theory Sha256
  imports Prelude "HOL-Library.Word"
begin

unbundle bit_operations_syntax

section \<open>SHA-256 and UTF-8\<close>

text \<open>
  The sources identify instructions, evidence, resume tokens, query plans and rollout buckets by
  \<open>hashlib.sha256(text.encode("utf-8")).hexdigest()\<close>. This theory defines that standard-library
  function itself, on 32-bit words, so no component needs a hash as a parameter: the UTF-8
  encoding of a string, the padding, the message schedule, the compression function and the hex
  rendering. What the sources rely on is proved: a digest has 32 bytes, a hex digest is 64
  characters of \<open>[0-9a-f]\<close>, and \<open>int.from_bytes(digest, "big")\<close> is non-negative.
\<close>

type_synonym byte = nat

subsection \<open>\<open>str.encode("utf-8")\<close>\<close>

definition utf8_char :: "char \<Rightarrow> byte list" where
  "utf8_char c = (let n = of_char c in
     if n < 128 then [n] else [192 + n div 64, 128 + n mod 64])"

definition utf8_encode :: "string \<Rightarrow> byte list" where
  "utf8_encode s = concat (map utf8_char s)"

lemma of_char_less_256: "(of_char c :: nat) < 256"
  by (rule nat_of_char_less_256)

lemma utf8_char_bytes:
  assumes "b \<in> set (utf8_char c)"
  shows "b < 256"
proof -
  have "(of_char c :: nat) < 256" by (rule of_char_less_256)
  then have "(of_char c :: nat) div 64 < 4" by (simp add: less_mult_imp_div_less)
  with assms show ?thesis
    by (auto simp: utf8_char_def Let_def split: if_splits)
qed

lemma utf8_encode_bytes: "b \<in> set (utf8_encode s) \<Longrightarrow> b < 256"
  by (auto simp: utf8_encode_def dest: utf8_char_bytes)

subsection \<open>The hash\<close>

text \<open>The round constants (fractional parts of the cube roots of the first 64 primes) and the initial
state, in decimal.\<close>

definition sha_k :: "32 word list" where
  "sha_k = [
    1116352408, 1899447441, 3049323471, 3921009573, 961987163, 1508970993, 2453635748, 2870763221,
    3624381080, 310598401, 607225278, 1426881987, 1925078388, 2162078206, 2614888103, 3248222580,
    3835390401, 4022224774, 264347078, 604807628, 770255983, 1249150122, 1555081692, 1996064986,
    2554220882, 2821834349, 2952996808, 3210313671, 3336571891, 3584528711, 113926993, 338241895,
    666307205, 773529912, 1294757372, 1396182291, 1695183700, 1986661051, 2177026350, 2456956037,
    2730485921, 2820302411, 3259730800, 3345764771, 3516065817, 3600352804, 4094571909, 275423344,
    430227734, 506948616, 659060556, 883997877, 958139571, 1322822218, 1537002063, 1747873779,
    1955562222, 2024104815, 2227730452, 2361852424, 2428436474, 2756734187, 3204031479, 3329325298]"

type_synonym sha_state =
  "32 word \<times> 32 word \<times> 32 word \<times> 32 word \<times> 32 word \<times> 32 word \<times> 32 word \<times> 32 word"

definition sha_init :: sha_state where
  "sha_init = (1779033703, 3144134277, 1013904242, 2773480762,
               1359893119, 2600822924, 528734635, 1541459225)"

definition rotr :: "nat \<Rightarrow> 32 word \<Rightarrow> 32 word" where
  "rotr n x = drop_bit n x OR push_bit (32 - n) x"

definition be_bytes :: "nat \<Rightarrow> nat \<Rightarrow> byte list" where
  "be_bytes k n = map (\<lambda>i. (n div 256 ^ i) mod 256) (rev [0..<k])"

definition sha_pad :: "byte list \<Rightarrow> byte list" where
  "sha_pad m = (let l = length m in
     m @ [128] @ replicate ((119 - l mod 64) mod 64) 0 @ be_bytes 8 (8 * l))"

definition word_of_bytes :: "byte list \<Rightarrow> 32 word" where
  "word_of_bytes bs = of_nat (foldl (\<lambda>a b. 256 * a + b) 0 bs)"

fun chunks :: "nat \<Rightarrow> nat \<Rightarrow> 'a list \<Rightarrow> 'a list list" where
  "chunks 0 n xs = []"
| "chunks (Suc k) n xs = take n xs # chunks k n (drop n xs)"

text \<open>The message schedule keeps the last sixteen words and slides.\<close>

definition sigma0 :: "32 word \<Rightarrow> 32 word" where
  "sigma0 x = (rotr 7 x XOR rotr 18 x) XOR drop_bit 3 x"

definition sigma1 :: "32 word \<Rightarrow> 32 word" where
  "sigma1 x = (rotr 17 x XOR rotr 19 x) XOR drop_bit 10 x"

definition next_word :: "32 word list \<Rightarrow> 32 word" where
  "next_word w = w ! 0 + sigma0 (w ! 1) + w ! 9 + sigma1 (w ! 14)"

definition sha_round :: "32 word \<Rightarrow> 32 word \<Rightarrow> sha_state \<Rightarrow> sha_state" where
  "sha_round k w = (\<lambda>(a, b, c, d, e, f, g, h).
     let s1 = (rotr 6 e XOR rotr 11 e) XOR rotr 25 e;
         ch = (e AND f) XOR (NOT e AND g);
         t1 = h + s1 + ch + k + w;
         s0 = (rotr 2 a XOR rotr 13 a) XOR rotr 22 a;
         maj = ((a AND b) XOR (a AND c)) XOR (b AND c);
         t2 = s0 + maj
     in (t1 + t2, a, b, c, d + t1, e, f, g))"

fun sha_rounds :: "32 word list \<Rightarrow> 32 word list \<Rightarrow> sha_state \<Rightarrow> sha_state" where
  "sha_rounds [] w st = st"
| "sha_rounds (k # ks) w st =
     sha_rounds ks (tl w @ [next_word w]) (sha_round k (w ! 0) st)"

definition sha_block :: "sha_state \<Rightarrow> byte list \<Rightarrow> sha_state" where
  "sha_block st block =
     (let (a, b, c, d, e, f, g, h) = st;
          (a', b', c', d', e', f', g', h') =
            sha_rounds sha_k (map word_of_bytes (chunks 16 4 block)) st
      in (a + a', b + b', c + c', d + d', e + e', f + f', g + g', h + h'))"

definition sha_digest :: "byte list \<Rightarrow> byte list" where
  "sha_digest m =
     (let p = sha_pad m;
          (a, b, c, d, e, f, g, h) = foldl sha_block sha_init (chunks (length p div 64) 64 p)
      in concat (map (\<lambda>x. be_bytes 4 (unat x)) [a, b, c, d, e, f, g, h]))"

definition hex_digit :: "nat \<Rightarrow> char" where
  "hex_digit n = ''0123456789abcdef'' ! (n mod 16)"

definition hexlify :: "byte list \<Rightarrow> string" where
  "hexlify bs = concat (map (\<lambda>b. [hex_digit (b div 16), hex_digit b]) bs)"

text \<open>\<open>hashlib.sha256(text.encode("utf-8")).hexdigest()\<close>.\<close>

definition sha256_hex :: "string \<Rightarrow> string" where
  "sha256_hex s = hexlify (sha_digest (utf8_encode s))"

text \<open>\<open>int.from_bytes(bs, "big")\<close>.\<close>

definition int_from_bytes :: "byte list \<Rightarrow> int" where
  "int_from_bytes bs = foldl (\<lambda>a b. 256 * a + int b) 0 bs"

text \<open>\<open>re.compile(r"^[0-9a-f]{64}$").fullmatch(text)\<close>.\<close>

definition is_sha256_hex :: "string \<Rightarrow> bool" where
  "is_sha256_hex s \<longleftrightarrow> length s = 64 \<and> list_all (\<lambda>c. c \<in> set ''0123456789abcdef'') s"

subsection \<open>What the sources rely on\<close>

lemma length_be_bytes [simp]: "length (be_bytes k n) = k"
  by (simp add: be_bytes_def)

lemma be_bytes_less: "b \<in> set (be_bytes k n) \<Longrightarrow> b < 256"
  by (auto simp: be_bytes_def)

lemma sha_digest_cases:
  obtains ws :: "32 word list" where "length ws = 8"
    and "sha_digest m = concat (map (\<lambda>x. be_bytes 4 (unat x)) ws)"
proof -
  obtain a b c d e f g h where
    "foldl sha_block sha_init (chunks (length (sha_pad m) div 64) 64 (sha_pad m))
       = (a, b, c, d, e, f, g, h)"
    by (metis prod.exhaust)
  then have "sha_digest m = concat (map (\<lambda>x. be_bytes 4 (unat x)) [a, b, c, d, e, f, g, h])"
    by (simp only: sha_digest_def Let_def prod.case)
  then show thesis by (rule that [rotated]) simp
qed

lemma length_sha_digest [simp]: "length (sha_digest m) = 32"
proof -
  obtain ws :: "32 word list" where "length ws = 8"
    and "sha_digest m = concat (map (\<lambda>x. be_bytes 4 (unat x)) ws)"
    by (rule sha_digest_cases)
  then show ?thesis by (simp add: length_concat o_def sum_list_triv)
qed

lemma pad_mod: "(119 - r) mod 64 = (if r \<le> 55 then 55 - r else 119 - r)" if "r < 64" for r :: nat
proof (cases "r \<le> 55")
  case True
  then have "119 - r = (55 - r) + 64" by simp
  then have "(119 - r) mod 64 = (55 - r) mod 64" by (metis mod_add_self2)
  with True show ?thesis by simp
next
  case False
  with that show ?thesis by simp
qed

lemma sha_pad_blocks: "64 dvd length (sha_pad m)"
proof -
  let ?r = "length m mod 64"
  have "?r < 64" by simp
  then have "?r + ((119 - ?r) mod 64 + 9) = (if ?r \<le> 55 then 64 else 128)"
    by (simp add: pad_mod)
  then have "64 dvd ?r + ((119 - ?r) mod 64 + 9)" by (simp split: if_splits)
  moreover have "length (sha_pad m) = 64 * (length m div 64) + (?r + ((119 - ?r) mod 64 + 9))"
    by (simp add: sha_pad_def Let_def)
  ultimately show ?thesis by (simp only: dvd_add dvd_triv_left)
qed

lemma hex_digit_mem: "hex_digit n \<in> set ''0123456789abcdef''"
proof -
  have "n mod 16 < length ''0123456789abcdef''" by simp
  then show ?thesis by (metis hex_digit_def nth_mem)
qed

lemma length_hexlify [simp]: "length (hexlify bs) = 2 * length bs"
  by (induction bs) (simp_all add: hexlify_def)

lemma hexlify_digits:
  assumes "c \<in> set (hexlify bs)"
  shows "c \<in> set ''0123456789abcdef''"
proof -
  from assms obtain n where "c = hex_digit n"
    by (auto simp: hexlify_def)
  then show ?thesis using hex_digit_mem by simp
qed

lemma sha256_hex_format: "is_sha256_hex (sha256_hex s)"
proof -
  have "list_all (\<lambda>c. c \<in> set ''0123456789abcdef'') (sha256_hex s)"
    unfolding sha256_hex_def list_all_iff using hexlify_digits by blast
  then show ?thesis by (simp add: is_sha256_hex_def sha256_hex_def)
qed

lemma int_from_bytes_nonneg: "0 \<le> int_from_bytes bs"
proof -
  have "0 \<le> a \<Longrightarrow> 0 \<le> foldl (\<lambda>a b. 256 * a + int b) a bs" for a
    by (induction bs arbitrary: a) auto
  then show ?thesis by (simp add: int_from_bytes_def)
qed

lemma foldl_bytes_less:
  assumes "\<forall>b \<in> set bs. b < 256" and "a < m"
  shows "foldl (\<lambda>a b. 256 * a + int b) a bs < m * 256 ^ length bs"
  using assms
proof (induction bs arbitrary: a m)
  case (Cons b bs)
  then have "256 * a + int b < 256 * m" by auto
  then have "foldl (\<lambda>a b. 256 * a + int b) (256 * a + int b) bs < 256 * m * 256 ^ length bs"
    using Cons.prems(1) by (intro Cons.IH) auto
  then show ?case by (simp add: mult.assoc mult.left_commute)
qed simp

lemma int_from_bytes_less: "\<forall>b \<in> set bs. b < 256 \<Longrightarrow> int_from_bytes bs < 256 ^ length bs"
  using foldl_bytes_less [of bs 0 1] by (simp add: int_from_bytes_def)

lemma sha_digest_bytes: "b \<in> set (sha_digest m) \<Longrightarrow> b < 256"
  by (rule sha_digest_cases [of m]) (auto dest: be_bytes_less)

end
