(* ===== verification/Run_Store.thy ===== *)
theory Run_Store
  imports Run_Contract Sha256
begin

section \<open>The run store\<close>

text \<open>
  \<open>agent-service/app/harness/store.py\<close>: the protocol \<open>RunStore\<close> and its in-memory
  implementation \<open>InMemoryRunStore\<close>, the persistence boundary of the harness. The three
  dictionaries of the store are a record; each method is a stateful call on it. The asyncio lock
  makes each method one atomic step, which is what one call of the model is. A method reads the
  clock at most once: the reading is the argument \<open>now\<close>. Fresh UUIDs are arguments.
\<close>

record run_store =
  records :: "(string, run_record) dict"
  steps :: "(string, run_step list) dict"
  checkpoints :: "(string, run_checkpoint list) dict"

definition empty_run_store :: run_store where
  "empty_run_store = \<lparr>records = [], steps = [], checkpoints = []\<rparr>"

subsection \<open>Methods\<close>

definition run_create :: "run_record \<Rightarrow> (run_store, unit) py" where
  "run_create r s =
     (if map_of (records s) (run_id r) \<noteq> None
      then (Inl (ValueError (''run already exists: '' @ run_id r)), s)
      else (Inr (), s\<lparr>
        records := AList.update (run_id r) r (records s),
        steps := AList.update (run_id r)
          [\<lparr>step_run_id = run_id r, step_status = status r, occurred_at = created_at r,
            step_failure_type = None\<rparr>] (steps s),
        checkpoints := AList.update (run_id r) [] (checkpoints s)\<rparr>))"

text \<open>\<open>self._steps[run_id].append(step)\<close>.\<close>

definition append_step :: "string \<Rightarrow> run_step \<Rightarrow> (run_store, unit) py" where
  "append_step rid st s =
     (case map_of (steps s) rid of
        None \<Rightarrow> (Inl (KeyError rid), s)
      | Some xs \<Rightarrow> (Inr (), s\<lparr>steps := AList.update rid (xs @ [st]) (steps s)\<rparr>))"

definition run_transition ::
  "time \<Rightarrow> string \<Rightarrow> run_status \<Rightarrow> string option \<Rightarrow> (run_store, run_record) py" where
  "run_transition now rid st ft s =
     (case map_of (records s) rid of
        None \<Rightarrow> (Inl (KeyError rid), s)
      | Some r \<Rightarrow>
          if \<not> allowed (status r) st
          then (Inl (InvalidRunTransition (transition_message rid (status r) st)), s)
          else
            (let r' = moved now st ft r;
                 s' = s\<lparr>records := AList.update rid r' (records s)\<rparr>
             in bindM (append_step rid \<lparr>step_run_id = rid, step_status = st, occurred_at = now,
                                          step_failure_type = ft\<rparr>)
                  (\<lambda>_. ret r') s'))"

definition run_get :: "string \<Rightarrow> (run_store, run_record option) py" where
  "run_get rid s = (Inr (map_of (records s) rid), s)"

definition run_list_steps :: "string \<Rightarrow> (run_store, run_step list) py" where
  "run_list_steps rid s =
     (Inr (case map_of (steps s) rid of None \<Rightarrow> [] | Some xs \<Rightarrow> xs), s)"

definition increment_tool_calls :: "time \<Rightarrow> string \<Rightarrow> (run_store, int) py" where
  "increment_tool_calls now rid s =
     (case map_of (records s) rid of
        None \<Rightarrow> (Inl (KeyError rid), s)
      | Some r \<Rightarrow>
          (let r' = r\<lparr>tool_call_count := tool_call_count r + 1, updated_at := now\<rparr>
           in (Inr (tool_call_count r'), s\<lparr>records := AList.update rid r' (records s)\<rparr>)))"

definition increment_retries :: "time \<Rightarrow> string \<Rightarrow> (run_store, int) py" where
  "increment_retries now rid s =
     (case map_of (records s) rid of
        None \<Rightarrow> (Inl (KeyError rid), s)
      | Some r \<Rightarrow>
          (let r' = r\<lparr>retry_count := retry_count r + 1, updated_at := now\<rparr>
           in (Inr (retry_count r'), s\<lparr>records := AList.update rid r' (records s)\<rparr>)))"

text \<open>
  \<open>fail_incomplete_runs\<close>: the loop over \<open>self._records.items()\<close>, which counts the runs it closes.
\<close>

definition incomplete :: "time option \<Rightarrow> run_record \<Rightarrow> bool" where
  "incomplete before r \<longleftrightarrow>
     \<not> terminal (status r) \<and> (case before of None \<Rightarrow> True | Some b \<Rightarrow> updated_at r < b)"

definition closed_failed :: "time \<Rightarrow> string \<Rightarrow> run_record \<Rightarrow> run_record" where
  "closed_failed now ft r = r\<lparr>status := FAILED, failure_type := Some ft, updated_at := now,
     completed_at := Some now\<rparr>"

fun fail_loop ::
  "time \<Rightarrow> string \<Rightarrow> time option \<Rightarrow> (string, run_record) dict \<Rightarrow> int \<Rightarrow> (run_store, int) py" where
  "fail_loop now ft before [] count = ret count"
| "fail_loop now ft before ((rid, r) # rs) count =
     (if \<not> incomplete before r then fail_loop now ft before rs count
      else bindM
        (\<lambda>s. append_step rid \<lparr>step_run_id = rid, step_status = FAILED, occurred_at = now,
                step_failure_type = Some ft\<rparr>
              (s\<lparr>records := AList.update rid (closed_failed now ft r) (records s)\<rparr>))
        (\<lambda>_. fail_loop now ft before rs (count + 1)))"

definition fail_incomplete_runs ::
  "time \<Rightarrow> string \<Rightarrow> time option \<Rightarrow> (run_store, int) py" where
  "fail_incomplete_runs now ft before s = fail_loop now ft before (records s) 0 s"

text \<open>Checkpoints may hold references only: known keys, and the three mandatory ones non-empty.\<close>

definition artifact_keys :: "string list" where
  "artifact_keys = [''artifact_type'', ''content_hash'', ''storage_ref'', ''metadata'']"

definition artifact_value :: "artifact \<Rightarrow> string \<Rightarrow> bool" where
  "artifact_value a k \<longleftrightarrow> (case map_of a k of None \<Rightarrow> False | Some v \<Rightarrow> v \<noteq> [])"

fun check_artifacts :: "artifact list \<Rightarrow> exn + unit" where
  "check_artifacts [] = Inr ()"
| "check_artifacts (a # as) =
     (if \<not> set (map fst a) \<subseteq> set artifact_keys
      then Inl (ValueError ''checkpoint artifacts may contain references only'')
      else if \<not> list_all (artifact_value a) [''artifact_type'', ''content_hash'', ''storage_ref'']
      then Inl (ValueError ''checkpoint artifact reference is incomplete'')
      else check_artifacts as)"

definition add_checkpoint ::
  "time \<Rightarrow> string \<Rightarrow> string \<Rightarrow> run_status \<Rightarrow> artifact list \<Rightarrow> bool \<Rightarrow>
   (run_store, run_checkpoint) py" where
  "add_checkpoint now cid rid stg arts safe s =
     (case check_artifacts arts of
        Inl e \<Rightarrow> (Inl e, s)
      | Inr _ \<Rightarrow>
          if map_of (records s) rid = None then (Inl (KeyError rid), s)
          else
            (let cp = \<lparr>checkpoint_id = cid, cp_run_id = rid, stage = stg, artifacts = arts,
                       safe_to_resume = safe, cp_created_at = now\<rparr>
             in case map_of (checkpoints s) rid of
                  None \<Rightarrow> (Inl (KeyError rid), s)
                | Some cps \<Rightarrow>
                    (Inr cp, s\<lparr>checkpoints := AList.update rid (cps @ [cp]) (checkpoints s)\<rparr>)))"

definition list_checkpoints :: "string \<Rightarrow> (run_store, run_checkpoint list) py" where
  "list_checkpoints rid s =
     (Inr (case map_of (checkpoints s) rid of None \<Rightarrow> [] | Some cps \<Rightarrow> cps), s)"

definition run_cancel :: "time \<Rightarrow> string \<Rightarrow> string \<Rightarrow> (run_store, run_record) py" where
  "run_cancel now rid uid =
     bindM (run_get rid) (\<lambda>found.
       case found of
         None \<Rightarrow> raise (KeyError rid)
       | Some r \<Rightarrow>
           if user_id r \<noteq> uid then raise (PermissionError ''run belongs to another user'')
           else if terminal (status r) then ret r
           else run_transition now rid CANCELLED (Some ''cancelled''))"

subsection \<open>Recovery children\<close>

definition safe_stages :: "run_status list" where
  "safe_stages = [CONTEXT_BUILDING, LINKING, PLANNING, VALIDATING]"

definition safe_artifact_types :: "string list" where
  "safe_artifact_types = [''context_manifest'', ''schema_link'', ''query_plan'', ''validation'']"

definition safe_artifact :: "artifact \<Rightarrow> bool" where
  "safe_artifact a \<longleftrightarrow>
     (case map_of a ''artifact_type'' of None \<Rightarrow> False | Some t \<Rightarrow> t \<in> set safe_artifact_types)"

definition safe_checkpoint :: "run_checkpoint \<Rightarrow> bool" where
  "safe_checkpoint cp \<longleftrightarrow> safe_to_resume cp \<and> stage cp \<in> set safe_stages \<and> artifacts cp \<noteq> []
     \<and> list_all safe_artifact (artifacts cp)"

text \<open>\<open>created\<close>, \<open>updated\<close> are the clock readings of the child's two timestamp defaults.\<close>

definition create_recovery_child ::
  "time \<Rightarrow> time \<Rightarrow> string \<Rightarrow> string \<Rightarrow> string \<Rightarrow> string \<Rightarrow> (run_store, run_record) py" where
  "create_recovery_child created updated child_id parent_id uid instruction =
     bindM (run_get parent_id) (\<lambda>found.
       case found of
         None \<Rightarrow> raise (KeyError parent_id)
       | Some parent \<Rightarrow>
           if user_id parent \<noteq> uid then raise (PermissionError ''run belongs to another user'')
           else if operation_kind parent \<noteq> READ_QUERY
             then raise (UnsafeRecoveryError ''only read-only query runs may be recovered'')
           else if status parent \<noteq> FAILED \<or> failure_type parent \<noteq> Some ''process_restarted''
             then raise (UnsafeRecoveryError ''parent is not a restart-closed run'')
           else bindM (list_checkpoints parent_id) (\<lambda>cps.
             if cps = [] \<or> \<not> safe_checkpoint (last cps)
             then raise (UnsafeRecoveryError ''parent has no safe checkpoint'')
             else
               (let child = new_run_record created updated child_id uid (conversation_id parent)
                              (sha256_hex instruction) READ_QUERY (Some (run_id parent))
                              (Some (correlation_id parent))
                in bindM (run_create child) (\<lambda>_. ret child))))"

subsection \<open>The store invariant\<close>

text \<open>
  \<open>run_ok r xs\<close> ties a record to its step history: the history starts in \<open>RECEIVED\<close>, every two
  neighbours are an allowed transition, the last step is the record's present state, and the
  completion time is set exactly in terminal states.
\<close>

definition run_ok :: "run_record \<Rightarrow> run_step list \<Rightarrow> bool" where
  "run_ok r xs \<longleftrightarrow>
     xs \<noteq> [] \<and> step_status (hd xs) = RECEIVED \<and> successively allowed (map step_status xs) \<and>
     step_status (last xs) = status r \<and> step_failure_type (last xs) = failure_type r \<and>
     list_all (\<lambda>x. step_run_id x = run_id r) xs \<and>
     (completed_at r \<noteq> None \<longleftrightarrow> terminal (status r)) \<and>
     0 \<le> tool_call_count r \<and> 0 \<le> retry_count r"

definition store_ok :: "run_store \<Rightarrow> bool" where
  "store_ok s \<longleftrightarrow>
     distinct (map fst (records s)) \<and>
     (\<forall>k. map_of (records s) k = None \<longrightarrow> map_of (steps s) k = None \<and> map_of (checkpoints s) k = None) \<and>
     (\<forall>k r. map_of (records s) k = Some r \<longrightarrow>
        run_id r = k \<and> map_of (checkpoints s) k \<noteq> None \<and>
        (\<exists>xs. map_of (steps s) k = Some xs \<and> run_ok r xs))"

lemma store_okD:
  assumes "store_ok s" and "map_of (records s) k = Some r"
  shows "run_id r = k" and "map_of (checkpoints s) k \<noteq> None"
    and "\<exists>xs. map_of (steps s) k = Some xs \<and> run_ok r xs"
  using assms by (auto simp: store_ok_def)

lemma store_ok_empty [simp]: "store_ok empty_run_store"
  by (simp add: store_ok_def empty_run_store_def)

lemma run_ok_fresh:
  "fresh_record r \<Longrightarrow> run_ok r [\<lparr>step_run_id = run_id r, step_status = status r,
     occurred_at = t, step_failure_type = None\<rparr>]"
  by (simp add: fresh_record_def run_ok_def TERMINAL_STATUSES_def)

lemma run_ok_append:
  assumes "run_ok r xs" and "allowed (status r) st"
    and "run_id r' = run_id r" and "status r' = st" and "failure_type r' = ft"
    and "completed_at r' = (if terminal st then Some now else completed_at r)"
    and "tool_call_count r' = tool_call_count r" and "retry_count r' = retry_count r"
  shows "run_ok r' (xs @ [\<lparr>step_run_id = run_id r, step_status = st, occurred_at = now,
     step_failure_type = ft\<rparr>])"
proof -
  have "\<not> terminal (status r)" using assms(2) by (rule allowed_not_terminal)
  with assms show ?thesis
    by (auto simp: run_ok_def successively_append_iff last_map)
qed

text \<open>The three shapes of change: a record only, a record with its next step, a new run.\<close>

lemma store_ok_record:
  assumes "store_ok s" and "map_of (records s) k = Some r"
    and "run_id r' = k" and "\<And>xs. run_ok r xs \<Longrightarrow> run_ok r' xs"
  shows "store_ok (s\<lparr>records := AList.update k r' (records s)\<rparr>)"
  using assms by (fastforce simp: store_ok_def distinct_update)

lemma store_ok_step:
  assumes "store_ok s" and "map_of (records s) k = Some r" and "map_of (steps s) k = Some xs"
    and "run_id r' = k" and "run_ok r xs \<Longrightarrow> run_ok r' (xs @ [x])"
  shows "store_ok (s\<lparr>records := AList.update k r' (records s),
                     steps := AList.update k (xs @ [x]) (steps s)\<rparr>)"
  using assms by (fastforce simp: store_ok_def distinct_update)

lemma store_ok_new:
  assumes "store_ok s" and "map_of (records s) (run_id r) = None" and "run_ok r xs"
  shows "store_ok (s\<lparr>records := AList.update (run_id r) r (records s),
                     steps := AList.update (run_id r) xs (steps s),
                     checkpoints := AList.update (run_id r) [] (checkpoints s)\<rparr>)"
  using assms by (fastforce simp: store_ok_def distinct_update)

subsection \<open>Every method keeps the invariant\<close>

lemma run_create_ok:
  "store_ok s \<Longrightarrow> fresh_record r \<Longrightarrow> store_ok (snd (run_create r s))"
  using store_ok_new [OF _ _ run_ok_fresh] by (simp add: run_create_def)

text \<open>What a transition does in a well-formed store, on each branch.\<close>

lemma run_transition_missing:
  "map_of (records s) rid = None \<Longrightarrow> run_transition now rid st ft s = (Inl (KeyError rid), s)"
  by (simp add: run_transition_def)

lemma run_transition_refused:
  "map_of (records s) rid = Some r \<Longrightarrow> \<not> allowed (status r) st \<Longrightarrow>
   run_transition now rid st ft s =
     (Inl (InvalidRunTransition (transition_message rid (status r) st)), s)"
  by (simp add: run_transition_def)

lemma run_transition_done:
  assumes "map_of (records s) rid = Some r" and "allowed (status r) st"
    and "map_of (steps s) rid = Some xs"
  shows "run_transition now rid st ft s =
    (Inr (moved now st ft r),
     s\<lparr>records := AList.update rid (moved now st ft r) (records s),
       steps := AList.update rid (xs @ [\<lparr>step_run_id = rid, step_status = st, occurred_at = now,
                                         step_failure_type = ft\<rparr>]) (steps s)\<rparr>)"
  using assms by (simp add: run_transition_def append_step_def bindM_def Let_def)

lemma run_transition_ok:
  assumes "store_ok s"
  shows "store_ok (snd (run_transition now rid st ft s))"
proof (cases "map_of (records s) rid")
  case None
  with assms show ?thesis by (simp add: run_transition_missing)
next
  case (Some r)
  show ?thesis
  proof (cases "allowed (status r) st")
    case False
    with assms Some show ?thesis by (simp add: run_transition_refused)
  next
    case True
    from store_okD [OF assms Some] obtain xs where
      rid: "run_id r = rid" and xs: "map_of (steps s) rid = Some xs" "run_ok r xs"
      by blast
    show ?thesis
      unfolding run_transition_done [OF Some True xs(1)] snd_conv
      by (rule store_ok_step [OF assms Some xs(1)])
        (use rid run_ok_append [OF xs(2) True] in \<open>auto simp: moved_def\<close>)
  qed
qed

lemma increment_tool_calls_ok:
  assumes "store_ok s"
  shows "store_ok (snd (increment_tool_calls now rid s))"
proof (cases "map_of (records s) rid")
  case None
  with assms show ?thesis by (simp add: increment_tool_calls_def)
next
  case (Some r)
  from store_okD(1) [OF assms Some] have "run_id r = rid" .
  then show ?thesis
    unfolding increment_tool_calls_def Some Let_def option.case snd_conv
    by (intro store_ok_record [OF assms Some]) (simp_all add: run_ok_def)
qed

lemma increment_retries_ok:
  assumes "store_ok s"
  shows "store_ok (snd (increment_retries now rid s))"
proof (cases "map_of (records s) rid")
  case None
  with assms show ?thesis by (simp add: increment_retries_def)
next
  case (Some r)
  from store_okD(1) [OF assms Some] have "run_id r = rid" .
  then show ?thesis
    unfolding increment_retries_def Some Let_def option.case snd_conv
    by (intro store_ok_record [OF assms Some]) (simp_all add: run_ok_def)
qed

lemma add_checkpoint_ok:
  "store_ok s \<Longrightarrow> store_ok (snd (add_checkpoint now cid rid stg arts safe s))"
  by (auto simp: add_checkpoint_def Let_def store_ok_def split: option.splits sum.splits)

lemma keeps_run_get [keeps_rules]: "keeps P (run_get rid)"
  by (simp add: keeps_def run_get_def)

lemma keeps_list_checkpoints [keeps_rules]: "keeps P (list_checkpoints rid)"
  by (simp add: keeps_def list_checkpoints_def)

lemma keeps_run_transition [keeps_rules]: "keeps store_ok (run_transition now rid st ft)"
  by (simp add: keeps_def run_transition_ok)

lemma keeps_run_create [keeps_rules]: "fresh_record r \<Longrightarrow> keeps store_ok (run_create r)"
  by (simp add: keeps_def run_create_ok)

lemma keeps_run_cancel: "keeps store_ok (run_cancel now rid uid)"
  unfolding run_cancel_def by (intro keeps_rules)

lemma keeps_create_recovery_child:
  "keeps store_ok (create_recovery_child c u cid pid uid ins)"
  unfolding create_recovery_child_def by (intro keeps_rules) simp

subsection \<open>Closing interrupted runs\<close>

text \<open>
  The loop visits every record once. Its effect is pointwise: exactly the incomplete runs are
  closed, nothing else changes, and the count is the number of runs closed.
\<close>

lemma close_step:
  assumes "store_ok s" and "map_of (records s) rid = Some r" and "incomplete before r"
  obtains s' where
    "append_step rid \<lparr>step_run_id = rid, step_status = FAILED, occurred_at = now,
        step_failure_type = Some ft\<rparr>
      (s\<lparr>records := AList.update rid (closed_failed now ft r) (records s)\<rparr>) = (Inr (), s')"
    and "store_ok s'"
    and "\<And>k. map_of (records s') k =
      (if k = rid then Some (closed_failed now ft r) else map_of (records s) k)"
proof -
  from store_okD [OF assms(1,2)] obtain xs where
    rid: "run_id r = rid" and xs: "map_of (steps s) rid = Some xs" "run_ok r xs" by blast
  have "allowed (status r) FAILED"
    using assms(3) allowed_close(1) by (auto simp: incomplete_def)
  then have ok: "store_ok (s\<lparr>records := AList.update rid (closed_failed now ft r) (records s),
      steps := AList.update rid (xs @ [\<lparr>step_run_id = rid, step_status = FAILED,
        occurred_at = now, step_failure_type = Some ft\<rparr>]) (steps s)\<rparr>)"
    using rid run_ok_append [OF xs(2), of FAILED]
    by (intro store_ok_step [OF assms(1,2) xs(1)])
      (auto simp: closed_failed_def TERMINAL_STATUSES_def)
  show thesis
    by (rule that [OF _ ok]) (simp_all add: append_step_def xs(1))
qed

definition close_all :: "time \<Rightarrow> string \<Rightarrow> time option \<Rightarrow> run_record \<Rightarrow> run_record" where
  "close_all now ft before r = (if incomplete before r then closed_failed now ft r else r)"

lemma close_all_terminal: "terminal (status (close_all now ft None r))"
  by (simp add: close_all_def incomplete_def closed_failed_def TERMINAL_STATUSES_def)

lemma fail_loop_effect:
  assumes "store_ok s" and "distinct (map fst rs)"
    and "\<forall>k r. map_of rs k = Some r \<longrightarrow> map_of (records s) k = Some r"
  shows "\<exists>s'. fail_loop now ft before rs n s =
       (Inr (n + int (length (filter (\<lambda>x. incomplete before (snd x)) rs))), s') \<and> store_ok s' \<and>
     (\<forall>k. map_of (records s') k =
        (case map_of rs k of None \<Rightarrow> map_of (records s) k
         | Some r \<Rightarrow> Some (close_all now ft before r)))"
  using assms
proof (induction rs arbitrary: s n)
  case Nil
  then show ?case by simp
next
  case (Cons kr rs)
  obtain k r where kr: "kr = (k, r)" by (cases kr)
  have notin: "map_of rs k = None"
    using Cons.prems(2) by (simp add: kr map_of_eq_None_iff)
  have here: "map_of (records s) k = Some r" using Cons.prems(3) by (simp add: kr)
  have rest: "\<forall>k' r'. map_of rs k' = Some r' \<longrightarrow> k' \<noteq> k \<and> map_of (records s) k' = Some r'"
    using Cons.prems(3) notin unfolding kr by (metis map_of_Cons_code(2) option.distinct(1))
  show ?case
  proof (cases "incomplete before r")
    case False
    have "distinct (map fst rs)" using Cons.prems(2) by (simp add: kr)
    from Cons.IH [OF Cons.prems(1) this, of n] rest obtain s' where
      "fail_loop now ft before rs n s =
         (Inr (n + int (length (filter (\<lambda>x. incomplete before (snd x)) rs))), s')" "store_ok s'"
      "\<And>k. map_of (records s') k =
        (case map_of rs k of None \<Rightarrow> map_of (records s) k
         | Some r \<Rightarrow> Some (close_all now ft before r))"
      by blast
    with False here notin show ?thesis
      by (intro exI [of _ s']) (simp add: kr close_all_def)
  next
    case True
    then obtain s1 where s1:
      "append_step k \<lparr>step_run_id = k, step_status = FAILED, occurred_at = now,
          step_failure_type = Some ft\<rparr>
        (s\<lparr>records := AList.update k (closed_failed now ft r) (records s)\<rparr>) = (Inr (), s1)"
      "store_ok s1"
      "\<And>k'. map_of (records s1) k' =
        (if k' = k then Some (closed_failed now ft r) else map_of (records s) k')"
      using close_step [OF Cons.prems(1) here, of before now ft] by metis
    have "distinct (map fst rs)" using Cons.prems(2) by (simp add: kr)
    moreover have "\<forall>k' r'. map_of rs k' = Some r' \<longrightarrow> map_of (records s1) k' = Some r'"
      using rest by (simp add: s1(3))
    ultimately obtain s' where
      "fail_loop now ft before rs (n + 1) s1 =
         (Inr (n + 1 + int (length (filter (\<lambda>x. incomplete before (snd x)) rs))), s')" "store_ok s'"
      "\<And>k. map_of (records s') k =
        (case map_of rs k of None \<Rightarrow> map_of (records s1) k
         | Some r \<Rightarrow> Some (close_all now ft before r))"
      using Cons.IH [OF s1(2), of "n + 1"] by blast
    with True notin show ?thesis
      by (intro exI [of _ s']) (simp add: kr close_all_def bindM_def s1(1,3) split: option.splits)
  qed
qed

lemma fail_incomplete_runs_effect:
  assumes "store_ok s"
  obtains s' where
    "fail_incomplete_runs now ft before s =
       (Inr (int (length (filter (\<lambda>x. incomplete before (snd x)) (records s)))), s')"
    and "store_ok s'"
    and "\<And>k. map_of (records s') k =
      map_option (close_all now ft before) (map_of (records s) k)"
proof -
  have "distinct (map fst (records s))" using assms by (simp add: store_ok_def)
  from fail_loop_effect [OF assms this, of now ft before 0] that show thesis
    by (fastforce simp: fail_incomplete_runs_def split: option.splits)
qed

lemma keeps_fail_incomplete_runs: "keeps store_ok (fail_incomplete_runs now ft before)"
  by (rule keepsI) (metis fail_incomplete_runs_effect snd_conv)

subsection \<open>What a run keeps over its life\<close>

definition store_evolves :: "run_store \<Rightarrow> run_store \<Rightarrow> bool" where
  "store_evolves s s' \<longleftrightarrow>
     (\<forall>k r. map_of (records s) k = Some r \<longrightarrow> (\<exists>r'. map_of (records s') k = Some r' \<and> evolves r r'))"

lemma store_evolves_refl [simp]: "store_evolves s s"
  by (simp add: store_evolves_def)

lemma store_evolves_trans: "store_evolves s s' \<Longrightarrow> store_evolves s' s'' \<Longrightarrow> store_evolves s s''"
  unfolding store_evolves_def by (metis evolves_trans)

lemma store_evolves_record:
  "map_of (records s) k = Some r \<Longrightarrow> evolves r r' \<Longrightarrow>
   (\<And>k'. map_of (records s') k' = (if k' = k then Some r' else map_of (records s) k')) \<Longrightarrow>
   store_evolves s s'"
  by (simp add: store_evolves_def)

lemma evolves_close_all: "evolves r (close_all now ft before r)"
  by (simp add: evolves_def close_all_def closed_failed_def incomplete_def)

lemma run_transition_evolves:
  assumes "store_ok s"
  shows "store_evolves s (snd (run_transition now rid st ft s))"
proof (cases "\<exists>r. map_of (records s) rid = Some r \<and> allowed (status r) st")
  case True
  then obtain r where r: "map_of (records s) rid = Some r" "allowed (status r) st" by blast
  from store_okD(3) [OF assms r(1)] obtain xs where "map_of (steps s) rid = Some xs" by blast
  from run_transition_done [OF r this] show ?thesis
    by (intro store_evolves_record [OF r(1) evolves_moved [OF r(2)]]) simp
next
  case False
  then show ?thesis
    by (cases "map_of (records s) rid")
      (auto simp: run_transition_missing run_transition_refused)
qed

subsection \<open>Reachable stores\<close>

text \<open>
  One step of the store is one method call, whatever its arguments and whether it returns or
  raises. The harness creates records with the constructor of \<open>RunRecord\<close> only, hence the
  premise of \<open>create\<close>.
\<close>

inductive store_step :: "run_store \<Rightarrow> run_store \<Rightarrow> bool" where
  create: "fresh_record r \<Longrightarrow> store_step s (snd (run_create r s))"
| transition: "store_step s (snd (run_transition now rid st ft s))"
| calls: "store_step s (snd (increment_tool_calls now rid s))"
| retries: "store_step s (snd (increment_retries now rid s))"
| fail: "store_step s (snd (fail_incomplete_runs now ft before s))"
| checkpoint: "store_step s (snd (add_checkpoint now cid rid stg arts safe s))"
| cancel: "store_step s (snd (run_cancel now rid uid s))"
| recover: "store_step s (snd (create_recovery_child c u cid pid uid ins s))"

inductive store_reachable :: "run_store \<Rightarrow> bool" where
  start: "store_reachable empty_run_store"
| step: "store_reachable s \<Longrightarrow> store_step s s' \<Longrightarrow> store_reachable s'"

lemma store_step_ok: "store_step s s' \<Longrightarrow> store_ok s \<Longrightarrow> store_ok s'"
  by (induction rule: store_step.induct)
    (simp_all add: run_create_ok run_transition_ok increment_tool_calls_ok increment_retries_ok
      add_checkpoint_ok keepsD [OF keeps_run_cancel] keepsD [OF keeps_create_recovery_child]
      keepsD [OF keeps_fail_incomplete_runs])

lemma store_reachable_ok: "store_reachable s \<Longrightarrow> store_ok s"
  by (induction rule: store_reachable.induct) (auto intro: store_step_ok)

lemma run_create_evolves: "store_evolves s (snd (run_create r s))"
  by (auto simp: run_create_def store_evolves_def)

lemma run_cancel_evolves: "store_ok s \<Longrightarrow> store_evolves s (snd (run_cancel now rid uid s))"
  by (auto simp: run_cancel_def bindM_def run_get_def run_transition_evolves split: option.splits)

lemma create_recovery_child_evolves:
  "store_evolves s (snd (create_recovery_child c u cid pid uid ins s))"
proof -
  have "keeps (store_evolves s) (create_recovery_child c u cid pid uid ins)"
    unfolding create_recovery_child_def
    by (intro keeps_rules) (blast intro: keepsI store_evolves_trans run_create_evolves)
  then show ?thesis by (rule keepsD) simp
qed

lemma store_step_evolves: "store_step s s' \<Longrightarrow> store_ok s \<Longrightarrow> store_evolves s s'"
proof (induction rule: store_step.induct)
  case (fail s now ft before)
  then obtain s' where "snd (fail_incomplete_runs now ft before s) = s'"
    "\<And>k. map_of (records s') k = map_option (close_all now ft before) (map_of (records s) k)"
    by (metis fail_incomplete_runs_effect snd_conv)
  then show ?case by (auto simp: store_evolves_def evolves_close_all)
next
  case (calls s now rid)
  show ?case
    by (auto simp: store_evolves_def increment_tool_calls_def Let_def evolves_def
        split: option.splits)
next
  case (retries s now rid)
  show ?case
    by (auto simp: store_evolves_def increment_retries_def Let_def evolves_def
        split: option.splits)
next
  case (checkpoint s now cid rid stg arts safe)
  show ?case
    by (auto simp: store_evolves_def add_checkpoint_def Let_def split: option.splits sum.splits)
qed (simp_all add: run_create_evolves run_transition_evolves run_cancel_evolves
    create_recovery_child_evolves)

lemma store_steps_evolve:
  assumes "store_step\<^sup>*\<^sup>* s s'" and "store_ok s"
  shows "store_ok s' \<and> store_evolves s s'"
  using assms
  by (induction rule: rtranclp_induct)
    (auto intro: store_step_ok store_evolves_trans store_step_evolves)

subsection \<open>The in-memory store meets the contract\<close>

definition memory_ops :: "run_store run_ops" where
  "memory_ops = \<lparr>op_create = run_create, op_transition = run_transition, op_get = run_get,
     op_increment_tool_calls = increment_tool_calls, op_increment_retries = increment_retries\<rparr>"

lemma memory_ops_sel [simp]:
  "op_create memory_ops = run_create" "op_transition memory_ops = run_transition"
  "op_get memory_ops = run_get" "op_increment_tool_calls memory_ops = increment_tool_calls"
  "op_increment_retries memory_ops = increment_retries"
  by (simp_all add: memory_ops_def)

definition memory_view :: "run_store \<Rightarrow> string \<Rightarrow> run_record option" where
  "memory_view s = map_of (records s)"

lemma memory_view_update [simp]:
  "memory_view (s\<lparr>records := AList.update k r (records s)\<rparr>) = put_run (memory_view s) k r"
  "memory_view (s\<lparr>records := AList.update k r (records s), steps := x\<rparr>) = put_run (memory_view s) k r"
  "memory_view (s\<lparr>records := AList.update k r (records s), steps := x, checkpoints := y\<rparr>) =
     put_run (memory_view s) k r"
  by (rule ext, simp add: memory_view_def)+

interpretation memory: run_store_contract memory_ops memory_view store_ok
proof (unfold_locales, goal_cases)
  case (3 s r)
  then show ?case
    using run_create_ok [OF 3(1,2)] by (simp add: run_create_def memory_view_def [of s])
next
  case (7 s rid r st now ft)
  from store_okD(3) [OF 7(1)] 7(2) obtain xs where xs: "map_of (steps s) rid = Some xs"
    by (auto simp: memory_view_def)
  from run_transition_done [OF _ 7(3) this, of now ft] run_transition_ok [OF 7(1), of now rid st ft]
    7(2) show ?case by (simp add: memory_view_def [of s])
next
  case (9 s rid r now)
  then show ?case
    using increment_tool_calls_ok [OF 9(1), of now rid]
    by (simp add: increment_tool_calls_def Let_def counted_call_def memory_view_def [of s])
next
  case (11 s rid r now)
  then show ?case
    using increment_retries_ok [OF 11(1), of now rid]
    by (simp add: increment_retries_def Let_def counted_retry_def memory_view_def [of s])
qed (auto simp: run_get_def memory_view_def run_create_def run_transition_missing
    run_transition_refused increment_tool_calls_def increment_retries_def dest: store_okD)

subsection \<open>Properties of every reachable store\<close>

text \<open>C4. In every reachable store the recorded history of a run is a path of the state machine: it
starts in \<open>RECEIVED\<close>, each step is an allowed transition, and it ends in the run's present status
and failure type; the completion time is set exactly when that status is terminal.\<close>

theorem history_is_a_path:
  assumes "store_reachable s" and "map_of (records s) rid = Some r"
  shows "\<exists>xs. run_list_steps rid s = (Inr xs, s) \<and> xs \<noteq> [] \<and> step_status (hd xs) = RECEIVED \<and>
    successively (\<lambda>a b. step_status b \<in> set (ALLOWED_TRANSITIONS (step_status a))) xs \<and>
    step_status (last xs) = status r \<and> step_failure_type (last xs) = failure_type r \<and>
    (completed_at r \<noteq> None \<longleftrightarrow> status r \<in> set TERMINAL_STATUSES)"
proof -
  obtain xs where xs: "map_of (steps s) rid = Some xs" "run_ok r xs"
    using store_okD(3) [OF store_reachable_ok [OF assms(1)] assms(2)] by blast
  have "successively (\<lambda>a b. step_status b \<in> set (ALLOWED_TRANSITIONS (step_status a))) xs"
    using xs(2) by (simp add: run_ok_def successively_map)
  with xs show ?thesis by (auto simp: run_list_steps_def run_ok_def)
qed

text \<open>C16. Whatever methods are called on a store, in whatever order and with whatever arguments, no
run changes its identity, its counters never go down, and once a run is terminal its status,
failure type and completion time stay what they are.\<close>

theorem outcome_is_final:
  assumes "store_reachable s" and "store_step\<^sup>*\<^sup>* s s'" and "map_of (records s) rid = Some r"
  shows "\<exists>r'. map_of (records s') rid = Some r' \<and> run_id r' = rid \<and> user_id r' = user_id r \<and>
    operation_kind r' = operation_kind r \<and> created_at r' = created_at r \<and>
    tool_call_count r \<le> tool_call_count r' \<and> retry_count r \<le> retry_count r' \<and>
    (status r \<in> set TERMINAL_STATUSES \<longrightarrow> status r' = status r \<and>
       failure_type r' = failure_type r \<and> completed_at r' = completed_at r)"
proof -
  have ok: "store_ok s" by (rule store_reachable_ok [OF assms(1)])
  from store_steps_evolve [OF assms(2) ok] assms(3) obtain r' where
    r': "map_of (records s') rid = Some r'" "evolves r r'" by (auto simp: store_evolves_def)
  from store_okD(1) [OF ok assms(3)] r' show ?thesis by (auto simp: evolves_def)
qed

text \<open>Restart recovery closes exactly the runs that an earlier process left open: each of them
becomes failed with the given failure type, every other run is untouched, the returned count is
their number, and without a cut-off time no run is left open.\<close>

theorem restart_closes_open_runs:
  assumes "store_reachable s"
  shows "\<exists>s'. fail_incomplete_runs now ft before s =
      (Inr (int (length (filter (\<lambda>(_, r). status r \<notin> set TERMINAL_STATUSES \<and>
         (case before of None \<Rightarrow> True | Some b \<Rightarrow> updated_at r < b)) (records s)))), s') \<and>
    (\<forall>rid. map_of (records s') rid = map_option (\<lambda>r.
       if status r \<notin> set TERMINAL_STATUSES \<and> (case before of None \<Rightarrow> True | Some b \<Rightarrow> updated_at r < b)
       then r\<lparr>status := FAILED, failure_type := Some ft, updated_at := now, completed_at := Some now\<rparr>
       else r) (map_of (records s) rid)) \<and>
    (\<forall>rid r. before = None \<longrightarrow> map_of (records s') rid = Some r \<longrightarrow> status r \<in> set TERMINAL_STATUSES)"
proof -
  have ok: "store_ok s" by (rule store_reachable_ok [OF assms])
  obtain s' where s': "fail_incomplete_runs now ft before s =
       (Inr (int (length (filter (\<lambda>x. incomplete before (snd x)) (records s)))), s')"
    "\<And>k. map_of (records s') k = map_option (close_all now ft before) (map_of (records s) k)"
    using fail_incomplete_runs_effect [OF ok] by metis
  have closed: "status r \<in> set TERMINAL_STATUSES"
    if "before = None" "map_of (records s') rid = Some r" for rid r
    using that s'(2) [of rid] close_all_terminal by auto
  show ?thesis
    by (intro exI [of _ s'] conjI allI impI closed)
      (simp_all add: s' close_all_def [abs_def] incomplete_def closed_failed_def [abs_def]
        case_prod_beta' cong: option.map_cong if_cong)
qed

text \<open>A recovery child is only ever created for the owner of a read-only run that a restart
closed and whose latest checkpoint is safe; it is a new open read-only run linked to its parent.
Every refusal leaves the store as it was.\<close>

theorem recovery_only_when_safe:
  "case create_recovery_child created updated cid pid uid ins s of
     (Inl _, s') \<Rightarrow> s' = s
   | (Inr child, s') \<Rightarrow>
       (\<exists>parent cps. map_of (records s) pid = Some parent \<and> user_id parent = uid \<and>
          operation_kind parent = READ_QUERY \<and> status parent = FAILED \<and>
          failure_type parent = Some ''process_restarted'' \<and>
          list_checkpoints pid s = (Inr cps, s) \<and> cps \<noteq> [] \<and> safe_checkpoint (last cps) \<and>
          parent_run_id child = Some (run_id parent) \<and>
          correlation_id child = correlation_id parent) \<and>
       map_of (records s) cid = None \<and> map_of (records s') cid = Some child \<and>
       run_id child = cid \<and> user_id child = uid \<and> status child = RECEIVED \<and>
       operation_kind child = READ_QUERY \<and> tool_call_count child = 0"
  by (auto simp: create_recovery_child_def bindM_def run_get_def list_checkpoints_def Let_def
      run_create_def split: option.splits)

subsection \<open>A concrete store\<close>

definition sample_run :: run_record where
  "sample_run = new_run_record 0 0 ''r1'' ''u1'' None ''h'' READ_QUERY None None"

definition sample_runs :: run_store where
  "sample_runs = snd (run_transition 1 ''r1'' CONTEXT_BUILDING None
     (snd (run_create sample_run empty_run_store)))"

lemma sample_runs_reachable: "store_reachable sample_runs"
  unfolding sample_runs_def
  by (intro store_reachable.step [OF _ store_step.transition]
      store_reachable.step [OF store_reachable.start store_step.create])
    (simp add: sample_run_def)

lemmas sample_runs_ok = store_reachable_ok [OF sample_runs_reachable]

lemma sample_runs_record:
  "map_of (records sample_runs) ''r1'' = Some (moved 1 CONTEXT_BUILDING None sample_run)"
  by (simp add: sample_runs_def run_transition_def run_create_def empty_run_store_def sample_run_def
      ALLOWED_TRANSITIONS.simps moved_def TERMINAL_STATUSES_def append_step_def bindM_def thenM_def
      Let_def)

theorem history_is_a_path_witness:
  "\<exists>xs. run_list_steps ''r1'' sample_runs = (Inr xs, sample_runs) \<and>
     step_status (hd xs) = RECEIVED \<and> step_status (last xs) = CONTEXT_BUILDING"
  using history_is_a_path [OF sample_runs_reachable sample_runs_record] by auto

theorem outcome_is_final_witness:
  "\<exists>r'. map_of (records (snd (run_transition 3 ''r1'' LINKING None
      (snd (run_cancel 2 ''r1'' ''u1'' sample_runs))))) ''r1'' = Some r' \<and> status r' = CANCELLED"
proof -
  let ?s = "snd (run_cancel 2 ''r1'' ''u1'' sample_runs)"
  have "map_of (records ?s) ''r1'' =
      Some (moved 2 CANCELLED (Some ''cancelled'') (moved 1 CONTEXT_BUILDING None sample_run))"
    using sample_runs_record store_okD(3) [OF sample_runs_ok sample_runs_record]
    by (auto simp: run_cancel_def run_get_def bindM_def sample_run_def TERMINAL_STATUSES_def
        run_transition_def ALLOWED_TRANSITIONS.simps append_step_def Let_def)
  moreover have "store_reachable ?s"
    by (rule store_reachable.step [OF sample_runs_reachable store_step.cancel])
  moreover have "store_step\<^sup>*\<^sup>* ?s (snd (run_transition 3 ''r1'' LINKING None ?s))"
    by (rule r_into_rtranclp) (rule store_step.transition)
  ultimately show ?thesis
    using outcome_is_final [of ?s _ "''r1''"] by (fastforce simp: TERMINAL_STATUSES_def)
qed

theorem restart_closes_open_runs_witness:
  "\<exists>s' r'. snd (fail_incomplete_runs 9 ''process_restarted'' None sample_runs) = s' \<and>
     map_of (records s') ''r1'' = Some r' \<and> status r' = FAILED"
  using restart_closes_open_runs [OF sample_runs_reachable, of 9 "''process_restarted''" None]
    sample_runs_record
  by (auto simp: TERMINAL_STATUSES_def)

end
