(* ===== verification/Numbered_Rows.thy ===== *)
theory Numbered_Rows
  imports Prelude
begin

section \<open>Tables with a sequence number per key\<close>

text \<open>
  Several PostgreSQL tables of the program number the rows of a run, of a policy or of a manifest:
  an insert takes \<open>COALESCE(MAX(sequence_no)+1, 0)\<close> over the rows of its key, and a reader orders
  by the number. The model of such a table is the list of its rows in insertion order. Here is what
  every such table shares: the numbers of a key are \<open>0, 1, 2, \<dots>\<close>, so ordering by number gives back
  the order of the inserts.
\<close>

type_synonym 'a numbered = "(string \<times> int \<times> 'a) list"

definition rows_of :: "'a numbered \<Rightarrow> string \<Rightarrow> (int \<times> 'a) list" where
  "rows_of s k = map snd (filter (\<lambda>row. fst row = k) s)"

definition next_no :: "(int \<times> 'a) list \<Rightarrow> int" where
  "next_no rows = (if rows = [] then 0 else Max (set (map fst rows)) + 1)"

definition insert_row :: "string \<Rightarrow> 'a \<Rightarrow> 'a numbered \<Rightarrow> 'a numbered" where
  "insert_row k x s = s @ [(k, next_no (rows_of s k), x)]"

definition ordered_rows :: "'a numbered \<Rightarrow> string \<Rightarrow> 'a list" where
  "ordered_rows s k = map snd (sort_key fst (rows_of s k))"

definition numbered_ok :: "'a numbered \<Rightarrow> bool" where
  "numbered_ok s \<longleftrightarrow> (\<forall>k. map fst (rows_of s k) = map int [0..<length (rows_of s k)])"

lemma numbered_ok_Nil [simp]: "numbered_ok []"
  by (simp add: numbered_ok_def rows_of_def)

lemma rows_of_Nil [simp]: "rows_of [] k = []"
  by (simp add: rows_of_def)

lemma ordered_rows_Nil [simp]: "ordered_rows [] k = []"
  by (simp add: ordered_rows_def)

lemma next_no_eq:
  assumes "map fst rows = map int [0..<length rows]"
  shows "next_no rows = int (length rows)"
proof (cases "rows = []")
  case False
  have "set (map fst rows) = int ` {..<length rows}" using assms by (simp add: lessThan_atLeast0)
  moreover have "Max (int ` {..<length rows}) = int (length rows) - 1"
    using False by (subst Max_eq_iff) (auto simp: image_iff of_nat_diff Suc_le_eq intro!: bexI [of _ "length rows - 1"])
  ultimately show ?thesis using False by (simp add: next_no_def)
qed (simp add: next_no_def)

lemma next_no_length: "numbered_ok s \<Longrightarrow> next_no (rows_of s k) = int (length (rows_of s k))"
  by (rule next_no_eq) (simp add: numbered_ok_def)

lemma rows_sorted: "numbered_ok s \<Longrightarrow> sort_key fst (rows_of s k) = rows_of s k"
proof (rule sort_key_id_if_sorted)
  assume "numbered_ok s"
  then have m: "map fst (rows_of s k) = map int [0..<length (rows_of s k)]"
    unfolding numbered_ok_def by blast
  show "sorted (map fst (rows_of s k))"
    unfolding m by (simp add: sorted_iff_nth_mono)
qed

lemma rows_of_append:
  "rows_of (s @ [(k, n, x)]) = (rows_of s)(k := rows_of s k @ [(n, x)])"
  by (rule ext) (simp add: rows_of_def)

lemma numbered_ok_append:
  "numbered_ok s \<Longrightarrow> numbered_ok (s @ [(k, int (length (rows_of s k)), x)])"
  by (simp add: numbered_ok_def rows_of_append)

lemma numbered_ok_insert [simp]: "numbered_ok s \<Longrightarrow> numbered_ok (insert_row k x s)"
  by (simp add: insert_row_def next_no_length numbered_ok_append)

lemma ordered_rows_eq: "numbered_ok s \<Longrightarrow> ordered_rows s k = map snd (rows_of s k)"
  by (simp add: ordered_rows_def rows_sorted)

lemma ordered_rows_insert [simp]:
  "numbered_ok s \<Longrightarrow>
   ordered_rows (insert_row k x s) k' = (if k' = k then ordered_rows s k @ [x] else ordered_rows s k')"
  by (simp add: ordered_rows_eq numbered_ok_insert)
    (simp add: insert_row_def rows_of_append)

end
