(* ===== verification/Run_Store_Pg.thy ===== *)
theory Run_Store_Pg
  imports Run_Store Numbered_Rows
begin

section \<open>The PostgreSQL run store\<close>

text \<open>
  \<open>agent-service/app/state/run_store.py\<close>: \<open>PostgresRunStore\<close> over the tables \<open>agent_runs\<close>,
  \<open>run_steps\<close> and \<open>run_checkpoints\<close>. Every method is one transaction (or a sequence of
  method calls), so it is one atomic step and an error leaves the tables as they were; \<open>now()\<close> is
  the time of the transaction. Two things of the schema (\<open>database/migrations\<close>) change what the
  methods do and are part of the model: the primary keys and foreign keys between these tables, and
  the partial unique index \<open>uq_agent_runs_active_conversation\<close>, which allows a conversation only
  one run that is still open. The remaining column constraints (UUID syntax, text lengths, the
  reference to \<open>app_users\<close>) are the argument \<open>column_error\<close> of \<open>create\<close>: the error of a
  refused record.

  The store implements the same protocol as the in-memory one. It does not meet the contract of
  \<open>Run_Contract\<close> as it stands, since its \<open>create\<close> refuses a second open run of a conversation;
  what holds is a simulation: every call that the database accepts does exactly what the in-memory
  store does, errors of the code are the same, and only \<open>create\<close>, \<open>add_checkpoint\<close> and what
  calls \<open>create\<close> can fail with a database error.
\<close>

record pg_runs =
  run_rows :: "(string, run_record) dict"
  step_rows :: "run_step numbered"
  checkpoint_rows :: "run_checkpoint list"

definition empty_pg_runs :: pg_runs where
  "empty_pg_runs = \<lparr>run_rows = [], step_rows = [], checkpoint_rows = []\<rparr>"

text \<open>Errors of psycopg.\<close>

definition unique_violation :: exn where "unique_violation = External ''UniqueViolation''"

definition foreign_key_violation :: exn where "foreign_key_violation = External ''ForeignKeyViolation''"

subsection \<open>Methods\<close>

text \<open>\<open>_insert_step\<close>.\<close>

definition pg_insert_step :: "time \<Rightarrow> string \<Rightarrow> run_status \<Rightarrow> string option \<Rightarrow> pg_runs \<Rightarrow> pg_runs" where
  "pg_insert_step now rid st ft s = s\<lparr>step_rows := insert_row rid
     \<lparr>step_run_id = rid, step_status = st, occurred_at = now, step_failure_type = ft\<rparr> (step_rows s)\<rparr>"

text \<open>An insert leaves \<open>failure_type\<close> and \<open>finished_at\<close> null; without the second version of the
schema it also leaves out kind, parent and correlation, which \<open>_record\<close> then fills with the
defaults.\<close>

definition stored_row :: "bool \<Rightarrow> run_record \<Rightarrow> run_record" where
  "stored_row v2 r =
     (let r' = r\<lparr>failure_type := None, completed_at := None\<rparr> in
      if v2 then r' else r'\<lparr>operation_kind := READ_QUERY, parent_run_id := None, correlation_id := run_id r\<rparr>)"

text \<open>The statuses that the unique index leaves out.\<close>

definition idle_statuses :: "bool \<Rightarrow> run_status list" where
  "idle_statuses v2 = (if v2 then [NEEDS_CLARIFICATION] else []) @ [COMPLETED, FAILED, CANCELLED]"

definition conversation_busy :: "bool \<Rightarrow> run_record \<Rightarrow> (string, run_record) dict \<Rightarrow> bool" where
  "conversation_busy v2 r rows \<longleftrightarrow> conversation_id r \<noteq> None \<and> status r \<notin> set (idle_statuses v2) \<and>
     list_ex (\<lambda>(_, r'). conversation_id r' = conversation_id r \<and> status r' \<notin> set (idle_statuses v2)) rows"

definition pg_create :: "(run_record \<Rightarrow> exn option) \<Rightarrow> bool \<Rightarrow> time \<Rightarrow> run_record \<Rightarrow> (pg_runs, unit) py" where
  "pg_create column_error v2 now r s =
     (case column_error r of
        Some e \<Rightarrow> (Inl e, s)
      | None \<Rightarrow>
          if map_of (run_rows s) (run_id r) \<noteq> None \<or> conversation_busy v2 r (run_rows s)
          then (Inl unique_violation, s)
          else if v2 \<and> (case parent_run_id r of None \<Rightarrow> False | Some p \<Rightarrow> map_of (run_rows s) p = None \<and> p \<noteq> run_id r)
          then (Inl foreign_key_violation, s)
          else (Inr (), pg_insert_step now (run_id r) (status r) None
                 (s\<lparr>run_rows := AList.update (run_id r) (stored_row v2 r) (run_rows s)\<rparr>)))"

definition pg_transition ::
  "time \<Rightarrow> string \<Rightarrow> run_status \<Rightarrow> string option \<Rightarrow> (pg_runs, run_record) py" where
  "pg_transition now rid st ft s =
     (case map_of (run_rows s) rid of
        None \<Rightarrow> (Inl (KeyError rid), s)
      | Some r \<Rightarrow>
          if \<not> allowed (status r) st
          then (Inl (InvalidRunTransition (transition_message rid (status r) st)), s)
          else (let r' = r\<lparr>status := st, failure_type := ft, updated_at := now,
                      completed_at := (if terminal st then Some now else completed_at r)\<rparr>
                in (Inr r', pg_insert_step now rid st ft
                     (s\<lparr>run_rows := AList.update rid r' (run_rows s)\<rparr>))))"

definition pg_get :: "string \<Rightarrow> (pg_runs, run_record option) py" where
  "pg_get rid s = (Inr (map_of (run_rows s) rid), s)"

definition pg_list_steps :: "string \<Rightarrow> (pg_runs, run_step list) py" where
  "pg_list_steps rid s = (Inr (ordered_rows (step_rows s) rid), s)"

text \<open>\<open>_increment\<close>: the column is one of two names, here a field update.\<close>

definition pg_increment :: "(run_record \<Rightarrow> int) \<Rightarrow> (run_record \<Rightarrow> run_record) \<Rightarrow> time \<Rightarrow> string \<Rightarrow>
    (pg_runs, int) py" where
  "pg_increment column plus_one now rid s =
     (case map_of (run_rows s) rid of
        None \<Rightarrow> (Inl (KeyError rid), s)
      | Some r \<Rightarrow>
          (let r' = (plus_one r)\<lparr>updated_at := now\<rparr>
           in (Inr (column r'), s\<lparr>run_rows := AList.update rid r' (run_rows s)\<rparr>)))"

definition pg_increment_tool_calls :: "time \<Rightarrow> string \<Rightarrow> (pg_runs, int) py" where
  "pg_increment_tool_calls = pg_increment tool_call_count (\<lambda>r. r\<lparr>tool_call_count := tool_call_count r + 1\<rparr>)"

definition pg_increment_retries :: "time \<Rightarrow> string \<Rightarrow> (pg_runs, int) py" where
  "pg_increment_retries = pg_increment retry_count (\<lambda>r. r\<lparr>retry_count := retry_count r + 1\<rparr>)"

text \<open>One \<open>UPDATE \<dots> RETURNING id\<close>, then a step for every id it returned.\<close>

definition pg_fail_incomplete_runs :: "time \<Rightarrow> string \<Rightarrow> time option \<Rightarrow> (pg_runs, int) py" where
  "pg_fail_incomplete_runs now ft before s =
     (let hit = filter (\<lambda>(_, r). incomplete before r) (run_rows s);
          rows' = map (\<lambda>(k, r). (k, if incomplete before r then closed_failed now ft r else r)) (run_rows s)
      in (Inr (int (length hit)),
          foldl (\<lambda>s (k, _). pg_insert_step now k FAILED (Some ft) s) (s\<lparr>run_rows := rows'\<rparr>) hit))"

fun pg_check_artifacts :: "artifact list \<Rightarrow> exn + unit" where
  "pg_check_artifacts [] = Inr ()"
| "pg_check_artifacts (a # as) =
     (if \<not> set (map fst a) \<subseteq> set artifact_keys \<or>
         \<not> list_all (artifact_value a) [''artifact_type'', ''content_hash'', ''storage_ref'']
      then Inl (ValueError ''checkpoint artifacts may contain complete references only'')
      else pg_check_artifacts as)"

definition pg_add_checkpoint ::
  "time \<Rightarrow> string \<Rightarrow> string \<Rightarrow> run_status \<Rightarrow> artifact list \<Rightarrow> bool \<Rightarrow> (pg_runs, run_checkpoint) py" where
  "pg_add_checkpoint now cid rid stg arts safe s =
     (case pg_check_artifacts arts of
        Inl e \<Rightarrow> (Inl e, s)
      | Inr _ \<Rightarrow>
          if map_of (run_rows s) rid = None then (Inl foreign_key_violation, s)
          else if cid \<in> checkpoint_id ` set (checkpoint_rows s) then (Inl unique_violation, s)
          else (let cp = \<lparr>checkpoint_id = cid, cp_run_id = rid, stage = stg, artifacts = arts,
                          safe_to_resume = safe, cp_created_at = now\<rparr>
                in (Inr cp, s\<lparr>checkpoint_rows := checkpoint_rows s @ [cp]\<rparr>)))"

text \<open>\<open>ORDER BY created_at, id\<close>.\<close>

definition pg_list_checkpoints :: "string \<Rightarrow> (pg_runs, run_checkpoint list) py" where
  "pg_list_checkpoints rid s =
     (Inr (sort_key (\<lambda>c. (cp_created_at c, checkpoint_id c))
        (filter (\<lambda>c. cp_run_id c = rid) (checkpoint_rows s))), s)"

definition pg_cancel :: "time \<Rightarrow> string \<Rightarrow> string \<Rightarrow> (pg_runs, run_record) py" where
  "pg_cancel now rid uid =
     bindM (pg_get rid) (\<lambda>found.
       case found of
         None \<Rightarrow> raise (KeyError rid)
       | Some r \<Rightarrow>
           if user_id r \<noteq> uid then raise (PermissionError ''run belongs to another user'')
           else if terminal (status r) then ret r
           else pg_transition now rid CANCELLED (Some ''cancelled''))"

definition pg_create_recovery_child ::
  "(run_record \<Rightarrow> exn option) \<Rightarrow> bool \<Rightarrow> time \<Rightarrow> time \<Rightarrow> time \<Rightarrow> string \<Rightarrow> string \<Rightarrow> string \<Rightarrow> string \<Rightarrow>
   (pg_runs, run_record) py" where
  "pg_create_recovery_child column_error v2 created updated now child_id parent_id uid instruction =
     bindM (pg_get parent_id) (\<lambda>found.
       case found of
         None \<Rightarrow> raise (KeyError parent_id)
       | Some parent \<Rightarrow>
           if user_id parent \<noteq> uid then raise (PermissionError ''run belongs to another user'')
           else if operation_kind parent \<noteq> READ_QUERY
             then raise (UnsafeRecoveryError ''only read-only query runs may be recovered'')
           else if status parent \<noteq> FAILED \<or> failure_type parent \<noteq> Some ''process_restarted''
             then raise (UnsafeRecoveryError ''parent is not a restart-closed run'')
           else bindM (pg_list_checkpoints parent_id) (\<lambda>cps.
             if cps = [] \<or> \<not> safe_checkpoint (last cps)
             then raise (UnsafeRecoveryError ''parent has no safe checkpoint'')
             else
               (let child = new_run_record created updated child_id uid (conversation_id parent)
                              (sha256_hex instruction) READ_QUERY (Some (run_id parent))
                              (Some (correlation_id parent))
                in bindM (pg_create column_error v2 now child) (\<lambda>_. ret child))))"

subsection \<open>The simulation relation\<close>

definition step_core :: "run_step \<Rightarrow> string \<times> run_status \<times> string option" where
  "step_core x = (step_run_id x, step_status x, step_failure_type x)"

text \<open>The two stores hold the same runs, the same histories (the first step of a run is stamped by
the database in one and by the caller in the other, so times of steps are left out) and the same
checkpoints, in the order of their time and id.\<close>

definition listed :: "(string, 'a list) dict \<Rightarrow> string \<Rightarrow> 'a list" where
  "listed d k = (case map_of d k of None \<Rightarrow> [] | Some xs \<Rightarrow> xs)"

definition checkpoint_key :: "run_checkpoint \<Rightarrow> time \<times> string" where
  "checkpoint_key c = (cp_created_at c, checkpoint_id c)"

definition rows_match :: "pg_runs \<Rightarrow> run_store \<Rightarrow> bool" where
  "rows_match s t \<longleftrightarrow> distinct (map fst (run_rows s)) \<and> (\<forall>k. map_of (run_rows s) k = map_of (records t) k)"

definition steps_match :: "pg_runs \<Rightarrow> run_store \<Rightarrow> bool" where
  "steps_match s t \<longleftrightarrow> numbered_ok (step_rows s) \<and>
     (\<forall>k. map step_core (ordered_rows (step_rows s) k) = map step_core (listed (steps t) k))"

definition checkpoints_match :: "pg_runs \<Rightarrow> run_store \<Rightarrow> bool" where
  "checkpoints_match s t \<longleftrightarrow> (\<forall>k. filter (\<lambda>c. cp_run_id c = k) (checkpoint_rows s) = listed (checkpoints t) k \<and>
     sorted (map checkpoint_key (listed (checkpoints t) k)))"

definition stored :: "pg_runs \<Rightarrow> run_store \<Rightarrow> bool" where
  "stored s t \<longleftrightarrow> store_ok t \<and> rows_match s t \<and> steps_match s t \<and> checkpoints_match s t"

text \<open>A call \<open>p\<close> of the PostgreSQL store simulates a call \<open>q\<close> of the in-memory store: it returns what
\<open>q\<close> returns and the stores match again, or it fails without a trace, with a database error or
with an error of the class that \<open>q\<close> raises.\<close>

definition simulates :: "('a \<Rightarrow> 'b \<Rightarrow> bool) \<Rightarrow> (pg_runs, 'a) py \<Rightarrow> (run_store, 'b) py \<Rightarrow> bool" where
  "simulates Q p q \<longleftrightarrow> (\<forall>s t. stored s t \<longrightarrow> (case p s of
      (Inr x, s') \<Rightarrow> \<exists>y t'. q t = (Inr y, t') \<and> Q x y \<and> stored s' t'
    | (Inl e, s') \<Rightarrow> s' = s \<and> ((\<exists>n. e = External n) \<or> (\<exists>e' t'. q t = (Inl e', t') \<and> exn_name e' = exn_name e))))"

lemma simulatesI:
  assumes "\<And>s t. stored s t \<Longrightarrow>
    (\<exists>x y s' t'. p s = (Inr x, s') \<and> q t = (Inr y, t') \<and> Q x y \<and> stored s' t') \<or>
    (\<exists>e. p s = (Inl e, s) \<and> ((\<exists>n. e = External n) \<or> (\<exists>e' t'. q t = (Inl e', t') \<and> exn_name e' = exn_name e)))"
  shows "simulates Q p q"
  unfolding simulates_def using assms by (fastforce split: prod.splits sum.splits)

named_theorems simulates_rules "introduction rules of simulates"

lemma simulates_raise [simulates_rules]: "simulates Q (raise e) (raise e)"
  by (simp add: simulates_def)

lemma simulates_ret [simulates_rules]: "Q x y \<Longrightarrow> simulates Q (ret x) (ret y)"
  by (simp add: simulates_def)

lemma simulates_if [simulates_rules]:
  "(b \<Longrightarrow> simulates Q p q) \<Longrightarrow> (\<not> b \<Longrightarrow> simulates Q p' q') \<Longrightarrow>
   simulates Q (if b then p else p') (if b then q else q')"
  by simp

lemma simulates_option [simulates_rules]:
  "(v = None \<Longrightarrow> simulates Q p q) \<Longrightarrow> (\<And>x. v = Some x \<Longrightarrow> simulates Q (f x) (g x)) \<Longrightarrow>
   simulates Q (case v of None \<Rightarrow> p | Some x \<Rightarrow> f x) (case v of None \<Rightarrow> q | Some x \<Rightarrow> g x)"
  by (cases v) auto

text \<open>A first call that only reads.\<close>

lemma simulates_read [simulates_rules]:
  assumes "\<And>s t. stored s t \<Longrightarrow> \<exists>x. p s = (Inr x, s) \<and> q t = (Inr x, t)"
    and "\<And>x. simulates Q (f x) (g x)"
  shows "simulates Q (bindM p f) (bindM q g)"
proof (unfold simulates_def, intro allI impI)
  fix s t assume st: "stored s t"
  then obtain x where "p s = (Inr x, s)" "q t = (Inr x, t)" using assms(1) by blast
  then have "bindM p f s = f x s" "bindM q g t = g x t" by (simp_all add: bindM_def)
  with assms(2) [of x] st show "case bindM p f s of
      (Inr x, s') \<Rightarrow> \<exists>y t'. bindM q g t = (Inr y, t') \<and> Q x y \<and> stored s' t'
    | (Inl e, s') \<Rightarrow> s' = s \<and> ((\<exists>n. e = External n) \<or> (\<exists>e' t'. bindM q g t = (Inl e', t') \<and> exn_name e' = exn_name e))"
    by (simp only: simulates_def)
qed

lemma simulates_then_ret:
  "simulates Q' p q \<Longrightarrow> Q x x' \<Longrightarrow> simulates Q (bindM p (\<lambda>_. ret x)) (bindM q (\<lambda>_. ret x'))"
  unfolding simulates_def bindM_def by (fastforce split: prod.splits sum.splits)

subsection \<open>Parts of the relation under updates\<close>

lemma rows_match_update:
  "rows_match s t \<Longrightarrow> rows_match (s\<lparr>run_rows := AList.update k r (run_rows s)\<rparr>)
     (t\<lparr>records := AList.update k r (records t)\<rparr>)"
  by (simp add: rows_match_def distinct_update)

lemma rows_match_frame [simp]:
  "rows_match (s\<lparr>step_rows := x\<rparr>) t = rows_match s t"
  "rows_match (s\<lparr>checkpoint_rows := y\<rparr>) t = rows_match s t"
  "rows_match s (t\<lparr>steps := z\<rparr>) = rows_match s t"
  "rows_match s (t\<lparr>checkpoints := w\<rparr>) = rows_match s t"
  "rows_match (pg_insert_step now k st ft s) t = rows_match s t"
  by (simp_all add: rows_match_def pg_insert_step_def)

lemma checkpoints_match_frame [simp]:
  "checkpoints_match (s\<lparr>step_rows := x\<rparr>) t = checkpoints_match s t"
  "checkpoints_match (s\<lparr>run_rows := y\<rparr>) t = checkpoints_match s t"
  "checkpoints_match s (t\<lparr>steps := z\<rparr>) = checkpoints_match s t"
  "checkpoints_match s (t\<lparr>records := w\<rparr>) = checkpoints_match s t"
  "checkpoints_match (pg_insert_step now k st ft s) t = checkpoints_match s t"
  by (simp_all add: checkpoints_match_def pg_insert_step_def)

lemma steps_match_frame [simp]:
  "steps_match (s\<lparr>run_rows := x\<rparr>) t = steps_match s t"
  "steps_match (s\<lparr>checkpoint_rows := y\<rparr>) t = steps_match s t"
  "steps_match s (t\<lparr>records := z\<rparr>) = steps_match s t"
  "steps_match s (t\<lparr>checkpoints := w\<rparr>) = steps_match s t"
  by (simp_all add: steps_match_def)

lemma steps_match_insert:
  assumes "steps_match s t" and "listed (steps t) k = xs" and "step_core x = (k, st, ft)"
  shows "steps_match (pg_insert_step now k st ft s) (t\<lparr>steps := AList.update k (xs @ [x]) (steps t)\<rparr>)"
  using assms by (simp add: steps_match_def pg_insert_step_def listed_def step_core_def)

lemma store_ok_listed: "store_ok t \<Longrightarrow> map_of (records t) k = None \<Longrightarrow> listed (steps t) k = [] \<and> listed (checkpoints t) k = []"
  by (simp add: store_ok_def listed_def)

lemma stored_record: "stored s t \<Longrightarrow> map_of (run_rows s) k = map_of (records t) k"
  by (simp add: stored_def rows_match_def)

subsection \<open>Every method simulates its in-memory counterpart\<close>

lemma pg_insert_step_sel [simp]:
  "run_rows (pg_insert_step now k st ft s) = run_rows s"
  "checkpoint_rows (pg_insert_step now k st ft s) = checkpoint_rows s"
  by (simp_all add: pg_insert_step_def)

lemma sim_create:
  assumes "fresh_record r" and "\<And>r e. column_error r = Some e \<Longrightarrow> \<exists>n. e = External n"
  shows "simulates (\<lambda>_ _. True) (pg_create column_error True now r) (run_create r)"
proof (rule simulatesI)
  fix s t assume st: "stored s t"
  let ?s' = "pg_insert_step now (run_id r) (status r) None
    (s\<lparr>run_rows := AList.update (run_id r) (stored_row True r) (run_rows s)\<rparr>)"
  show "(\<exists>x y s' t'. pg_create column_error True now r s = (Inr x, s') \<and> run_create r t = (Inr y, t') \<and> True \<and> stored s' t') \<or>
    (\<exists>e. pg_create column_error True now r s = (Inl e, s) \<and>
      ((\<exists>n. e = External n) \<or> (\<exists>e' t'. run_create r t = (Inl e', t') \<and> exn_name e' = exn_name e)))"
  proof (cases "pg_create column_error True now r s = (Inr (), ?s')")
    case True
    then have new: "map_of (records t) (run_id r) = None"
      using stored_record [OF st] by (auto simp: pg_create_def split: option.splits if_splits)
    have row: "stored_row True r = r" using assms(1) by (simp add: stored_row_def fresh_record_def)
    have "store_ok (snd (run_create r t))" using run_create_ok st assms(1) by (simp add: stored_def)
    moreover have "steps_match ?s' (t\<lparr>steps := AList.update (run_id r) ([] @
        [\<lparr>step_run_id = run_id r, step_status = status r, occurred_at = created_at r, step_failure_type = None\<rparr>]) (steps t)\<rparr>)"
      by (rule steps_match_insert)
        (use st store_ok_listed [OF _ new] in \<open>auto simp: stored_def step_core_def\<close>)
    moreover have "checkpoints_match s (t\<lparr>checkpoints := AList.update (run_id r) [] (checkpoints t)\<rparr>)"
      using st store_ok_listed [OF _ new] by (auto simp: stored_def checkpoints_match_def listed_def)
    ultimately have "stored ?s' (snd (run_create r t))"
      using st rows_match_update [of s t "run_id r" r] new row
      by (simp add: stored_def run_create_def steps_match_def checkpoints_match_def rows_match_def)
    then show ?thesis using True new by (simp add: run_create_def)
  next
    case False
    then have "\<exists>e. pg_create column_error True now r s = (Inl e, s) \<and> (\<exists>n. e = External n)"
      using assms(2) by (auto simp: pg_create_def unique_violation_def foreign_key_violation_def split: option.splits if_splits)
    then show ?thesis by blast
  qed
qed

lemma sim_transition: "simulates (=) (pg_transition now rid st ft) (run_transition now rid st ft)"
proof (rule simulatesI)
  fix s t assume st: "stored s t"
  note same = stored_record [OF st, of rid]
  show "(\<exists>x y s' t'. pg_transition now rid st ft s = (Inr x, s') \<and> run_transition now rid st ft t = (Inr y, t') \<and> x = y \<and> stored s' t') \<or>
    (\<exists>e. pg_transition now rid st ft s = (Inl e, s) \<and> ((\<exists>n. e = External n) \<or>
      (\<exists>e' t'. run_transition now rid st ft t = (Inl e', t') \<and> exn_name e' = exn_name e)))"
  proof (cases "\<exists>r. map_of (records t) rid = Some r \<and> allowed (status r) st")
    case True
    then obtain r where r: "map_of (records t) rid = Some r" "allowed (status r) st" by blast
    from st have "store_ok t" by (simp add: stored_def)
    from store_okD [OF this r(1)] obtain xs where xs: "map_of (steps t) rid = Some xs" and id: "run_id r = rid" by blast
    note mem = run_transition_done [OF r xs, of now ft]
    let ?s' = "pg_insert_step now rid st ft (s\<lparr>run_rows := AList.update rid (moved now st ft r) (run_rows s)\<rparr>)"
    have pg: "pg_transition now rid st ft s = (Inr (moved now st ft r), ?s')"
      using r same by (simp add: pg_transition_def moved_def Let_def)
    have "store_ok (snd (run_transition now rid st ft t))" using run_transition_ok st by (simp add: stored_def)
    moreover have "steps_match ?s' (t\<lparr>steps := AList.update rid (xs @ [\<lparr>step_run_id = rid, step_status = st,
        occurred_at = now, step_failure_type = ft\<rparr>]) (steps t)\<rparr>)"
      by (rule steps_match_insert) (use st xs in \<open>auto simp: stored_def step_core_def listed_def\<close>)
    ultimately have "stored ?s' (snd (run_transition now rid st ft t))"
      using st rows_match_update [of s t rid "moved now st ft r"] unfolding mem
      by (simp add: stored_def steps_match_def checkpoints_match_def rows_match_def)
    with mem pg show ?thesis by simp
  next
    case False
    then show ?thesis using same
      by (cases "map_of (records t) rid") (auto simp: pg_transition_def run_transition_def)
  qed
qed

lemma sim_counter:
  assumes "\<And>r. (plus_one r)\<lparr>updated_at := now\<rparr> = f r" and "\<And>r. run_id (f r) = run_id r"
    and "\<And>r xs. run_ok r xs \<Longrightarrow> run_ok (f r) xs"
    and "\<And>t. q t = (case map_of (records t) rid of None \<Rightarrow> (Inl (KeyError rid), t)
      | Some r \<Rightarrow> (Inr (column (f r)), t\<lparr>records := AList.update rid (f r) (records t)\<rparr>))"
  shows "simulates (=) (pg_increment column plus_one now rid) q"
proof (rule simulatesI)
  fix s t assume st: "stored s t"
  note same = stored_record [OF st, of rid]
  show "(\<exists>x y s' t'. pg_increment column plus_one now rid s = (Inr x, s') \<and> q t = (Inr y, t') \<and> x = y \<and> stored s' t') \<or>
    (\<exists>e. pg_increment column plus_one now rid s = (Inl e, s) \<and> ((\<exists>n. e = External n) \<or>
      (\<exists>e' t'. q t = (Inl e', t') \<and> exn_name e' = exn_name e)))"
  proof (cases "map_of (records t) rid")
    case None
    with same show ?thesis by (simp add: pg_increment_def assms(4))
  next
    case (Some r)
    from st have ok: "store_ok t" by (simp add: stored_def)
    have "store_ok (t\<lparr>records := AList.update rid (f r) (records t)\<rparr>)"
      by (rule store_ok_record [OF ok Some]) (use store_okD(1) [OF ok Some] assms(2,3) in auto)
    then have "stored (s\<lparr>run_rows := AList.update rid (f r) (run_rows s)\<rparr>) (t\<lparr>records := AList.update rid (f r) (records t)\<rparr>)"
      using st rows_match_update [of s t rid "f r"] by (simp add: stored_def)
    with Some same show ?thesis by (simp add: pg_increment_def assms(1,4) Let_def)
  qed
qed

lemma sim_tool_calls: "simulates (=) (pg_increment_tool_calls now rid) (increment_tool_calls now rid)"
  unfolding pg_increment_tool_calls_def
  by (rule sim_counter [where f = "counted_call now"])
    (auto simp: counted_call_def run_ok_def increment_tool_calls_def Let_def split: option.splits)

lemma sim_retries: "simulates (=) (pg_increment_retries now rid) (increment_retries now rid)"
  unfolding pg_increment_retries_def
  by (rule sim_counter [where f = "counted_retry now"])
    (auto simp: counted_retry_def run_ok_def increment_retries_def Let_def split: option.splits)

lemma sim_get: "stored s t \<Longrightarrow> \<exists>x. pg_get rid s = (Inr x, s) \<and> run_get rid t = (Inr x, t)"
  by (simp add: pg_get_def run_get_def stored_record)

lemma sim_list_checkpoints:
  "stored s t \<Longrightarrow> \<exists>x. pg_list_checkpoints rid s = (Inr x, s) \<and> list_checkpoints rid t = (Inr x, t)"
proof -
  assume "stored s t"
  then have f: "filter (\<lambda>c. cp_run_id c = rid) (checkpoint_rows s) = listed (checkpoints t) rid"
    and so: "sorted (map checkpoint_key (listed (checkpoints t) rid))"
    by (simp_all add: stored_def checkpoints_match_def)
  have "sort_key (\<lambda>c. (cp_created_at c, checkpoint_id c)) (listed (checkpoints t) rid) = listed (checkpoints t) rid"
    using so by (intro sort_key_id_if_sorted) (simp add: checkpoint_key_def [abs_def])
  then show ?thesis unfolding pg_list_checkpoints_def f by (simp add: list_checkpoints_def listed_def)
qed

lemma sim_list_steps:
  "simulates (\<lambda>xs ys. map step_core xs = map step_core ys) (pg_list_steps rid) (run_list_steps rid)"
  by (rule simulatesI) (auto simp: pg_list_steps_def run_list_steps_def stored_def steps_match_def listed_def)

lemma sim_cancel: "simulates (=) (pg_cancel now rid uid) (run_cancel now rid uid)"
  unfolding pg_cancel_def run_cancel_def
  by (intro simulates_rules sim_get sim_transition refl)

lemma sim_recovery:
  assumes "\<And>r e. column_error r = Some e \<Longrightarrow> \<exists>n. e = External n"
  shows "simulates (=) (pg_create_recovery_child column_error True c u now cid pid uid ins)
    (create_recovery_child c u cid pid uid ins)"
  unfolding pg_create_recovery_child_def create_recovery_child_def Let_def
  by (intro simulates_rules sim_get sim_list_checkpoints
      simulates_then_ret [OF sim_create [OF fresh_new_run_record assms]] refl)

text \<open>The restart sweep: what the loop and the update add to the histories.\<close>

abbreviation failed_step :: "time \<Rightarrow> string \<Rightarrow> string \<Rightarrow> run_step" where
  "failed_step now ft k \<equiv> \<lparr>step_run_id = k, step_status = FAILED, occurred_at = now, step_failure_type = Some ft\<rparr>"

lemma fail_loop_steps:
  assumes "fail_loop now ft before rs n s = (Inr m, s')" and "distinct (map fst rs)"
  shows "checkpoints s' = checkpoints s \<and> (\<forall>k. listed (steps s') k = listed (steps s) k @
    (if \<exists>r. map_of rs k = Some r \<and> incomplete before r then [failed_step now ft k] else []))"
  using assms
proof (induction rs arbitrary: n s)
  case (Cons kr rs)
  obtain k r where kr: "kr = (k, r)" by fastforce
  have d: "distinct (map fst rs)" and notin: "map_of rs k = None"
    using Cons.prems(2) by (simp_all add: kr map_of_eq_None_iff)
  show ?case
  proof (cases "incomplete before r")
    case False
    with Cons.prems(1) have "fail_loop now ft before rs n s = (Inr m, s')" by (simp add: kr)
    from Cons.IH [OF this d] False notin show ?thesis by (auto simp: kr)
  next
    case True
    with Cons.prems(1) obtain xs where xs: "map_of (steps s) k = Some xs"
      and l: "fail_loop now ft before rs (n + 1) (s\<lparr>records := AList.update k (closed_failed now ft r) (records s),
        steps := AList.update k (xs @ [failed_step now ft k]) (steps s)\<rparr>) = (Inr m, s')"
      by (auto simp: kr bindM_def append_step_def split: option.splits)
    from Cons.IH [OF l d] True notin xs show ?thesis by (auto simp: kr listed_def)
  qed
qed simp

lemma insert_steps_effect:
  assumes "numbered_ok (step_rows s)" and "distinct (map fst hit)"
  shows "run_rows (foldl (\<lambda>s (k, _). pg_insert_step now k FAILED (Some ft) s) s hit) = run_rows s \<and>
    checkpoint_rows (foldl (\<lambda>s (k, _). pg_insert_step now k FAILED (Some ft) s) s hit) = checkpoint_rows s \<and>
    numbered_ok (step_rows (foldl (\<lambda>s (k, _). pg_insert_step now k FAILED (Some ft) s) s hit)) \<and>
    (\<forall>k. ordered_rows (step_rows (foldl (\<lambda>s (k, _). pg_insert_step now k FAILED (Some ft) s) s hit)) k =
      ordered_rows (step_rows s) k @ (if k \<in> fst ` set hit then [failed_step now ft k] else []))"
  using assms
proof (induction hit arbitrary: s)
  case (Cons kr hit)
  obtain k r where kr: "kr = (k, r)" by fastforce
  have n: "numbered_ok (step_rows (pg_insert_step now k FAILED (Some ft) s))"
    using Cons.prems(1) by (simp add: pg_insert_step_def)
  have d: "distinct (map fst hit)" "k \<notin> fst ` set hit" using Cons.prems(2) by (simp_all add: kr)
  have o: "ordered_rows (step_rows (pg_insert_step now k FAILED (Some ft) s)) k' =
      ordered_rows (step_rows s) k' @ (if k' = k then [failed_step now ft k] else [])" for k'
    using Cons.prems(1) by (simp add: pg_insert_step_def)
  from Cons.IH [OF n d(1)] d(2) show ?case by (auto simp: kr o)
qed simp

lemma length_filter_dict:
  assumes "distinct (map fst d)"
  shows "length (filter (\<lambda>x. P (snd x)) d) = card {k. \<exists>r. map_of d k = Some r \<and> P r}"
proof -
  have "{k. \<exists>r. map_of d k = Some r \<and> P r} = fst ` set (filter (\<lambda>x. P (snd x)) d)"
    using assms by (force dest: map_of_SomeD simp: map_of_eq_Some_iff)
  moreover have "distinct (map fst (filter (\<lambda>x. P (snd x)) d))"
    using assms by (rule distinct_map_filter)
  ultimately show ?thesis by (metis distinct_card length_map list.set_map)
qed

lemma sim_fail: "simulates (=) (pg_fail_incomplete_runs now ft before) (fail_incomplete_runs now ft before)"
proof (rule simulatesI, rule disjI1)
  fix s t assume st: "stored s t"
  then have ok: "store_ok t" and rm: "distinct (map fst (run_rows s))" "\<And>k. map_of (run_rows s) k = map_of (records t) k"
    and sm: "numbered_ok (step_rows s)" "\<And>k. map step_core (ordered_rows (step_rows s) k) = map step_core (listed (steps t) k)"
    and cm: "checkpoints_match s t"
    by (simp_all add: stored_def rows_match_def steps_match_def)
  from ok have dt: "distinct (map fst (records t))" by (simp add: store_ok_def)
  obtain t' where t': "fail_incomplete_runs now ft before t =
       (Inr (int (length (filter (\<lambda>x. incomplete before (snd x)) (records t)))), t')" "store_ok t'"
    "\<And>k. map_of (records t') k = map_option (close_all now ft before) (map_of (records t) k)"
    using fail_incomplete_runs_effect [OF ok] by metis
  from fail_loop_steps [OF t'(1) [unfolded fail_incomplete_runs_def] dt]
  have ts: "checkpoints t' = checkpoints t" "\<And>k. listed (steps t') k = listed (steps t) k @
    (if \<exists>r. map_of (records t) k = Some r \<and> incomplete before r then [failed_step now ft k] else [])" by auto
  let ?rows = "map (\<lambda>(k, r). (k, if incomplete before r then closed_failed now ft r else r)) (run_rows s)"
  let ?hit = "filter (\<lambda>(_, r). incomplete before r) (run_rows s)"
  have hit: "?hit = filter (\<lambda>x. incomplete before (snd x)) (run_rows s)" by (simp add: case_prod_beta')
  define s' where "s' = foldl (\<lambda>s (k, _). pg_insert_step now k FAILED (Some ft) s) (s\<lparr>run_rows := ?rows\<rparr>) ?hit"
  have "distinct (map fst ?hit)" using rm(1) by (rule distinct_map_filter)
  with insert_steps_effect [of "s\<lparr>run_rows := ?rows\<rparr>" ?hit now ft] sm(1)
  have s': "run_rows s' = ?rows" "checkpoint_rows s' = checkpoint_rows s" "numbered_ok (step_rows s')"
    "\<And>k. ordered_rows (step_rows s') k = ordered_rows (step_rows s) k @ (if k \<in> fst ` set ?hit then [failed_step now ft k] else [])"
    unfolding s'_def by simp_all
  have keys: "k \<in> fst ` set ?hit \<longleftrightarrow> (\<exists>r. map_of (records t) k = Some r \<and> incomplete before r)" for k
    by (force simp: map_of_eq_Some_iff [OF rm(1)] simp flip: rm(2))
  have "?rows = map (\<lambda>(k, r). (k, close_all now ft before r)) (run_rows s)" by (simp add: close_all_def)
  then have "map_of ?rows k = map_of (records t') k" for k
    by (simp only: map_of_map_values t'(3) rm(2))
  moreover have "map fst ?rows = map fst (run_rows s)" by (simp add: comp_def case_prod_beta')
  ultimately have "rows_match s' t'" using rm(1) s'(1) unfolding rows_match_def by (metis (no_types))
  moreover have "steps_match s' t'" unfolding steps_match_def using s'(3,4) sm(2) ts(2) keys by simp
  moreover have "checkpoints_match s' t'" using cm s'(2) ts(1) by (simp add: checkpoints_match_def)
  ultimately have "stored s' t'" using t'(2) by (simp add: stored_def)
  moreover have "length ?hit = length (filter (\<lambda>x. incomplete before (snd x)) (records t))"
    unfolding hit length_filter_dict [OF rm(1)] length_filter_dict [OF dt] rm(2) ..
  then have "pg_fail_incomplete_runs now ft before s =
      (Inr (int (length (filter (\<lambda>x. incomplete before (snd x)) (records t)))), s')"
    by (simp add: pg_fail_incomplete_runs_def s'_def Let_def)
  ultimately show "\<exists>x y s' t'. pg_fail_incomplete_runs now ft before s = (Inr x, s') \<and>
      fail_incomplete_runs now ft before t = (Inr y, t') \<and> x = y \<and> stored s' t'"
    using t'(1) by blast
qed

lemma pg_artifacts_agree:
  "(pg_check_artifacts as = Inr () \<longleftrightarrow> check_artifacts as = Inr ()) \<and>
   (\<forall>e e'. pg_check_artifacts as = Inl e \<longrightarrow> check_artifacts as = Inl e' \<longrightarrow> exn_name e = exn_name e')"
  by (induction as) auto

lemma store_ok_checkpoint:
  "store_ok t \<Longrightarrow> map_of (records t) k \<noteq> None \<Longrightarrow> store_ok (t\<lparr>checkpoints := AList.update k cps (checkpoints t)\<rparr>)"
  by (fastforce simp: store_ok_def)

text \<open>A checkpoint that is stamped later than those before it.\<close>

lemma sim_add_checkpoint:
  assumes st: "stored s t" and later: "\<forall>c \<in> set (checkpoint_rows s). checkpoint_key c < (now, cid)"
  shows "case pg_add_checkpoint now cid rid stg arts safe s of
      (Inr x, s') \<Rightarrow> \<exists>t'. add_checkpoint now cid rid stg arts safe t = (Inr x, t') \<and> stored s' t'
    | (Inl e, s') \<Rightarrow> s' = s \<and> ((\<exists>n. e = External n) \<or>
        (\<exists>e' t'. add_checkpoint now cid rid stg arts safe t = (Inl e', t') \<and> exn_name e' = exn_name e))"
proof (cases "pg_check_artifacts arts")
  case (Inl e)
  then obtain e' where "check_artifacts arts = Inl e'" "exn_name e' = exn_name e"
    using pg_artifacts_agree [of arts] by (cases "check_artifacts arts") auto
  with Inl show ?thesis by (auto simp: pg_add_checkpoint_def add_checkpoint_def)
next
  case (Inr u)
  then have c: "check_artifacts arts = Inr ()" using pg_artifacts_agree [of arts] by simp
  note same = stored_record [OF st, of rid]
  from st have ok: "store_ok t" and cm: "checkpoints_match s t" by (simp_all add: stored_def)
  show ?thesis
  proof (cases "map_of (records t) rid = None \<or> cid \<in> checkpoint_id ` set (checkpoint_rows s)")
    case True
    with Inr same show ?thesis
      by (auto simp: pg_add_checkpoint_def foreign_key_violation_def unique_violation_def)
  next
    case False
    let ?cp = "\<lparr>checkpoint_id = cid, cp_run_id = rid, stage = stg, artifacts = arts,
      safe_to_resume = safe, cp_created_at = now\<rparr>"
    from False ok obtain cps where cps: "map_of (checkpoints t) rid = Some cps" by (fastforce simp: store_ok_def)
    let ?t' = "t\<lparr>checkpoints := AList.update rid (cps @ [?cp]) (checkpoints t)\<rparr>"
    have old: "set cps \<subseteq> set (checkpoint_rows s)" "sorted (map checkpoint_key cps)"
      using cm cps unfolding checkpoints_match_def listed_def by (metis filter_is_subset option.simps(5))+
    then have "sorted (map checkpoint_key (cps @ [?cp]))"
      using later by (auto simp: sorted_append checkpoint_key_def [of ?cp] less_imp_le subset_iff)
    then have "checkpoints_match (s\<lparr>checkpoint_rows := checkpoint_rows s @ [?cp]\<rparr>) ?t'"
      using cm cps by (auto simp: checkpoints_match_def listed_def)
    moreover have "store_ok ?t'" using store_ok_checkpoint [OF ok] False by simp
    ultimately have "stored (s\<lparr>checkpoint_rows := checkpoint_rows s @ [?cp]\<rparr>) ?t'"
      using st by (simp add: stored_def)
    with False Inr c cps same show ?thesis
      by (auto simp: pg_add_checkpoint_def add_checkpoint_def Let_def)
  qed
qed

subsection \<open>Properties\<close>


subsection \<open>One open run per conversation\<close>

inductive pg_step :: "pg_runs \<Rightarrow> pg_runs \<Rightarrow> bool" where
  create: "pg_step s (snd (pg_create column_error True now r s))"
| transition: "pg_step s (snd (pg_transition now rid st ft s))"
| calls: "pg_step s (snd (pg_increment_tool_calls now rid s))"
| retries: "pg_step s (snd (pg_increment_retries now rid s))"
| fail: "pg_step s (snd (pg_fail_incomplete_runs now ft before s))"
| checkpoint: "pg_step s (snd (pg_add_checkpoint now cid rid stg arts safe s))"
| cancel: "pg_step s (snd (pg_cancel now rid uid s))"
| recover: "pg_step s (snd (pg_create_recovery_child column_error True c u now cid pid uid ins s))"

inductive pg_reachable :: "pg_runs \<Rightarrow> bool" where
  start: "pg_reachable empty_pg_runs"
| step: "pg_reachable s \<Longrightarrow> pg_step s s' \<Longrightarrow> pg_reachable s'"

definition open_in :: "string \<Rightarrow> run_record \<Rightarrow> bool" where
  "open_in c r \<longleftrightarrow> conversation_id r = Some c \<and> \<not> terminal (status r)"

definition one_open :: "pg_runs \<Rightarrow> bool" where
  "one_open s \<longleftrightarrow> distinct (map fst (run_rows s)) \<and>
     (\<forall>c k k' r r'. map_of (run_rows s) k = Some r \<longrightarrow> map_of (run_rows s) k' = Some r' \<longrightarrow>
        open_in c r \<longrightarrow> open_in c r' \<longrightarrow> k = k')"

lemma idle_terminal: "set (idle_statuses True) = set TERMINAL_STATUSES"
  by (auto simp: idle_statuses_def TERMINAL_STATUSES_def)

lemma pg_runs_rows_update: "run_rows (s\<lparr>run_rows := x\<rparr>) = x"
  by simp

text \<open>A row may be replaced by one that is open only where the old row was.\<close>

lemma one_open_update:
  assumes "one_open s" and "map_of (run_rows s) k = Some r" and "\<And>c. open_in c r' \<Longrightarrow> open_in c r"
  shows "one_open (s\<lparr>run_rows := AList.update k r' (run_rows s)\<rparr>)"
proof -
  have u: "a = b" if "map_of (run_rows s) a = Some x" "map_of (run_rows s) b = Some y" "open_in c x" "open_in c y" for a b c x y
    using assms(1) that unfolding one_open_def by blast
  have "a = b" if "map_of (AList.update k r' (run_rows s)) a = Some x" "map_of (AList.update k r' (run_rows s)) b = Some y"
    "open_in c x" "open_in c y" for a b c x y
    using that u assms(2,3) by (cases "a = k"; cases "b = k") auto
  moreover have "distinct (map fst (AList.update k r' (run_rows s)))"
    using assms(1) by (simp add: one_open_def distinct_update)
  ultimately show ?thesis unfolding one_open_def pg_runs_rows_update by blast
qed

lemma one_open_frame [simp]:
  "one_open (pg_insert_step now k st ft s) = one_open s"
  "one_open (s\<lparr>checkpoint_rows := x\<rparr>) = one_open s"
  by (simp_all add: one_open_def)

lemma one_open_create: "one_open s \<Longrightarrow> one_open (snd (pg_create column_error True now r s))"
proof -
  assume inv: "one_open s"
  show ?thesis
  proof (cases "snd (pg_create column_error True now r s) = s")
    case False
    then have new: "map_of (run_rows s) (run_id r) = None" and free: "\<not> conversation_busy True r (run_rows s)"
      and s': "snd (pg_create column_error True now r s) = pg_insert_step now (run_id r) (status r) None
        (s\<lparr>run_rows := AList.update (run_id r) (stored_row True r) (run_rows s)\<rparr>)"
      by (auto simp: pg_create_def split: option.splits if_splits)
    have "open_in c (stored_row True r) = open_in c r" for c by (simp add: open_in_def stored_row_def)
    moreover have "\<not> open_in c r'" if "open_in c r" "map_of (run_rows s) k = Some r'" for c k r'
      using that free map_of_SomeD [OF that(2)]
      by (fastforce simp: conversation_busy_def idle_terminal open_in_def list_ex_iff)
    ultimately show ?thesis
      using inv new unfolding s' one_open_def by (simp add: distinct_update) metis
  qed (use inv in simp)
qed

lemma one_open_transition: "one_open s \<Longrightarrow> one_open (snd (pg_transition now rid st ft s))"
proof -
  assume inv: "one_open s"
  show ?thesis
  proof (cases "\<exists>r. map_of (run_rows s) rid = Some r \<and> allowed (status r) st")
    case True
    then obtain r where r: "map_of (run_rows s) rid = Some r" "allowed (status r) st" by blast
    have "one_open (s\<lparr>run_rows := AList.update rid (moved now st ft r) (run_rows s)\<rparr>)"
      by (rule one_open_update [OF inv r(1)])
        (use allowed_not_terminal [OF r(2)] in \<open>auto simp: open_in_def\<close>)
    then show ?thesis using r by (simp add: pg_transition_def moved_def Let_def)
  next
    case False
    then show ?thesis using inv by (auto simp: pg_transition_def split: option.splits)
  qed
qed

lemma one_open_counter:
  assumes "one_open s" and "\<And>r c. open_in c ((plus_one r)\<lparr>updated_at := now\<rparr>) = open_in c r"
  shows "one_open (snd (pg_increment column plus_one now rid s))"
  using one_open_update [OF assms(1), of rid] assms
  by (auto simp: pg_increment_def Let_def split: option.splits)

lemma fail_rows: "run_rows (snd (pg_fail_incomplete_runs now ft before s)) =
    map (\<lambda>(k, r). (k, close_all now ft before r)) (run_rows s)"
proof -
  have "run_rows (foldl (\<lambda>s (k, _). pg_insert_step now k FAILED (Some ft) s) s0 hit) = run_rows s0"
    for s0 and hit :: "(string \<times> run_record) list"
    by (induction hit arbitrary: s0) (auto simp: pg_insert_step_def)
  then show ?thesis by (simp only: pg_fail_incomplete_runs_def Let_def snd_conv close_all_def pg_runs_rows_update)
qed

lemma one_open_fail: "one_open s \<Longrightarrow> one_open (snd (pg_fail_incomplete_runs now ft before s))"
proof -
  assume inv: "one_open s"
  let ?rows = "map (\<lambda>(k, r). (k, close_all now ft before r)) (run_rows s)"
  note rows = fail_rows [of now ft before s]
  have keys: "map fst ?rows = map fst (run_rows s)" by auto
  have "open_in c (close_all now ft before r) \<Longrightarrow> open_in c r" for c r
    by (auto simp: open_in_def close_all_def closed_failed_def TERMINAL_STATUSES_def split: if_splits)
  then have "\<exists>x0. map_of (run_rows s) a = Some x0 \<and> open_in c x0"
    if "map_of ?rows a = Some x" "open_in c x" for a c x
    using that by (auto simp: map_of_map_values)
  moreover have "a = b" if "map_of (run_rows s) a = Some x" "map_of (run_rows s) b = Some y" "open_in c x" "open_in c y" for a b c x y
    using inv that unfolding one_open_def by blast
  moreover have "distinct (map fst ?rows)" using inv keys unfolding one_open_def by metis
  ultimately show ?thesis unfolding one_open_def rows by blast
qed

lemma one_open_step: "pg_step s s' \<Longrightarrow> one_open s \<Longrightarrow> one_open s'"
proof (induction rule: pg_step.induct)
  case (calls s now rid)
  then show ?case unfolding pg_increment_tool_calls_def by (intro one_open_counter) (simp_all add: open_in_def)
next
  case (retries s now rid)
  then show ?case unfolding pg_increment_retries_def by (intro one_open_counter) (simp_all add: open_in_def)
next
  case (checkpoint s now cid rid stg arts safe)
  then show ?case by (auto simp: pg_add_checkpoint_def Let_def split: sum.splits)
next
  case (cancel s now rid uid)
  then show ?case by (auto simp: pg_cancel_def bindM_def pg_get_def one_open_transition split: option.splits)
next
  case (recover s column_error c u now cid pid uid ins)
  have "keeps one_open (pg_create_recovery_child column_error True c u now cid pid uid ins)"
    unfolding pg_create_recovery_child_def
    by (intro keeps_rules keepsI one_open_create) (simp_all add: pg_get_def pg_list_checkpoints_def)
  then show ?case using recover by (rule keepsD)
qed (simp_all add: one_open_create one_open_transition one_open_fail)

lemma pg_reachable_one_open: "pg_reachable s \<Longrightarrow> one_open s"
proof (induction rule: pg_reachable.induct)
  case start
  show ?case by (simp add: one_open_def empty_pg_runs_def)
qed (rule one_open_step)

text \<open>C19. In every reachable PostgreSQL store a conversation has at most one run that is still open,
whatever calls were made in whatever order.\<close>

theorem one_open_run_per_conversation:
  assumes "pg_reachable s"
    and "map_of (run_rows s) a = Some r" and "map_of (run_rows s) b = Some r'"
    and "conversation_id r = Some c" and "conversation_id r' = Some c"
    and "status r \<notin> set TERMINAL_STATUSES" and "status r' \<notin> set TERMINAL_STATUSES"
  shows "a = b"
  using pg_reachable_one_open [OF assms(1)] assms(2-) unfolding one_open_def open_in_def by metis

definition talk_run :: "string \<Rightarrow> run_record" where
  "talk_run rid = new_run_record 0 0 rid ''u1'' (Some ''c1'') ''h'' READ_QUERY None None"


theorem one_open_run_per_conversation_witness:
  "\<not> (\<exists>r'. map_of (run_rows (snd (pg_create (\<lambda>_. None) True 6 (talk_run ''r2'')
      (snd (pg_create (\<lambda>_. None) True 5 (talk_run ''r1'') empty_pg_runs))))) ''r2'' = Some r' \<and>
    conversation_id r' = Some ''c1'' \<and> status r' = RECEIVED)"
proof -
  let ?s = "snd (pg_create (\<lambda>_. None) True 5 (talk_run ''r1'') empty_pg_runs)"
  let ?s' = "snd (pg_create (\<lambda>_. None) True 6 (talk_run ''r2'') ?s)"
  have reach: "pg_reachable ?s'"
    by (intro pg_reachable.step [OF _ pg_step.create] pg_reachable.start)
  have "map_of (run_rows ?s) ''r1'' = Some (talk_run ''r1'')"
    by (simp add: pg_create_def empty_pg_runs_def conversation_busy_def talk_run_def stored_row_def new_run_record_def Let_def)
  then have "map_of (run_rows ?s') ''r1'' = Some (talk_run ''r1'')"
    by (simp add: pg_create_def [of _ _ 6] talk_run_def)
  from one_open_run_per_conversation [OF reach this] show ?thesis
    by (fastforce simp: talk_run_def TERMINAL_STATUSES_def)
qed

end
