(* ===== verification/Clarification.thy ===== *)
theory Clarification
  imports Run_Store
begin

section \<open>Clarification cards and resume tokens\<close>

text \<open>
  \<open>agent-service/app/harness/clarification.py\<close>: the cards and tokens, the in-memory card store, and
  the service that pauses a run for the user, answers the card with a child run, and lets the
  child be claimed once with its token. The service works on two stores: the run store through the
  protocol of \<open>Run_Contract\<close>, and the card store through \<open>card_ops\<close>; \<open>card_contract\<close> says
  what the service relies on. The path of the service that delegates to a PostgreSQL card store
  (\<open>answer_atomic\<close> and \<open>claim_resume_atomic\<close>) is in \<open>Clarification_Pg\<close>.

  Clock readings are arguments, in the order of the calls (\<open>t 0\<close>, \<open>t 1\<close>, \<open>\<dots>\<close>), as are
  the fresh identifiers and the fresh token.
\<close>

subsection \<open>Data\<close>

record clarification_option =
  option_id :: string
  option_label :: string
  value_id :: string
  evidence_id :: string
  source_hash :: string

record material_ambiguity =
  amb_id :: string
  amb_question :: string
  amb_options :: "clarification_option list"
  amb_reason :: string

record clarification_card =
  card_id :: string
  card_parent :: string
  card_user :: string
  card_ambiguity :: string
  card_question :: string
  card_options :: "clarification_option list"
  card_reason :: string
  card_expires_at :: time
  card_created_at :: time
  answered_at :: "time option"
  selected_option_id :: "string option"
  card_child :: "string option"

record resume_token =
  tok_child :: string
  tok_parent :: string
  tok_user :: string
  token_hash :: string
  evidence_hash :: string
  tok_expires_at :: time
  consumed_at :: "time option"

record clarification_resolution =
  res_child :: string
  res_parent :: string
  res_token :: string
  res_expires_at :: time
  res_selection :: "(string, string) dict"

text \<open>\<open>timedelta(seconds=n)\<close> in microseconds.\<close>

definition seconds :: "int \<Rightarrow> time" where
  "seconds n = n * 1000000"

subsection \<open>The card store\<close>

text \<open>The checks of \<open>claim_resume\<close> in order; \<open>None\<close> means that the token may be consumed.\<close>

definition resume_refusal :: "time \<Rightarrow> string \<Rightarrow> string \<Rightarrow> resume_token option \<Rightarrow> exn option" where
  "resume_refusal now uid hash found =
     (case found of
        None \<Rightarrow> Some (ResumeNotFound ''resume not found'')
      | Some r \<Rightarrow>
          if tok_user r \<noteq> uid then Some (ResumeNotFound ''resume not found'')
          else if consumed_at r \<noteq> None then Some (ResumeReplay ''resume token already consumed'')
          else if tok_expires_at r \<le> now then Some (ResumeExpired ''resume token expired'')
          else if token_hash r \<noteq> hash then Some (ResumeInvalid ''resume token is invalid'')
          else None)"

record card_store =
  cards :: "(string, clarification_card) dict"
  resume_tokens :: "(string, resume_token) dict"

definition card_save :: "clarification_card \<Rightarrow> (card_store, unit) py" where
  "card_save c s = (Inr (), s\<lparr>cards := AList.update (card_parent c) c (cards s)\<rparr>)"

definition card_get :: "string \<Rightarrow> (card_store, clarification_card option) py" where
  "card_get parent s = (Inr (map_of (cards s) parent), s)"

definition card_save_resume :: "resume_token \<Rightarrow> (card_store, unit) py" where
  "card_save_resume r s = (Inr (), s\<lparr>resume_tokens := AList.update (tok_child r) r (resume_tokens s)\<rparr>)"

text \<open>\<open>now\<close> and \<open>now'\<close> are the readings of the expiry check and of the consumption.\<close>

definition card_claim_resume ::
  "time \<Rightarrow> time \<Rightarrow> string \<Rightarrow> string \<Rightarrow> string \<Rightarrow> (card_store, unit) py" where
  "card_claim_resume now now' child uid hash s =
     (case resume_refusal now uid hash (map_of (resume_tokens s) child) of
        Some e \<Rightarrow> (Inl e, s)
      | None \<Rightarrow> (Inr (), s\<lparr>resume_tokens :=
          AList.update child ((the (map_of (resume_tokens s) child))\<lparr>consumed_at := Some now'\<rparr>)
            (resume_tokens s)\<rparr>))"

subsection \<open>The contract of the card store\<close>

record 's card_ops =
  op_save :: "clarification_card \<Rightarrow> ('s, unit) py"
  op_get_card :: "string \<Rightarrow> ('s, clarification_card option) py"
  op_save_resume :: "resume_token \<Rightarrow> ('s, unit) py"
  op_claim_resume :: "time \<Rightarrow> time \<Rightarrow> string \<Rightarrow> string \<Rightarrow> string \<Rightarrow> ('s, unit) py"

text \<open>
  Over one state with the runs: the four operations do what their names say to the cards and the
  tokens, they do not touch the runs, and the run operations do not touch cards and tokens.
\<close>

locale card_contract = run_store_contract ops view invar
  for ops :: "'s run_ops" and view :: "'s \<Rightarrow> string \<Rightarrow> run_record option"
    and invar :: "'s \<Rightarrow> bool" +
  fixes cops :: "'s card_ops"
    and card :: "'s \<Rightarrow> string \<Rightarrow> clarification_card option"
    and token :: "'s \<Rightarrow> string \<Rightarrow> resume_token option"
  assumes save: "\<exists>s'. op_save cops c s = (Inr (), s') \<and> view s' = view s \<and> token s' = token s \<and>
      card s' = (card s)(card_parent c := Some c) \<and> (invar s \<longrightarrow> invar s')"
    and get_card: "op_get_card cops k s = (Inr (card s k), s)"
    and save_resume: "\<exists>s'. op_save_resume cops r s = (Inr (), s') \<and> view s' = view s \<and>
      card s' = card s \<and> token s' = (token s)(tok_child r := Some r) \<and> (invar s \<longrightarrow> invar s')"
    and claim_refused: "resume_refusal now uid hash (token s k) = Some e \<Longrightarrow>
      op_claim_resume cops now now' k uid hash s = (Inl e, s)"
    and claim_done: "resume_refusal now uid hash (token s k) = None \<Longrightarrow>
      \<exists>s'. op_claim_resume cops now now' k uid hash s = (Inr (), s') \<and> view s' = view s \<and>
        card s' = card s \<and> (invar s \<longrightarrow> invar s') \<and>
        token s' = (token s)(k := Some ((the (token s k))\<lparr>consumed_at := Some now'\<rparr>))"
    and create_frame: "card (snd (op_create ops rec s)) = card s \<and> token (snd (op_create ops rec s)) = token s"
    and transition_frame: "card (snd (op_transition ops now rid st ft s)) = card s \<and>
      token (snd (op_transition ops now rid st ft s)) = token s"

subsection \<open>The service\<close>

record clarification_config =
  ttl_seconds :: int
  resume_ttl_seconds :: int

definition check_clarification_config :: "clarification_config \<Rightarrow> exn + clarification_config" where
  "check_clarification_config c =
     (if ttl_seconds c < 1 then Inl (ValueError ''ttl_seconds must be positive'')
      else if resume_ttl_seconds c < 1 then Inl (ValueError ''resume_ttl_seconds must be positive'')
      else Inr c)"

definition option_unbacked :: "clarification_option \<Rightarrow> bool" where
  "option_unbacked e \<longleftrightarrow> evidence_id e = [] \<or> source_hash e = []"

text \<open>The checks of \<open>create\<close>, in order.\<close>

definition create_refusal ::
  "string \<Rightarrow> string \<Rightarrow> material_ambiguity \<Rightarrow> run_record option \<Rightarrow> exn option" where
  "create_refusal pid uid a found =
     (case found of
        None \<Rightarrow> Some (KeyError pid)
      | Some parent \<Rightarrow>
          if user_id parent \<noteq> uid then Some (PermissionError ''run belongs to another user'')
          else if length (amb_options a) \<notin> {2, 3}
          then Some (ValueError ''clarification requires two or three options'')
          else if \<not> distinct (map option_id (amb_options a))
          then Some (ValueError ''clarification option ids must be unique'')
          else if list_ex option_unbacked (amb_options a)
          then Some (ValueError ''clarification options must be source-backed'')
          else if status parent \<notin> {LINKING, GENERATING, TOOL_RUNNING}
          then Some (ValueError ''clarification can only be created from linking or schema-search generation'')
          else None)"

definition new_card ::
  "clarification_config \<Rightarrow> (nat \<Rightarrow> time) \<Rightarrow> string \<Rightarrow> string \<Rightarrow> string \<Rightarrow> material_ambiguity \<Rightarrow>
   clarification_card" where
  "new_card c t cid pid uid a =
     \<lparr>card_id = cid, card_parent = pid, card_user = uid, card_ambiguity = amb_id a,
      card_question = amb_question a, card_options = amb_options a, card_reason = amb_reason a,
      card_expires_at = t 0 + seconds (ttl_seconds c), card_created_at = t 1, answered_at = None,
      selected_option_id = None, card_child = None\<rparr>"

definition clar_create ::
  "'s run_ops \<Rightarrow> 's card_ops \<Rightarrow> clarification_config \<Rightarrow> (nat \<Rightarrow> time) \<Rightarrow> string \<Rightarrow> string \<Rightarrow> string \<Rightarrow>
   material_ambiguity \<Rightarrow> ('s, clarification_card) py" where
  "clar_create ops cops c t cid pid uid a =
     bindM (op_get ops pid) (\<lambda>found.
       case create_refusal pid uid a found of
         Some e \<Rightarrow> raise e
       | None \<Rightarrow>
           thenM (op_save cops (new_card c t cid pid uid a))
             (thenM (op_transition ops (t 2) pid NEEDS_CLARIFICATION None)
               (ret (new_card c t cid pid uid a))))"

text \<open>The checks of \<open>answer\<close>, up to the chosen option.\<close>

definition answer_choice ::
  "time \<Rightarrow> string \<Rightarrow> string \<Rightarrow> string \<Rightarrow> clarification_card option \<Rightarrow>
   exn + (clarification_card \<times> clarification_option)" where
  "answer_choice now pid uid oid found =
     (case found of
        None \<Rightarrow> Inl (KeyError pid)
      | Some c \<Rightarrow>
          if card_user c \<noteq> uid then Inl (PermissionError ''clarification belongs to another user'')
          else if answered_at c \<noteq> None
          then Inl (ClarificationAlreadyAnswered ''clarification already answered'')
          else if card_expires_at c \<le> now
          then Inl (ClarificationExpired ''clarification has expired'')
          else (case find (\<lambda>e. option_id e = oid) (card_options c) of
                  None \<Rightarrow> Inl (ValueError ''unknown clarification option'')
                | Some e \<Rightarrow> Inr (c, e)))"

definition child_hash :: "string \<Rightarrow> clarification_option \<Rightarrow> string" where
  "child_hash parent_hash e =
     sha256_hex (parent_hash @ [CHR 0x0A] @ evidence_id e @ [CHR 0x0A] @ source_hash e)"

definition answer_child ::
  "(nat \<Rightarrow> time) \<Rightarrow> string \<Rightarrow> string \<Rightarrow> run_record \<Rightarrow> clarification_option \<Rightarrow> run_record" where
  "answer_child t child uid parent e =
     new_run_record (t 1) (t 2) child uid (conversation_id parent)
       (child_hash (instruction_hash parent) e) READ_QUERY (Some (run_id parent))
       (Some (correlation_id parent))"

text \<open>\<open>answer\<close> without an atomic card store.\<close>

definition clar_answer ::
  "'s run_ops \<Rightarrow> 's card_ops \<Rightarrow> (nat \<Rightarrow> time) \<Rightarrow> string \<Rightarrow> string \<Rightarrow> string \<Rightarrow> string \<Rightarrow>
   ('s, run_record) py" where
  "clar_answer ops cops t child pid uid oid =
     bindM (op_get_card cops pid) (\<lambda>found.
       case answer_choice (t 0) pid uid oid found of
         Inl e \<Rightarrow> raise e
       | Inr (c, e) \<Rightarrow>
           bindM (op_get ops pid) (\<lambda>found_parent.
             case found_parent of
               None \<Rightarrow> raise (KeyError pid)
             | Some parent \<Rightarrow>
                 (let r = answer_child t child uid parent e
                  in thenM (op_create ops r)
                       (thenM (op_save cops (c\<lparr>answered_at := Some (t 3),
                            selected_option_id := Some oid, card_child := Some child\<rparr>))
                         (ret r)))))"

definition option_selection :: "clarification_option \<Rightarrow> (string, string) dict" where
  "option_selection e = [(''option_id'', option_id e), (''label'', option_label e),
     (''evidence_id'', evidence_id e), (''source_hash'', source_hash e)]"

text \<open>\<open>answer_with_resume\<close>; \<open>tok\<close> is the fresh token.\<close>

definition clar_answer_with_resume ::
  "'s run_ops \<Rightarrow> 's card_ops \<Rightarrow> clarification_config \<Rightarrow> (nat \<Rightarrow> time) \<Rightarrow> string \<Rightarrow> string \<Rightarrow> string \<Rightarrow>
   string \<Rightarrow> string \<Rightarrow> ('s, clarification_resolution) py" where
  "clar_answer_with_resume ops cops c t child tok pid uid oid =
     bindM (op_get ops pid) (\<lambda>found.
       case found of
         None \<Rightarrow> raise (KeyError pid)
       | Some parent \<Rightarrow>
           if user_id parent \<noteq> uid
           then raise (PermissionError ''clarification belongs to another user'')
           else if operation_kind parent \<noteq> READ_QUERY
           then raise (ValueError ''clarification resume only supports READ_QUERY'')
           else bindM (clar_answer ops cops t child pid uid oid) (\<lambda>r.
             bindM (op_get_card cops pid) (\<lambda>found_card.
               case found_card of
                 None \<Rightarrow> raise AssertionError
               | Some cd \<Rightarrow>
                   (case find (\<lambda>e. option_id e = oid) (card_options cd) of
                      None \<Rightarrow> raise (RuntimeError ''coroutine raised StopIteration'')
                    | Some e \<Rightarrow>
                        thenM (op_save_resume cops
                          \<lparr>tok_child = run_id r, tok_parent = pid, tok_user = uid,
                           token_hash = sha256_hex tok,
                           evidence_hash = sha256_hex (evidence_id e @ [CHR 0x0A] @ source_hash e),
                           tok_expires_at = t 4 + seconds (resume_ttl_seconds c),
                           consumed_at = None\<rparr>)
                          (ret \<lparr>res_child = run_id r, res_parent = pid, res_token = tok,
                                res_expires_at = t 4 + seconds (resume_ttl_seconds c),
                                res_selection = option_selection e\<rparr>)))))"

text \<open>The checks of \<open>claim_resume\<close> on the child and its parent.\<close>

definition clar_claim_resume ::
  "'s run_ops \<Rightarrow> 's card_ops \<Rightarrow> (nat \<Rightarrow> time) \<Rightarrow> string \<Rightarrow> string \<Rightarrow> string \<Rightarrow> ('s, run_record) py" where
  "clar_claim_resume ops cops t child uid tok =
     (if tok = [] \<or> 256 < length tok then raise (ResumeInvalid ''resume token is invalid'')
      else bindM (op_get ops child) (\<lambda>found.
        case found of
          None \<Rightarrow> raise (ResumeNotFound ''resume not found'')
        | Some r \<Rightarrow>
            if user_id r \<noteq> uid then raise (ResumeNotFound ''resume not found'')
            else if operation_kind r \<noteq> READ_QUERY
            then raise (ResumeInvalid ''resume child must be READ_QUERY'')
            else if status r \<noteq> RECEIVED then raise (ResumeReplay ''resume child already started'')
            else bindM (op_get ops (case parent_run_id r of None \<Rightarrow> [] | Some p \<Rightarrow> p)) (\<lambda>parent.
              if (case parent of None \<Rightarrow> True | Some p \<Rightarrow> status p \<noteq> NEEDS_CLARIFICATION)
              then raise (ResumeInvalid ''resume parent is not awaiting clarification'')
              else thenM (op_claim_resume cops (t 0) (t 1) child uid (sha256_hex tok))
                (op_transition ops (t 2) child CONTEXT_BUILDING None))))"

definition selected_evidence ::
  "'s card_ops \<Rightarrow> string \<Rightarrow> ('s, (string, string) dict option) py" where
  "selected_evidence cops pid =
     bindM (op_get_card cops pid) (\<lambda>found.
       case found of
         None \<Rightarrow> ret None
       | Some c \<Rightarrow>
           (case selected_option_id c of
              None \<Rightarrow> ret None
            | Some oid \<Rightarrow> ret (map_option option_selection
                (find (\<lambda>e. option_id e = oid) (card_options c)))))"

subsection \<open>What the service keeps\<close>

lemma find_distinct_key:
  assumes "distinct (map k xs)" and "e \<in> set xs"
  shows "find (\<lambda>x. k x = k e) xs = Some e"
  using assms by (induction xs) (auto simp: rev_image_eqI)

context card_contract
begin

text \<open>The cards and tokens move one way: an answered card stays as it is, a consumed token stays
consumed, and a card exists only for a run that has left its active states.\<close>

definition clar_ok :: "'s \<Rightarrow> bool" where
  "clar_ok s \<longleftrightarrow> invar s \<and>
     (\<forall>k c. card s k = Some c \<longrightarrow> card_parent c = k \<and>
        (\<exists>r. view s k = Some r \<and> user_id r = card_user c \<and> terminal (status r)))"

definition settles :: "'s \<Rightarrow> 's \<Rightarrow> bool" where
  "settles s s' \<longleftrightarrow> clar_ok s' \<and> grows s s' \<and>
     (\<forall>k c. card s k = Some c \<and> answered_at c \<noteq> None \<longrightarrow> card s' k = Some c)"

lemma settles_refl: "clar_ok s \<Longrightarrow> settles s s"
  by (auto simp: settles_def clar_ok_def grows_refl)

lemma settles_trans: "settles s s' \<Longrightarrow> settles s' s'' \<Longrightarrow> settles s s''"
  unfolding settles_def using grows_trans by meson

lemma clar_ok_grows:
  assumes "clar_ok s" and "grows s s'" and "card s' = card s"
  shows "clar_ok s'"
proof -
  have "\<exists>r'. view s' k = Some r' \<and> user_id r' = card_user c \<and> terminal (status r')"
    if "card s k = Some c" for k c
  proof -
    from assms(1) that obtain r where r: "view s k = Some r" "user_id r = card_user c" "terminal (status r)"
      by (auto simp: clar_ok_def)
    with assms(2) obtain r' where "view s' k = Some r'" "evolves r r'" by (auto simp: grows_def)
    with r show ?thesis by (auto simp: evolves_def)
  qed
  with assms show ?thesis by (auto simp: clar_ok_def grows_def)
qed

text \<open>An operation that only touches the runs settles.\<close>

lemma settles_runs:
  assumes "clar_ok s" and "grows s s'" and "card s' = card s"
  shows "settles s s'"
  using assms clar_ok_grows [OF assms] by (simp add: settles_def)

lemma settles_create: "clar_ok s \<Longrightarrow> fresh_record r \<Longrightarrow> settles s (snd (op_create ops r s))"
  by (rule settles_runs) (simp_all add: create_grows clar_ok_def create_frame)

lemma settles_transition: "clar_ok s \<Longrightarrow> settles s (snd (op_transition ops now rid st ft s))"
  by (rule settles_runs) (simp_all add: transition_grows clar_ok_def transition_frame)

lemma settles_save_resume: "clar_ok s \<Longrightarrow> settles s (snd (op_save_resume cops r s))"
  using save_resume [of r s] by (auto intro!: settles_runs simp: grows_def clar_ok_def)

lemma settles_claim: "clar_ok s \<Longrightarrow> settles s (snd (op_claim_resume cops now now' k uid h s))"
  by (cases "resume_refusal now uid h (token s k)")
    (auto dest!: claim_done [of _ _ _ _ _ now'] simp: claim_refused settles_refl
      intro!: settles_runs simp: grows_def clar_ok_def)

text \<open>A claim that went through leaves the child started; whatever follows, it is refused.\<close>

lemma claim_returned:
  assumes "invar s" and "clar_claim_resume ops cops t child uid tok s = (Inr r', s')"
  shows "\<exists>r p. view s child = Some r \<and> user_id r = uid \<and> operation_kind r = READ_QUERY \<and>
    status r = RECEIVED \<and> view s (case parent_run_id r of None \<Rightarrow> [] | Some k \<Rightarrow> k) = Some p \<and>
    status p = NEEDS_CLARIFICATION \<and>
    resume_refusal (t 0) uid (sha256_hex tok) (token s child) = None \<and>
    r' = moved (t 2) CONTEXT_BUILDING None r \<and> view s' child = Some r' \<and>
    token s' child = Some ((the (token s child))\<lparr>consumed_at := Some (t 1)\<rparr>) \<and> invar s'"
proof -
  from assms(2) obtain r p where r: "view s child = Some r" "user_id r = uid"
    "operation_kind r = READ_QUERY" "status r = RECEIVED"
    "view s (case parent_run_id r of None \<Rightarrow> [] | Some k \<Rightarrow> k) = Some p" "status p = NEEDS_CLARIFICATION"
    and rest: "thenM (op_claim_resume cops (t 0) (t 1) child uid (sha256_hex tok))
       (op_transition ops (t 2) child CONTEXT_BUILDING None) s = (Inr r', s')"
    by (auto simp: clar_claim_resume_def bindM_def get split: if_splits option.splits)
  from rest have ref: "resume_refusal (t 0) uid (sha256_hex tok) (token s child) = None"
    by (cases "resume_refusal (t 0) uid (sha256_hex tok) (token s child)")
      (auto simp: thenM_def bindM_def claim_refused)
  from claim_done [OF this, of "t 1"] assms(1) obtain s1 where s1:
    "op_claim_resume cops (t 0) (t 1) child uid (sha256_hex tok) s = (Inr (), s1)"
    "view s1 = view s" "invar s1"
    "token s1 = (token s)(child := Some ((the (token s child))\<lparr>consumed_at := Some (t 1)\<rparr>))" by auto
  have "view s1 child = Some r" "allowed (status r) CONTEXT_BUILDING"
    using r s1 by (simp_all add: ALLOWED_TRANSITIONS.simps)
  from transition_done [OF s1(3) this, of "t 2" None] obtain s2 where s2:
    "op_transition ops (t 2) child CONTEXT_BUILDING None s1 =
       (Inr (moved (t 2) CONTEXT_BUILDING None r), s2)" "invar s2"
    "view s2 = put_run (view s1) child (moved (t 2) CONTEXT_BUILDING None r)" by blast
  have "token s2 = token s1"
    using transition_frame [of "t 2" child CONTEXT_BUILDING None s1] s2(1) by simp
  moreover have "s' = s2" "r' = moved (t 2) CONTEXT_BUILDING None r"
    using rest s1(1) s2(1) by (simp_all add: thenM_def bindM_def)
  ultimately show ?thesis using r ref s1 s2 by auto
qed

lemma claim_started_refused:
  assumes "view s child = Some r" and "status r \<noteq> RECEIVED"
  shows "\<exists>e. clar_claim_resume ops cops t child uid tok s = (Inl e, s)"
  using assms by (auto simp: clar_claim_resume_def bindM_def get)

end

context card_contract
begin

lemma clar_create_refused:
  "create_refusal pid uid a (view s pid) = Some e \<Longrightarrow>
   clar_create ops cops c t cid pid uid a s = (Inl e, s)"
  by (simp add: clar_create_def bindM_def get)

lemma clar_create_done:
  assumes ok: "clar_ok s" and ref: "create_refusal pid uid a (view s pid) = None"
  shows "\<exists>parent s'. view s pid = Some parent \<and> user_id parent = uid \<and>
    clar_create ops cops c t cid pid uid a s = (Inr (new_card c t cid pid uid a), s') \<and>
    view s' = put_run (view s) pid (moved (t 2) NEEDS_CLARIFICATION None parent) \<and>
    card s' = (card s)(pid := Some (new_card c t cid pid uid a)) \<and> token s' = token s \<and>
    card s pid = None \<and> clar_ok s' \<and> grows s s'"
proof -
  from ref obtain parent where p: "view s pid = Some parent" "user_id parent = uid"
    "status parent \<in> {LINKING, GENERATING, TOOL_RUNNING}"
    by (auto simp: create_refusal_def split: option.splits if_splits)
  then have nt: "\<not> terminal (status parent)" and al: "allowed (status parent) NEEDS_CLARIFICATION"
    by (auto simp: TERMINAL_STATUSES_def ALLOWED_TRANSITIONS.simps)
  let ?card = "new_card c t cid pid uid a"
  have cp: "card_parent ?card = pid" "card_user ?card = uid" by (simp_all add: new_card_def)
  from save [of ?card s] ok obtain s1 where s1: "op_save cops ?card s = (Inr (), s1)"
    "view s1 = view s" "token s1 = token s" "card s1 = (card s)(pid := Some ?card)" "invar s1"
    by (auto simp: cp clar_ok_def)
  have "view s1 pid = Some parent" using p s1 by simp
  from transition_done [OF s1(5) this al, of "t 2" None] obtain s2 where s2:
    "op_transition ops (t 2) pid NEEDS_CLARIFICATION None s1 =
       (Inr (moved (t 2) NEEDS_CLARIFICATION None parent), s2)" "invar s2"
    "view s2 = put_run (view s1) pid (moved (t 2) NEEDS_CLARIFICATION None parent)" by blast
  have fr: "card s2 = card s1" "token s2 = token s1"
    using transition_frame [of "t 2" pid NEEDS_CLARIFICATION None s1] s2(1) by simp_all
  have res: "clar_create ops cops c t cid pid uid a s = (Inr ?card, s2)"
    using ref p(1) s1(1) s2(1) by (simp add: clar_create_def bindM_def thenM_def get)
  have none: "card s pid = None" using ok p nt unfolding clar_ok_def by (metis not_None_eq option.inject)
  have g: "grows s s2" using s2 s1 p evolves_moved [OF al] by (intro grows_put) auto
  have "clar_ok s2" using ok s1 s2 fr cp p
    by (auto simp: clar_ok_def TERMINAL_STATUSES_def)
  with res none g p s1 s2 fr show ?thesis by auto
qed

lemma clar_answer_refused:
  "answer_choice (t 0) pid uid oid (card s pid) = Inl e \<Longrightarrow>
   clar_answer ops cops t child pid uid oid s = (Inl e, s)"
  by (simp add: clar_answer_def bindM_def get_card)

lemma answer_choice_Inr:
  "answer_choice now pid uid oid found = Inr (c, e) \<Longrightarrow>
   found = Some c \<and> card_user c = uid \<and> answered_at c = None \<and> now < card_expires_at c \<and>
   find (\<lambda>e. option_id e = oid) (card_options c) = Some e"
  by (auto simp: answer_choice_def split: option.splits if_splits)

lemma clar_answer_taken:
  assumes "clar_ok s" and "answer_choice (t 0) pid uid oid (card s pid) = Inr (c, e)"
    and "view s child \<noteq> None"
  shows "\<exists>e. clar_answer ops cops t child pid uid oid s = (Inl e, s)"
proof -
  obtain parent where p: "view s pid = Some parent"
    using assms(1) answer_choice_Inr [OF assms(2)] by (auto simp: clar_ok_def)
  have "view s (run_id (answer_child t child uid parent e)) \<noteq> None"
    using assms(3) by (simp add: answer_child_def)
  from create_taken [OF this] assms(2) p show ?thesis
    by (auto simp: clar_answer_def bindM_def thenM_def get get_card Let_def)
qed

lemma clar_answer_done:
  assumes ok: "clar_ok s" and choice: "answer_choice (t 0) pid uid oid (card s pid) = Inr (c, e)"
    and fresh: "view s child = None"
  shows "\<exists>parent s'. view s pid = Some parent \<and>
    clar_answer ops cops t child pid uid oid s = (Inr (answer_child t child uid parent e), s') \<and>
    view s' = put_run (view s) child (answer_child t child uid parent e) \<and>
    card s' = (card s)(pid := Some (c\<lparr>answered_at := Some (t 3), selected_option_id := Some oid,
      card_child := Some child\<rparr>)) \<and> token s' = token s \<and> clar_ok s' \<and> settles s s'"
proof -
  note ch = answer_choice_Inr [OF choice]
  obtain parent where p: "view s pid = Some parent" "user_id parent = card_user c"
    "terminal (status parent)" "card_parent c = pid"
    using ok ch by (auto simp: clar_ok_def)
  let ?r = "answer_child t child uid parent e"
  let ?c = "c\<lparr>answered_at := Some (t 3), selected_option_id := Some oid, card_child := Some child\<rparr>"
  have "fresh_record ?r" "view s (run_id ?r) = None" "invar s"
    using fresh ok by (simp_all add: answer_child_def clar_ok_def)
  from create_new [OF this(3,1,2)] obtain s1 where s1: "op_create ops ?r s = (Inr (), s1)"
    "invar s1" "view s1 = put_run (view s) child ?r" by (auto simp: answer_child_def)
  have fr: "card s1 = card s" "token s1 = token s" using create_frame [of ?r s] s1(1) by simp_all
  from save [of ?c s1] s1 p obtain s2 where s2: "op_save cops ?c s1 = (Inr (), s2)"
    "view s2 = view s1" "token s2 = token s1" "card s2 = (card s1)(pid := Some ?c)" "invar s2" by auto
  have res: "clar_answer ops cops t child pid uid oid s = (Inr ?r, s2)"
    using choice p s1(1) s2(1) by (simp add: clar_answer_def bindM_def thenM_def get get_card Let_def)
  have g: "grows s s2" using s1 s2 fresh by (intro grows_put) auto
  have "child \<noteq> k" if "card s k = Some c'" for k c'
    using ok fresh that unfolding clar_ok_def by (metis option.distinct(1))
  with ok s1 s2 fr p ch have "clar_ok s2" by (auto simp: clar_ok_def)
  with g ok s2 fr ch have "settles s s2" by (auto simp: settles_def)
  with res p s1 s2 fr \<open>clar_ok s2\<close> show ?thesis by auto
qed

lemma settles_clar_create: "clar_ok s \<Longrightarrow> settles s (snd (clar_create ops cops c t cid pid uid a s))"
  using clar_create_refused [of pid uid a s _ c t cid] clar_create_done [of s pid uid a c t cid]
    settles_refl [of s]
  by (cases "create_refusal pid uid a (view s pid)") (auto simp: settles_def)

lemma settles_clar_answer:
  assumes "clar_ok s"
  shows "settles s (snd (clar_answer ops cops t child pid uid oid s))"
proof (cases "answer_choice (t 0) pid uid oid (card s pid)")
  case (Inl e)
  with assms show ?thesis by (simp add: clar_answer_refused settles_refl)
next
  case (Inr ce)
  obtain c e where ce: "ce = (c, e)" by fastforce
  show ?thesis
  proof (cases "view s child")
    case None
    from clar_answer_done [of s t pid uid oid c e child] assms Inr ce None show ?thesis by auto
  next
    case (Some r)
    then obtain e' where "clar_answer ops cops t child pid uid oid s = (Inl e', s)"
      using clar_answer_taken [of s t pid uid oid c e child] assms Inr ce by auto
    with assms show ?thesis by (simp add: settles_refl)
  qed
qed

lemma settles_keeps: "(\<And>s. clar_ok s \<Longrightarrow> settles s (snd (m s))) \<Longrightarrow> keeps (settles s0) m"
  by (rule keepsI) (meson settles_def settles_trans)

lemma keeps_get: "keeps P (op_get ops k)" and keeps_get_card: "keeps P (op_get_card cops k)"
  by (simp_all add: keeps_def get get_card)

lemmas settling [keeps_rules] = keeps_get keeps_get_card settles_keeps [OF settles_clar_answer]
  settles_keeps [OF settles_save_resume] settles_keeps [OF settles_claim]
  settles_keeps [OF settles_transition]

lemma settles_answer_with_resume:
  assumes "clar_ok s"
  shows "settles s (snd (clar_answer_with_resume ops cops c t child tok pid uid oid s))"
proof -
  have "keeps (settles s) (clar_answer_with_resume ops cops c t child tok pid uid oid)"
    unfolding clar_answer_with_resume_def by (intro keeps_rules)
  then show ?thesis using assms by (simp add: keepsD settles_refl)
qed

lemma settles_claim_resume:
  assumes "clar_ok s"
  shows "settles s (snd (clar_claim_resume ops cops t child uid tok s))"
proof -
  have "keeps (settles s) (clar_claim_resume ops cops t child uid tok)"
    unfolding clar_claim_resume_def by (intro keeps_rules)
  then show ?thesis using assms by (simp add: keepsD settles_refl)
qed

lemma answered_refused:
  assumes "card s pid = Some c" and "answered_at c \<noteq> None"
  shows "\<exists>e. clar_answer ops cops t child pid uid oid s = (Inl e, s)"
proof -
  have "\<exists>e. answer_choice (t 0) pid uid oid (card s pid) = Inl e"
    using assms by (cases "card_user c = uid") (simp_all add: answer_choice_def)
  then show ?thesis using clar_answer_refused [of t pid uid oid s] by blast
qed

lemma clar_answer_returned:
  assumes ok: "clar_ok s" and "clar_answer ops cops t child pid uid oid s = (Inr r, s')"
  shows "\<exists>c. card s' pid = Some c \<and> answered_at c = Some (t 3) \<and> card_child c = Some (run_id r) \<and> clar_ok s'"
proof (cases "answer_choice (t 0) pid uid oid (card s pid)")
  case (Inl e)
  with assms(2) show ?thesis by (simp add: clar_answer_refused)
next
  case (Inr ce)
  obtain c e where ce: "ce = (c, e)" by fastforce
  show ?thesis
  proof (cases "view s child")
    case None
    from clar_answer_done [of s t pid uid oid c e child] ok Inr ce None assms(2) show ?thesis
      by (auto simp: answer_child_def)
  next
    case (Some v)
    with clar_answer_taken [of s t pid uid oid c e child] ok Inr ce assms(2) show ?thesis by auto
  qed
qed

end

context card_contract
begin

lemma answer_with_resume_answered:
  assumes "clar_answer_with_resume ops cops c t child tok pid uid oid s = (Inr res, s')"
  shows "\<exists>r s1. clar_answer ops cops t child pid uid oid s = (Inr r, s1)"
proof (cases "clar_answer ops cops t child pid uid oid s")
  case (Pair x s1)
  show ?thesis
  proof (cases x)
    case (Inl e)
    with Pair assms show ?thesis
      by (auto simp: clar_answer_with_resume_def bindM_Inr [OF get] bindM_Inl
          split: option.splits if_splits)
  qed (use Pair in simp)
qed

text \<open>The whole conversation: ask, answer in time, resume in time.\<close>

lemma clarification_round_trip:
  assumes ok: "clar_ok s" and ref: "create_refusal pid uid a (view s pid) = None"
    and kind: "\<And>r. view s pid = Some r \<Longrightarrow> operation_kind r = READ_QUERY"
    and opt: "e \<in> set (amb_options a)" and fresh: "view s child = None"
    and t1: "t1 0 < t0 0 + seconds (ttl_seconds c)"
    and t2: "t2 0 < t1 4 + seconds (resume_ttl_seconds c)"
    and tok: "tok \<noteq> []" "length tok \<le> 256"
  shows "\<exists>cd s1 res s2 r s3. clar_create ops cops c t0 cid pid uid a s = (Inr cd, s1) \<and>
    clar_answer_with_resume ops cops c t1 child tok pid uid (option_id e) s1 = (Inr res, s2) \<and>
    res_selection res = option_selection e \<and> res_child res = child \<and>
    clar_claim_resume ops cops t2 child uid tok s2 = (Inr r, s3) \<and>
    status r = CONTEXT_BUILDING \<and> parent_run_id r = Some pid \<and> user_id r = uid \<and>
    view s3 child = Some r"
proof -
  from clar_create_done [OF ok ref, of c t0 cid] obtain parent s1 where p: "view s pid = Some parent"
    "user_id parent = uid" "clar_create ops cops c t0 cid pid uid a s = (Inr (new_card c t0 cid pid uid a), s1)"
    "view s1 = put_run (view s) pid (moved (t0 2) NEEDS_CLARIFICATION None parent)"
    "card s1 = (card s)(pid := Some (new_card c t0 cid pid uid a))" "clar_ok s1" by blast
  let ?p = "moved (t0 2) NEEDS_CLARIFICATION None parent"
  have d: "distinct (map option_id (amb_options a))" and ch: "child \<noteq> pid"
    using ref p(1) fresh by (auto simp: create_refusal_def split: if_splits)
  have f: "find (\<lambda>x. option_id x = option_id e) (amb_options a) = Some e"
    by (rule find_distinct_key [OF d opt])
  have rid: "run_id parent = pid" using view_run_id ok p(1) by (auto simp: clar_ok_def)
  let ?c = "new_card c t0 cid pid uid a"
  have choice: "answer_choice (t1 0) pid uid (option_id e) (card s1 pid) = Inr (?c, e)"
    using t1 f by (simp add: p(5) answer_choice_def new_card_def)
  have "view s1 child = None" using fresh ch by (simp add: p(4))
  from clar_answer_done [of s1 t1 pid uid "option_id e" ?c e child] p(4,6) choice this obtain s2 where s2:
    "clar_answer ops cops t1 child pid uid (option_id e) s1 = (Inr (answer_child t1 child uid ?p e), s2)"
    "view s2 = put_run (view s1) child (answer_child t1 child uid ?p e)"
    "card s2 pid = Some (?c\<lparr>answered_at := Some (t1 3), selected_option_id := Some (option_id e),
        card_child := Some child\<rparr>)" "clar_ok s2" by auto
  let ?r = "answer_child t1 child uid ?p e"
  have r: "run_id ?r = child" "user_id ?r = uid" "status ?r = RECEIVED" "operation_kind ?r = READ_QUERY"
    "parent_run_id ?r = Some pid" using rid by (simp_all add: answer_child_def)
  define rt where "rt = \<lparr>tok_child = child, tok_parent = pid, tok_user = uid, token_hash = sha256_hex tok,
     evidence_hash = sha256_hex (evidence_id e @ [CHR 0x0A] @ source_hash e),
     tok_expires_at = t1 4 + seconds (resume_ttl_seconds c), consumed_at = None\<rparr>"
  from save_resume [of rt s2] s2(4) obtain s3 where s3: "op_save_resume cops rt s2 = (Inr (), s3)"
    "view s3 = view s2" "token s3 child = Some rt" "invar s3" by (auto simp: rt_def clar_ok_def)
  have "operation_kind ?p = READ_QUERY" "user_id ?p = uid" using kind p by simp_all
  then have ans: "\<exists>res. clar_answer_with_resume ops cops c t1 child tok pid uid (option_id e) s1 = (Inr res, s3) \<and>
      res_selection res = option_selection e \<and> res_child res = child"
    using s2(1,3) s3(1) f p(4) r(1)
    by (simp add: clar_answer_with_resume_def bindM_def thenM_def get get_card new_card_def rt_def)
  have v3: "view s3 child = Some ?r" "view s3 pid = Some ?p" using s3 s2 p ch by simp_all
  have "resume_refusal (t2 0) uid (sha256_hex tok) (token s3 child) = None"
    using t2 by (simp add: s3(3) resume_refusal_def) (simp add: rt_def)
  from claim_done [OF this, of "t2 1"] s3(4) obtain s4 where s4:
    "op_claim_resume cops (t2 0) (t2 1) child uid (sha256_hex tok) s3 = (Inr (), s4)"
    "view s4 = view s3" "invar s4" by auto
  have "view s4 child = Some ?r" "allowed (status ?r) CONTEXT_BUILDING"
    using s4 v3 r by (simp_all add: ALLOWED_TRANSITIONS.simps)
  from transition_done [OF s4(3) this, of "t2 2" None] obtain s5 where s5:
    "op_transition ops (t2 2) child CONTEXT_BUILDING None s4 = (Inr (moved (t2 2) CONTEXT_BUILDING None ?r), s5)"
    "view s5 child = Some (moved (t2 2) CONTEXT_BUILDING None ?r)" by auto
  have "clar_claim_resume ops cops t2 child uid tok s3 = (Inr (moved (t2 2) CONTEXT_BUILDING None ?r), s5)"
    using tok v3 r s4(1) s5(1)
    by (simp add: clar_claim_resume_def bindM_def thenM_def get)
  with p(3) ans s5(2) r show ?thesis by auto
qed

end

subsection \<open>One process: the run store and the card store in memory\<close>

record clar_state =
  c_runs :: run_store
  c_cards :: card_store

definition with_runs :: "(run_store, 'a) py \<Rightarrow> (clar_state, 'a) py" where
  "with_runs m s = (case m (c_runs s) of (x, rs) \<Rightarrow> (x, s\<lparr>c_runs := rs\<rparr>))"

definition with_cards :: "(card_store, 'a) py \<Rightarrow> (clar_state, 'a) py" where
  "with_cards m s = (case m (c_cards s) of (x, cs) \<Rightarrow> (x, s\<lparr>c_cards := cs\<rparr>))"

definition clar_run_ops :: "clar_state run_ops" where
  "clar_run_ops = \<lparr>op_create = \<lambda>r. with_runs (run_create r),
     op_transition = \<lambda>now rid st ft. with_runs (run_transition now rid st ft),
     op_get = \<lambda>rid. with_runs (run_get rid),
     op_increment_tool_calls = \<lambda>now rid. with_runs (increment_tool_calls now rid),
     op_increment_retries = \<lambda>now rid. with_runs (increment_retries now rid)\<rparr>"

definition clar_card_ops :: "clar_state card_ops" where
  "clar_card_ops = \<lparr>op_save = \<lambda>c. with_cards (card_save c), op_get_card = \<lambda>k. with_cards (card_get k),
     op_save_resume = \<lambda>r. with_cards (card_save_resume r),
     op_claim_resume = \<lambda>now now' k uid h. with_cards (card_claim_resume now now' k uid h)\<rparr>"

definition clar_view :: "clar_state \<Rightarrow> string \<Rightarrow> run_record option" where
  "clar_view s = memory_view (c_runs s)"

definition clar_invar :: "clar_state \<Rightarrow> bool" where
  "clar_invar s = store_ok (c_runs s)"

interpretation desk: run_store_contract clar_run_ops clar_view clar_invar
proof (unfold_locales, goal_cases)
  case (3 s r)
  with memory.create_new [of "c_runs s" r] show ?case
    by (auto simp: clar_run_ops_def with_runs_def clar_view_def clar_invar_def)
next
  case (4 s r)
  with memory.create_taken [of "c_runs s" r] show ?case
    by (auto simp: clar_run_ops_def with_runs_def clar_view_def)
next
  case (7 s rid r st now ft)
  with memory.transition_done [of "c_runs s" rid r st now ft] show ?case
    by (auto simp: clar_run_ops_def with_runs_def clar_view_def clar_invar_def)
next
  case (9 s rid r now)
  with memory.calls_done [of "c_runs s" rid r now] show ?case
    by (auto simp: clar_run_ops_def with_runs_def clar_view_def clar_invar_def)
next
  case (11 s rid r now)
  with memory.retries_done [of "c_runs s" rid r now] show ?case
    by (auto simp: clar_run_ops_def with_runs_def clar_view_def clar_invar_def)
qed (simp_all add: clar_run_ops_def with_runs_def clar_view_def clar_invar_def
    memory.get [simplified] memory.view_run_id memory.transition_missing [simplified]
    memory.transition_refused [simplified] memory.calls_missing [simplified]
    memory.retries_missing [simplified])

definition clar_card :: "clar_state \<Rightarrow> string \<Rightarrow> clarification_card option" where
  "clar_card s = map_of (cards (c_cards s))"

definition clar_token :: "clar_state \<Rightarrow> string \<Rightarrow> resume_token option" where
  "clar_token s = map_of (resume_tokens (c_cards s))"

lemma map_of_update_fun: "map_of (AList.update k v d) = (map_of d)(k := Some v)"
  by (rule ext) simp

interpretation desk_cards: card_contract clar_run_ops clar_view clar_invar clar_card_ops clar_card clar_token
  by unfold_locales
    (auto simp: clar_run_ops_def clar_card_ops_def with_runs_def with_cards_def clar_view_def
      clar_invar_def clar_card_def clar_token_def card_save_def card_get_def card_save_resume_def
      card_claim_resume_def map_of_update_fun split: prod.splits)

subsection \<open>Interleavings of the service with everything else\<close>

text \<open>One step: a method of the run store, or a method of the service, with any arguments.\<close>

inductive clar_step :: "clar_state \<Rightarrow> clar_state \<Rightarrow> bool" where
  runs: "store_step (c_runs s) rs \<Longrightarrow> clar_step s (s\<lparr>c_runs := rs\<rparr>)"
| ask: "clar_step s (snd (clar_create clar_run_ops clar_card_ops c t cid pid uid a s))"
| answer: "clar_step s (snd (clar_answer clar_run_ops clar_card_ops t child pid uid oid s))"
| answer_with_resume:
    "clar_step s (snd (clar_answer_with_resume clar_run_ops clar_card_ops c t child tok pid uid oid s))"
| claim: "clar_step s (snd (clar_claim_resume clar_run_ops clar_card_ops t child uid tok s))"

definition empty_desk :: clar_state where
  "empty_desk = \<lparr>c_runs = empty_run_store, c_cards = \<lparr>cards = [], resume_tokens = []\<rparr>\<rparr>"

inductive clar_reachable :: "clar_state \<Rightarrow> bool" where
  start: "clar_reachable empty_desk"
| step: "clar_reachable s \<Longrightarrow> clar_step s s' \<Longrightarrow> clar_reachable s'"

lemma clar_step_settles: "clar_step s s' \<Longrightarrow> desk_cards.clar_ok s \<Longrightarrow> desk_cards.settles s s'"
proof (induction rule: clar_step.induct)
  case (runs s rs)
  have "store_ok (c_runs s)" using runs(2) unfolding desk_cards.clar_ok_def by (simp add: clar_invar_def)
  from store_step_ok [OF runs(1) this] store_step_evolves [OF runs(1) this]
  show ?case
    by (intro desk_cards.settles_runs [OF runs(2)])
      (auto simp: desk.grows_def clar_invar_def clar_view_def clar_card_def memory_view_def
        store_evolves_def)
qed (simp_all add: desk_cards.settles_clar_create desk_cards.settles_clar_answer
    desk_cards.settles_answer_with_resume desk_cards.settles_claim_resume)

lemma clar_steps_settle:
  assumes "clar_step\<^sup>*\<^sup>* s s'" and "desk_cards.clar_ok s"
  shows "desk_cards.settles s s'"
  using assms
proof (induction rule: rtranclp_induct)
  case base
  then show ?case by (rule desk_cards.settles_refl)
next
  case (step s1 s2)
  then have "desk_cards.clar_ok s1" by (simp add: desk_cards.settles_def)
  with step show ?case using clar_step_settles desk_cards.settles_trans by blast
qed

lemma clar_reachable_ok: "clar_reachable s \<Longrightarrow> desk_cards.clar_ok s"
proof (induction rule: clar_reachable.induct)
  case start
  then show ?case
    unfolding desk_cards.clar_ok_def by (simp add: empty_desk_def clar_invar_def clar_card_def)
next
  case (step s s')
  then show ?case using clar_step_settles by (auto simp: desk_cards.settles_def)
qed

subsection \<open>Properties\<close>

text \<open>C13. A card is answered at most once: after an answer went through, every later answer to the
same card is refused, whoever sends it, whatever option and moment it carries, and whatever else
happened to the runs, cards and tokens in between.\<close>

theorem card_answered_once:
  assumes "clar_reachable s"
    and "clar_answer clar_run_ops clar_card_ops t child pid uid oid s = (Inr r, s1)"
    and "clar_step\<^sup>*\<^sup>* s1 s2"
  shows "\<exists>e. clar_answer clar_run_ops clar_card_ops t' child' pid uid' oid' s2 = (Inl e, s2)"
proof -
  from desk_cards.clar_answer_returned [OF clar_reachable_ok [OF assms(1)] assms(2)] obtain c
    where c: "clar_card s1 pid = Some c" "answered_at c \<noteq> None" "desk_cards.clar_ok s1" by auto
  from clar_steps_settle [OF assms(3) c(3)] c(1,2) have "clar_card s2 pid = Some c"
    by (auto simp: desk_cards.settles_def)
  with c(2) show ?thesis by (intro desk_cards.answered_refused)
qed

text \<open>C14. A resume is claimed at most once, and only by the owner with the unexpired, unconsumed token
of a child whose parent waits for the user: after a claim went through, every later claim of that
child is refused and changes nothing, whatever happened in between.\<close>

theorem resume_claimed_once:
  assumes "clar_reachable s"
    and "clar_claim_resume clar_run_ops clar_card_ops t child uid tok s = (Inr r, s1)"
    and "clar_step\<^sup>*\<^sup>* s1 s2"
  shows "(\<exists>e. clar_claim_resume clar_run_ops clar_card_ops t' child uid' tok' s2 = (Inl e, s2)) \<and>
    user_id r = uid \<and> status r = CONTEXT_BUILDING \<and>
    (\<exists>p tk. map_of (records (c_runs s)) (case parent_run_id r of None \<Rightarrow> [] | Some k \<Rightarrow> k) = Some p \<and>
       status p = NEEDS_CLARIFICATION \<and> map_of (resume_tokens (c_cards s)) child = Some tk \<and>
       tok_user tk = uid \<and> consumed_at tk = None \<and> t 0 < tok_expires_at tk \<and>
       token_hash tk = sha256_hex tok)"
proof -
  have ok: "desk_cards.clar_ok s" by (rule clar_reachable_ok [OF assms(1)])
  then have inv: "clar_invar s" by (simp add: desk_cards.clar_ok_def)
  from desk_cards.claim_returned [OF inv assms(2)] obtain r0 p where r0: "user_id r0 = uid"
    "clar_view s (case parent_run_id r0 of None \<Rightarrow> [] | Some k \<Rightarrow> k) = Some p"
    "status p = NEEDS_CLARIFICATION" "r = moved (t 2) CONTEXT_BUILDING None r0"
    "resume_refusal (t 0) uid (sha256_hex tok) (clar_token s child) = None"
    "clar_view s1 child = Some r" by blast
  have "desk_cards.settles s s1"
    using desk_cards.settles_claim_resume [OF ok, of t child uid tok] assms(2) by simp
  then have "desk_cards.clar_ok s1" by (simp add: desk_cards.settles_def)
  from clar_steps_settle [OF assms(3) this] have "desk.grows s1 s2"
    by (simp add: desk_cards.settles_def)
  then obtain r2 where "clar_view s2 child = Some r2" "evolves r r2"
    using r0(6) unfolding desk.grows_def by blast
  then have "\<exists>e. clar_claim_resume clar_run_ops clar_card_ops t' child uid' tok' s2 = (Inl e, s2)"
    using r0(4) by (intro desk_cards.claim_started_refused [of s2 child r2]) (auto simp: evolves_def)
  moreover have "\<exists>tk. clar_token s child = Some tk \<and> tok_user tk = uid \<and> consumed_at tk = None \<and>
      t 0 < tok_expires_at tk \<and> token_hash tk = sha256_hex tok"
    using r0(5) by (auto simp: resume_refusal_def split: option.splits if_splits)
  ultimately show ?thesis using r0 by (simp add: clar_view_def memory_view_def clar_token_def)
qed


subsection \<open>A concrete cycle\<close>

definition sample_option :: "string \<Rightarrow> clarification_option" where
  "sample_option o1 = \<lparr>option_id = o1, option_label = o1, value_id = o1, evidence_id = ''e'' @ o1,
     source_hash = ''h'' @ o1\<rparr>"

definition sample_ambiguity :: material_ambiguity where
  "sample_ambiguity = \<lparr>amb_id = ''a1'', amb_question = ''which table?'',
     amb_options = [sample_option ''1'', sample_option ''2''], amb_reason = ''two candidates''\<rparr>"

definition sample_clar_config :: clarification_config where
  "sample_clar_config = \<lparr>ttl_seconds = 900, resume_ttl_seconds = 300\<rparr>"

text \<open>A run \<open>r1\<close> of user \<open>u1\<close> in state \<open>LINKING\<close>.\<close>

definition linking_runs :: run_store where
  "linking_runs = snd (run_transition 2 ''r1'' LINKING None sample_runs)"

definition sample_desk :: clar_state where
  "sample_desk = empty_desk\<lparr>c_runs := linking_runs\<rparr>"

lemma linking_record:
  "map_of (records linking_runs) ''r1'' =
     Some (moved 2 LINKING None (moved 1 CONTEXT_BUILDING None sample_run))"
proof -
  obtain xs where "map_of (steps sample_runs) ''r1'' = Some xs"
    using store_okD(3) [OF sample_runs_ok sample_runs_record] by blast
  with sample_runs_record show ?thesis
    by (simp add: linking_runs_def run_transition_def ALLOWED_TRANSITIONS.simps append_step_def
        bindM_def Let_def)
qed

lemma linking_other: "k \<noteq> ''r1'' \<Longrightarrow> map_of (records linking_runs) k = None"
  by (simp add: linking_runs_def sample_runs_def run_transition_def run_create_def empty_run_store_def
      sample_run_def append_step_def bindM_def Let_def split: option.splits)

lemma sample_desk_reachable: "clar_reachable sample_desk"
proof -
  let ?d = "\<lambda>rs. empty_desk\<lparr>c_runs := rs\<rparr>"
  have s: "clar_step (?d rs) (?d rs')" if "store_step rs rs'" for rs rs'
    using clar_step.runs [of "?d rs" rs'] that by simp
  have "clar_reachable (?d rs)" if "store_reachable rs" for rs
    using that
  proof (induction rule: store_reachable.induct)
    case start
    then show ?case using clar_reachable.start by (simp add: empty_desk_def)
  next
    case (step rs rs')
    then show ?case using clar_reachable.step s by blast
  qed
  moreover have "store_reachable linking_runs"
    unfolding linking_runs_def
    by (rule store_reachable.step [OF sample_runs_reachable store_step.transition])
  ultimately show ?thesis by (simp add: sample_desk_def)
qed

lemma sample_cycle:
  "\<exists>cd s1 res s2 r s3.
    clar_create clar_run_ops clar_card_ops sample_clar_config (\<lambda>i. int i) ''c1'' ''r1'' ''u1''
      sample_ambiguity sample_desk = (Inr cd, s1) \<and>
    clar_answer_with_resume clar_run_ops clar_card_ops sample_clar_config (\<lambda>i. 10 + int i) ''r2''
      ''tok'' ''r1'' ''u1'' ''1'' s1 = (Inr res, s2) \<and>
    clar_claim_resume clar_run_ops clar_card_ops (\<lambda>i. 20 + int i) ''r2'' ''u1'' ''tok'' s2 = (Inr r, s3)"
proof -
  have v: "clar_view sample_desk ''r1'' = Some (moved 2 LINKING None (moved 1 CONTEXT_BUILDING None sample_run))"
    "clar_view sample_desk ''r2'' = None"
    using linking_record linking_other [of "''r2''"]
    by (simp_all add: clar_view_def memory_view_def sample_desk_def)
  have e: "sample_option ''1'' \<in> set (amb_options sample_ambiguity)" by (simp add: sample_ambiguity_def)
  have "create_refusal ''r1'' ''u1'' sample_ambiguity (clar_view sample_desk ''r1'') = None"
    by (simp add: v create_refusal_def sample_run_def sample_ambiguity_def sample_option_def
        option_unbacked_def)
  from desk_cards.clarification_round_trip [OF clar_reachable_ok [OF sample_desk_reachable] this _ e v(2),
      of "\<lambda>i. 10 + int i" "\<lambda>i. int i" sample_clar_config "\<lambda>i. 20 + int i" "''tok''" "''c1''"]
  show ?thesis
    using v by (auto simp: sample_clar_config_def seconds_def sample_run_def sample_option_def)
qed


definition asked_desk :: clar_state where
  "asked_desk = snd (clar_create clar_run_ops clar_card_ops sample_clar_config (\<lambda>i. int i) ''c1''
     ''r1'' ''u1'' sample_ambiguity sample_desk)"

definition answered_desk :: clar_state where
  "answered_desk = snd (clar_answer_with_resume clar_run_ops clar_card_ops sample_clar_config
     (\<lambda>i. 10 + int i) ''r2'' ''tok'' ''r1'' ''u1'' ''1'' asked_desk)"

lemma sample_desks_reachable: "clar_reachable asked_desk" "clar_reachable answered_desk"
  using clar_reachable.step [OF sample_desk_reachable clar_step.ask]
    clar_reachable.step [OF clar_reachable.step [OF sample_desk_reachable clar_step.ask]
      clar_step.answer_with_resume]
  by (simp_all add: asked_desk_def answered_desk_def)

lemma sample_answer:
  "\<exists>r s1. clar_answer clar_run_ops clar_card_ops (\<lambda>i. 10 + int i) ''r2'' ''r1'' ''u1'' ''1''
     asked_desk = (Inr r, s1)"
  using sample_cycle desk_cards.answer_with_resume_answered by (fastforce simp: asked_desk_def)

lemma sample_claim:
  "\<exists>r s1. clar_claim_resume clar_run_ops clar_card_ops (\<lambda>i. 20 + int i) ''r2'' ''u1'' ''tok''
     answered_desk = (Inr r, s1)"
  using sample_cycle by (auto simp: asked_desk_def answered_desk_def)

theorem card_answered_once_witness:
  "\<exists>r s1 e. clar_answer clar_run_ops clar_card_ops (\<lambda>i. 10 + int i) ''r2'' ''r1'' ''u1'' ''1''
       asked_desk = (Inr r, s1) \<and>
     clar_answer clar_run_ops clar_card_ops (\<lambda>i. 11 + int i) ''r3'' ''r1'' ''u1'' ''2'' s1 = (Inl e, s1)"
  using sample_answer card_answered_once [OF sample_desks_reachable(1) _ rtranclp.rtrancl_refl] by blast

theorem resume_claimed_once_witness:
  "\<exists>r s1 e. clar_claim_resume clar_run_ops clar_card_ops (\<lambda>i. 20 + int i) ''r2'' ''u1'' ''tok''
       answered_desk = (Inr r, s1) \<and>
     clar_claim_resume clar_run_ops clar_card_ops (\<lambda>i. 21 + int i) ''r2'' ''u1'' ''tok'' s1 = (Inl e, s1)"
  using sample_claim resume_claimed_once [OF sample_desks_reachable(2) _ rtranclp.rtrancl_refl] by blast

end
