(* ===== verification/Clarification_Pg.thy ===== *)
theory Clarification_Pg
  imports Clarification Run_Store_Pg
begin

section \<open>Clarification on PostgreSQL\<close>

text \<open>
  \<open>PostgresClarificationStore\<close> of \<open>agent-service/app/harness/clarification.py\<close>, and the path of
  \<open>ClarificationService\<close> that uses it. Cards are the rows of \<open>clarification_requests\<close>, one for a
  parent run; resume tokens the rows of \<open>clarification_resume_tokens\<close>, one for a child run. The
  store answers a card and claims a resume in one transaction each, so an error leaves no trace.

  \<open>claim_resume_atomic\<close> selects \<open>FOR UPDATE OF child,t\<close> where \<open>t\<close> is the right side of a
  \<open>LEFT JOIN\<close>. PostgreSQL documents that a locking clause may not name the nullable side of an
  outer join and raises for such a query. Whether the server accepts the clause is the argument
  \<open>lock_ok\<close>: \<open>False\<close> is the documented behaviour, \<open>True\<close> is what the code means.
\<close>

record pg_desk = pg_runs +
  requests :: "(string, clarification_card) dict"
  token_rows :: "(string, resume_token) dict"

definition runs_part :: "pg_desk \<Rightarrow> pg_runs" where
  "runs_part s = pg_runs.truncate s"

definition with_runs :: "pg_runs \<Rightarrow> pg_desk \<Rightarrow> pg_desk" where
  "with_runs r s = s\<lparr>run_rows := run_rows r, step_rows := step_rows r, checkpoint_rows := checkpoint_rows r\<rparr>"

text \<open>A call of the run store on the shared database.\<close>

definition on_runs :: "(pg_runs, 'a) py \<Rightarrow> (pg_desk, 'a) py" where
  "on_runs m s = (case m (runs_part s) of (x, r) \<Rightarrow> (x, with_runs r s))"

subsection \<open>The store\<close>

text \<open>\<open>ON CONFLICT (parent_run_id) DO NOTHING\<close>.\<close>

definition pg_save_card :: "clarification_card \<Rightarrow> (pg_desk, unit) py" where
  "pg_save_card c s =
     (if map_of (requests s) (card_parent c) \<noteq> None then (Inr (), s)
      else if card_id c \<in> card_id ` snd ` set (requests s) then (Inl unique_violation, s)
      else if map_of (run_rows s) (card_parent c) = None then (Inl foreign_key_violation, s)
      else (Inr (), s\<lparr>requests := AList.update (card_parent c) c (requests s)\<rparr>))"

definition pg_get_card :: "string \<Rightarrow> (pg_desk, clarification_card option) py" where
  "pg_get_card pid s = (Inr (map_of (requests s) pid), s)"

text \<open>The row that an answer inserts: stamped by the transaction.\<close>

definition pg_child_row :: "time \<Rightarrow> string \<Rightarrow> string \<Rightarrow> string \<Rightarrow> run_record \<Rightarrow> clarification_option \<Rightarrow> run_record" where
  "pg_child_row now child pid uid parent e =
     new_run_record now now child uid (conversation_id parent)
       (child_hash (instruction_hash parent) e) READ_QUERY (Some pid)
       (Some (if correlation_id parent = [] then pid else correlation_id parent))"

definition token_row :: "time \<Rightarrow> string \<Rightarrow> string \<Rightarrow> string \<Rightarrow> string \<Rightarrow> clarification_option \<Rightarrow> int \<Rightarrow> resume_token" where
  "token_row now child pid uid tok e ttl = \<lparr>tok_child = child, tok_parent = pid, tok_user = uid,
     token_hash = sha256_hex tok, evidence_hash = sha256_hex (evidence_id e @ [CHR 0x0A] @ source_hash e),
     tok_expires_at = now + seconds ttl, consumed_at = None\<rparr>"

text \<open>\<open>answer_atomic\<close>. \<open>now\<close> is the time of the transaction, \<open>t 0\<close> the clock reading of the expiry
check, \<open>t 1\<close> and \<open>t 2\<close> those of the record that is returned, \<open>t 3\<close> that of the token's expiry. The
result is the child, or the resolution when a resume time other than 0 was asked for. The error paths
return the tables as they were: the transaction rolls back.\<close>

definition pg_answer_atomic ::
  "(run_record \<Rightarrow> exn option) \<Rightarrow> time \<Rightarrow> (nat \<Rightarrow> time) \<Rightarrow> string \<Rightarrow> string \<Rightarrow> string \<Rightarrow> string \<Rightarrow> string \<Rightarrow>
   int option \<Rightarrow> (pg_desk, run_record + clarification_resolution) py" where
  "pg_answer_atomic column_error now t child tok pid uid oid ttl s =
     (case (if map_of (run_rows s) pid = None then None else map_of (requests s) pid, map_of (run_rows s) pid) of
        (Some c, Some parent) \<Rightarrow>
          (case answer_choice (t 0) pid uid oid (Some c) of
             Inl e \<Rightarrow> (Inl e, s)
           | Inr (_, e) \<Rightarrow>
               (case on_runs (pg_create column_error True now (pg_child_row now child pid uid parent e)) s of
                  (Inl err, _) \<Rightarrow> (Inl err, s)
                | (Inr _, s1) \<Rightarrow>
                    (let s2 = s1\<lparr>requests := AList.update pid (c\<lparr>answered_at := Some now,
                            selected_option_id := Some oid, card_child := Some child\<rparr>) (requests s1)\<rparr>;
                         r = (pg_child_row now child pid uid parent e)\<lparr>created_at := t 1, updated_at := t 2\<rparr>
                     in case ttl of
                          None \<Rightarrow> (Inr (Inl r), s2)
                        | Some n \<Rightarrow>
                            if n = 0 then (Inr (Inl r), s2)
                            else if map_of (token_rows s2) child \<noteq> None \<or>
                               sha256_hex tok \<in> token_hash ` snd ` set (token_rows s2)
                            then (Inl unique_violation, s)
                            else (Inr (Inr \<lparr>res_child = child, res_parent = pid, res_token = tok,
                                    res_expires_at = t 3 + seconds n, res_selection = option_selection e\<rparr>),
                                  s2\<lparr>token_rows := AList.update child (token_row (t 3) child pid uid tok e n)
                                    (token_rows s2)\<rparr>))))
      | _ \<Rightarrow> (Inl (KeyError pid), s))"

text \<open>\<open>claim_resume_atomic\<close>.\<close>

definition claim_refusal :: "time \<Rightarrow> string \<Rightarrow> string \<Rightarrow> run_record option \<Rightarrow> resume_token option \<Rightarrow>
    run_record option \<Rightarrow> exn option" where
  "claim_refusal now uid hash child tok parent =
     (case child of
        None \<Rightarrow> Some (ResumeNotFound ''resume not found'')
      | Some r \<Rightarrow>
          if user_id r \<noteq> uid then Some (ResumeNotFound ''resume not found'')
          else (case tok of
             None \<Rightarrow> Some (ResumeInvalid ''resume token is invalid'')
           | Some k \<Rightarrow>
               if consumed_at k \<noteq> None \<or> status r \<noteq> RECEIVED
               then Some (ResumeReplay ''resume token already consumed'')
               else if tok_expires_at k \<le> now then Some (ResumeExpired ''resume token expired'')
               else if token_hash k \<noteq> hash then Some (ResumeInvalid ''resume token is invalid'')
               else if operation_kind r \<noteq> READ_QUERY \<or>
                 (case parent of None \<Rightarrow> True | Some p \<Rightarrow> status p \<noteq> NEEDS_CLARIFICATION)
               then Some (ResumeInvalid ''resume boundary is invalid'')
               else None))"

definition pg_claim_resume_atomic ::
  "bool \<Rightarrow> time \<Rightarrow> (nat \<Rightarrow> time) \<Rightarrow> string \<Rightarrow> string \<Rightarrow> string \<Rightarrow> (pg_desk, run_record) py" where
  "pg_claim_resume_atomic lock_ok now t child uid tok s =
     (if \<not> lock_ok then (Inl (External ''FeatureNotSupported''), s)
      else
        (let found = map_of (run_rows s) child;
             parent = (case found of None \<Rightarrow> None | Some r \<Rightarrow>
               (case parent_run_id r of None \<Rightarrow> None | Some p \<Rightarrow> map_of (run_rows s) p))
         in case claim_refusal (t 0) uid (sha256_hex tok) found (map_of (token_rows s) child) parent of
              Some e \<Rightarrow> (Inl e, s)
            | None \<Rightarrow>
                (let r = the found; r' = r\<lparr>status := CONTEXT_BUILDING, updated_at := now\<rparr>;
                     s1 = with_runs (pg_insert_step now child CONTEXT_BUILDING None
                            ((runs_part s)\<lparr>run_rows := AList.update child r' (run_rows s)\<rparr>)) s
                 in (Inr ((new_run_record (t 1) (t 2) child uid (conversation_id r) (instruction_hash r)
                            READ_QUERY (Some (the (parent_run_id r))) (Some (correlation_id r)))\<lparr>status := CONTEXT_BUILDING\<rparr>),
                     s1\<lparr>token_rows := AList.update child
                       ((the (map_of (token_rows s) child))\<lparr>consumed_at := Some now\<rparr>) (token_rows s)\<rparr>))))"

subsection \<open>The service over this store\<close>

definition pg_service_create ::
  "clarification_config \<Rightarrow> (nat \<Rightarrow> time) \<Rightarrow> string \<Rightarrow> string \<Rightarrow> string \<Rightarrow> material_ambiguity \<Rightarrow>
   (pg_desk, clarification_card) py" where
  "pg_service_create c t cid pid uid a =
     bindM (on_runs (pg_get pid)) (\<lambda>found.
       case create_refusal pid uid a found of
         Some e \<Rightarrow> raise e
       | None \<Rightarrow>
           thenM (pg_save_card (new_card c t cid pid uid a))
             (thenM (on_runs (pg_transition (t 2) pid NEEDS_CLARIFICATION None))
               (ret (new_card c t cid pid uid a))))"

definition pg_service_answer_with_resume ::
  "(run_record \<Rightarrow> exn option) \<Rightarrow> clarification_config \<Rightarrow> time \<Rightarrow> (nat \<Rightarrow> time) \<Rightarrow> string \<Rightarrow> string \<Rightarrow> string \<Rightarrow>
   string \<Rightarrow> string \<Rightarrow> (pg_desk, clarification_resolution) py" where
  "pg_service_answer_with_resume column_error c now t child tok pid uid oid =
     bindM (on_runs (pg_get pid)) (\<lambda>found.
       case found of
         None \<Rightarrow> raise (KeyError pid)
       | Some parent \<Rightarrow>
           if user_id parent \<noteq> uid
           then raise (PermissionError ''clarification belongs to another user'')
           else if operation_kind parent \<noteq> READ_QUERY
           then raise (ValueError ''clarification resume only supports READ_QUERY'')
           else bindM (pg_answer_atomic column_error now t child tok pid uid oid (Some (resume_ttl_seconds c)))
             (\<lambda>x. case x of Inl _ \<Rightarrow> raise AssertionError | Inr res \<Rightarrow> ret res))"

definition pg_service_claim ::
  "bool \<Rightarrow> time \<Rightarrow> (nat \<Rightarrow> time) \<Rightarrow> string \<Rightarrow> string \<Rightarrow> string \<Rightarrow> (pg_desk, run_record) py" where
  "pg_service_claim lock_ok now t child uid tok =
     (if tok = [] \<or> 256 < length tok then raise (ResumeInvalid ''resume token is invalid'')
      else bindM (on_runs (pg_get child)) (\<lambda>found.
        case found of
          None \<Rightarrow> raise (ResumeNotFound ''resume not found'')
        | Some r \<Rightarrow>
            if user_id r \<noteq> uid then raise (ResumeNotFound ''resume not found'')
            else if operation_kind r \<noteq> READ_QUERY
            then raise (ResumeInvalid ''resume child must be READ_QUERY'')
            else if status r \<noteq> RECEIVED then raise (ResumeReplay ''resume child already started'')
            else bindM (on_runs (pg_get (case parent_run_id r of None \<Rightarrow> [] | Some p \<Rightarrow> p))) (\<lambda>parent.
              if (case parent of None \<Rightarrow> True | Some p \<Rightarrow> status p \<noteq> NEEDS_CLARIFICATION)
              then raise (ResumeInvalid ''resume parent is not awaiting clarification'')
              else pg_claim_resume_atomic lock_ok now t child uid tok)))"

subsection \<open>What every operation keeps\<close>

lemma with_runs_part [simp]:
  "run_rows (with_runs r s) = run_rows r" "requests (with_runs r s) = requests s"
  "token_rows (with_runs r s) = token_rows s" "run_rows (runs_part s) = run_rows s"
  by (simp_all add: with_runs_def runs_part_def pg_runs.truncate_def)

lemma on_runs_frame:
  "on_runs m s = (x, s') \<Longrightarrow> requests s' = requests s \<and> token_rows s' = token_rows s"
  by (auto simp: on_runs_def split: prod.splits)

lemma on_runs_get [simp]: "on_runs (pg_get k) s = (Inr (map_of (run_rows s) k), s)"
  by (simp add: on_runs_def pg_get_def with_runs_def runs_part_def pg_runs.truncate_def)

text \<open>A card that is answered and a token that is consumed stay as they are.\<close>

definition desk_settles :: "pg_desk \<Rightarrow> pg_desk \<Rightarrow> bool" where
  "desk_settles s s' \<longleftrightarrow>
     (\<forall>k c. map_of (requests s) k = Some c \<and> answered_at c \<noteq> None \<longrightarrow> map_of (requests s') k = Some c) \<and>
     (\<forall>k r. map_of (token_rows s) k = Some r \<and> consumed_at r \<noteq> None \<longrightarrow> map_of (token_rows s') k = Some r)"

lemma desk_settles_refl [simp]: "desk_settles s s"
  by (simp add: desk_settles_def)

lemma desk_settles_trans: "desk_settles s s' \<Longrightarrow> desk_settles s' s'' \<Longrightarrow> desk_settles s s''"
  unfolding desk_settles_def by blast

lemma desk_settles_keeps: "(\<And>s. desk_settles s (snd (m s))) \<Longrightarrow> keeps (desk_settles s0) m"
  by (rule keepsI) (metis desk_settles_trans)

lemma desk_settles_on_runs: "desk_settles s (snd (on_runs m s))"
  using on_runs_frame [of m s] by (cases "on_runs m s") (simp add: desk_settles_def)

lemma desk_settles_save_card: "desk_settles s (snd (pg_save_card c s))"
  by (auto simp: pg_save_card_def desk_settles_def)

lemma answer_choice_card:
  "answer_choice now pid uid oid found = Inr (c, e) \<Longrightarrow>
   found = Some c \<and> card_user c = uid \<and> answered_at c = None \<and> now < card_expires_at c"
  by (auto simp: answer_choice_def split: option.splits if_splits)

definition wants_token :: "int option \<Rightarrow> bool" where
  "wants_token ttl \<longleftrightarrow> (case ttl of None \<Rightarrow> False | Some n \<Rightarrow> n \<noteq> 0)"

text \<open>The two ways an answer ends.\<close>

lemma pg_answer_cases:
  obtains (refused) err where "pg_answer_atomic column_error now t child tok pid uid oid ttl s = (Inl err, s)"
  | (answered) c parent e x s' s1 where
      "map_of (requests s) pid = Some c" "map_of (run_rows s) pid = Some parent"
      "answer_choice (t 0) pid uid oid (Some c) = Inr (c, e)"
      "on_runs (pg_create column_error True now (pg_child_row now child pid uid parent e)) s = (Inr (), s1)"
      "pg_answer_atomic column_error now t child tok pid uid oid ttl s = (Inr x, s')"
      "run_rows s' = run_rows s1"
      "requests s' = AList.update pid (c\<lparr>answered_at := Some now, selected_option_id := Some oid,
         card_child := Some child\<rparr>) (requests s)"
      "wants_token ttl \<Longrightarrow> map_of (token_rows s) child = None \<and>
         token_rows s' = AList.update child (token_row (t 3) child pid uid tok e (the ttl)) (token_rows s) \<and>
         x = Inr \<lparr>res_child = child, res_parent = pid, res_token = tok,
           res_expires_at = t 3 + seconds (the ttl), res_selection = option_selection e\<rparr>"
      "\<not> wants_token ttl \<Longrightarrow> token_rows s' = token_rows s"
proof (cases "map_of (requests s) pid")
  case None
  then show thesis by (intro refused [of "KeyError pid"]) (simp add: pg_answer_atomic_def split: option.split)
next
  case c: (Some c)
  show thesis
  proof (cases "map_of (run_rows s) pid")
    case None
    then show thesis by (intro refused [of "KeyError pid"]) (simp add: pg_answer_atomic_def)
  next
    case p: (Some parent)
    show thesis
    proof (cases "answer_choice (t 0) pid uid oid (Some c)")
      case (Inl err)
      with c p show thesis by (intro refused [of err]) (simp add: pg_answer_atomic_def)
    next
      case (Inr ce)
      then obtain e where e: "answer_choice (t 0) pid uid oid (Some c) = Inr (c, e)"
        by (cases ce) (use answer_choice_card in fastforce)
      obtain y s1 where m: "on_runs (pg_create column_error True now (pg_child_row now child pid uid parent e)) s = (y, s1)"
        by fastforce
      note fr = on_runs_frame [OF m]
      show thesis
      proof (cases y)
        case (Inl err)
        with c p e m show thesis by (intro refused [of err]) (simp add: pg_answer_atomic_def)
      next
        case (Inr u)
        then have m: "on_runs (pg_create column_error True now (pg_child_row now child pid uid parent e)) s = (Inr (), s1)"
          using m by simp
        show thesis
        proof (cases "wants_token ttl")
          case False
          show thesis
            by (rule answered [OF c p e m, of "Inl ((pg_child_row now child pid uid parent e)\<lparr>created_at := t 1,
                  updated_at := t 2\<rparr>)" "s1\<lparr>requests := AList.update pid (c\<lparr>answered_at := Some now,
                  selected_option_id := Some oid, card_child := Some child\<rparr>) (requests s1)\<rparr>"])
              (use c p e m fr False in \<open>auto simp: pg_answer_atomic_def Let_def wants_token_def split: option.splits\<close>)
        next
          case True
          then obtain n where n: "ttl = Some n" "n \<noteq> 0" by (auto simp: wants_token_def split: option.splits)
          show thesis
          proof (cases "map_of (token_rows s) child \<noteq> None \<or> sha256_hex tok \<in> token_hash ` snd ` set (token_rows s)")
            case taken: True
            with c p e m fr n show thesis
              by (intro refused [of unique_violation]) (simp add: pg_answer_atomic_def Let_def)
          next
            case False
            show thesis
              by (rule answered [OF c p e m, of "Inr \<lparr>res_child = child, res_parent = pid, res_token = tok,
                    res_expires_at = t 3 + seconds (the ttl), res_selection = option_selection e\<rparr>"
                    "s1\<lparr>requests := AList.update pid (c\<lparr>answered_at := Some now,
                       selected_option_id := Some oid, card_child := Some child\<rparr>) (requests s1),
                      token_rows := AList.update child (token_row (t 3) child pid uid tok e (the ttl)) (token_rows s1)\<rparr>"])
                (use c p e m fr n False True in \<open>simp_all add: pg_answer_atomic_def Let_def\<close>)
          qed
        qed
      qed
    qed
  qed
qed

lemma desk_settles_answer: "desk_settles s (snd (pg_answer_atomic column_error now t child tok pid uid oid ttl s))"
proof (cases rule: pg_answer_cases [of column_error now t child tok pid uid oid ttl s])
  case (refused err)
  then show ?thesis by simp
next
  case (answered c parent e x s' s1)
  have "answered_at c = None" using answer_choice_card [OF answered(3)] by simp
  with answered show ?thesis by (cases "wants_token ttl") (auto simp: desk_settles_def)
qed

lemma claim_refusal_None:
  "claim_refusal now uid hash found tok parent = None \<Longrightarrow>
   \<exists>r k p. found = Some r \<and> tok = Some k \<and> parent = Some p \<and> user_id r = uid \<and> consumed_at k = None \<and>
     status r = RECEIVED \<and> now < tok_expires_at k \<and> token_hash k = hash \<and> operation_kind r = READ_QUERY \<and>
     status p = NEEDS_CLARIFICATION"
  by (auto simp: claim_refusal_def split: option.splits if_splits)

lemma pg_claim_cases:
  obtains (refused) err where "pg_claim_resume_atomic lock_ok now t child uid tok s = (Inl err, s)"
  | (claimed) r k p pid r' s' where
      "map_of (run_rows s) child = Some r" "map_of (token_rows s) child = Some k"
      "parent_run_id r = Some pid" "map_of (run_rows s) pid = Some p"
      "user_id r = uid" "consumed_at k = None" "status r = RECEIVED" "t 0 < tok_expires_at k"
      "token_hash k = sha256_hex tok" "operation_kind r = READ_QUERY" "status p = NEEDS_CLARIFICATION"
      "pg_claim_resume_atomic lock_ok now t child uid tok s = (Inr r', s')"
      "status r' = CONTEXT_BUILDING" "user_id r' = uid" "parent_run_id r' = Some pid"
      "instruction_hash r' = instruction_hash r" "lock_ok"
      "requests s' = requests s" "token_rows s' = AList.update child (k\<lparr>consumed_at := Some now\<rparr>) (token_rows s)"
      "run_rows s' = AList.update child (r\<lparr>status := CONTEXT_BUILDING, updated_at := now\<rparr>) (run_rows s)"
proof (cases "\<not> lock_ok \<or> claim_refusal (t 0) uid (sha256_hex tok) (map_of (run_rows s) child) (map_of (token_rows s) child)
    (case map_of (run_rows s) child of None \<Rightarrow> None | Some r \<Rightarrow>
       (case parent_run_id r of None \<Rightarrow> None | Some p \<Rightarrow> map_of (run_rows s) p)) \<noteq> None")
  case True
  then show thesis by (cases lock_ok) (auto simp: pg_claim_resume_atomic_def Let_def intro: refused)
next
  case False
  then obtain r k p pid where "map_of (run_rows s) child = Some r" "map_of (token_rows s) child = Some k"
      "parent_run_id r = Some pid" "map_of (run_rows s) pid = Some p"
      "user_id r = uid" "consumed_at k = None" "status r = RECEIVED" "t 0 < tok_expires_at k"
      "token_hash k = sha256_hex tok" "operation_kind r = READ_QUERY" "status p = NEEDS_CLARIFICATION"
    by (auto dest!: claim_refusal_None split: option.splits)
  moreover from this False have "pg_claim_resume_atomic lock_ok now t child uid tok s =
      (Inr ((new_run_record (t 1) (t 2) child uid (conversation_id r) (instruction_hash r) READ_QUERY (Some pid)
         (Some (correlation_id r)))\<lparr>status := CONTEXT_BUILDING\<rparr>),
       (with_runs (pg_insert_step now child CONTEXT_BUILDING None ((runs_part s)\<lparr>run_rows := AList.update child
         (r\<lparr>status := CONTEXT_BUILDING, updated_at := now\<rparr>) (run_rows s)\<rparr>)) s)\<lparr>token_rows :=
           AList.update child (k\<lparr>consumed_at := Some now\<rparr>) (token_rows s)\<rparr>)"
    by (simp add: pg_claim_resume_atomic_def)
  moreover have lock_ok using False by simp
  ultimately show thesis by (rule_tac claimed) (assumption | simp add: pg_insert_step_def)+
qed

lemma desk_settles_claim: "desk_settles s (snd (pg_claim_resume_atomic lock_ok now t child uid tok s))"
  by (cases rule: pg_claim_cases [of lock_ok now t child uid tok s]) (auto simp: desk_settles_def)

lemmas desk_keeping [keeps_rules] = desk_settles_keeps [OF desk_settles_on_runs] desk_settles_keeps [OF desk_settles_save_card]
  desk_settles_keeps [OF desk_settles_answer] desk_settles_keeps [OF desk_settles_claim]

lemma desk_settles_service:
  "desk_settles s (snd (pg_service_create c t cid pid uid a s))"
  "desk_settles s (snd (pg_service_answer_with_resume column_error c now t child tok pid uid oid s))"
  "desk_settles s (snd (pg_service_claim lock_ok now t child uid tok s))"
proof -
  have "keeps (desk_settles s) (pg_service_create c t cid pid uid a)"
    unfolding pg_service_create_def by (intro keeps_rules)
  moreover have "keeps (desk_settles s) (pg_service_answer_with_resume column_error c now t child tok pid uid oid)"
    unfolding pg_service_answer_with_resume_def by (intro keeps_rules)
  moreover have "keeps (desk_settles s) (pg_service_claim lock_ok now t child uid tok)"
    unfolding pg_service_claim_def by (intro keeps_rules)
  ultimately show
    "desk_settles s (snd (pg_service_create c t cid pid uid a s))"
    "desk_settles s (snd (pg_service_answer_with_resume column_error c now t child tok pid uid oid s))"
    "desk_settles s (snd (pg_service_claim lock_ok now t child uid tok s))"
    by (simp_all add: keepsD)
qed

subsection \<open>Steps of the database\<close>

inductive desk_step :: "pg_desk \<Rightarrow> pg_desk \<Rightarrow> bool" where
  runs: "pg_step (runs_part s) r \<Longrightarrow> desk_step s (with_runs r s)"
| ask: "desk_step s (snd (pg_service_create c t cid pid uid a s))"
| answer: "desk_step s (snd (pg_answer_atomic column_error now t child tok pid uid oid ttl s))"
| answer_with_resume: "desk_step s (snd (pg_service_answer_with_resume column_error c now t child tok pid uid oid s))"
| claim: "desk_step s (snd (pg_service_claim lock_ok now t child uid tok s))"

inductive desk_reachable :: "pg_desk \<Rightarrow> bool" where
  start: "desk_reachable \<lparr>run_rows = [], step_rows = [], checkpoint_rows = [], requests = [], token_rows = []\<rparr>"
| step: "desk_reachable s \<Longrightarrow> desk_step s s' \<Longrightarrow> desk_reachable s'"

lemma desk_step_settles: "desk_step s s' \<Longrightarrow> desk_settles s s'"
  by (induction rule: desk_step.induct)
    (simp_all add: desk_settles_answer desk_settles_service desk_settles_def [of _ "with_runs _ _"])

lemma desk_steps_settle: "desk_step\<^sup>*\<^sup>* s s' \<Longrightarrow> desk_settles s s'"
  by (induction rule: rtranclp_induct) (auto dest: desk_step_settles desk_settles_trans)

subsection \<open>References between the tables\<close>

text \<open>No operation removes a run or changes whose it is or where it comes from.\<close>

definition rows_kept :: "pg_runs \<Rightarrow> pg_runs \<Rightarrow> bool" where
  "rows_kept s s' \<longleftrightarrow> (\<forall>k r. map_of (run_rows s) k = Some r \<longrightarrow>
     (\<exists>r'. map_of (run_rows s') k = Some r' \<and> user_id r' = user_id r \<and> parent_run_id r' = parent_run_id r \<and>
        operation_kind r' = operation_kind r))"

lemma rows_kept_refl [simp]: "rows_kept s s"
  by (simp add: rows_kept_def)

lemma rows_kept_trans: "rows_kept s s' \<Longrightarrow> rows_kept s' s'' \<Longrightarrow> rows_kept s s''"
  unfolding rows_kept_def by metis

lemma rows_kept_keeps: "(\<And>s. rows_kept s (snd (m s))) \<Longrightarrow> keeps (rows_kept s0) m"
  by (rule keepsI) (metis rows_kept_trans)

lemma kept_create: "rows_kept s (snd (pg_create column_error v2 now r s))"
  by (auto simp: pg_create_def rows_kept_def pg_insert_step_def split: option.splits)

lemma kept_transition: "rows_kept s (snd (pg_transition now rid st ft s))"
  by (auto simp: pg_transition_def rows_kept_def pg_insert_step_def Let_def split: option.splits)

lemma kept_counters:
  "rows_kept s (snd (pg_increment_tool_calls now rid s))" "rows_kept s (snd (pg_increment_retries now rid s))"
  by (auto simp: pg_increment_tool_calls_def pg_increment_retries_def pg_increment_def rows_kept_def Let_def
      split: option.splits)

lemma kept_checkpoint: "rows_kept s (snd (pg_add_checkpoint now cid rid stg arts safe s))"
  by (auto simp: pg_add_checkpoint_def rows_kept_def Let_def split: sum.splits)

lemma kept_fail: "rows_kept s (snd (pg_fail_incomplete_runs now ft before s))"
  by (auto simp: rows_kept_def fail_rows map_of_map_values close_all_def closed_failed_def)

lemma kept_step: "pg_step s s' \<Longrightarrow> rows_kept s s'"
proof (induction rule: pg_step.induct)
  case (cancel s now rid uid)
  have "keeps (rows_kept s) (pg_cancel now rid uid)"
    unfolding pg_cancel_def by (intro keeps_rules rows_kept_keeps kept_transition) (simp add: pg_get_def)
  then show ?case by (simp add: keepsD)
next
  case (recover s column_error c u now cid pid uid ins)
  have "keeps (rows_kept s) (pg_create_recovery_child column_error True c u now cid pid uid ins)"
    unfolding pg_create_recovery_child_def
    by (intro keeps_rules rows_kept_keeps kept_create) (simp_all add: pg_get_def pg_list_checkpoints_def)
  then show ?case by (simp add: keepsD)
qed (simp_all add: kept_create kept_transition kept_counters kept_checkpoint kept_fail)

definition card_refs :: "(string, run_record) dict \<Rightarrow> string \<Rightarrow> clarification_card \<Rightarrow> bool" where
  "card_refs rows k c \<longleftrightarrow> card_parent c = k \<and> (answered_at c = None \<longleftrightarrow> card_child c = None) \<and>
     (\<exists>p. map_of rows k = Some p \<and> user_id p = card_user c) \<and>
     (\<forall>ch. card_child c = Some ch \<longrightarrow> (\<exists>r. map_of rows ch = Some r \<and> parent_run_id r = Some k \<and>
        user_id r = card_user c \<and> operation_kind r = READ_QUERY))"

definition token_refs :: "(string, run_record) dict \<Rightarrow> string \<Rightarrow> resume_token \<Rightarrow> bool" where
  "token_refs rows k x \<longleftrightarrow> tok_child x = k \<and> (\<exists>r. map_of rows k = Some r \<and> parent_run_id r = Some (tok_parent x) \<and>
     user_id r = tok_user x \<and> operation_kind r = READ_QUERY)"

definition desk_refs :: "pg_desk \<Rightarrow> bool" where
  "desk_refs s \<longleftrightarrow> (\<forall>k c. map_of (requests s) k = Some c \<longrightarrow> card_refs (run_rows s) k c) \<and>
     (\<forall>k x. map_of (token_rows s) k = Some x \<longrightarrow> token_refs (run_rows s) k x)"

lemma rows_keptD:
  "rows_kept s s' \<Longrightarrow> map_of (run_rows s) k = Some r \<Longrightarrow> \<exists>r'. map_of (run_rows s') k = Some r' \<and>
     user_id r' = user_id r \<and> parent_run_id r' = parent_run_id r \<and> operation_kind r' = operation_kind r"
  unfolding rows_kept_def by blast

lemma refs_mono:
  assumes "rows_kept r r'"
  shows "card_refs (run_rows r) k c \<Longrightarrow> card_refs (run_rows r') k c"
    and "token_refs (run_rows r) k x \<Longrightarrow> token_refs (run_rows r') k x"
proof -
  assume old: "card_refs (run_rows r) k c"
  then have "\<exists>p. map_of (run_rows r') k = Some p \<and> user_id p = card_user c"
    by (auto simp: card_refs_def dest: rows_keptD [OF assms])
  moreover have "\<exists>x. map_of (run_rows r') ch = Some x \<and> parent_run_id x = Some k \<and> user_id x = card_user c \<and>
      operation_kind x = READ_QUERY" if "card_child c = Some ch" for ch
    using old that by (auto simp: card_refs_def dest: rows_keptD [OF assms])
  ultimately show "card_refs (run_rows r') k c" using old by (simp add: card_refs_def)
next
  assume "token_refs (run_rows r) k x"
  then show "token_refs (run_rows r') k x"
    by (auto simp: token_refs_def dest: rows_keptD [OF assms])
qed

lemma desk_refs_runs:
  assumes "desk_refs s" and "rows_kept (runs_part s) (runs_part s')" and "requests s' = requests s"
    and "token_rows s' = token_rows s"
  shows "desk_refs s'"
  using assms(1,3,4) refs_mono [OF assms(2)] by (simp add: desk_refs_def)

lemma runs_part_with [simp]: "runs_part (with_runs r s) = r"
  by (simp add: runs_part_def with_runs_def pg_runs.truncate_def)

lemma desk_refs_on_runs:
  assumes "desk_refs s" and "on_runs m s = (x, s')" and "\<And>r. rows_kept r (snd (m r))"
  shows "desk_refs s' \<and> rows_kept (runs_part s) (runs_part s')"
proof -
  have "runs_part s' = snd (m (runs_part s))" using assms(2) by (auto simp: on_runs_def split: prod.splits)
  then have "rows_kept (runs_part s) (runs_part s')" using assms(3) by simp
  with desk_refs_runs [OF assms(1) this] on_runs_frame [OF assms(2)] show ?thesis by simp
qed

lemma desk_refs_card:
  assumes "desk_refs s" and "card_refs (run_rows s) k c"
  shows "desk_refs (s\<lparr>requests := AList.update k c (requests s)\<rparr>)"
  using assms by (simp add: desk_refs_def)

lemma desk_refs_ask: "desk_refs s \<Longrightarrow> desk_refs (snd (pg_service_create c t cid pid uid a s))"
proof -
  assume ok: "desk_refs s"
  show ?thesis
  proof (cases "create_refusal pid uid a (map_of (run_rows s) pid)")
    case (Some e)
    with ok show ?thesis by (simp add: pg_service_create_def bindM_def)
  next
    case None
    let ?c = "new_card c t cid pid uid a"
    from None obtain p where p: "map_of (run_rows s) pid = Some p" "user_id p = uid"
      by (auto simp: create_refusal_def split: option.splits if_splits)
    then have refs: "card_refs (run_rows s) pid ?c" by (simp add: card_refs_def new_card_def)
    obtain x s1 where s1: "pg_save_card ?c s = (x, s1)" by fastforce
    then have "desk_refs s1"
      using ok desk_refs_card [OF ok refs] by (auto simp: pg_save_card_def new_card_def split: if_splits)
    moreover obtain y s2 where s2: "on_runs (pg_transition (t 2) pid NEEDS_CLARIFICATION None) s1 = (y, s2)" by fastforce
    ultimately have "desk_refs s2" using desk_refs_on_runs [OF _ s2] kept_transition by blast
    with \<open>desk_refs s1\<close> None s1 s2 show ?thesis
      by (cases x; cases y) (simp_all add: pg_service_create_def bindM_def thenM_def)
  qed
qed

lemma created_row: "pg_create column_error True now r s = (Inr (), s') \<Longrightarrow>
    map_of (run_rows s) (run_id r) = None \<and> run_rows s' = AList.update (run_id r) (stored_row True r) (run_rows s)"
  by (auto simp: pg_create_def pg_insert_step_def split: option.splits if_splits)

lemma on_runs_Inr: "on_runs m s = (Inr x, s') \<Longrightarrow> m (runs_part s) = (Inr x, runs_part s')"
  by (auto simp: on_runs_def split: prod.splits)

text \<open>The child that an answer inserts.\<close>

lemma answered_child:
  assumes "on_runs (pg_create column_error True now (pg_child_row now child pid uid parent e)) s = (Inr (), s1)"
  shows "map_of (run_rows s) child = None" and "map_of (run_rows s1) child = Some (pg_child_row now child pid uid parent e)"
    and "child \<noteq> k \<Longrightarrow> map_of (run_rows s1) k = map_of (run_rows s) k"
proof -
  let ?r = "pg_child_row now child pid uid parent e"
  have r: "run_id ?r = child" "stored_row True ?r = ?r"
    by (simp_all add: pg_child_row_def stored_row_def new_run_record_def)
  from created_row [OF on_runs_Inr [OF assms]] r
  have rows: "map_of (run_rows s) child = None" "run_rows s1 = AList.update child ?r (run_rows s)" by simp_all
  from rows show "map_of (run_rows s) child = None" "map_of (run_rows s1) child = Some ?r"
    "child \<noteq> k \<Longrightarrow> map_of (run_rows s1) k = map_of (run_rows s) k" by simp_all
qed

lemma child_row_fields [simp]:
  "user_id (pg_child_row now child pid uid parent e) = uid"
  "parent_run_id (pg_child_row now child pid uid parent e) = Some pid"
  "operation_kind (pg_child_row now child pid uid parent e) = READ_QUERY"
  "status (pg_child_row now child pid uid parent e) = RECEIVED"
  "instruction_hash (pg_child_row now child pid uid parent e) = child_hash (instruction_hash parent) e"
  by (simp_all add: pg_child_row_def)

lemma desk_refs_answer:
  assumes ok: "desk_refs s"
  shows "desk_refs (snd (pg_answer_atomic column_error now t child tok pid uid oid ttl s))"
proof (cases rule: pg_answer_cases [of column_error now t child tok pid uid oid ttl s])
  case (refused err)
  with ok show ?thesis by simp
next
  case (answered c parent e x s' s1)
  note row = answered_child [OF answered(4)]
  from desk_refs_on_runs [OF ok answered(4) kept_create]
  have ok1: "desk_refs s1" and kept: "rows_kept (runs_part s) (runs_part s1)" by simp_all
  note same = on_runs_frame [OF answered(4)]
  have user: "card_user c = uid" using answer_choice_card [OF answered(3)] by simp
  have "card_refs (run_rows s) pid c" using ok answered(1) by (simp add: desk_refs_def)
  then have "card_refs (run_rows s1) pid c" using refs_mono(1) [OF kept] by simp
  then have c: "card_refs (run_rows s1) pid (c\<lparr>answered_at := Some now, selected_option_id := Some oid,
      card_child := Some child\<rparr>)"
    using row(2) user by (simp add: card_refs_def)
  have x: "token_refs (run_rows s1) child (token_row (t 3) child pid uid tok e n)" for n
    using row(2) by (simp add: token_refs_def token_row_def)
  have "desk_refs s'"
  proof (cases "wants_token ttl")
    case True
    with ok1 c x answered(6-8) same show ?thesis by (simp add: desk_refs_def)
  next
    case False
    with ok1 c answered(6,7,9) same show ?thesis by (simp add: desk_refs_def)
  qed
  with answered(5) show ?thesis by simp
qed

lemma desk_refs_claim:
  assumes ok: "desk_refs s"
  shows "desk_refs (snd (pg_claim_resume_atomic lock_ok now t child uid tok s))"
proof (cases rule: pg_claim_cases [of lock_ok now t child uid tok s])
  case (refused err)
  with ok show ?thesis by simp
next
  case (claimed r k p pid r' s')
  have kept: "rows_kept (runs_part s) (runs_part s')"
    unfolding rows_kept_def using claimed(1,20) by simp
  have "token_refs (run_rows s) child k" using ok claimed(2) by (simp add: desk_refs_def)
  then have "token_refs (run_rows s') child k" using refs_mono(2) [OF kept] by simp
  then have x: "token_refs (run_rows s') child (k\<lparr>consumed_at := Some now\<rparr>)" by (simp add: token_refs_def)
  from ok refs_mono [OF kept] x claimed(18,19) have "desk_refs s'" by (simp add: desk_refs_def)
  with claimed(12) show ?thesis by simp
qed

lemma desk_refs_keeps: "(\<And>s. desk_refs s \<Longrightarrow> desk_refs (snd (m s))) \<Longrightarrow> keeps desk_refs m"
  by (rule keepsI)

lemma desk_refs_step: "desk_step s s' \<Longrightarrow> desk_refs s \<Longrightarrow> desk_refs s'"
proof (induction rule: desk_step.induct)
  case (runs s r)
  then show ?case by (intro desk_refs_runs [OF runs(2)]) (simp_all add: kept_step)
next
  case (ask s c t cid pid uid a)
  then show ?case by (rule desk_refs_ask)
next
  case (answer s column_error now t child tok pid uid oid ttl)
  then show ?case by (rule desk_refs_answer)
next
  case (answer_with_resume s column_error c now t child tok pid uid oid)
  have "keeps desk_refs (pg_service_answer_with_resume column_error c now t child tok pid uid oid)"
    unfolding pg_service_answer_with_resume_def
    by (intro keeps_rules desk_refs_keeps desk_refs_answer) simp_all
  then show ?case using answer_with_resume by (rule keepsD)
next
  case (claim s lock_ok now t child uid tok)
  have "keeps desk_refs (pg_service_claim lock_ok now t child uid tok)"
    unfolding pg_service_claim_def by (intro keeps_rules desk_refs_keeps desk_refs_claim) simp_all
  then show ?case using claim by (rule keepsD)
qed

lemma desk_reachable_refs: "desk_reachable s \<Longrightarrow> desk_refs s"
  by (induction rule: desk_reachable.induct) (simp_all add: desk_refs_def [of "\<lparr>run_rows = [], step_rows = [], checkpoint_rows = [], requests = [], token_rows = []\<rparr>"] desk_refs_step)

subsection \<open>Properties\<close>

text \<open>On PostgreSQL a card is answered at most once: after an answer went through, every later
answer to the same card is refused and changes nothing, whoever sends it, whatever option it names,
with or without a resume token, and whatever happened to the tables in between.\<close>

theorem pg_card_answered_once:
  assumes "pg_answer_atomic column_error now t child tok pid uid oid ttl s = (Inr x, s1)"
    and "desk_step\<^sup>*\<^sup>* s1 s2"
  shows "\<exists>e. pg_answer_atomic column_error' now' t' child' tok' pid uid' oid' ttl' s2 = (Inl e, s2)"
proof (cases rule: pg_answer_cases [of column_error now t child tok pid uid oid ttl s])
  case (refused err)
  with assms(1) show ?thesis by simp
next
  case (answered c parent e x' s' s0)
  let ?c = "c\<lparr>answered_at := Some now, selected_option_id := Some oid, card_child := Some child\<rparr>"
  have "map_of (requests s1) pid = Some ?c" using answered(5,7) assms(1) by simp
  with desk_steps_settle [OF assms(2)] have s2: "map_of (requests s2) pid = Some ?c"
    unfolding desk_settles_def by simp
  show ?thesis
  proof (cases rule: pg_answer_cases [of column_error' now' t' child' tok' pid uid' oid' ttl' s2])
    case (answered c' parent' e' x'' s'' s3)
    with answer_choice_card [OF answered(3)] s2 show ?thesis by simp
  qed blast
qed

text \<open>On PostgreSQL a resume is claimed at most once, and only by the owner of a child that was not
started, with the token that hashes to the stored one, unconsumed and unexpired, while the parent
waits for the user: after a claim went through, every later claim of that child is refused and
changes nothing, whatever happened in between.\<close>

theorem pg_resume_claimed_once:
  assumes "pg_service_claim lock_ok now t child uid tok s = (Inr r, s1)" and "desk_step\<^sup>*\<^sup>* s1 s2"
  shows "(\<exists>e. pg_service_claim lock_ok' now' t' child uid' tok' s2 = (Inl e, s2)) \<and>
    user_id r = uid \<and> status r = CONTEXT_BUILDING \<and>
    (\<exists>pid p k. parent_run_id r = Some pid \<and> map_of (run_rows s) pid = Some p \<and> status p = NEEDS_CLARIFICATION \<and>
       map_of (token_rows s) child = Some k \<and> consumed_at k = None \<and> t 0 < tok_expires_at k \<and>
       token_hash k = sha256_hex tok)"
proof -
  have claim: "pg_claim_resume_atomic lock_ok now t child uid tok s = (Inr r, s1)"
    using assms(1) by (auto simp: pg_service_claim_def bindM_def split: if_splits option.splits)
  show ?thesis
  proof (cases rule: pg_claim_cases [of lock_ok now t child uid tok s])
    case (refused err)
    with claim show ?thesis by simp
  next
    case (claimed r0 k p pid r' s')
    from claim claimed(12) have eq: "r' = r" "s' = s1" by simp_all
    have "map_of (token_rows s1) child = Some (k\<lparr>consumed_at := Some now\<rparr>)" using claimed(19) eq by simp
    with desk_steps_settle [OF assms(2)] have used: "map_of (token_rows s2) child = Some (k\<lparr>consumed_at := Some now\<rparr>)"
      unfolding desk_settles_def by simp
    have "\<exists>e. pg_claim_resume_atomic lock_ok' now' t' child uid' tok' s2 = (Inl e, s2)"
    proof (cases rule: pg_claim_cases [of lock_ok' now' t' child uid' tok' s2])
      case (claimed r1 k1 p1 pid1 r1' s1')
      with used show ?thesis by auto
    qed blast
    then have "\<exists>e. pg_service_claim lock_ok' now' t' child uid' tok' s2 = (Inl e, s2)"
      by (auto simp: pg_service_claim_def bindM_def split: option.split)
    with claimed eq show ?thesis by blast
  qed
qed


text \<open>C38. The references between the tables are always right: a card belongs to the run it is filed
under and to the owner of that run; it names a child exactly when it is answered, and that child is a
read-only run of the same user whose parent is the asked run; and a resume token names such a child.\<close>

theorem desk_references_valid:
  assumes "desk_reachable s"
  shows "(\<forall>k c. map_of (requests s) k = Some c \<longrightarrow> card_parent c = k \<and>
      (answered_at c = None \<longleftrightarrow> card_child c = None) \<and>
      (\<exists>p. map_of (run_rows s) k = Some p \<and> user_id p = card_user c) \<and>
      (\<forall>ch. card_child c = Some ch \<longrightarrow> (\<exists>r. map_of (run_rows s) ch = Some r \<and> parent_run_id r = Some k \<and>
         user_id r = card_user c \<and> operation_kind r = READ_QUERY))) \<and>
    (\<forall>k x. map_of (token_rows s) k = Some x \<longrightarrow> tok_child x = k \<and>
      (\<exists>r. map_of (run_rows s) k = Some r \<and> parent_run_id r = Some (tok_parent x) \<and> user_id r = tok_user x \<and>
         operation_kind r = READ_QUERY))"
  using desk_reachable_refs [OF assms] by (simp add: desk_refs_def card_refs_def token_refs_def)

subsection \<open>A concrete cycle\<close>

definition waiting_run :: run_record where
  "waiting_run = (new_run_record 0 0 ''r1'' ''u1'' (Some ''c1'') ''h'' READ_QUERY None None)\<lparr>status := NEEDS_CLARIFICATION\<rparr>"

definition open_card :: clarification_card where
  "open_card = new_card sample_clar_config (\<lambda>i. int i) ''k1'' ''r1'' ''u1'' sample_ambiguity"

definition waiting_desk :: pg_desk where
  "waiting_desk = \<lparr>run_rows = [(''r1'', waiting_run)], step_rows = [], checkpoint_rows = [],
     requests = [(''r1'', open_card)], token_rows = []\<rparr>"

definition sample_pg_answer :: "pg_desk \<Rightarrow> (exn + clarification_resolution) \<times> pg_desk" where
  "sample_pg_answer = pg_service_answer_with_resume (\<lambda>_. None) sample_clar_config 10 (\<lambda>i. 10 + int i)
     ''r2'' ''tok'' ''r1'' ''u1'' ''1''"

lemma sample_pg_create:
  "\<exists>s. on_runs (pg_create (\<lambda>_. None) True 10 (pg_child_row 10 ''r2'' ''r1'' ''u1'' waiting_run (sample_option ''1'')))
     waiting_desk = (Inr (), s) \<and> token_rows s = []"
  by (simp add: on_runs_def pg_create_def waiting_desk_def pg_child_row_def waiting_run_def conversation_busy_def
      idle_statuses_def stored_row_def runs_part_def pg_runs.truncate_def with_runs_def)

lemma sample_pg_choice:
  "answer_choice 10 ''r1'' ''u1'' ''1'' (Some open_card) = Inr (open_card, sample_option ''1'')"
  by (simp add: answer_choice_def open_card_def new_card_def sample_clar_config_def seconds_def
      sample_ambiguity_def sample_option_def)

lemma sample_pg_answered:
  "\<exists>res s1. sample_pg_answer waiting_desk = (Inr res, s1) \<and>
     pg_answer_atomic (\<lambda>_. None) 10 (\<lambda>i. 10 + int i) ''r2'' ''tok'' ''r1'' ''u1'' ''1'' (Some 300) waiting_desk =
       (Inr (Inr res), s1) \<and> res_token res = ''tok'' \<and> res_child res = ''r2'' \<and> res_expires_at res = 300000013"
proof -
  from sample_pg_create obtain s where s:
    "on_runs (pg_create (\<lambda>_. None) True 10 (pg_child_row 10 ''r2'' ''r1'' ''u1'' waiting_run (sample_option ''1'')))
       waiting_desk = (Inr (), s)" "token_rows s = []" by blast
  have d: "map_of (run_rows waiting_desk) ''r1'' = Some waiting_run" "map_of (requests waiting_desk) ''r1'' = Some open_card"
    "resume_ttl_seconds sample_clar_config = 300" "user_id waiting_run = ''u1''" "operation_kind waiting_run = READ_QUERY"
    by (simp_all add: waiting_desk_def sample_clar_config_def waiting_run_def)
  have "\<exists>res s1. pg_answer_atomic (\<lambda>_. None) 10 (\<lambda>i. 10 + int i) ''r2'' ''tok'' ''r1'' ''u1'' ''1'' (Some 300) waiting_desk =
       (Inr (Inr res), s1) \<and> res_token res = ''tok'' \<and> res_child res = ''r2'' \<and> res_expires_at res = 300000013"
    using s d sample_pg_choice by (simp add: pg_answer_atomic_def Let_def seconds_def)
  then show ?thesis using d by (auto simp: sample_pg_answer_def pg_service_answer_with_resume_def bindM_def)
qed

theorem pg_card_answered_once_witness:
  "\<exists>x s1 e. pg_answer_atomic (\<lambda>_. None) 10 (\<lambda>i. 10 + int i) ''r2'' ''tok'' ''r1'' ''u1'' ''1'' (Some 300) waiting_desk =
       (Inr x, s1) \<and>
     pg_answer_atomic (\<lambda>_. None) 11 (\<lambda>i. 11 + int i) ''r3'' ''tok2'' ''r1'' ''u1'' ''2'' None s1 = (Inl e, s1)"
proof -
  from sample_pg_answered obtain res s1 where
    a: "pg_answer_atomic (\<lambda>_. None) 10 (\<lambda>i. 10 + int i) ''r2'' ''tok'' ''r1'' ''u1'' ''1'' (Some 300) waiting_desk =
       (Inr (Inr res), s1)" by blast
  from pg_card_answered_once [OF a rtranclp.rtrancl_refl] obtain e where
    "pg_answer_atomic (\<lambda>_. None) 11 (\<lambda>i. 11 + int i) ''r3'' ''tok2'' ''r1'' ''u1'' ''2'' None s1 = (Inl e, s1)" by blast
  with a show ?thesis by blast
qed


text \<open>A desk on which the child of an answered card waits for its token.\<close>

definition token_desk :: pg_desk where
  "token_desk = \<lparr>run_rows = [(''r1'', waiting_run),
       (''r2'', pg_child_row 10 ''r2'' ''r1'' ''u1'' waiting_run (sample_option ''1''))],
     step_rows = [], checkpoint_rows = [], requests = [],
     token_rows = [(''r2'', token_row 10 ''r2'' ''r1'' ''u1'' ''tok'' (sample_option ''1'') 300)]\<rparr>"

theorem pg_resume_claimed_once_witness:
  "\<exists>r s1 e. pg_service_claim True 20 (\<lambda>i. 20 + int i) ''r2'' ''u1'' ''tok'' token_desk = (Inr r, s1) \<and>
     pg_service_claim True 21 (\<lambda>i. 21 + int i) ''r2'' ''u1'' ''tok'' s1 = (Inl e, s1)"
proof -
  have "\<exists>r s1. pg_service_claim True 20 (\<lambda>i. 20 + int i) ''r2'' ''u1'' ''tok'' token_desk = (Inr r, s1)"
    by (simp add: pg_service_claim_def bindM_def pg_claim_resume_atomic_def claim_refusal_def token_desk_def
        waiting_run_def token_row_def seconds_def Let_def)
  then show ?thesis using pg_resume_claimed_once [OF _ rtranclp.rtrancl_refl] by blast
qed

definition linking_desk :: pg_desk where
  "linking_desk = (let s0 = \<lparr>run_rows = [], step_rows = [], checkpoint_rows = [], requests = [], token_rows = []\<rparr>;
     s1 = with_runs (snd (pg_create (\<lambda>_. None) True 1 (talk_run ''r1'') (runs_part s0))) s0;
     s2 = with_runs (snd (pg_transition 2 ''r1'' CONTEXT_BUILDING None (runs_part s1))) s1
   in with_runs (snd (pg_transition 3 ''r1'' LINKING None (runs_part s2))) s2)"

definition asked_pg_desk :: pg_desk where
  "asked_pg_desk = snd (pg_service_create sample_clar_config (\<lambda>i. 4 + int i) ''k1'' ''r1'' ''u1'' sample_ambiguity linking_desk)"

lemma asked_pg_desk_reachable: "desk_reachable asked_pg_desk"
  unfolding asked_pg_desk_def linking_desk_def Let_def
  by (intro desk_reachable.step [OF _ desk_step.ask] desk_reachable.step [OF _ desk_step.runs]
      desk_reachable.start pg_step.create pg_step.transition)

lemma linking_desk_rows:
  "\<exists>r. map_of (run_rows linking_desk) ''r1'' = Some r \<and> status r = LINKING \<and> user_id r = ''u1''"
  "requests linking_desk = []"
  by (simp_all add: linking_desk_def Let_def pg_create_def pg_transition_def pg_insert_step_def talk_run_def
      conversation_busy_def stored_row_def runs_part_def with_runs_def pg_runs.truncate_def new_run_record_def
      ALLOWED_TRANSITIONS.simps)

lemma asked_pg_desk_card: "\<exists>c. map_of (requests asked_pg_desk) ''r1'' = Some c"
proof -
  from linking_desk_rows(1) obtain r where r: "map_of (run_rows linking_desk) ''r1'' = Some r" "status r = LINKING"
    "user_id r = ''u1''" by blast
  let ?c = "new_card sample_clar_config (\<lambda>i. 4 + int i) ''k1'' ''r1'' ''u1'' sample_ambiguity"
  have "create_refusal ''r1'' ''u1'' sample_ambiguity (Some r) = None"
    using r by (simp add: create_refusal_def sample_ambiguity_def sample_option_def option_unbacked_def)
  moreover have "pg_save_card ?c linking_desk = (Inr (), linking_desk\<lparr>requests := AList.update ''r1'' ?c []\<rparr>)"
    using r linking_desk_rows(2) by (simp add: pg_save_card_def new_card_def)
  moreover obtain x s where t: "on_runs (pg_transition 6 ''r1'' NEEDS_CLARIFICATION None)
      (linking_desk\<lparr>requests := AList.update ''r1'' ?c []\<rparr>) = (x, s)" by fastforce
  moreover have "requests s = AList.update ''r1'' ?c []" using on_runs_frame [OF t] by simp
  ultimately show ?thesis using r
    by (cases x) (simp_all add: asked_pg_desk_def pg_service_create_def bindM_def thenM_def)
qed

theorem desk_references_valid_witness:
  "\<exists>c p. map_of (requests asked_pg_desk) ''r1'' = Some c \<and> card_parent c = ''r1'' \<and>
     map_of (run_rows asked_pg_desk) ''r1'' = Some p \<and> user_id p = card_user c"
  using desk_references_valid [OF asked_pg_desk_reachable] asked_pg_desk_card by blast

end
