(* ===== verification/Py_Float.thy ===== *)
theory Py_Float
  imports Prelude "HOL-Library.Log_Nat"
begin

section \<open>Python floats\<close>

text \<open>
  A Python float is an IEEE double. The model represents a finite double by its exact value, a
  \<^typ>\<open>rat\<close>, and every arithmetic operation of the source by the exact operation followed by
  \<open>fl\<close>, rounding to the nearest double (53 significant bits, ties to even). Overflow, subnormal
  numbers, infinities and NaN are outside the model: the quantities the sources compute with are
  ratios, scores and sample rates. The literal \<open>0.10\<close> of the source is \<open>fl (1 / 10)\<close>.

  What the components need is proved here: \<open>fl\<close> is monotone, fixes every integer up to
  \<open>2 ^ 53\<close> in magnitude, and so keeps a score that is exactly between 0 and 1 there.
\<close>

type_synonym pyfloat = rat

subsection \<open>Rounding to an integer, ties to even\<close>

definition round_half_even :: "rat \<Rightarrow> int" where
  "round_half_even r =
     (let f = \<lfloor>r\<rfloor>; d = r - of_int f
      in if d < 1 / 2 then f else if d > 1 / 2 then f + 1 else if even f then f else f + 1)"

lemma round_half_even_of_int [simp]: "round_half_even (of_int n) = n"
  by (simp add: round_half_even_def)

lemma round_half_even_bounds: "\<lfloor>r\<rfloor> \<le> round_half_even r" "round_half_even r \<le> \<lfloor>r\<rfloor> + 1"
  by (auto simp: round_half_even_def Let_def)

lemma round_half_even_mono:
  assumes "r \<le> s"
  shows "round_half_even r \<le> round_half_even s"
proof (cases "\<lfloor>r\<rfloor> = \<lfloor>s\<rfloor>")
  case True
  with assms show ?thesis by (auto simp: round_half_even_def Let_def)
next
  case False
  with floor_mono [OF assms] have "\<lfloor>r\<rfloor> + 1 \<le> \<lfloor>s\<rfloor>" by linarith
  with round_half_even_bounds [of r] round_half_even_bounds [of s] show ?thesis by linarith
qed

subsection \<open>The binade of a positive rational\<close>

definition binade :: "rat \<Rightarrow> int" where
  "binade x =
     (let (p, q) = quotient_of x;
          k = int (floorlog 2 (nat p)) - int (floorlog 2 (nat q))
      in if 2 powi k \<le> x then k else k - 1)"

lemma floorlog_bounds:
  assumes "0 < n"
  shows "2 powi (int (floorlog 2 n) - 1) \<le> (of_nat n :: rat)"
    and "(of_nat n :: rat) < 2 powi (int (floorlog 2 n))"
proof -
  have pos: "0 < floorlog 2 n" using assms by (simp add: floorlog_def)
  have "2 ^ (floorlog 2 n - 1) \<le> n" and "n < 2 ^ floorlog 2 n"
    using floorlog_bounds [of n 2] assms by simp_all
  then have "(of_nat (2 ^ (floorlog 2 n - 1)) :: rat) \<le> of_nat n"
    and upper: "(of_nat n :: rat) < of_nat (2 ^ floorlog 2 n)"
    by (simp_all only: of_nat_le_iff of_nat_less_iff)
  moreover have "(of_nat (2 ^ (floorlog 2 n - 1)) :: rat) = 2 powi (int (floorlog 2 n) - 1)"
    using pos by (simp add: power_int_def nat_diff_distrib)
  ultimately show "2 powi (int (floorlog 2 n) - 1) \<le> (of_nat n :: rat)" by metis
  show "(of_nat n :: rat) < 2 powi (int (floorlog 2 n))" using upper by simp
qed

lemma binade_bounds:
  assumes "0 < x"
  shows "2 powi (binade x) \<le> x" and "x < 2 powi (binade x + 1)"
proof -
  obtain p q where pq: "quotient_of x = (p, q)" by fastforce
  then have q: "0 < q" by (rule quotient_of_denom_pos)
  have x: "x = of_int p / of_int q" using quotient_of_div [OF pq] .
  with assms q have p: "0 < p" by (simp add: zero_less_divide_iff)
  define P Q where "P = int (floorlog 2 (nat p))" and "Q = int (floorlog 2 (nat q))"
  have pb: "2 powi (P - 1) \<le> (of_int p :: rat)" "(of_int p :: rat) < 2 powi P"
    using floorlog_bounds [of "nat p"] p by (simp_all add: P_def)
  have qb: "2 powi (Q - 1) \<le> (of_int q :: rat)" "(of_int q :: rat) < 2 powi Q"
    using floorlog_bounds [of "nat q"] q by (simp_all add: Q_def)
  have "x < 2 powi P / 2 powi (Q - 1)"
    unfolding x by (rule frac_less) (use p pb qb in auto)
  also have "\<dots> = 2 powi (P - Q + 1)"
    by (simp add: power_int_diff [symmetric] algebra_simps)
  finally have upper: "x < 2 powi (P - Q + 1)" .
  have "2 powi (P - 1) / 2 powi Q \<le> x"
    unfolding x by (rule frac_le) (use p q pb qb in auto)
  moreover have "2 powi (P - 1) / 2 powi Q = (2 :: rat) powi (P - Q - 1)"
    by (simp add: power_int_diff [symmetric] algebra_simps)
  ultimately have lower: "2 powi (P - Q - 1) \<le> x" by simp
  have b: "binade x = (if 2 powi (P - Q) \<le> x then P - Q else P - Q - 1)"
    by (simp add: binade_def pq P_def Q_def)
  show "2 powi (binade x) \<le> x" and "x < 2 powi (binade x + 1)"
    using upper lower by (simp_all add: b)
qed

subsection \<open>Rounding to a double\<close>

definition fl_pos :: "rat \<Rightarrow> rat" where
  "fl_pos x = (let e = binade x - 52 in of_int (round_half_even (x / 2 powi e)) * 2 powi e)"

definition fl :: "rat \<Rightarrow> pyfloat" where
  "fl x = (if x = 0 then 0 else if x < 0 then - fl_pos (- x) else fl_pos x)"

lemma fl_pos_bounds:
  assumes "0 < x"
  shows "2 powi (binade x) \<le> fl_pos x" and "fl_pos x \<le> 2 powi (binade x + 1)"
proof -
  let ?e = "binade x - 52"
  have b: "2 powi (binade x) = (2 :: rat) powi ?e * 2 ^ 52"
    "2 powi (binade x + 1) = (2 :: rat) powi ?e * 2 ^ 53"
    by (simp_all add: power_int_diff power_int_add)
  from binade_bounds [OF assms] have "of_int (2 ^ 52) \<le> x / 2 powi ?e" "x / 2 powi ?e \<le> of_int (2 ^ 53)"
    unfolding b by (simp_all add: field_simps)
  from this [THEN round_half_even_mono]
  have "2 ^ 52 \<le> round_half_even (x / 2 powi ?e)" "round_half_even (x / 2 powi ?e) \<le> 2 ^ 53"
    unfolding round_half_even_of_int .
  then have "(2 :: rat) ^ 52 \<le> of_int (round_half_even (x / 2 powi ?e))"
    "of_int (round_half_even (x / 2 powi ?e)) \<le> (2 :: rat) ^ 53"
    by (metis of_int_le_iff of_int_numeral of_int_power)+
  then show "2 powi (binade x) \<le> fl_pos x" and "fl_pos x \<le> 2 powi (binade x + 1)"
    unfolding b fl_pos_def Let_def by (simp_all add: mult.commute)
qed

lemma fl_pos_pos: "0 < x \<Longrightarrow> 0 < fl_pos x"
  using fl_pos_bounds(1) [of x] by (metis less_le_trans zero_less_power_int zero_less_numeral)

lemma binade_mono:
  assumes "0 < x" and "x \<le> y"
  shows "binade x \<le> binade y"
proof (rule ccontr)
  assume "\<not> binade x \<le> binade y"
  then have "binade y + 1 \<le> binade x" by simp
  then have "(2 :: rat) powi (binade y + 1) \<le> 2 powi (binade x)"
    by (rule power_int_increasing) simp
  with binade_bounds(1) [of x] binade_bounds(2) [of y] assms show False by simp
qed

lemma fl_pos_mono:
  assumes "0 < x" and "x \<le> y"
  shows "fl_pos x \<le> fl_pos y"
proof (cases "binade x = binade y")
  case True
  have "round_half_even (x / 2 powi (binade x - 52)) \<le> round_half_even (y / 2 powi (binade x - 52))"
    by (rule round_half_even_mono) (simp add: assms divide_right_mono)
  then show ?thesis
    unfolding fl_pos_def Let_def True [symmetric] by (intro mult_right_mono) simp_all
next
  case False
  with binade_mono [OF assms] have "binade x + 1 \<le> binade y" by simp
  then have "(2 :: rat) powi (binade x + 1) \<le> 2 powi (binade y)"
    by (rule power_int_increasing) simp
  with fl_pos_bounds(2) [OF assms(1)] fl_pos_bounds(1) [of y] assms show ?thesis by simp
qed

lemma fl_0 [simp]: "fl 0 = 0"
  by (simp add: fl_def)

lemma fl_minus: "fl (- x) = - fl x"
  by (simp add: fl_def)

lemma fl_mono: "x \<le> y \<Longrightarrow> fl x \<le> fl y"
proof -
  assume xy: "x \<le> y"
  consider "x < 0" "y < 0" | "x < 0" "0 \<le> y" | "x = 0" | "0 < x" by linarith
  then show ?thesis
  proof cases
    case 1
    with xy fl_pos_mono [of "- y" "- x"] show ?thesis by (simp add: fl_def)
  next
    case 2
    then have "- fl_pos (- x) \<le> 0" and "y \<noteq> 0 \<Longrightarrow> 0 \<le> fl_pos y"
      using fl_pos_pos [of "- x"] fl_pos_pos [of y] by (auto intro: less_imp_le)
    with 2 show ?thesis by (auto simp: fl_def)
  next
    case 3
    with xy fl_pos_pos [of y] show ?thesis by (cases "y = 0") (auto simp: fl_def)
  next
    case 4
    with xy fl_pos_mono [of x y] show ?thesis by (simp add: fl_def)
  qed
qed

text \<open>An integer that fits in 53 bits is exact.\<close>

lemma fl_pos_of_int:
  assumes "0 < n" and "n < 2 ^ 53"
  shows "fl_pos (of_int n) = of_int n"
proof -
  let ?b = "binade (of_int n)"
  have b1: "2 powi ?b \<le> (of_int n :: rat)" and b2: "(of_int n :: rat) < 2 powi (?b + 1)"
    using binade_bounds [of "of_int n"] assms by simp_all
  have "?b < 53"
  proof (rule ccontr)
    assume "\<not> ?b < 53"
    then have "(2 :: rat) powi 53 \<le> 2 powi ?b" by (intro power_int_increasing) simp_all
    moreover have "(of_int n :: rat) < 2 powi 53"
      using assms(2) by (metis of_int_less_iff of_int_numeral of_int_power power_int_numeral)
    ultimately show False using b1 by simp
  qed
  then have e: "2 powi (?b - 52) = 1 / (2 :: rat) ^ nat (52 - ?b)"
    by (cases "?b = 52") (simp_all add: power_int_def power_one_over inverse_eq_divide)
  have "of_int n / 2 powi (?b - 52) = (of_int (n * 2 ^ nat (52 - ?b)) :: rat)"
    unfolding e by simp
  then show ?thesis
    unfolding fl_pos_def Let_def by (simp only: round_half_even_of_int) (simp add: e)
qed

lemma fl_of_int: "\<bar>n\<bar> < 2 ^ 53 \<Longrightarrow> fl (of_int n) = of_int n"
  using fl_pos_of_int [of n] fl_pos_of_int [of "- n"] by (auto simp: fl_def)

lemma fl_1 [simp]: "fl 1 = 1"
  using fl_of_int [of 1] by simp

lemma fl_numeral: "(numeral n :: int) < 2 ^ 53 \<Longrightarrow> fl (numeral n) = numeral n"
  using fl_of_int [of "numeral n"] by simp

lemma fl_nonneg: "0 \<le> x \<Longrightarrow> 0 \<le> fl x"
  using fl_mono [of 0 x] by simp

lemma fl_le_1: "x \<le> 1 \<Longrightarrow> fl x \<le> 1"
  using fl_mono [of x 1] by simp

lemma fl_pos_iff: "0 < x \<Longrightarrow> 0 < fl x"
  using fl_pos_pos [of x] by (simp add: fl_def)

subsection \<open>Float operations of the source\<close>

text \<open>\<open>a / b\<close>, \<open>a * b\<close>, \<open>a + b\<close> on floats (and on ints that fit), and \<open>round(x, n)\<close>, which
  rounds the exact value half to even in decimal and converts the result back.\<close>

definition fdiv :: "rat \<Rightarrow> rat \<Rightarrow> pyfloat" where
  "fdiv a b = fl (a / b)"

definition fmul :: "rat \<Rightarrow> rat \<Rightarrow> pyfloat" where
  "fmul a b = fl (a * b)"

definition fadd :: "rat \<Rightarrow> rat \<Rightarrow> pyfloat" where
  "fadd a b = fl (a + b)"

definition fround :: "rat \<Rightarrow> nat \<Rightarrow> pyfloat" where
  "fround x n = fl (of_int (round_half_even (x * 10 ^ n)) / 10 ^ n)"

lemma fround_mono: "x \<le> y \<Longrightarrow> fround x n \<le> fround y n"
  unfolding fround_def
  by (intro fl_mono divide_right_mono)
    (simp_all add: round_half_even_mono mult_right_mono)

lemma fround_0 [simp]: "fround 0 n = 0"
  using round_half_even_of_int [of 0] by (simp add: fround_def)

lemma fround_1 [simp]: "fround 1 n = 1"
  using round_half_even_of_int [of "10 ^ n"] by (simp add: fround_def)

lemma fround_range: "0 \<le> x \<Longrightarrow> x \<le> 1 \<Longrightarrow> 0 \<le> fround x n \<and> fround x n \<le> 1"
  using fround_mono [of 0 x n] fround_mono [of x 1 n] by simp

lemma fdiv_range: "0 \<le> a \<Longrightarrow> a \<le> b \<Longrightarrow> 0 \<le> fdiv a b \<and> fdiv a b \<le> 1"
  unfolding fdiv_def by (cases "b = 0") (auto intro!: fl_nonneg fl_le_1 simp: divide_le_eq_1)

end
