(* ===== verification/Grounding_Models.thy ===== *)
theory Grounding_Models
  imports Prelude Sha256 Py_Float
begin

section \<open>The semantic catalog and the grounding snapshot\<close>

text \<open>
  \<open>agent-service/app/grounding/models.py\<close>: catalog assets, schema relations and dictionary values
  with the checks of their constructors, and the snapshot that links a question to them. The
  catalog itself (\<open>CatalogSnapshot\<close>) is the three tuples. A payload value is a string or
  something else; the code only tells these apart and prints them (\<open>POther\<close> carries its text).
\<close>

subsection \<open>Enumerations\<close>

datatype asset_type = DATABASE | SCHEMA | TABLE | COLUMN | METRIC | QUERY_EXAMPLE | BUSINESS_RULE

fun asset_type_value :: "asset_type \<Rightarrow> string" where
  "asset_type_value DATABASE = ''DATABASE''"
| "asset_type_value SCHEMA = ''SCHEMA''"
| "asset_type_value TABLE = ''TABLE''"
| "asset_type_value COLUMN = ''COLUMN''"
| "asset_type_value METRIC = ''METRIC''"
| "asset_type_value QUERY_EXAMPLE = ''QUERY_EXAMPLE''"
| "asset_type_value BUSINESS_RULE = ''BUSINESS_RULE''"

datatype asset_status = DRAFT | PUBLISHED | RETIRED

datatype trust = LOW_TRUST | MEDIUM_TRUST | HIGH_TRUST

datatype sensitivity = PUBLIC | INTERNAL | CONFIDENTIAL | RESTRICTED

datatype relation_type = FOREIGN_KEY | LOGICAL_JOIN

datatype relation_status = CANDIDATE | CONFIRMED | REJECTED

subsection \<open>Checks shared by the constructors\<close>

definition validate_version :: "int \<Rightarrow> string \<Rightarrow> exn + unit" where
  "validate_version v name =
     (if v < 1 then Inl (ValueError (name @ '' must be a positive integer'')) else Inr ())"

definition identity_ok :: "string \<Rightarrow> bool" where
  "identity_ok v \<longleftrightarrow> v \<noteq> [] \<and> strip v = v \<and> \<not> list_ex is_space v"

definition validate_identity :: "string \<Rightarrow> string \<Rightarrow> exn + unit" where
  "validate_identity v name =
     (if identity_ok v then Inr ()
      else Inl (ValueError (name @ '' must be a non-empty stable identifier'')))"

text \<open>Times of the model are aware by construction.\<close>

definition validate_effective_range :: "time option \<Rightarrow> time option \<Rightarrow> exn + unit" where
  "validate_effective_range a b =
     (case (a, b) of
        (Some x, Some y) \<Rightarrow>
          if y \<le> x then Inl (ValueError ''effective_to must be later than effective_from'')
          else Inr ()
      | _ \<Rightarrow> Inr ())"

text \<open>The checks of a constructor run in order; the first failure is raised.\<close>

fun all_checks :: "(exn + unit) list \<Rightarrow> exn + unit" where
  "all_checks [] = Inr ()"
| "all_checks (Inl e # cs) = Inl e"
| "all_checks (Inr _ # cs) = all_checks cs"

definition check_that :: "bool \<Rightarrow> string \<Rightarrow> exn + unit" where
  "check_that b m = (if b then Inr () else Inl (ValueError m))"

lemma all_checks_Inr: "all_checks cs = Inr () \<longleftrightarrow> (\<forall>c \<in> set cs. c = Inr ())"
  by (induction cs rule: all_checks.induct) auto

lemma check_that_Inr [simp]: "check_that b m = Inr () \<longleftrightarrow> b"
  by (simp add: check_that_def)

subsection \<open>Catalog entries\<close>

datatype payload_value = PStr string | POther string

fun payload_text :: "payload_value \<Rightarrow> string" where
  "payload_text (PStr x) = x"
| "payload_text (POther x) = x"

record semantic_asset =
  asset_id :: string
  asset_type :: asset_type
  title :: string
  description :: string
  source_uri :: string
  source_hash :: string
  tenant_id :: string
  schema_version :: int
  content_version :: int
  trust_level :: trust
  sensitivity :: sensitivity
  status :: asset_status
  aliases :: "string list"
  effective_from :: "time option"
  effective_to :: "time option"
  owner :: "string option"
  payload :: "(string, payload_value) dict"

definition check_asset :: "semantic_asset \<Rightarrow> exn + unit" where
  "check_asset a = all_checks
     [validate_identity (asset_id a) ''asset_id'',
      validate_identity (tenant_id a) ''tenant_id'',
      validate_version (schema_version a) ''schema_version'',
      validate_version (content_version a) ''content_version'',
      check_that (strip (title a) \<noteq> [] \<and> strip (description a) \<noteq> [])
        ''title and description must not be empty'',
      check_that (strip (source_uri a) \<noteq> []) ''source_uri must not be empty'',
      check_that (is_sha256_hex (source_hash a)) ''source_hash must be a lowercase SHA-256 hex digest'',
      validate_effective_range (effective_from a) (effective_to a)]"

record schema_relation =
  relation_id :: string
  left_asset_id :: string
  right_asset_id :: string
  relation_type :: relation_type
  rel_status :: relation_status
  rel_source_uri :: string
  rel_source_hash :: string
  rel_tenant_id :: string
  rel_schema_version :: int
  rel_trust_level :: trust
  rel_sensitivity :: sensitivity
  cardinality :: "string option"
  join_expression :: "string option"
  left_nullable :: "bool option"
  right_unique :: "bool option"
  historical_success_count :: int
  historical_failure_count :: int
  last_verified_at :: "time option"
  rel_metadata :: "(string, payload_value) dict"

definition check_relation :: "schema_relation \<Rightarrow> exn + unit" where
  "check_relation r = all_checks
     [validate_identity (relation_id r) ''relation_id'',
      validate_identity (left_asset_id r) ''left_asset_id'',
      validate_identity (right_asset_id r) ''right_asset_id'',
      validate_identity (rel_tenant_id r) ''tenant_id'',
      validate_version (rel_schema_version r) ''schema_version'',
      check_that (left_asset_id r \<noteq> right_asset_id r)
        ''a schema relation must connect two different assets'',
      check_that (strip (rel_source_uri r) \<noteq> [] \<and> is_sha256_hex (rel_source_hash r))
        ''relation source provenance is invalid'',
      check_that (\<not> (rel_status r = CANDIDATE \<and> rel_trust_level r = HIGH_TRUST))
        ''candidate relations cannot have HIGH trust'',
      check_that (0 \<le> historical_success_count r \<and> 0 \<le> historical_failure_count r)
        ''relation history counts cannot be negative'']"

record value_entry =
  value_id :: string
  column_asset_id :: string
  canonical_value :: string
  val_source_uri :: string
  val_source_hash :: string
  val_tenant_id :: string
  val_aliases :: "string list"
  val_content_version :: int
  val_status :: asset_status
  val_trust_level :: trust
  val_sensitivity :: sensitivity
  val_effective_from :: "time option"
  val_effective_to :: "time option"
  val_metadata :: "(string, payload_value) dict"

definition check_value :: "value_entry \<Rightarrow> exn + unit" where
  "check_value v = all_checks
     [validate_identity (value_id v) ''value_id'',
      validate_identity (column_asset_id v) ''column_asset_id'',
      validate_identity (val_tenant_id v) ''tenant_id'',
      validate_version (val_content_version v) ''content_version'',
      check_that (strip (canonical_value v) \<noteq> []) ''canonical_value must not be empty'',
      check_that (strip (val_source_uri v) \<noteq> [] \<and> is_sha256_hex (val_source_hash v))
        ''value source provenance is invalid'',
      validate_effective_range (val_effective_from v) (val_effective_to v)]"

record catalog =
  cat_assets :: "semantic_asset list"
  cat_values :: "value_entry list"
  cat_relations :: "schema_relation list"

text \<open>\<open>{item.key: item for item in items}\<close>: the last item of a key wins.\<close>

fun last_with :: "('a \<Rightarrow> string) \<Rightarrow> 'a list \<Rightarrow> string \<Rightarrow> 'a option" where
  "last_with k [] x = None"
| "last_with k (a # as) x =
     (case last_with k as x of Some b \<Rightarrow> Some b | None \<Rightarrow> if k a = x then Some a else None)"

lemma last_with_Some: "last_with k as x = Some a \<Longrightarrow> a \<in> set as \<and> k a = x"
  by (induction as) (auto split: option.splits if_splits)

lemma last_with_None: "last_with k as x = None \<longleftrightarrow> x \<notin> k ` set as"
  by (induction as) (auto split: option.splits)

lemma last_with_distinct: "distinct (map k as) \<Longrightarrow> a \<in> set as \<Longrightarrow> last_with k as (k a) = Some a"
proof (induction as)
  case (Cons b as)
  then show ?case
    using last_with_None [of k as "k b"] by (cases "a = b") (auto simp: rev_image_eqI)
qed simp

text \<open>The validity period that the linker and the validator test at the time of the request.\<close>

definition current_at :: "time \<Rightarrow> time option \<Rightarrow> time option \<Rightarrow> bool" where
  "current_at now a b \<longleftrightarrow> (case a of None \<Rightarrow> True | Some x \<Rightarrow> x \<le> now) \<and>
     (case b of None \<Rightarrow> True | Some y \<Rightarrow> now < y)"

definition asset_current :: "time \<Rightarrow> semantic_asset \<Rightarrow> bool" where
  "asset_current now a \<longleftrightarrow> status a = PUBLISHED \<and> sensitivity a \<noteq> RESTRICTED \<and>
     current_at now (effective_from a) (effective_to a)"

definition value_current :: "time \<Rightarrow> value_entry \<Rightarrow> bool" where
  "value_current now v \<longleftrightarrow> val_status v = PUBLISHED \<and> val_sensitivity v \<noteq> RESTRICTED \<and>
     current_at now (val_effective_from v) (val_effective_to v)"

subsection \<open>Snapshots\<close>

record grounding_candidate =
  gc_asset_id :: string
  gc_score :: pyfloat
  gc_source_hash :: string
  gc_reasons :: "string list"

record value_candidate =
  vc_value_id :: string
  vc_column_asset_id :: string
  vc_canonical_value :: string
  vc_score :: pyfloat
  vc_source_hash :: string

record join_path =
  path_id :: string
  relation_ids :: "string list"
  table_asset_ids :: "string list"
  path_score :: pyfloat

record grounding_snapshot =
  query_hash :: string
  snap_tenant_id :: string
  table_candidates :: "grounding_candidate list"
  column_candidates :: "grounding_candidate list"
  knowledge_candidates :: "grounding_candidate list"
  value_candidates :: "value_candidate list"
  join_paths :: "join_path list"
  snap_evidence_ids :: "string list"
  snap_confidence :: pyfloat
  snap_ambiguities :: "string list"

subsection \<open>The parsed form of an example query\<close>

text \<open>
  \<open>sqlglot.parse_one\<close> is a third-party parser: the model takes it as a function from the text to
  what the code reads of the tree, or \<open>None\<close> when it raises: the table nodes with their name and
  their alias or name, and the column nodes with their name and their qualifier.
\<close>

record sql_tree =
  tree_tables :: "(string \<times> string) list"
  tree_columns :: "(string \<times> string) list"

type_synonym sql_parser = "string \<Rightarrow> sql_tree option"

end
