(* ===== verification/Join_Search.thy ===== *)
theory Join_Search
  imports Grounding_Models
begin

section \<open>Join paths: breadth-first search over the confirmed relations\<close>

text \<open>
  The join search of \<open>app/grounding/linker.py\<close>: which table an asset belongs to, the graph of the
  confirmed relations, and \<open>_shortest_path\<close>, the search between two tables that gives up after a
  bounded number of hops. The loop terminates on every graph, and its answer is exact: a path of the
  graph with the fewest hops when the tables are linked within the bound, and none otherwise.
\<close>

subsection \<open>Tables of assets\<close>

text \<open>\<open>".".join(asset_id.split(".")[:-1])\<close>: what stands before the last dot.\<close>

definition before_last_dot :: "string \<Rightarrow> string" where
  "before_last_dot s = rev (tl (dropWhile (\<lambda>c. c \<noteq> CHR ''.'') (rev s)))"

definition column_table_id :: "string \<Rightarrow> string option" where
  "column_table_id aid =
     (if \<not> starts_with ''column:'' aid \<or> CHR ''.'' \<notin> set aid then None
      else Some (''table:'' @ drop 7 (before_last_dot aid)))"

definition table_id :: "semantic_asset \<Rightarrow> string option" where
  "table_id a =
     (if asset_type a = TABLE then Some (asset_id a)
      else (case map_of (payload a) ''table_name'' of
         Some (PStr (c # cs)) \<Rightarrow> Some (''table:'' @
           (case map_of (payload a) ''database_schema'' of None \<Rightarrow> ''public''
            | Some v \<Rightarrow> payload_text v) @ ''.'' @ (c # cs))
       | _ \<Rightarrow> column_table_id (asset_id a)))"

subsection \<open>Join paths\<close>

text \<open>
  The graph of the confirmed relations: an edge list in the order the code inserts, both directions
  of every relation; \<open>graph.get(node, [])\<close> are the edges that leave a node, visited in the order
  of their relation ids.
\<close>

type_synonym edge = "string \<times> string \<times> string"

definition relation_edges :: "schema_relation \<Rightarrow> edge list" where
  "relation_edges r =
     (case (column_table_id (left_asset_id r), column_table_id (right_asset_id r)) of
        (Some l, Some t) \<Rightarrow> [(l, t, relation_id r), (t, l, relation_id r)]
      | _ \<Rightarrow> [])"

definition join_graph :: "schema_relation list \<Rightarrow> edge list" where
  "join_graph rs = concat (map relation_edges (filter (\<lambda>r. rel_status r = CONFIRMED) rs))"

definition neighbors_of :: "edge list \<Rightarrow> string \<Rightarrow> (string \<times> string) list" where
  "neighbors_of g n = sort_key snd (map snd (filter (\<lambda>e. fst e = n) g))"

text \<open>A queue entry: the node, and the tables and relations on the way to it.\<close>

type_synonym bfs_entry = "string \<times> string list \<times> string list"

fun expand :: "string list \<Rightarrow> string list \<Rightarrow> string set \<Rightarrow> (string \<times> string) list \<Rightarrow>
    bfs_entry list \<times> string set" where
  "expand ts rs seen [] = ([], seen)"
| "expand ts rs seen ((m, r) # ns) =
     (if m \<in> seen then expand ts rs seen ns
      else let later = expand ts rs (insert m seen) ns
           in ((m, ts @ [m], rs @ [r]) # fst later, snd later))"

lemma expand_seen: "snd (expand ts rs seen ns) = seen \<union> fst ` set ns"
proof (induction ns arbitrary: seen)
  case (Cons x ns)
  obtain m r where x: "x = (m, r)" by fastforce
  show ?case unfolding x by (cases "m \<in> seen") (simp_all add: Let_def Cons.IH insert_absorb)
qed simp

lemma expand_Nil: "fst (expand ts rs seen ns) = [] \<longleftrightarrow> fst ` set ns \<subseteq> seen"
proof (induction ns arbitrary: seen)
  case (Cons x ns)
  obtain m r where x: "x = (m, r)" by fastforce
  show ?case unfolding x by (cases "m \<in> seen") (simp_all add: Let_def Cons.IH)
qed simp

lemma neighbors_of_set: "set (neighbors_of g n) = {(m, r). (n, m, r) \<in> set g}"
  by (force simp: neighbors_of_def)

text \<open>The search loop. It ends: a round takes one entry from the queue, and either marks new nodes
of the finite graph or shortens the queue.\<close>

function search_path :: "edge list \<Rightarrow> nat \<Rightarrow> string \<Rightarrow> string set \<Rightarrow> bfs_entry list \<Rightarrow>
    (string list \<times> string list) option" where
  "search_path g hops target seen [] = None"
| "search_path g hops target seen ((n, ts, rs) # queue) =
     (if n = target then Some (ts, rs)
      else if hops \<le> length rs then search_path g hops target seen queue
      else search_path g hops target (snd (expand ts rs seen (neighbors_of g n)))
             (queue @ fst (expand ts rs seen (neighbors_of g n))))"
  by pat_completeness auto

termination
proof (relation "measures [\<lambda>(g, _, _, seen, _). card (fst ` snd ` set g - seen),
    \<lambda>(_, _, _, _, queue). length queue]", goal_cases)
  case (3 g hops target seen n ts rs queue)
  let ?new = "fst (expand ts rs seen (neighbors_of g n))"
  let ?all = "fst ` snd ` set g" and ?ns = "fst ` set (neighbors_of g n)"
  have ns: "?ns \<subseteq> ?all" by (force simp: neighbors_of_set)
  show ?case
  proof (cases "?ns \<subseteq> seen")
    case True
    then have "?new = []" "seen \<union> ?ns = seen" by (auto simp: expand_Nil)
    then show ?thesis by (simp add: expand_seen)
  next
    case False
    with ns have "?all - (seen \<union> ?ns) \<subset> ?all - seen" by auto
    then have "card (?all - (seen \<union> ?ns)) < card (?all - seen)" by (rule psubset_card_mono [rotated]) simp
    then show ?thesis by (simp add: expand_seen)
  qed
qed auto

definition shortest_path :: "edge list \<Rightarrow> nat \<Rightarrow> string \<Rightarrow> string \<Rightarrow> (string list \<times> string list) option" where
  "shortest_path g hops start target = search_path g hops target {start} [(start, [start], [])]"

subsection \<open>The search is exact\<close>

definition links :: "edge list \<Rightarrow> (string \<times> string) set" where
  "links g = (\<lambda>(n, m, r). (n, m)) ` set g"

inductive hops_to :: "edge list \<Rightarrow> string \<Rightarrow> string \<Rightarrow> string list \<Rightarrow> string list \<Rightarrow> bool"
  for g a where
  start: "hops_to g a a [a] []"
| step: "hops_to g a n ts rs \<Longrightarrow> (n, m, r) \<in> set g \<Longrightarrow> hops_to g a m (ts @ [m]) (rs @ [r])"

inductive_cases hops_to_NilE: "hops_to g a b ts []"

lemma links_iff: "(n, m) \<in> links g \<longleftrightarrow> (\<exists>r. (n, m, r) \<in> set g)"
  by (force simp: links_def)

lemma hops_to_relpow: "hops_to g a b ts rs \<Longrightarrow> (a, b) \<in> links g ^^ length rs"
  by (induction rule: hops_to.induct) (auto simp: links_iff relcomp_unfold)

lemma hops_to_ends: "hops_to g a b ts rs \<Longrightarrow> ts \<noteq> [] \<and> hd ts = a \<and> last ts = b \<and> length ts = Suc (length rs)"
  by (induction rule: hops_to.induct) auto

lemma hops_to_relations: "hops_to g a b ts rs \<Longrightarrow> r \<in> set rs \<Longrightarrow> \<exists>n m. (n, m, r) \<in> set g"
  by (induction rule: hops_to.induct) auto

lemma expand_entries:
  "e \<in> set (fst (expand ts rs seen ns)) \<Longrightarrow>
   \<exists>m r. e = (m, ts @ [m], rs @ [r]) \<and> (m, r) \<in> set ns \<and> m \<notin> seen"
proof (induction ns arbitrary: seen)
  case (Cons x ns)
  obtain m r where x: "x = (m, r)" by fastforce
  show ?case using Cons.IH Cons.prems unfolding x
    by (cases "m \<in> seen") (auto simp: Let_def, blast+)
qed simp

lemma expand_nodes: "fst ` set (fst (expand ts rs seen ns)) = fst ` set ns - seen"
proof (induction ns arbitrary: seen)
  case (Cons x ns)
  obtain m r where x: "x = (m, r)" by fastforce
  show ?case unfolding x by (cases "m \<in> seen") (auto simp: Let_def Cons.IH)
qed simp

text \<open>What the loop keeps: the queue holds shortest ways, in the order of their length and at most
one hop apart, and every marked node that left the queue is not the target and has its neighbours
marked, unless it lies at the bound.\<close>

abbreviation way_length :: "bfs_entry \<Rightarrow> nat" where
  "way_length e \<equiv> length (snd (snd e))"

definition ways_ok :: "edge list \<Rightarrow> nat \<Rightarrow> string \<Rightarrow> string set \<Rightarrow> bfs_entry list \<Rightarrow> bool" where
  "ways_ok g hops a seen queue \<longleftrightarrow> (\<forall>n ts rs. (n, ts, rs) \<in> set queue \<longrightarrow>
     hops_to g a n ts rs \<and> n \<in> seen \<and> length rs \<le> hops \<and> (\<forall>k < length rs. (a, n) \<notin> links g ^^ k))"

definition in_order :: "bfs_entry list \<Rightarrow> bool" where
  "in_order queue \<longleftrightarrow> sorted (map way_length queue) \<and>
     (\<forall>e \<in> set queue. way_length e \<le> Suc (way_length (hd queue)))"

definition left_ok :: "edge list \<Rightarrow> nat \<Rightarrow> string \<Rightarrow> string \<Rightarrow> string set \<Rightarrow> string \<Rightarrow> bool" where
  "left_ok g hops a target seen x \<longleftrightarrow> x \<noteq> target \<and>
     (\<forall>k y. k < hops \<longrightarrow> (a, x) \<in> links g ^^ k \<longrightarrow> (x, y) \<in> links g \<longrightarrow> y \<in> seen)"

definition search_inv :: "edge list \<Rightarrow> nat \<Rightarrow> string \<Rightarrow> string \<Rightarrow> string set \<Rightarrow> bfs_entry list \<Rightarrow> bool" where
  "search_inv g hops a target seen queue \<longleftrightarrow> a \<in> seen \<and> ways_ok g hops a seen queue \<and>
     in_order queue \<and> (\<forall>x \<in> seen - fst ` set queue. left_ok g hops a target seen x)"

lemma in_order_Cons:
  "in_order (e # queue) \<longleftrightarrow> sorted (map way_length queue) \<and>
     (\<forall>e' \<in> set queue. way_length e \<le> way_length e' \<and> way_length e' \<le> Suc (way_length e))"
  by (auto simp: in_order_def)

lemma in_order_rest:
  assumes "in_order (e # queue)"
  shows "in_order queue"
proof (cases queue)
  case (Cons e' q)
  have "way_length e'' \<le> Suc (way_length e')" if "e'' \<in> set queue" for e''
  proof -
    have "way_length e'' \<le> Suc (way_length e)" "way_length e \<le> way_length e'"
      using assms that Cons unfolding in_order_Cons by (metis list.set_intros(1))+
    then show ?thesis by linarith
  qed
  with assms show ?thesis unfolding in_order_Cons by (auto simp: in_order_def Cons)
qed (simp add: in_order_def)

lemma in_order_append:
  assumes "in_order (e # queue)" and "\<forall>e' \<in> set new. way_length e' = Suc (way_length e)"
  shows "in_order (queue @ new)"
proof -
  have "sorted (map way_length new)"
    using assms(2) by (simp add: sorted_iff_nth_mono)
  then have s: "sorted (map way_length (queue @ new))"
    using assms by (auto simp: in_order_Cons sorted_append)
  have "\<forall>e' \<in> set (queue @ new). way_length e \<le> way_length e' \<and> way_length e' \<le> Suc (way_length e)"
    using assms by (auto simp: in_order_Cons)
  with s have "in_order (e # (queue @ new))" by (simp add: in_order_Cons)
  then show ?thesis by (rule in_order_rest)
qed

lemma search_inv_near:
  assumes inv: "search_inv g hops a target seen queue"
    and bound: "\<forall>e \<in> set queue. d \<le> way_length e" and "d \<le> hops"
    and "(a, v) \<in> links g ^^ k" and "k \<le> d"
  shows "v \<in> seen"
  using assms(4,5)
proof (induction k arbitrary: v)
  case 0
  with inv show ?case by (simp add: search_inv_def)
next
  case (Suc k)
  then obtain x where x: "(a, x) \<in> links g ^^ k" "(x, v) \<in> links g" by auto
  with Suc have "x \<in> seen" by simp
  moreover have "x \<notin> fst ` set queue"
  proof
    assume "x \<in> fst ` set queue"
    then obtain ts rs where e: "(x, ts, rs) \<in> set queue" by auto
    with bound Suc.prems(2) have "k < length rs" by fastforce
    with inv e x(1) show False unfolding search_inv_def ways_ok_def by blast
  qed
  ultimately have "left_ok g hops a target seen x" using inv by (simp add: search_inv_def)
  moreover have "k < hops" using Suc.prems(2) assms(3) by simp
  ultimately show ?case using x unfolding left_ok_def by blast
qed

lemma search_inv_skip:
  assumes inv: "search_inv g hops a target seen ((n, ts, rs) # queue)"
    and "n \<noteq> target" and "hops \<le> length rs"
  shows "search_inv g hops a target seen queue"
proof -
  have "ways_ok g hops a seen ((n, ts, rs) # queue)" using inv by (simp add: search_inv_def)
  then have w: "ways_ok g hops a seen queue" "\<forall>k < length rs. (a, n) \<notin> links g ^^ k"
    by (auto simp: ways_ok_def)
  then have n: "left_ok g hops a target seen n"
    using assms(2,3) unfolding left_ok_def by (meson order_less_le_trans)
  have "in_order queue" using inv in_order_rest unfolding search_inv_def by blast
  with inv w(1) n show ?thesis by (auto simp: search_inv_def)
qed

lemma search_inv_expand:
  assumes inv: "search_inv g hops a target seen ((n, ts, rs) # queue)"
    and "n \<noteq> target" and hops: "\<not> hops \<le> length rs"
  shows "search_inv g hops a target (snd (expand ts rs seen (neighbors_of g n)))
           (queue @ fst (expand ts rs seen (neighbors_of g n)))"
proof -
  let ?new = "fst (expand ts rs seen (neighbors_of g n))"
    and ?seen = "snd (expand ts rs seen (neighbors_of g n))"
  have s: "?seen = seen \<union> links g `` {n}"
    unfolding expand_seen by (force simp: neighbors_of_set links_iff)
  have i: "a \<in> seen" "ways_ok g hops a seen ((n, ts, rs) # queue)" "in_order ((n, ts, rs) # queue)"
    "\<forall>x \<in> seen - fst ` set ((n, ts, rs) # queue). left_ok g hops a target seen x"
    using inv by (simp_all add: search_inv_def)
  then have way: "hops_to g a n ts rs" and w: "ways_ok g hops a seen queue" by (auto simp: ways_ok_def)
  have near: "v \<in> seen" if "(a, v) \<in> links g ^^ k" "k \<le> length rs" for v k
    by (rule search_inv_near [OF inv _ _ that]) (use i(3) hops in \<open>auto simp: in_order_Cons\<close>)
  have new: "hops_to g a m ts' rs' \<and> m \<notin> seen \<and> length rs' = Suc (length rs) \<and> m \<in> ?seen"
    if "(m, ts', rs') \<in> set ?new" for m ts' rs'
    using expand_entries [OF that] way s by (auto simp: neighbors_of_set links_iff intro: step)
  have nw: "ways_ok g hops a ?seen ?new"
    unfolding ways_ok_def using new near hops by (metis Suc_leI less_Suc_eq_le not_le)
  have "ways_ok g hops a ?seen (queue @ ?new)"
    using w nw s unfolding ways_ok_def by auto
  moreover have "in_order (queue @ ?new)" by (rule in_order_append [OF i(3)]) (use new in auto)
  moreover have "left_ok g hops a target ?seen x" if x: "x \<in> ?seen - fst ` set (queue @ ?new)" for x
  proof (cases "x = n")
    case True
    then show ?thesis using assms(2) s by (auto simp: left_ok_def)
  next
    case False
    have "fst ` set ?new = ?seen - seen"
      unfolding expand_nodes expand_seen by auto
    with x False i(4) have "left_ok g hops a target seen x" by auto
    then show ?thesis unfolding s left_ok_def by blast
  qed
  ultimately show ?thesis using i(1) s unfolding search_inv_def by blast
qed

lemma search_path_correct:
  assumes "search_inv g hops a target seen queue"
  shows "case search_path g hops target seen queue of
      Some (ts, rs) \<Rightarrow> hops_to g a target ts rs \<and> length rs \<le> hops \<and>
        (\<forall>k < length rs. (a, target) \<notin> links g ^^ k)
    | None \<Rightarrow> (\<forall>k \<le> hops. (a, target) \<notin> links g ^^ k)"
  using assms
proof (induction g hops target seen queue rule: search_path.induct)
  case (1 g hops target seen)
  have "target \<notin> seen" using 1 by (auto simp: search_inv_def left_ok_def)
  then have "\<forall>k \<le> hops. (a, target) \<notin> links g ^^ k"
    using search_inv_near [OF 1, of hops target] by auto
  then show ?case by simp
next
  case (2 g hops target seen n ts rs queue)
  show ?case
  proof (cases "n = target")
    case True
    with 2(3) show ?thesis by (simp add: search_inv_def ways_ok_def)
  next
    case False
    with 2(1,2) search_inv_skip [OF 2(3)] search_inv_expand [OF 2(3)] show ?thesis by simp
  qed
qed

lemma search_inv_start: "search_inv g hops a target {a} [(a, [a], [])]"
  by (auto simp: search_inv_def ways_ok_def in_order_def intro: start)

lemma shortest_path_Some:
  "shortest_path g hops a b = Some (ts, rs) \<Longrightarrow> hops_to g a b ts rs \<and> length rs \<le> hops"
  using search_path_correct [OF search_inv_start [of g hops a b]] by (simp add: shortest_path_def)

text \<open>C22. The join search is exact: a path it finds is a chain of edges of the graph from the start
to the target within the hop bound, and no chain is shorter; where it finds none, none exists within
the bound.\<close>

theorem join_search_exact:
  "case shortest_path g hops a b of
      Some (ts, rs) \<Rightarrow> hops_to g a b ts rs \<and> length rs \<le> hops \<and> (\<forall>k < length rs. (a, b) \<notin> links g ^^ k)
    | None \<Rightarrow> (\<forall>k \<le> hops. (a, b) \<notin> links g ^^ k)"
  unfolding shortest_path_def by (rule search_path_correct) (rule search_inv_start)


definition two_tables :: "edge list" where
  "two_tables = [(''a'', ''b'', ''r''), (''b'', ''a'', ''r'')]"

theorem join_search_exact_witness:
  "shortest_path two_tables 4 ''a'' ''b'' = Some ([''a'', ''b''], [''r'']) \<and>
   hops_to two_tables ''a'' ''b'' [''a'', ''b''] [''r''] \<and> (''a'', ''b'') \<notin> links two_tables ^^ 0"
proof -
  have "shortest_path two_tables 4 ''a'' ''b'' = Some ([''a'', ''b''], [''r''])"
    by (simp add: shortest_path_def two_tables_def neighbors_of_def search_path.simps)
  with join_search_exact [where g = two_tables and hops = 4 and a = "''a''" and b = "''b''"] show ?thesis by simp
qed

end
