(* ===== verification/Linker.thy ===== *)
theory Linker
  imports Join_Search
begin

section \<open>The bidirectional linker: from a question to grounded candidates\<close>

text \<open>
  \<open>app/grounding/linker.py\<close>: lexical scores, reciprocal rank fusion with the scores of an embedder,
  table scores raised by their columns and by approved example queries, column, knowledge and value
  candidates, join paths by breadth-first search, and the confidence of the snapshot.

  The embedder (a sentence-transformers model) is an argument: a function from the list of texts to
  their vectors, \<open>None\<close> where \<open>encode\<close> raises (which the code catches). The SQL parser is the
  argument described in \<open>Grounding_Models\<close>. A dictionary that the code only looks up is a function
  or an association list; floats are the binary64 values of \<open>Py_Float\<close>. The interpreter is
  Python 3.11, whose \<open>sum\<close> adds floats from left to right.
\<close>

subsection \<open>Normal forms and lexical scores\<close>

text \<open>\<open>normalize_term\<close>: case folding (of the code points below 256, the sharp s becomes two
letters and the micro sign a Greek letter that the pattern removes), then only the characters
\<open>0-9a-zA-Z\<close> are kept.\<close>

definition casefold_char :: "char \<Rightarrow> string" where
  "casefold_char c = (if of_char c = (223 :: nat) then ''ss'' else [lower_char c])"

definition word_char :: "char \<Rightarrow> bool" where
  "word_char c \<longleftrightarrow> (let n = of_char c :: nat in
     48 \<le> n \<and> n \<le> 57 \<or> 65 \<le> n \<and> n \<le> 90 \<or> 97 \<le> n \<and> n \<le> 122)"

definition normalize_term :: "string \<Rightarrow> string" where
  "normalize_term s = filter word_char (concat (map casefold_char s))"

definition bigrams :: "string \<Rightarrow> string set" where
  "bigrams v = set (map (\<lambda>i. take 2 (drop i v)) [0..<length v - 1])"

text \<open>The score of one normalised candidate text, and the best one.\<close>

definition text_score :: "string \<Rightarrow> string \<Rightarrow> pyfloat" where
  "text_score query cand =
     (let n = (of_nat (length query) :: rat); m = (of_nat (length cand) :: rat) in
      if cand = query then 1
      else if contains cand query
        then min (fl (98 / 100)) (fadd (fl (72 / 100)) (fmul (fdiv m (max n 1)) (fl (24 / 100))))
      else if 2 \<le> length query \<and> contains query cand
        then min (fl (9 / 10)) (fadd (fl (52 / 100)) (fmul (fdiv n m) (fl (3 / 10))))
      else let union = bigrams query \<union> bigrams cand;
               overlap = (if union = {} then 0
                 else fdiv (of_nat (card (bigrams query \<inter> bigrams cand))) (of_nat (card union)))
           in fmul overlap (fl (68 / 100)))"

fun best_score :: "string \<Rightarrow> pyfloat \<Rightarrow> string list \<Rightarrow> pyfloat" where
  "best_score query best [] = best"
| "best_score query best (t # ts) =
     (let cand = normalize_term t in
      if cand = [] then best_score query best ts
      else best_score query (max best (text_score query cand)) ts)"

definition lexical_score :: "string \<Rightarrow> string list \<Rightarrow> pyfloat" where
  "lexical_score query texts =
     (let nq = normalize_term query in
      if nq = [] then 0 else fround (best_score nq 0 texts) 6)"

definition asset_texts :: "semantic_asset \<Rightarrow> string list" where
  "asset_texts a = [title a, description a, asset_id a] @ aliases a"

definition value_texts :: "value_entry \<Rightarrow> string list" where
  "value_texts v = [canonical_value v, value_id v] @ val_aliases v"

subsection \<open>Reciprocal rank fusion\<close>

text \<open>\<open>{k: v for \<dots>}\<close>: the last value of a key, at the place of its first occurrence.\<close>

definition dict_of :: "(string \<times> 'v) list \<Rightarrow> (string, 'v) dict" where
  "dict_of kvs = foldl (\<lambda>d (k, v). AList.update k v d) [] kvs"

definition get_score :: "(string, pyfloat) dict \<Rightarrow> string \<Rightarrow> pyfloat" where
  "get_score d k = (case map_of d k of None \<Rightarrow> 0 | Some x \<Rightarrow> x)"

definition rank_dict :: "(string, pyfloat) dict \<Rightarrow> (string, nat) dict" where
  "rank_dict scores =
     (let ordered = sort_key (\<lambda>(k, s). (- s, k)) (filter (\<lambda>(k, s). 0 < s) scores)
      in zip (map fst ordered) [1..<Suc (length ordered)])"

definition rank_part :: "(string, nat) dict \<Rightarrow> string \<Rightarrow> pyfloat" where
  "rank_part ranks k = (case map_of ranks k of None \<Rightarrow> 0 | Some r \<Rightarrow> fdiv 1 (60 + of_nat r))"

definition merged_score :: "(string, nat) dict \<Rightarrow> (string, nat) dict \<Rightarrow> string \<Rightarrow> pyfloat" where
  "merged_score lx vec k =
     fround (min 1 (fdiv (fadd (rank_part lx k) (rank_part vec k)) (fdiv 2 61))) 6"

definition rrf_scores ::
  "(string, pyfloat) dict \<Rightarrow> (string, pyfloat) dict \<Rightarrow> (string, pyfloat) dict" where
  "rrf_scores lexical vector =
     (if vector = [] then lexical
      else let l = rank_dict lexical; v = rank_dict vector
           in map (\<lambda>k. (k, merged_score l v k)) (remdups (map fst l @ map fst v)))"

subsection \<open>Vector scores\<close>

type_synonym embedder = "string list \<Rightarrow> pyfloat list list option"

text \<open>\<open>sum\<close> from left to right, starting at the integer zero.\<close>

definition fsum :: "pyfloat list \<Rightarrow> pyfloat" where
  "fsum xs = foldl fadd 0 xs"

text \<open>\<open>_vector_scores\<close> and \<open>_value_vector_scores\<close> differ only in the items' ids and texts. \<open>None\<close>
is an exception (of the embedder, of an empty answer or of a strict \<open>zip\<close>).\<close>

fun dot_scores :: "pyfloat \<Rightarrow> pyfloat list \<Rightarrow> string list \<Rightarrow> pyfloat list list \<Rightarrow>
    (string \<times> pyfloat) list option" where
  "dot_scores min_sim q [] [] = Some []"
| "dot_scores min_sim q (k # ks) (v # vs) =
     (if length v \<noteq> length q then None
      else let dot = fsum (map2 fmul q v) in
        map_option (\<lambda>rest. if min_sim \<le> dot then (k, fround (min 1 dot) 6) # rest else rest)
          (dot_scores min_sim q ks vs))"
| "dot_scores min_sim q _ _ = None"

definition vector_scores ::
  "embedder option \<Rightarrow> pyfloat \<Rightarrow> string \<Rightarrow> (string \<times> string) list \<Rightarrow> (string, pyfloat) dict" where
  "vector_scores emb min_sim query items =
     (case emb of
        None \<Rightarrow> []
      | Some encode \<Rightarrow>
          if items = [] then []
          else (case encode (query # map snd items) of
             Some (q # vs) \<Rightarrow>
               (case dot_scores min_sim q (map fst items) vs of None \<Rightarrow> [] | Some d \<Rightarrow> dict_of d)
           | _ \<Rightarrow> []))"

subsection \<open>Join paths of the relevant tables\<close>

fun ordered_pairs :: "'a list \<Rightarrow> ('a \<times> 'a) list" where
  "ordered_pairs [] = []"
| "ordered_pairs (x # xs) = map (Pair x) xs @ ordered_pairs xs"

text \<open>The score divides by the number of hops: a path without hops (two relevant tables with one
id) would raise.\<close>

definition make_path :: "string list \<Rightarrow> string list \<Rightarrow> exn + join_path" where
  "make_path ts rs =
     (if rs = [] then Inl ZeroDivisionError
      else Inr \<lparr>path_id = ''joinpath:'' @ take 20 (sha256_hex (join_with ''|'' rs)),
        relation_ids = rs, table_asset_ids = ts, path_score = fround (fdiv 1 (of_nat (length rs))) 6\<rparr>)"

fun collect_paths :: "edge list \<Rightarrow> nat \<Rightarrow> (string \<times> string) list \<Rightarrow>
    (string list, join_path) dict \<Rightarrow> exn + (string list, join_path) dict" where
  "collect_paths g hops [] paths = Inr paths"
| "collect_paths g hops ((start, target) # ps) paths =
     (case shortest_path g hops start target of
        None \<Rightarrow> collect_paths g hops ps paths
      | Some (ts, rs) \<Rightarrow>
          (case make_path ts rs of
             Inl e \<Rightarrow> Inl e
           | Inr p \<Rightarrow> collect_paths g hops ps (AList.update rs p paths)))"

definition candidate_joins :: "string list \<Rightarrow> schema_relation list \<Rightarrow> string list" where
  "candidate_joins relevant rs =
     map (\<lambda>r. ''CANDIDATE_JOIN:'' @ relation_id r)
       (filter (\<lambda>r. rel_status r = CANDIDATE \<and>
          (case (column_table_id (left_asset_id r), column_table_id (right_asset_id r)) of
             (Some l, Some t) \<Rightarrow> l \<in> set relevant \<and> t \<in> set relevant
           | _ \<Rightarrow> False)) rs)"

text \<open>\<open>_join_paths\<close>.\<close>

definition find_join_paths :: "nat \<Rightarrow> string list \<Rightarrow> schema_relation list \<Rightarrow>
    exn + join_path list \<times> string list" where
  "find_join_paths hops relevant rs =
     (case collect_paths (join_graph rs) hops (ordered_pairs relevant) [] of
        Inl e \<Rightarrow> Inl e
      | Inr paths \<Rightarrow> Inr (sort_key (\<lambda>p. (- path_score p, path_id p)) (map snd paths),
          sort (candidate_joins relevant rs)))"

subsection \<open>The stages of \<open>link\<close>\<close>

record linker_config =
  table_limit :: nat
  column_limit :: nat
  value_limit :: nat
  max_join_hops :: nat
  min_vector_similarity :: pyfloat
  min_candidate_score :: pyfloat

definition check_linker :: "linker_config \<Rightarrow> exn + unit" where
  "check_linker cfg = all_checks
     [check_that (0 \<le> min_vector_similarity cfg \<and> min_vector_similarity cfg \<le> 1)
        ''min_vector_similarity must be between 0 and 1'',
      check_that (0 \<le> min_candidate_score cfg \<and> min_candidate_score cfg \<le> 1)
        ''min_candidate_score must be between 0 and 1'']"

definition default_linker :: linker_config where
  "default_linker = \<lparr>table_limit = 5, column_limit = 10, value_limit = 3, max_join_hops = 5,
     min_vector_similarity = fl (45 / 100), min_candidate_score = fl (5 / 100)\<rparr>"

definition eligible_assets :: "time \<Rightarrow> catalog \<Rightarrow> semantic_asset list" where
  "eligible_assets now cat = filter (asset_current now) (cat_assets cat)"

definition of_types :: "asset_type set \<Rightarrow> semantic_asset list \<Rightarrow> semantic_asset list" where
  "of_types tys as = filter (\<lambda>a. asset_type a \<in> tys) as"

definition newline :: string where
  "newline = [char_of (10 :: nat)]"

definition fused_scores :: "embedder option \<Rightarrow> pyfloat \<Rightarrow> string \<Rightarrow> (string \<times> string list) list \<Rightarrow>
    (string, pyfloat) dict" where
  "fused_scores emb min_sim query items =
     rrf_scores (dict_of (map (\<lambda>(k, ts). (k, lexical_score query ts)) items))
       (vector_scores emb min_sim query (map (\<lambda>(k, ts). (k, join_with newline ts)) items))"

text \<open>The knowledge loop: what an example query of a well-scored metric, example or rule says about
tables and columns.\<close>

definition raise_score :: "string \<Rightarrow> pyfloat \<Rightarrow> (string, pyfloat) dict \<Rightarrow> (string, pyfloat) dict" where
  "raise_score k x d = AList.update k (max (get_score d k) x) d"

definition column_owner :: "sql_tree \<Rightarrow> string \<Rightarrow> string option" where
  "column_owner tree q =
     (let aliases = dict_of (map (\<lambda>(n, al). (lower (if al = [] then n else al), lower n)) (tree_tables tree));
          names = remdups (map (\<lambda>(n, _). lower n) (tree_tables tree))
      in if q \<noteq> [] then Some (case map_of aliases (lower q) of Some t \<Rightarrow> t | None \<Rightarrow> lower q)
         else if length names = 1 then Some (hd names) else None)"

definition public_table :: "string \<Rightarrow> string" where
  "public_table n = ''table:public.'' @ lower n"

definition public_column :: "string \<Rightarrow> string \<Rightarrow> string" where
  "public_column t c = ''column:public.'' @ t @ ''.'' @ lower c"

definition tree_scores :: "string set \<Rightarrow> pyfloat \<Rightarrow> sql_tree \<Rightarrow>
    (string, pyfloat) dict \<times> (string, pyfloat) dict \<Rightarrow> (string, pyfloat) dict \<times> (string, pyfloat) dict" where
  "tree_scores ids x tree st =
     (foldl (\<lambda>d (n, _). raise_score (public_table n) x d) (fst st) (tree_tables tree),
      foldl (\<lambda>d (c, q). case column_owner tree q of
           None \<Rightarrow> d
         | Some t \<Rightarrow> if public_column t c \<in> ids then raise_score (public_column t c) x d else d) (snd st) (tree_columns tree))"

fun knowledge_scores :: "sql_parser \<Rightarrow> string set \<Rightarrow> (string, pyfloat) dict \<Rightarrow> semantic_asset list \<Rightarrow>
    (string, pyfloat) dict \<times> (string, pyfloat) dict \<Rightarrow> (string, pyfloat) dict \<times> (string, pyfloat) dict" where
  "knowledge_scores parse ids fused [] st = st"
| "knowledge_scores parse ids fused (k # ks) st =
     (let score = get_score fused (asset_id k) in
      if score < fl (35 / 100) then knowledge_scores parse ids fused ks st
      else (case map_of (payload k) ''example_sql'' of
          Some (PStr sql) \<Rightarrow>
            (case parse sql of
               None \<Rightarrow> knowledge_scores parse ids fused ks st
             | Some tree \<Rightarrow>
                 knowledge_scores parse ids fused ks (tree_scores ids (fmul score (fl (9 / 10))) tree st))
        | _ \<Rightarrow> knowledge_scores parse ids fused ks st))"

definition column_score_dict :: "(string, pyfloat) dict \<Rightarrow> semantic_asset list \<Rightarrow>
    (string, pyfloat) dict \<Rightarrow> (string, pyfloat) dict" where
  "column_score_dict fused columns kc =
     foldl (\<lambda>d (k, x). raise_score k x d)
       (dict_of (map (\<lambda>a. (asset_id a, get_score fused (asset_id a))) columns)) kc"

definition max_or_0 :: "pyfloat list \<Rightarrow> pyfloat" where
  "max_or_0 xs = (if xs = [] then 0 else foldl max (hd xs) (tl xs))"

text \<open>Everything that \<open>link\<close> works out before it picks candidates.\<close>

record link_scores =
  ls_fused :: "(string, pyfloat) dict"
  ls_tables :: "semantic_asset list"
  ls_column_scores :: "(string, pyfloat) dict"
  ls_knowledge_tables :: "(string, pyfloat) dict"

definition score_assets :: "sql_parser \<Rightarrow> embedder option \<Rightarrow> linker_config \<Rightarrow> string \<Rightarrow>
    semantic_asset list \<Rightarrow> link_scores" where
  "score_assets parse emb cfg query elig =
     (let fused = fused_scores emb (min_vector_similarity cfg) query
            (map (\<lambda>a. (asset_id a, asset_texts a)) elig);
          (kt, kc) = knowledge_scores parse (asset_id ` set elig) fused
            (of_types {METRIC, QUERY_EXAMPLE, BUSINESS_RULE} elig) ([], [])
      in \<lparr>ls_fused = fused, ls_tables = of_types {TABLE} elig,
          ls_column_scores = column_score_dict fused (of_types {COLUMN} elig) kc,
          ls_knowledge_tables = kt\<rparr>)"

definition direct_score :: "link_scores \<Rightarrow> string \<Rightarrow> pyfloat" where
  "direct_score ls k = get_score (ls_fused ls) k"

definition reverse_score :: "link_scores \<Rightarrow> string \<Rightarrow> pyfloat" where
  "reverse_score ls k = fmul (max_or_0
     (map snd (filter (\<lambda>(c, _). column_table_id c = Some k) (ls_column_scores ls)))) (fl (92 / 100))"

definition table_score :: "link_scores \<Rightarrow> string \<Rightarrow> pyfloat" where
  "table_score ls k =
     fround (max (max (direct_score ls k) (reverse_score ls k)) (get_score (ls_knowledge_tables ls) k)) 6"

definition table_reasons :: "link_scores \<Rightarrow> string \<Rightarrow> string list" where
  "table_reasons ls k =
     (let direct = direct_score ls k; reverse = reverse_score ls k in
      (if 0 < direct then [''table_to_column''] else []) @
      (if direct < reverse then [''column_to_table''] else []) @
      (if max direct reverse < get_score (ls_knowledge_tables ls) k then [''knowledge_to_table''] else []))"

definition select_tables :: "linker_config \<Rightarrow> link_scores \<Rightarrow> semantic_asset list" where
  "select_tables cfg ls =
     take (table_limit cfg) (filter (\<lambda>t. min_candidate_score cfg \<le> table_score ls (asset_id t))
       (sort_key (\<lambda>t. (- table_score ls (asset_id t), asset_id t)) (ls_tables ls)))"

definition pick_tables :: "linker_config \<Rightarrow> link_scores \<Rightarrow> grounding_candidate list" where
  "pick_tables cfg ls = map (\<lambda>t. \<lparr>gc_asset_id = asset_id t, gc_score = table_score ls (asset_id t),
     gc_source_hash = source_hash t, gc_reasons = table_reasons ls (asset_id t)\<rparr>) (select_tables cfg ls)"

text \<open>Columns of the selected tables, with a bonus for their table.\<close>

definition selected_ids :: "linker_config \<Rightarrow> link_scores \<Rightarrow> string set" where
  "selected_ids cfg ls = asset_id ` set (select_tables cfg ls)"

definition owner_selected :: "linker_config \<Rightarrow> link_scores \<Rightarrow> semantic_asset \<Rightarrow> bool" where
  "owner_selected cfg ls a = (case table_id a of None \<Rightarrow> False | Some t \<Rightarrow> t \<in> selected_ids cfg ls)"

definition owner_score :: "link_scores \<Rightarrow> semantic_asset \<Rightarrow> pyfloat" where
  "owner_score ls a =
     (let t = (case table_id a of None \<Rightarrow> '''' | Some t \<Rightarrow> t) in
      if t \<in> asset_id ` set (ls_tables ls) then table_score ls t else 0)"

definition scoped_column_score :: "linker_config \<Rightarrow> link_scores \<Rightarrow> semantic_asset \<Rightarrow> pyfloat" where
  "scoped_column_score cfg ls a =
     fround (min 1 (fadd (fadd (get_score (ls_column_scores ls) (asset_id a))
         (fmul (owner_score ls a) (fl (12 / 100))))
       (if owner_selected cfg ls a then fl (8 / 100) else 0))) 6"

definition pick_columns :: "linker_config \<Rightarrow> link_scores \<Rightarrow> semantic_asset list \<Rightarrow>
    grounding_candidate list" where
  "pick_columns cfg ls columns =
     (let scoped = filter (\<lambda>a. owner_selected cfg ls a \<and>
            min_candidate_score cfg \<le> get_score (ls_column_scores ls) (asset_id a)) columns;
          ranked = sort_key (\<lambda>a. (- scoped_column_score cfg ls a, asset_id a)) scoped
      in map (\<lambda>a. \<lparr>gc_asset_id = asset_id a, gc_score = scoped_column_score cfg ls a,
           gc_source_hash = source_hash a, gc_reasons = [''within_candidate_table'']\<rparr>)
         (take (column_limit cfg) ranked))"

definition pick_knowledge :: "linker_config \<Rightarrow> link_scores \<Rightarrow> semantic_asset list \<Rightarrow>
    grounding_candidate list" where
  "pick_knowledge cfg ls knowledge =
     (let ranked = sort_key (\<lambda>a. (- direct_score ls (asset_id a), asset_id a)) knowledge in
      map (\<lambda>a. \<lparr>gc_asset_id = asset_id a, gc_score = direct_score ls (asset_id a),
           gc_source_hash = source_hash a, gc_reasons = [''approved_knowledge'']\<rparr>)
         (filter (\<lambda>a. min_candidate_score cfg \<le> direct_score ls (asset_id a)) (take 5 ranked)))"

text \<open>\<open>_link_values\<close> over the eligible values.\<close>

definition eligible_values :: "time \<Rightarrow> catalog \<Rightarrow> value_entry list" where
  "eligible_values now cat = filter (\<lambda>v. column_asset_id v \<in> asset_id ` set (eligible_assets now cat) \<and>
     value_current now v) (cat_values cat)"

definition link_values :: "embedder option \<Rightarrow> linker_config \<Rightarrow> string \<Rightarrow> value_entry list \<Rightarrow>
    value_candidate list" where
  "link_values emb cfg query values =
     (let fused = fused_scores emb (min_vector_similarity cfg) query
            (map (\<lambda>v. (value_id v, value_texts v)) values);
          scored = map (\<lambda>v. \<lparr>vc_value_id = value_id v, vc_column_asset_id = column_asset_id v,
              vc_canonical_value = canonical_value v, vc_score = get_score fused (value_id v),
              vc_source_hash = val_source_hash v\<rparr>)
            (filter (\<lambda>v. min_candidate_score cfg \<le> get_score fused (value_id v)) values)
      in take (value_limit cfg) (sort_key (\<lambda>c. (- vc_score c, vc_value_id c)) scored))"

definition eligible_relations :: "time \<Rightarrow> catalog \<Rightarrow> schema_relation list" where
  "eligible_relations now cat =
     (let ids = asset_id ` set (eligible_assets now cat) in
      filter (\<lambda>r. left_asset_id r \<in> ids \<and> right_asset_id r \<in> ids \<and> rel_sensitivity r \<noteq> RESTRICTED)
        (cat_relations cat))"

subsection \<open>Confidence and the snapshot\<close>

definition candidate_gap :: "pyfloat list \<Rightarrow> pyfloat" where
  "candidate_gap scores =
     (case filter (\<lambda>x. 0 < x) scores of
        [] \<Rightarrow> 0
      | [_] \<Rightarrow> 1
      | x # y # _ \<Rightarrow> min 1 (max 0 (fdiv (fadd x (- y)) (fl (2 / 10)))))"

definition link_confidence :: "pyfloat list \<Rightarrow> pyfloat list \<Rightarrow> pyfloat list \<Rightarrow> bool \<Rightarrow> pyfloat" where
  "link_confidence tables columns values joined =
     (let positive = filter (\<lambda>x. 0 < x) (take 2 tables @ take 3 columns @ take 1 values);
          n = (of_nat (length positive) :: rat);
          coverage = min 1 (fdiv n 4);
          relevance = (if positive = [] then 0 else fdiv (fsum positive) n);
          gap = fdiv (fadd (fadd (candidate_gap tables) (candidate_gap columns)) (candidate_gap values)) 3
      in fround (max 0 (min 1 (fadd (fadd (fadd (fmul (fl (35 / 100)) coverage)
           (fmul (fl (3 / 10)) relevance)) (fmul (fl (15 / 100)) (if joined then 1 else 0)))
           (fmul (fl (2 / 10)) gap)))) 4)"

definition relevant_tables :: "grounding_candidate list \<Rightarrow> string list" where
  "relevant_tables cands = take 4 (map gc_asset_id (filter (\<lambda>c. fl (35 / 100) \<le> gc_score c) cands))"

definition values_too_close :: "value_candidate list \<Rightarrow> bool" where
  "values_too_close vs =
     (case vs of x # y # _ \<Rightarrow> fadd (vc_score x) (- vc_score y) < fl (8 / 100) | _ \<Rightarrow> False)"

definition link :: "sql_parser \<Rightarrow> embedder option \<Rightarrow> linker_config \<Rightarrow> time \<Rightarrow> string \<Rightarrow> catalog \<Rightarrow>
    string \<Rightarrow> exn + grounding_snapshot" where
  "link parse emb cfg now query cat tenant =
     (let elig = eligible_assets now cat;
          ls = score_assets parse emb cfg query elig;
          tables = pick_tables cfg ls;
          columns = pick_columns cfg ls (of_types {COLUMN} elig);
          knowledge = pick_knowledge cfg ls (of_types {METRIC, QUERY_EXAMPLE, BUSINESS_RULE} elig);
          values = link_values emb cfg query (eligible_values now cat);
          relevant = relevant_tables tables
      in case find_join_paths (max_join_hops cfg) relevant (eligible_relations now cat) of
           Inl e \<Rightarrow> Inl e
         | Inr (paths, join_ambiguities) \<Rightarrow>
             Inr \<lparr>query_hash = sha256_hex query, snap_tenant_id = tenant, table_candidates = tables,
               column_candidates = columns, knowledge_candidates = knowledge, value_candidates = values,
               join_paths = paths,
               snap_evidence_ids = sort (remdups (map gc_asset_id (tables @ columns @ knowledge) @
                 map vc_value_id values @ concat (map relation_ids paths) @
                 filter (\<lambda>t. t \<in> asset_id ` set elig) (concat (map table_asset_ids paths)))),
               snap_confidence = link_confidence (map gc_score tables) (map gc_score columns)
                 (map vc_score values) (length relevant < 2 \<or> paths \<noteq> []),
               snap_ambiguities = sort (remdups (join_ambiguities @
                 (if values_too_close values then [''VALUE_CANDIDATES_TOO_CLOSE''] else [])))\<rparr>)"

text \<open>\<open>GroundingService.search\<close>: load the catalog of the tenant, link, and keep both.\<close>

definition grounding_search :: "sql_parser \<Rightarrow> embedder option \<Rightarrow> linker_config \<Rightarrow> time \<Rightarrow>
    (string \<Rightarrow> exn + catalog) \<Rightarrow> string \<Rightarrow> string \<Rightarrow> exn + grounding_snapshot \<times> catalog" where
  "grounding_search parse emb cfg now load tenant query =
     (case load tenant of
        Inl e \<Rightarrow> Inl e
      | Inr cat \<Rightarrow>
          (case link parse emb cfg now query cat tenant of Inl e \<Rightarrow> Inl e | Inr snap \<Rightarrow> Inr (snap, cat)))"

subsection \<open>What the linker exposes\<close>

lemma select_tables_set: "t \<in> set (select_tables cfg ls) \<Longrightarrow>
    t \<in> set (ls_tables ls) \<and> min_candidate_score cfg \<le> table_score ls (asset_id t)"
  by (auto simp: select_tables_def dest!: in_set_takeD)

lemma ls_tables_score [simp]: "ls_tables (score_assets parse emb cfg query elig) = of_types {TABLE} elig"
  by (simp add: score_assets_def case_prod_unfold Let_def)

lemma ids_pick_tables: "gc_asset_id ` set (pick_tables cfg ls) = selected_ids cfg ls"
  by (simp add: pick_tables_def selected_ids_def image_image)

lemma pick_tables_set:
  assumes "c \<in> set (pick_tables cfg (score_assets parse emb cfg query (eligible_assets now cat)))"
  shows "\<exists>a \<in> set (cat_assets cat). asset_id a = gc_asset_id c \<and> asset_type a = TABLE \<and>
    asset_current now a \<and> min_candidate_score cfg \<le> gc_score c"
proof -
  let ?ls = "score_assets parse emb cfg query (eligible_assets now cat)"
  obtain t where t: "t \<in> set (select_tables cfg ?ls)" "gc_asset_id c = asset_id t"
      "gc_score c = table_score ?ls (asset_id t)"
    using assms by (auto simp: pick_tables_def)
  from select_tables_set [OF t(1)] have "t \<in> set (cat_assets cat)" "asset_type t = TABLE" "asset_current now t"
      "min_candidate_score cfg \<le> gc_score c"
    using t(3) by (simp_all add: of_types_def eligible_assets_def)
  with t(2) show ?thesis by auto
qed

lemma pick_columns_set:
  assumes "c \<in> set (pick_columns cfg ls (of_types {COLUMN} (eligible_assets now cat)))"
  shows "\<exists>a \<in> set (cat_assets cat). asset_id a = gc_asset_id c \<and> asset_type a = COLUMN \<and>
    asset_current now a \<and> (\<exists>t \<in> set (pick_tables cfg ls). table_id a = Some (gc_asset_id t))"
proof -
  obtain a where a: "a \<in> set (cat_assets cat)" "asset_id a = gc_asset_id c" "asset_type a = COLUMN"
      "asset_current now a" "owner_selected cfg ls a"
    using assms
    by (auto simp: pick_columns_def Let_def of_types_def eligible_assets_def dest!: in_set_takeD)
  then obtain x where "table_id a = Some x" "x \<in> gc_asset_id ` set (pick_tables cfg ls)"
    by (auto simp: owner_selected_def ids_pick_tables split: option.splits)
  with a show ?thesis by auto
qed

lemma pick_knowledge_set:
  assumes "c \<in> set (pick_knowledge cfg ls (of_types tys (eligible_assets now cat)))"
  shows "\<exists>a \<in> set (cat_assets cat). asset_id a = gc_asset_id c \<and> asset_current now a"
  using assms
  by (auto simp: pick_knowledge_def Let_def of_types_def eligible_assets_def dest!: in_set_takeD)

lemma link_values_set:
  assumes "c \<in> set (link_values emb cfg query (eligible_values now cat))"
  shows "\<exists>v \<in> set (cat_values cat). value_id v = vc_value_id c \<and> column_asset_id v = vc_column_asset_id c \<and>
    value_current now v \<and> (\<exists>a \<in> set (cat_assets cat). asset_id a = column_asset_id v \<and> asset_current now a)"
  using assms
  by (fastforce simp: link_values_def Let_def eligible_values_def eligible_assets_def dest!: in_set_takeD)

text \<open>Every join path comes from the search.\<close>

lemma update_values: "snd ` set (AList.update k v d) \<subseteq> insert v (snd ` set d)"
  by (induction d) auto

lemma collect_paths_set:
  assumes "collect_paths g hops ps paths = Inr d"
    and "p \<in> snd ` set d"
  shows "p \<in> snd ` set paths \<or> (\<exists>(a, b) \<in> set ps.
    shortest_path g hops a b = Some (table_asset_ids p, relation_ids p))"
  using assms
proof (induction g hops ps paths rule: collect_paths.induct)
  case (2 g hops start target ps paths)
  show ?case
  proof (cases "shortest_path g hops start target")
    case None
    with 2 show ?thesis by auto
  next
    case (Some tr)
    obtain ts rs where tr: "tr = (ts, rs)" by fastforce
    with 2(3) Some obtain q where q: "make_path ts rs = Inr q" by (auto split: sum.splits)
    then have "collect_paths g hops ps (AList.update rs q paths) = Inr d" using 2(3) Some tr by simp
    from 2(2) [OF Some tr [symmetric] q this 2(4)] tr
    have "p \<in> insert q (snd ` set paths) \<or> (\<exists>(a, b) \<in> set ps.
        shortest_path g hops a b = Some (table_asset_ids p, relation_ids p))"
      using update_values [of rs q paths] by (auto simp del: insert_iff)
    moreover have "table_asset_ids q = ts" "relation_ids q = rs"
      using q by (auto simp: make_path_def split: if_splits)
    ultimately show ?thesis using Some tr by auto
  qed
qed simp

lemma find_join_paths_set:
  assumes "find_join_paths hops relevant rs = Inr (paths, amb)" and "p \<in> set paths"
  shows "\<exists>(a, b) \<in> set (ordered_pairs relevant).
    shortest_path (join_graph rs) hops a b = Some (table_asset_ids p, relation_ids p)"
  using assms collect_paths_set [of "join_graph rs" hops "ordered_pairs relevant" "[]" _ p]
  by (auto simp: find_join_paths_def split: sum.splits)

lemma join_graph_relation:
  "(n, m, rid) \<in> set (join_graph rs) \<Longrightarrow> \<exists>r \<in> set rs. relation_id r = rid \<and> rel_status r = CONFIRMED \<and>
     {column_table_id (left_asset_id r), column_table_id (right_asset_id r)} = {Some n, Some m}"
  by (auto simp: join_graph_def relation_edges_def split: option.splits)

lemma join_path_relations:
  assumes "find_join_paths hops relevant (eligible_relations now cat) = Inr (paths, amb)"
    and "p \<in> set paths"
  shows "length (relation_ids p) \<le> hops \<and>
    (\<forall>rid \<in> set (relation_ids p). \<exists>r \<in> set (cat_relations cat). relation_id r = rid \<and>
       rel_status r = CONFIRMED \<and> rel_sensitivity r \<noteq> RESTRICTED \<and>
       (\<forall>e \<in> {left_asset_id r, right_asset_id r}. \<exists>a \<in> set (cat_assets cat). asset_id a = e \<and> asset_current now a))"
proof -
  obtain a b where "shortest_path (join_graph (eligible_relations now cat)) hops a b =
      Some (table_asset_ids p, relation_ids p)"
    using find_join_paths_set [OF assms] by auto
  from shortest_path_Some [OF this] have h: "hops_to (join_graph (eligible_relations now cat)) a b (table_asset_ids p) (relation_ids p)"
    "length (relation_ids p) \<le> hops" by simp_all
  have c: "\<exists>a \<in> set (cat_assets cat). asset_id a = e \<and> asset_current now a"
    if "e \<in> asset_id ` set (eligible_assets now cat)" for e
    using that by (auto simp: eligible_assets_def)
  have "\<exists>r \<in> set (cat_relations cat). relation_id r = rid \<and>
       rel_status r = CONFIRMED \<and> rel_sensitivity r \<noteq> RESTRICTED \<and>
       (\<forall>e \<in> {left_asset_id r, right_asset_id r}. \<exists>a \<in> set (cat_assets cat). asset_id a = e \<and> asset_current now a)"
    if rid: "rid \<in> set (relation_ids p)" for rid
  proof -
    obtain n m where "(n, m, rid) \<in> set (join_graph (eligible_relations now cat))"
      using hops_to_relations [OF h(1) rid] by blast
    from join_graph_relation [OF this] obtain r where r: "r \<in> set (eligible_relations now cat)"
      "relation_id r = rid" "rel_status r = CONFIRMED" by blast
    then have "r \<in> set (cat_relations cat)" "rel_sensitivity r \<noteq> RESTRICTED"
      "left_asset_id r \<in> asset_id ` set (eligible_assets now cat)"
      "right_asset_id r \<in> asset_id ` set (eligible_assets now cat)"
      by (simp_all add: eligible_relations_def Let_def)
    with r(2,3) c show ?thesis by blast
  qed
  with h(2) show ?thesis by blast
qed

lemma link_Inr:
  assumes "link parse emb cfg now query cat tenant = Inr snap"
  shows "\<exists>paths amb. find_join_paths (max_join_hops cfg)
      (relevant_tables (pick_tables cfg (score_assets parse emb cfg query (eligible_assets now cat))))
      (eligible_relations now cat) = Inr (paths, amb) \<and> join_paths snap = paths \<and>
    table_candidates snap = pick_tables cfg (score_assets parse emb cfg query (eligible_assets now cat)) \<and>
    column_candidates snap = pick_columns cfg (score_assets parse emb cfg query (eligible_assets now cat))
      (of_types {COLUMN} (eligible_assets now cat)) \<and>
    knowledge_candidates snap = pick_knowledge cfg (score_assets parse emb cfg query (eligible_assets now cat))
      (of_types {METRIC, QUERY_EXAMPLE, BUSINESS_RULE} (eligible_assets now cat)) \<and>
    value_candidates snap = link_values emb cfg query (eligible_values now cat) \<and>
    snap_evidence_ids snap = sort (remdups (map gc_asset_id (table_candidates snap @ column_candidates snap @
      knowledge_candidates snap) @ map vc_value_id (value_candidates snap) @ concat (map relation_ids paths) @
      filter (\<lambda>t. t \<in> asset_id ` set (eligible_assets now cat)) (concat (map table_asset_ids paths)))) \<and>
    snap_confidence snap = link_confidence (map gc_score (table_candidates snap))
      (map gc_score (column_candidates snap)) (map vc_score (value_candidates snap))
      (length (relevant_tables (table_candidates snap)) < 2 \<or> paths \<noteq> [])"
  using assms by (auto simp: link_def Let_def split: sum.splits prod.splits)


subsection \<open>Scores are probabilities\<close>

definition unit_range :: "pyfloat \<Rightarrow> bool" where
  "unit_range x \<longleftrightarrow> 0 \<le> x \<and> x \<le> 1"

named_theorems unit_intros "the operations that keep a score in the unit interval"

lemma unit_0 [unit_intros]: "unit_range 0" and unit_1 [unit_intros]: "unit_range 1"
  by (simp_all add: unit_range_def)

lemma unit_fround [unit_intros]: "unit_range x \<Longrightarrow> unit_range (fround x n)"
  using fround_range by (simp add: unit_range_def)

lemma unit_fmul [unit_intros]: "unit_range a \<Longrightarrow> unit_range b \<Longrightarrow> unit_range (fmul a b)"
  unfolding fmul_def unit_range_def using mult_le_one [of a b] by (auto intro: fl_nonneg fl_le_1)

lemma unit_fl [unit_intros]: "unit_range x \<Longrightarrow> unit_range (fl x)"
  by (auto intro: fl_nonneg fl_le_1 simp: unit_range_def)

lemma fadd_nonneg: "0 \<le> a \<Longrightarrow> 0 \<le> b \<Longrightarrow> 0 \<le> fadd a b"
  unfolding fadd_def by (rule fl_nonneg) simp

lemma unit_max [unit_intros]: "unit_range a \<Longrightarrow> unit_range b \<Longrightarrow> unit_range (max a b)"
  by (simp add: max_def)

lemma unit_min_1: "0 \<le> x \<Longrightarrow> unit_range (min 1 x)"
  by (simp add: unit_range_def min_def)

lemma unit_text_score: "unit_range (text_score q c)"
proof -
  have f: "fl (98 / 100) \<le> 1" "fl (9 / 10) \<le> 1" "0 \<le> fl (98 / 100)" "0 \<le> fl (9 / 10)"
    by (auto intro: fl_le_1 fl_nonneg)
  have p: "0 \<le> fadd (fl x) (fmul (fdiv (of_nat a) b) (fl y))" if "0 \<le> x" "0 \<le> y" "0 \<le> b" for x y b a
    using that unfolding fdiv_def fmul_def by (intro fadd_nonneg fl_nonneg mult_nonneg_nonneg) simp_all
  have "unit_range (fdiv (of_nat (card (bigrams q \<inter> bigrams c))) (of_nat (card (bigrams q \<union> bigrams c))))"
    unfolding unit_range_def by (intro fdiv_range) (auto simp: bigrams_def intro: card_mono)
  then have o: "unit_range (fmul (fdiv (of_nat (card (bigrams q \<inter> bigrams c)))
      (of_nat (card (bigrams q \<union> bigrams c)))) (fl (68 / 100)))"
    by (intro unit_intros) (simp_all add: unit_range_def)
  have z: "unit_range (fmul 0 (fl (68 / 100)))" by (simp add: fmul_def unit_0)
  show ?thesis
    using f o z p [of "72 / 100" "24 / 100" "max (of_nat (length q)) 1" "length c"]
      p [of "52 / 100" "3 / 10" "of_nat (length c)" "length q"]
    by (auto simp: text_score_def Let_def min_le_iff_disj unit_range_def)
qed

lemma unit_best_score: "unit_range best \<Longrightarrow> unit_range (best_score q best ts)"
proof (induction q best ts rule: best_score.induct)
  case (2 q best t ts)
  then show ?case using unit_max [OF 2(3) unit_text_score [of q "normalize_term t"]]
    by (simp add: Let_def)
qed simp

lemma unit_lexical_score: "unit_range (lexical_score q ts)"
  by (auto simp: lexical_score_def Let_def intro!: unit_intros unit_best_score)

definition unit_dict :: "(string, pyfloat) dict \<Rightarrow> bool" where
  "unit_dict d \<longleftrightarrow> (\<forall>x \<in> snd ` set d. unit_range x)"

lemma unit_dict_update: "unit_dict d \<Longrightarrow> unit_range x \<Longrightarrow> unit_dict (AList.update k x d)"
  using update_values [of k x d] unfolding unit_dict_def by blast

lemma unit_get_score: "unit_dict d \<Longrightarrow> unit_range (get_score d k)"
  by (auto simp: get_score_def unit_dict_def unit_0 split: option.splits dest!: map_of_SomeE_values)

lemma unit_raise_score: "unit_dict d \<Longrightarrow> unit_range x \<Longrightarrow> unit_dict (raise_score k x d)"
  unfolding raise_score_def by (rule unit_dict_update) (auto intro: unit_max unit_get_score)

lemma unit_dict_of: "\<forall>x \<in> snd ` set kvs. unit_range x \<Longrightarrow> unit_dict (dict_of kvs)"
  unfolding dict_of_def
  by (rule foldl_keeps) (force simp: unit_dict_def [of "[]"] intro!: unit_dict_update)+

lemma unit_rrf: "unit_dict lexical \<Longrightarrow> unit_dict (rrf_scores lexical vector)"
proof -
  have "0 \<le> rank_part d k" for d k
    by (auto simp: rank_part_def fdiv_def intro!: fl_nonneg split: option.splits)
  then have "0 \<le> fdiv (fadd (rank_part l k) (rank_part v k)) (fdiv 2 61)" for l v k
    unfolding fdiv_def using fl_nonneg [of "2 / 61"] by (intro fl_nonneg divide_nonneg_nonneg fadd_nonneg) simp_all
  then have "unit_range (merged_score l v k)" for l v k
    unfolding merged_score_def by (intro unit_fround unit_min_1)
  then show "unit_dict lexical \<Longrightarrow> unit_dict (rrf_scores lexical vector)"
    by (auto simp: rrf_scores_def Let_def unit_dict_def)
qed

lemma unit_fused: "unit_dict (fused_scores emb ms query items)"
  unfolding fused_scores_def
  by (intro unit_rrf unit_dict_of) (auto simp: unit_lexical_score)

lemma unit_tree_scores:
  assumes "unit_dict (fst st)" and "unit_dict (snd st)" and "unit_range x"
  shows "unit_dict (fst (tree_scores ids x tree st)) \<and> unit_dict (snd (tree_scores ids x tree st))"
proof
  show "unit_dict (fst (tree_scores ids x tree st))"
    unfolding tree_scores_def fst_conv
    by (rule foldl_keeps [where P = unit_dict]) (auto simp: assms intro: unit_raise_score)
  show "unit_dict (snd (tree_scores ids x tree st))"
    unfolding tree_scores_def snd_conv
    by (rule foldl_keeps [where P = unit_dict])
      (auto simp: assms unit_raise_score split: option.split)
qed

lemma unit_knowledge_scores:
  assumes "unit_dict fused" and "unit_dict (fst st)" and "unit_dict (snd st)"
  shows "unit_dict (fst (knowledge_scores parse ids fused ks st)) \<and>
    unit_dict (snd (knowledge_scores parse ids fused ks st))"
  using assms(2,3)
proof (induction ks arbitrary: st)
  case (Cons k ks)
  have "unit_range (fmul (get_score fused (asset_id k)) (fl (9 / 10)))"
    by (intro unit_intros unit_get_score assms(1)) (simp add: unit_range_def)
  from unit_tree_scores [OF Cons.prems this] Cons.IH Cons.prems show ?case
    by (simp add: Let_def split: option.splits payload_value.splits)
qed simp

lemma unit_max_or_0: "\<forall>x \<in> set xs. unit_range x \<Longrightarrow> unit_range (max_or_0 xs)"
  unfolding max_or_0_def
  by (cases xs) (auto intro!: foldl_keeps [where P = unit_range] unit_intros)

lemma unit_link_scores:
  fixes parse emb cfg query elig
  defines "ls \<equiv> score_assets parse emb cfg query elig"
  shows "unit_dict (ls_fused ls)" "unit_dict (ls_column_scores ls)" "unit_dict (ls_knowledge_tables ls)"
proof -
  let ?fused = "fused_scores emb (min_vector_similarity cfg) query (map (\<lambda>a. (asset_id a, asset_texts a)) elig)"
  let ?k = "knowledge_scores parse (asset_id ` set elig) ?fused
    (of_types {METRIC, QUERY_EXAMPLE, BUSINESS_RULE} elig) ([], [])"
  have k: "unit_dict (fst ?k)" "unit_dict (snd ?k)"
    using unit_knowledge_scores [OF unit_fused, of "([], [])"] by (simp_all add: unit_dict_def)
  have d: "unit_dict (dict_of (map (\<lambda>a. (asset_id a, get_score ?fused (asset_id a))) (of_types {COLUMN} elig)))"
    by (rule unit_dict_of) (auto intro: unit_get_score unit_fused)
  have "unit_dict (column_score_dict ?fused (of_types {COLUMN} elig) (snd ?k))"
    unfolding column_score_dict_def
  proof (rule foldl_keeps [where P = unit_dict])
    fix d' y
    assume "unit_dict d'" and "y \<in> set (snd ?k)"
    moreover from this have "unit_range (snd y)" using k(2) by (auto simp: unit_dict_def)
    ultimately show "unit_dict (case y of (k, x) \<Rightarrow> raise_score k x d')"
      by (cases y) (simp add: unit_raise_score)
  qed (rule d)
  with k unit_fused show "unit_dict (ls_fused ls)" "unit_dict (ls_column_scores ls)"
    "unit_dict (ls_knowledge_tables ls)"
    by (simp_all add: ls_def score_assets_def case_prod_unfold Let_def)
qed

lemma unit_table_score: "unit_range (table_score (score_assets parse emb cfg query elig) k)"
proof -
  let ?ls = "score_assets parse emb cfg query elig"
  have "\<forall>x \<in> set (map snd (filter (\<lambda>(c, _). column_table_id c = Some k) (ls_column_scores ?ls))). unit_range x"
    using unit_link_scores(2) [of parse emb cfg query elig] by (fastforce simp: unit_dict_def)
  then have "unit_range (reverse_score ?ls k)"
    unfolding reverse_score_def by (intro unit_intros unit_max_or_0) (simp_all add: unit_range_def)
  then show ?thesis
    unfolding table_score_def direct_score_def
    by (intro unit_intros unit_get_score unit_link_scores)
qed

lemma unit_scoped_column: "unit_range (scoped_column_score cfg (score_assets parse emb cfg query elig) a)"
proof -
  let ?ls = "score_assets parse emb cfg query elig"
  have "0 \<le> owner_score ?ls a"
    using unit_table_score by (simp add: owner_score_def Let_def unit_range_def)
  then have "0 \<le> fmul (owner_score ?ls a) (fl (12 / 100))"
    unfolding fmul_def by (intro fl_nonneg mult_nonneg_nonneg) simp_all
  moreover have "0 \<le> get_score (ls_column_scores ?ls) (asset_id a)"
    using unit_get_score [OF unit_link_scores(2)] by (simp add: unit_range_def)
  ultimately show ?thesis
    unfolding scoped_column_score_def by (intro unit_intros unit_min_1 fadd_nonneg) (simp_all add: fl_nonneg)
qed

text \<open>Every score of a snapshot is a number between 0 and 1, whatever the embedder answers, and
so is its confidence.\<close>

theorem link_scores_in_range:
  assumes "link parse emb cfg now query cat tenant = Inr snap"
  shows "(\<forall>c \<in> set (table_candidates snap @ column_candidates snap @ knowledge_candidates snap).
       0 \<le> gc_score c \<and> gc_score c \<le> 1) \<and>
    (\<forall>c \<in> set (value_candidates snap). 0 \<le> vc_score c \<and> vc_score c \<le> 1) \<and>
    0 \<le> snap_confidence snap \<and> snap_confidence snap \<le> 1"
proof -
  let ?elig = "eligible_assets now cat"
  let ?ls = "score_assets parse emb cfg query ?elig"
  from link_Inr [OF assms] have e: "table_candidates snap = pick_tables cfg ?ls"
      "column_candidates snap = pick_columns cfg ?ls (of_types {COLUMN} ?elig)"
      "knowledge_candidates snap = pick_knowledge cfg ?ls (of_types {METRIC, QUERY_EXAMPLE, BUSINESS_RULE} ?elig)"
      "value_candidates snap = link_values emb cfg query (eligible_values now cat)"
    and c: "\<exists>b. snap_confidence snap = link_confidence (map gc_score (table_candidates snap))
      (map gc_score (column_candidates snap)) (map vc_score (value_candidates snap)) b"
    by blast+
  have "\<forall>c \<in> set (table_candidates snap). unit_range (gc_score c)"
    unfolding e(1) pick_tables_def using unit_table_score by auto
  moreover have "\<forall>c \<in> set (column_candidates snap). unit_range (gc_score c)"
    unfolding e(2) pick_columns_def Let_def using unit_scoped_column by auto
  moreover have "\<forall>c \<in> set (knowledge_candidates snap). unit_range (gc_score c)"
    unfolding e(3) pick_knowledge_def Let_def direct_score_def
    using unit_get_score [OF unit_link_scores(1)] by auto
  moreover have "\<forall>c \<in> set (value_candidates snap). unit_range (vc_score c)"
    unfolding e(4) link_values_def Let_def using unit_get_score [OF unit_fused] by (auto dest!: in_set_takeD)
  moreover have "unit_range (link_confidence ts cs vs b)" for ts cs vs b
    unfolding link_confidence_def Let_def
    by (rule unit_fround) (simp add: unit_range_def)
  ultimately show ?thesis using c unfolding unit_range_def by auto
qed

subsection \<open>Linking returns\<close>

lemma ordered_pairs_distinct: "distinct xs \<Longrightarrow> (a, b) \<in> set (ordered_pairs xs) \<Longrightarrow> a \<noteq> b"
  by (induction xs) auto

lemma collect_paths_returns:
  assumes "\<forall>(a, b) \<in> set ps. a \<noteq> b"
  shows "\<exists>d. collect_paths g hops ps paths = Inr d"
  using assms
proof (induction g hops ps paths rule: collect_paths.induct)
  case (2 g hops start target ps paths)
  show ?case
  proof (cases "shortest_path g hops start target")
    case None
    with 2(1,3) show ?thesis by simp
  next
    case (Some tr)
    obtain ts rs where tr: "tr = (ts, rs)" by fastforce
    have "rs \<noteq> []"
      using shortest_path_Some [OF Some [unfolded tr]] 2(3) by (auto elim: hops_to_NilE)
    then obtain q where "make_path ts rs = Inr q" by (simp add: make_path_def)
    with 2(2) [OF Some tr [symmetric] this] 2(3) Some tr show ?thesis by simp
  qed
qed simp

lemma link_returns:
  assumes "distinct (map asset_id (cat_assets cat))"
  shows "\<exists>snap. link parse emb cfg now query cat tenant = Inr snap"
proof -
  let ?ls = "score_assets parse emb cfg query (eligible_assets now cat)"
  have "distinct (map asset_id (ls_tables ?ls))"
    using assms by (simp add: of_types_def eligible_assets_def distinct_map_filter)
  then have "distinct (map asset_id (sort_key (\<lambda>t. (- table_score ?ls (asset_id t), asset_id t)) (ls_tables ?ls)))"
    by (simp only: distinct_map set_sort distinct_sort)
  then have "distinct (map asset_id (select_tables cfg ?ls))"
    unfolding select_tables_def take_map [symmetric] by (intro distinct_take distinct_map_filter)
  moreover have "map gc_asset_id (pick_tables cfg ?ls) = map asset_id (select_tables cfg ?ls)"
    by (simp add: pick_tables_def)
  ultimately have "distinct (map gc_asset_id (pick_tables cfg ?ls))" by simp
  then have "distinct (relevant_tables (pick_tables cfg ?ls))"
    unfolding relevant_tables_def by (intro distinct_take distinct_map_filter)
  then have "\<forall>(a, b) \<in> set (ordered_pairs (relevant_tables (pick_tables cfg ?ls))). a \<noteq> b"
    by (auto dest: ordered_pairs_distinct)
  then obtain d where "collect_paths (join_graph (eligible_relations now cat)) (max_join_hops cfg)
      (ordered_pairs (relevant_tables (pick_tables cfg ?ls))) [] = Inr d"
    using collect_paths_returns by blast
  then show ?thesis by (simp add: link_def find_join_paths_def Let_def)
qed

text \<open>Linking always returns a snapshot when asset ids are unique in the catalog: no join path is
ever empty, so the hop score never divides by zero.\<close>

theorem link_never_raises:
  assumes "distinct (map asset_id (cat_assets cat))"
  shows "\<exists>snap. link parse emb cfg now query cat tenant = Inr snap"
  using assms by (rule link_returns)

subsection \<open>The selected tables are the best ones\<close>

lemma take_sorted_best:
  assumes "sorted (map k xs)" and "x \<in> set xs" and "x \<notin> set (take n xs)" and "y \<in> set (take n xs)"
  shows "k y \<le> k x"
proof -
  have "x \<in> set (drop n xs)" using assms(2,3) by (metis Un_iff append_take_drop_id set_append)
  moreover have "sorted (map k (take n xs) @ map k (drop n xs))"
    using assms(1) by (simp flip: map_append)
  ultimately show ?thesis using assms(4) by (auto simp: sorted_append)
qed

text \<open>No better table is left out: an eligible table that reaches the threshold and is not
selected is beaten by a full list of selected tables, each with a higher score, or an equal score
and a smaller id.\<close>

theorem best_tables_selected:
  assumes "t \<in> set (ls_tables ls)" and "min_candidate_score cfg \<le> table_score ls (asset_id t)"
    and "t \<notin> set (select_tables cfg ls)"
  shows "length (select_tables cfg ls) = table_limit cfg \<and>
    (\<forall>s \<in> set (select_tables cfg ls). table_score ls (asset_id t) < table_score ls (asset_id s) \<or>
       table_score ls (asset_id t) = table_score ls (asset_id s) \<and> asset_id s \<le> asset_id t)"
proof -
  let ?k = "\<lambda>t. (- table_score ls (asset_id t), asset_id t)"
  let ?ranked = "filter (\<lambda>t. min_candidate_score cfg \<le> table_score ls (asset_id t)) (sort_key ?k (ls_tables ls))"
  have sel: "select_tables cfg ls = take (table_limit cfg) ?ranked" by (simp add: select_tables_def)
  have t: "t \<in> set ?ranked" "t \<notin> set (take (table_limit cfg) ?ranked)" using assms sel by auto
  then have "table_limit cfg < length ?ranked" by (metis not_less take_all)
  moreover have s: "sorted (map ?k ?ranked)" by (rule sorted_filter) simp
  have "?k s \<le> ?k t" if "s \<in> set (take (table_limit cfg) ?ranked)" for s
    by (rule take_sorted_best [OF s t that])
  ultimately show ?thesis unfolding sel by (fastforce simp: less_eq_prod_def)
qed

subsection \<open>A concrete catalog\<close>

definition linked_table :: "string \<Rightarrow> semantic_asset" where
  "linked_table t = \<lparr>asset_id = ''table:public.'' @ t, asset_type = TABLE, title = t, description = t,
     source_uri = '''', source_hash = '''', tenant_id = ''default'', schema_version = 1,
     content_version = 1, trust_level = HIGH_TRUST, sensitivity = INTERNAL, status = PUBLISHED,
     aliases = [], effective_from = None, effective_to = None, owner = None, payload = []\<rparr>"

definition linked_catalog :: catalog where
  "linked_catalog = \<lparr>cat_assets = [linked_table ''shop'', linked_table ''sale''], cat_values = [], cat_relations = []\<rparr>"

definition open_linker :: linker_config where
  "open_linker = default_linker\<lparr>min_candidate_score := 0, table_limit := 1\<rparr>"

lemma linked_ids: "distinct (map asset_id (cat_assets linked_catalog))"
  by (simp add: linked_catalog_def linked_table_def)


theorem link_scores_in_range_witness:
  "\<exists>snap. link (\<lambda>_. None) None default_linker 0 ''shop'' linked_catalog ''default'' = Inr snap \<and>
     snap_confidence snap \<le> 1"
proof -
  obtain snap where s: "link (\<lambda>_. None) None default_linker 0 ''shop'' linked_catalog ''default'' = Inr snap"
    using link_returns [OF linked_ids] by blast
  from link_scores_in_range [OF this] s show ?thesis by blast
qed

theorem link_never_raises_witness:
  "\<exists>snap. link (\<lambda>_. None) None default_linker 0 ''shop'' linked_catalog ''default'' = Inr snap"
  by (rule link_never_raises [OF linked_ids])

theorem best_tables_selected_witness:
  "\<exists>t \<in> {linked_table ''shop'', linked_table ''sale''}.
     t \<notin> set (select_tables open_linker (score_assets (\<lambda>_. None) None open_linker ''shop''
       (cat_assets linked_catalog))) \<and>
     length (select_tables open_linker (score_assets (\<lambda>_. None) None open_linker ''shop''
       (cat_assets linked_catalog))) = 1"
proof -
  let ?ls = "score_assets (\<lambda>_. None) None open_linker ''shop'' (cat_assets linked_catalog)"
  have two: "linked_table ''shop'' \<noteq> linked_table ''sale''" by (simp add: linked_table_def)
  have "length (select_tables open_linker ?ls) \<le> 1"
    by (simp add: select_tables_def open_linker_def)
  then have "\<not> {linked_table ''shop'', linked_table ''sale''} \<subseteq> set (select_tables open_linker ?ls)"
    using two by (cases "select_tables open_linker ?ls") auto
  then obtain t where t: "t \<in> {linked_table ''shop'', linked_table ''sale''}"
      "t \<notin> set (select_tables open_linker ?ls)" by blast
  then have "t \<in> set (ls_tables ?ls)" by (auto simp: of_types_def linked_catalog_def linked_table_def)
  moreover have "min_candidate_score open_linker \<le> table_score ?ls (asset_id t)"
    using unit_table_score by (simp add: unit_range_def open_linker_def)
  ultimately have "length (select_tables open_linker ?ls) = table_limit open_linker"
    using best_tables_selected [OF _ _ t(2)] by blast
  then have "length (select_tables open_linker ?ls) = 1" by (simp add: open_linker_def)
  with t show ?thesis by blast
qed

end
