(* ===== verification/Rollout.thy ===== *)
theory Rollout
  imports Sha256 Py_Float
begin

section \<open>Rollout policies and the regression monitor\<close>

text \<open>
  \<open>agent-service/app/rollout\<close>: the policy record and its validation (\<open>models.py\<close>), the in-memory
  policy store, the request decision with its stable bucket, the rollback (\<open>policy.py\<close>), and the
  monitor that turns regression signals into rollbacks (\<open>monitor.py\<close>). The context variable that
  binds a decision to a request is an argument of type \<open>rollout_decision option\<close>.
\<close>

subsection \<open>Models\<close>

definition FEATURES :: "string list" where
  "FEATURES = [''evidence_drawer'', ''otel'', ''clarification_resume'', ''grounding'',
     ''context_harness'']"

record rollout_policy =
  policy_id :: string
  policy_key :: string
  version :: int
  scope_type :: string
  scope_value :: string
  cohort_percent :: int
  modes :: "(string, string) dict"
  created_by :: string
  active :: bool
  downgrade_reason :: "string option"
  policy_created_at :: time

text \<open>\<open>RolloutPolicy.__post_init__\<close>.\<close>

definition check_policy :: "rollout_policy \<Rightarrow> exn + rollout_policy" where
  "check_policy p =
     (if scope_type p \<notin> set [''user'', ''tenant'', ''role'', ''route_risk'', ''global'']
      then Inl (ValueError ''invalid rollout scope'')
      else if \<not> (0 \<le> cohort_percent p \<and> cohort_percent p \<le> 100)
      then Inl (ValueError ''cohort_percent must be between 0 and 100'')
      else if set (map fst (modes p)) \<noteq> set FEATURES
      then Inl (ValueError ''rollout modes must cover every Phase D feature'')
      else if \<not> set (map snd (modes p)) \<subseteq> set [''off'', ''shadow'', ''enforce'']
      then Inl (ValueError ''invalid rollout mode'')
      else Inr p)"

record rollout_decision =
  dec_policy_id :: string
  dec_policy_version :: int
  dec_policy_key :: string
  dec_tenant_id :: string
  cohort :: string
  bucket :: int
  dec_modes :: "(string, string) dict"
  dec_reason :: string

text \<open>\<open>effective_mode(feature, default)\<close> under the bound decision, if any.\<close>

definition effective_mode :: "rollout_decision option \<Rightarrow> string \<Rightarrow> string \<Rightarrow> string" where
  "effective_mode decision feature dflt =
     (case decision of
        None \<Rightarrow> dflt
      | Some d \<Rightarrow> (case map_of (dec_modes d) feature of None \<Rightarrow> dflt | Some m \<Rightarrow> m))"

subsection \<open>The in-memory store\<close>

record rollout_store =
  policies :: "rollout_policy list"
  decisions :: "(string \<times> rollout_decision) list"
  monitor_versions :: "(string \<times> int) list"

definition list_policies :: "bool \<Rightarrow> (rollout_store, rollout_policy list) py" where
  "list_policies active_only s =
     (Inr (filter (\<lambda>p. active p \<or> \<not> active_only) (policies s)), s)"

definition add_policy :: "rollout_policy \<Rightarrow> (rollout_store, rollout_policy) py" where
  "add_policy p s = (Inr p, s\<lparr>policies := policies s @ [p]\<rparr>)"

definition persist_decision :: "string \<Rightarrow> rollout_decision \<Rightarrow> (rollout_store, unit) py" where
  "persist_decision rid d s = (Inr (), s\<lparr>decisions := decisions s @ [(rid, d)]\<rparr>)"

definition claim_monitor_version :: "string \<Rightarrow> int \<Rightarrow> (rollout_store, bool) py" where
  "claim_monitor_version key v s =
     (if (key, v) \<in> set (monitor_versions s) then (Inr False, s)
      else (Inr True, s\<lparr>monitor_versions := (key, v) # monitor_versions s\<rparr>))"

subsection \<open>What the service asks of a store\<close>

record 's rollout_ops =
  op_policies :: "bool \<Rightarrow> ('s, rollout_policy list) py"
  op_add_policy :: "rollout_policy \<Rightarrow> ('s, rollout_policy) py"
  op_persist :: "string \<Rightarrow> rollout_decision \<Rightarrow> ('s, unit) py"
  op_claim :: "string \<Rightarrow> int \<Rightarrow> ('s, bool) py"

definition memory_rollout_ops :: "rollout_store rollout_ops" where
  "memory_rollout_ops = \<lparr>op_policies = list_policies, op_add_policy = add_policy, op_persist = persist_decision,
     op_claim = claim_monitor_version\<rparr>"

lemma memory_rollout_sel [simp]:
  "op_policies memory_rollout_ops = list_policies" "op_add_policy memory_rollout_ops = add_policy"
  "op_persist memory_rollout_ops = persist_decision" "op_claim memory_rollout_ops = claim_monitor_version"
  by (simp_all add: memory_rollout_ops_def)

subsection \<open>The policy service\<close>

definition PRIORITY :: "string \<Rightarrow> int option" where
  "PRIORITY = map_of [(''user'', 0), (''tenant'', 1), (''role'', 2), (''route_risk'', 3),
     (''global'', 4)]"

record request_context =
  ctx_user :: string
  ctx_tenant :: string
  ctx_role :: string
  ctx_route :: string
  ctx_risk :: string

definition expected_scope :: "request_context \<Rightarrow> string \<Rightarrow> string option" where
  "expected_scope c = map_of [(''user'', ctx_user c), (''tenant'', ctx_tenant c),
     (''role'', ctx_role c), (''route_risk'', ctx_route c @ '':'' @ ctx_risk c), (''global'', ''*'')]"

text \<open>The loop that collects the matching policies; \<open>expected[item.scope_type]\<close> is a lookup.\<close>

fun matching :: "request_context \<Rightarrow> rollout_policy list \<Rightarrow> exn + rollout_policy list" where
  "matching c [] = Inr []"
| "matching c (p # ps) =
     (case expected_scope c (scope_type p) of
        None \<Rightarrow> Inl (KeyError (scope_type p))
      | Some v \<Rightarrow>
          (case matching c ps of
             Inl e \<Rightarrow> Inl e
           | Inr ms \<Rightarrow> Inr (if scope_value p = v then p # ms else ms)))"

definition selection_key :: "rollout_policy \<Rightarrow> int \<times> int" where
  "selection_key p = (case PRIORITY (scope_type p) of None \<Rightarrow> 5 | Some n \<Rightarrow> n, - version p)"

text \<open>\<open>int.from_bytes(sha256(f"{version}:{user_id}"), "big") % 100\<close>.\<close>

definition user_bucket :: "int \<Rightarrow> string \<Rightarrow> int" where
  "user_bucket v uid =
     int_from_bytes (sha_digest (utf8_encode (str_int v @ '':'' @ uid))) mod 100"

definition decision_modes :: "bool \<Rightarrow> (string, string) dict \<Rightarrow> (string, string) dict" where
  "decision_modes enabled ms =
     map (\<lambda>(name, mode). (name, if enabled \<or> mode = ''off'' then mode else ''shadow'')) ms"

definition decide_with :: "request_context \<Rightarrow> rollout_policy \<Rightarrow> rollout_decision" where
  "decide_with c p =
     (let b = user_bucket (version p) (ctx_user c); enabled = b < cohort_percent p
      in \<lparr>dec_policy_id = policy_id p, dec_policy_version = version p,
          dec_policy_key = policy_key p, dec_tenant_id = ctx_tenant c,
          cohort = (if enabled then ''enabled'' else ''control''), bucket = b,
          dec_modes = decision_modes enabled (modes p),
          dec_reason = ''matched:'' @ scope_type p\<rparr>)"

definition select_policy ::
  "request_context \<Rightarrow> rollout_policy list \<Rightarrow> exn + rollout_policy" where
  "select_policy c ps =
     (case matching c ps of
        Inl e \<Rightarrow> Inl e
      | Inr [] \<Rightarrow> Inl (RuntimeError ''no active rollout policy'')
      | Inr (m # ms) \<Rightarrow> Inr (min_by selection_key m ms))"

definition decide_on :: "'s rollout_ops \<Rightarrow> request_context \<Rightarrow> ('s, rollout_decision) py" where
  "decide_on ops c =
     bindM (op_policies ops True) (\<lambda>ps.
       case select_policy c ps of
         Inl e \<Rightarrow> raise e
       | Inr p \<Rightarrow> ret (decide_with c p))"

abbreviation decide :: "request_context \<Rightarrow> (rollout_store, rollout_decision) py" where
  "decide \<equiv> decide_on memory_rollout_ops"

lemma decide_def:
  "decide c = bindM (list_policies True) (\<lambda>ps. case select_policy c ps of Inl e \<Rightarrow> raise e | Inr p \<Rightarrow> ret (decide_with c p))"
  by (simp add: decide_on_def)

text \<open>\<open>rollback\<close>; \<open>new_id\<close> is the fresh UUID and \<open>now\<close> the clock reading of the new policy.\<close>

definition rolled_policy ::
  "time \<Rightarrow> string \<Rightarrow> string \<Rightarrow> string \<Rightarrow> rollout_policy list \<Rightarrow> rollout_policy \<Rightarrow>
   rollout_policy" where
  "rolled_policy now new_id actor reason ps target =
     \<lparr>policy_id = new_id, policy_key = policy_key target,
      version = Max (set (map version (filter (\<lambda>p. policy_key p = policy_key target) ps))) + 1,
      scope_type = scope_type target, scope_value = scope_value target,
      cohort_percent = cohort_percent target,
      modes = map (\<lambda>name. (name, ''shadow'')) FEATURES, created_by = actor, active = True,
      downgrade_reason = Some reason, policy_created_at = now\<rparr>"

definition rollback_on ::
  "'s rollout_ops \<Rightarrow> time \<Rightarrow> string \<Rightarrow> string \<Rightarrow> string \<Rightarrow> string \<Rightarrow> ('s, rollout_policy) py" where
  "rollback_on ops now new_id pid actor reason =
     bindM (op_policies ops False) (\<lambda>ps.
       case find (\<lambda>p. policy_id p = pid) ps of
         None \<Rightarrow> raise (KeyError pid)
       | Some target \<Rightarrow>
           (case check_policy (rolled_policy now new_id actor reason ps target) of
              Inl e \<Rightarrow> raise e
            | Inr p \<Rightarrow> op_add_policy ops p))"

abbreviation rollback ::
  "time \<Rightarrow> string \<Rightarrow> string \<Rightarrow> string \<Rightarrow> string \<Rightarrow> (rollout_store, rollout_policy) py" where
  "rollback \<equiv> rollback_on memory_rollout_ops"

lemmas rollback_def = rollback_on_def [of memory_rollout_ops, simplified]

subsection \<open>The monitor\<close>

record rollout_signals =
  safety_executions :: int
  cross_user_leaks :: int
  error_count :: int
  sample_count :: int
  baseline_error_rate :: pyfloat
  simple_p95_seconds :: pyfloat
  complex_p95_seconds :: pyfloat
  p95_breach_minutes :: int
  provenance_missing :: int
  non_terminal_closure_rate :: pyfloat
  affected_policy_key :: "string option"
  affected_route_risk :: "string option"

definition trigger :: "rollout_signals \<Rightarrow> string option" where
  "trigger g =
     (if safety_executions g \<noteq> 0 \<or> cross_user_leaks g \<noteq> 0 then Some ''safety_incident''
      else if 20 \<le> sample_count g \<and> 0 < baseline_error_rate g \<and>
        fmul 2 (baseline_error_rate g) \<le> fdiv (of_int (error_count g)) (of_int (sample_count g))
      then Some ''error_rate_regression''
      else if 30 \<le> p95_breach_minutes g \<and> 25 < simple_p95_seconds g
      then Some ''simple_route_p95''
      else if 30 \<le> p95_breach_minutes g \<and> 50 < complex_p95_seconds g
      then Some ''complex_route_p95''
      else if provenance_missing g \<noteq> 0 then Some ''provenance_incomplete''
      else if non_terminal_closure_rate g < 1 then Some ''terminal_closure_incomplete''
      else None)"

definition downgrade_scope :: "rollout_signals \<Rightarrow> string \<Rightarrow> rollout_policy \<Rightarrow> bool" where
  "downgrade_scope g reason p \<longleftrightarrow>
     (if reason = ''error_rate_regression''
      then active p \<and> Some (policy_key p) = affected_policy_key g
      else if reason \<in> set [''simple_route_p95'', ''complex_route_p95'']
      then active p \<and> scope_type p = ''route_risk'' \<and> Some (scope_value p) = affected_route_risk g
      else active p \<and> scope_type p = ''global'')"

text \<open>What the monitor picks from a list of policies, and what it then does.\<close>

definition monitor_pick :: "rollout_signals \<Rightarrow> string \<Rightarrow> rollout_policy list \<Rightarrow> rollout_policy option" where
  "monitor_pick g reason ps =
     (case filter (downgrade_scope g reason) ps of
        [] \<Rightarrow> None
      | a # as \<Rightarrow>
          (let target = max_by version a as
           in if downgrade_reason target = Some reason then None else Some target))"

definition monitor_act ::
  "'s rollout_ops \<Rightarrow> time \<Rightarrow> string \<Rightarrow> string \<Rightarrow> rollout_policy \<Rightarrow> ('s, rollout_policy option) py" where
  "monitor_act ops now new_id reason target =
     bindM (op_claim ops (policy_key target) (version target)) (\<lambda>claimed.
       if \<not> claimed then ret None
       else catchM
         (bindM (rollback_on ops now new_id (policy_id target) ''phase-d-monitor'' reason) (\<lambda>p. ret (Some p)))
         (\<lambda>e. if is_exception e then ret None else raise e))"

definition evaluate_once_on ::
  "'s rollout_ops \<Rightarrow> time \<Rightarrow> string \<Rightarrow> rollout_signals \<Rightarrow> ('s, rollout_policy option) py" where
  "evaluate_once_on ops now new_id g =
     (case trigger g of
        None \<Rightarrow> ret None
      | Some reason \<Rightarrow>
          bindM (op_policies ops False) (\<lambda>ps.
            case monitor_pick g reason ps of
              None \<Rightarrow> ret None
            | Some target \<Rightarrow> monitor_act ops now new_id reason target))"

abbreviation evaluate_once ::
  "time \<Rightarrow> string \<Rightarrow> rollout_signals \<Rightarrow> (rollout_store, rollout_policy option) py" where
  "evaluate_once \<equiv> evaluate_once_on memory_rollout_ops"

lemma evaluate_once_def:
  "evaluate_once now new_id g =
     (case trigger g of
        None \<Rightarrow> ret None
      | Some reason \<Rightarrow>
          bindM (list_policies False) (\<lambda>ps.
            case filter (downgrade_scope g reason) ps of
              [] \<Rightarrow> ret None
            | a # as \<Rightarrow>
                (let target = max_by version a as
                 in if downgrade_reason target = Some reason then ret None
                    else bindM (claim_monitor_version (policy_key target) (version target))
                      (\<lambda>claimed.
                         if \<not> claimed then ret None
                         else catchM
                           (bindM (rollback now new_id (policy_id target) ''phase-d-monitor'' reason)
                              (\<lambda>p. ret (Some p)))
                           (\<lambda>e. if is_exception e then ret None else raise e)))))"
proof (cases "trigger g")
  case (Some reason)
  have "(case monitor_pick g reason ps of None \<Rightarrow> ret None | Some target \<Rightarrow> monitor_act memory_rollout_ops now new_id reason target) =
      (case filter (downgrade_scope g reason) ps of
              [] \<Rightarrow> ret None
            | a # as \<Rightarrow>
                (let target = max_by version a as
                 in if downgrade_reason target = Some reason then ret None
                    else bindM (claim_monitor_version (policy_key target) (version target))
                      (\<lambda>claimed.
                         if \<not> claimed then ret None
                         else catchM
                           (bindM (rollback now new_id (policy_id target) ''phase-d-monitor'' reason)
                              (\<lambda>p. ret (Some p)))
                           (\<lambda>e. if is_exception e then ret None else raise e))))" for ps
    by (simp add: monitor_pick_def monitor_act_def Let_def split: list.split)
  then show ?thesis using Some by (simp add: evaluate_once_on_def)
qed (simp add: evaluate_once_on_def)

subsection \<open>The store invariant\<close>

text \<open>Every stored policy was built by the validating constructor, and identifiers are distinct.\<close>

definition rollout_ok :: "rollout_store \<Rightarrow> bool" where
  "rollout_ok s \<longleftrightarrow> (\<forall>p \<in> set (policies s). check_policy p = Inr p) \<and>
     distinct (map policy_id (policies s))"

lemma check_policy_Inr:
  "check_policy p = Inr q \<Longrightarrow> q = p \<and> scope_type p \<in> set [''user'', ''tenant'', ''role'',
     ''route_risk'', ''global''] \<and> 0 \<le> cohort_percent p \<and> cohort_percent p \<le> 100 \<and>
     set (map fst (modes p)) = set FEATURES \<and>
     set (map snd (modes p)) \<subseteq> set [''off'', ''shadow'', ''enforce'']"
  unfolding check_policy_def by (simp only: split: if_splits) auto

lemma rolled_policy_checks:
  assumes "check_policy t = Inr t"
  shows "check_policy (rolled_policy now i a r ps t) = Inr (rolled_policy now i a r ps t)"
  using check_policy_Inr [OF assms]
  by (simp add: check_policy_def rolled_policy_def FEATURES_def)

lemma rolled_policy_sel [simp]:
  "policy_id (rolled_policy now i a r ps t) = i"
  "policy_key (rolled_policy now i a r ps t) = policy_key t"
  "scope_type (rolled_policy now i a r ps t) = scope_type t"
  "scope_value (rolled_policy now i a r ps t) = scope_value t"
  "active (rolled_policy now i a r ps t)"
  "downgrade_reason (rolled_policy now i a r ps t) = Some r"
  "modes (rolled_policy now i a r ps t) = map (\<lambda>name. (name, ''shadow'')) FEATURES"
  by (simp_all add: rolled_policy_def)

lemma shadow_everywhere [simp]:
  "map_of (map (\<lambda>name. (name, v)) ns) f = (if f \<in> set ns then Some v else None)"
  by (induction ns) auto

lemma rolled_version_gt:
  "q \<in> set ps \<Longrightarrow> policy_key q = policy_key t \<Longrightarrow>
     version q < version (rolled_policy now i a r ps t)"
  by (auto simp: rolled_policy_def intro!: le_imp_less_Suc zle_add1_eq_le [THEN iffD2] Max_ge)

lemma find_by_id:
  assumes "distinct (map policy_id ps)" and "t \<in> set ps"
  shows "find (\<lambda>p. policy_id p = policy_id t) ps = Some t"
  using assms by (induction ps) (auto simp: rev_image_eqI)

lemma find_in_set: "find P xs = Some x \<Longrightarrow> x \<in> set xs \<and> P x"
  by (induction xs) (auto split: if_splits)

text \<open>What \<open>rollback\<close> does to a well-formed store, on both branches.\<close>

lemma rollback_known:
  assumes "rollout_ok s" and "t \<in> set (policies s)"
  shows "rollback now i (policy_id t) a r s =
    (Inr (rolled_policy now i a r (policies s) t),
     s\<lparr>policies := policies s @ [rolled_policy now i a r (policies s) t]\<rparr>)"
  using assms rolled_policy_checks
  by (simp add: rollback_def rollout_ok_def list_policies_def bindM_def find_by_id add_policy_def)

lemma rollback_unknown:
  assumes "i' \<notin> policy_id ` set (policies s)"
  shows "rollback now i i' a r s = (Inl (KeyError i'), s)"
proof -
  have "find (\<lambda>p. policy_id p = i') (policies s) = None"
    using assms by (auto simp: find_None_iff)
  then show ?thesis by (simp add: rollback_def list_policies_def bindM_def raise_def)
qed

lemma rollback_ok:
  assumes "rollout_ok s" and "i \<notin> policy_id ` set (policies s)"
  shows "rollout_ok (snd (rollback now i i' a r s))"
proof (cases "i' \<in> policy_id ` set (policies s)")
  case True
  then obtain t where t: "t \<in> set (policies s)" "i' = policy_id t" by auto
  have "check_policy t = Inr t" using assms(1) t by (simp add: rollout_ok_def)
  then show ?thesis using assms rolled_policy_checks
    by (simp add: t(2) rollback_known [OF assms(1) t(1)]) (auto simp: rollout_ok_def)
qed (use assms in \<open>simp add: rollback_unknown\<close>)

subsection \<open>The decision\<close>

lemma filter_Cons_obtain:
  assumes "x \<in> set xs" and "P x"
  obtains m ms where "filter P xs = m # ms"
proof (cases "filter P xs")
  case Nil then show thesis using assms by (auto simp: filter_empty_conv)
qed (use that in blast)

lemma user_bucket_range: "0 \<le> user_bucket v u \<and> user_bucket v u \<le> 99"
  unfolding user_bucket_def using pos_mod_bound [of 100] pos_mod_sign [of 100] by fastforce

lemma matching_Inr:
  assumes "\<forall>p \<in> set ps. check_policy p = Inr p"
  shows "matching c ps = Inr (filter (\<lambda>p. expected_scope c (scope_type p) = Some (scope_value p)) ps)"
  using assms
proof (induction ps)
  case (Cons p ps)
  have "scope_type p \<in> set [''user'', ''tenant'', ''role'', ''route_risk'', ''global'']"
    using Cons.prems check_policy_Inr by auto
  then obtain v where "expected_scope c (scope_type p) = Some v"
    by (auto simp: expected_scope_def)
  then show ?case using Cons by auto
qed simp

abbreviation applies :: "request_context \<Rightarrow> rollout_policy \<Rightarrow> bool" where
  "applies c p \<equiv> active p \<and> expected_scope c (scope_type p) = Some (scope_value p)"

text \<open>The selection is a least element of the applicable active policies.\<close>

lemma decide_cases:
  assumes "rollout_ok s"
  shows "decide c s = (if \<exists>p \<in> set (policies s). applies c p
      then (Inr (decide_with c (the (case filter (applies c) (policies s) of
              [] \<Rightarrow> None | m # ms \<Rightarrow> Some (min_by selection_key m ms)))), s)
      else (Inl (RuntimeError ''no active rollout policy''), s))"
proof -
  have ok: "\<forall>p \<in> set (filter active (policies s)). check_policy p = Inr p"
    using assms by (simp add: rollout_ok_def)
  have f: "filter (\<lambda>p. expected_scope c (scope_type p) = Some (scope_value p))
      (filter active (policies s)) = filter (applies c) (policies s)"
    by simp
  show ?thesis
    using matching_Inr [OF ok, of c, unfolded f]
    by (auto simp: decide_def list_policies_def bindM_def select_policy_def raise_def ret_def
        filter_empty_conv split: list.splits)
qed

lemma decide_selects:
  assumes "rollout_ok s" and "decide c s = (Inr d, s')"
  obtains p where "p \<in> set (policies s)" "applies c p" "d = decide_with c p" "s' = s"
    "\<And>q. q \<in> set (policies s) \<Longrightarrow> applies c q \<Longrightarrow> selection_key p \<le> selection_key q"
proof -
  from assms obtain p0 where "p0 \<in> set (policies s)" "applies c p0"
    by (auto simp: decide_cases split: if_splits)
  then obtain m ms where m: "filter (applies c) (policies s) = m # ms"
    using filter_Cons_obtain [of p0 _ "applies c"] by auto
  let ?p = "min_by selection_key m ms"
  have set_m: "insert m (set ms) = {q \<in> set (policies s). applies c q}"
    using arg_cong [OF m, of set] by auto
  have d: "d = decide_with c ?p" "s' = s"
    using assms m by (auto simp: decide_cases split: if_splits)
  have "?p \<in> {q \<in> set (policies s). applies c q}" using min_by_in [of selection_key m ms] set_m by simp
  moreover have "selection_key ?p \<le> selection_key q" if "q \<in> set (policies s)" "applies c q" for q
    using min_by_le [of q m ms selection_key] set_m that by simp
  ultimately show ?thesis using d that by auto
qed

lemma decide_strict:
  assumes "rollout_ok s" and "p \<in> set (policies s)" and "applies c p"
    and "\<And>q. q \<in> set (policies s) \<Longrightarrow> applies c q \<Longrightarrow> q \<noteq> p \<Longrightarrow> selection_key p < selection_key q"
  shows "decide c s = (Inr (decide_with c p), s)"
proof -
  obtain m ms where m: "filter (applies c) (policies s) = m # ms"
    by (rule filter_Cons_obtain [of p _ "applies c"]) (use assms in auto)
  have set_m: "insert m (set ms) = {q \<in> set (policies s). applies c q}"
    using arg_cong [OF m, of set] by auto
  have "min_by selection_key m ms = p"
    by (rule min_by_strict) (use assms set_m in auto)
  then show ?thesis using assms m by (auto simp: decide_cases)
qed

subsection \<open>Properties of the decision and the rollback\<close>

lemma decision_modes_get:
  "map_of (decision_modes e ms) f =
     map_option (\<lambda>m. if e \<or> m = ''off'' then m else ''shadow'') (map_of ms f)"
  unfolding decision_modes_def
  using map_of_map [of "\<lambda>m. if e \<or> m = ''off'' then m else ''shadow''" ms] by (simp only: o_apply)

lemma decide_with_sel [simp]:
  "dec_policy_id (decide_with c p) = policy_id p"
  "dec_policy_version (decide_with c p) = version p"
  "bucket (decide_with c p) = user_bucket (version p) (ctx_user c)"
  "dec_modes (decide_with c p) =
     decision_modes (user_bucket (version p) (ctx_user c) < cohort_percent p) (modes p)"
  by (simp_all add: decide_with_def Let_def)

text \<open>A decision comes from an active policy that matches the request and that no matching
policy precedes (scope class first, then the higher version); its bucket is a residue modulo 100,
and a feature is enforced only where the policy says so and the user's bucket is in the cohort.\<close>

theorem decision_enforces_only_cohort:
  assumes "rollout_ok s" and "decide c s = (Inr d, s')"
  shows "s' = s \<and> 0 \<le> bucket d \<and> bucket d < 100 \<and>
    (\<exists>p. p \<in> set (policies s) \<and> active p \<and>
       expected_scope c (scope_type p) = Some (scope_value p) \<and>
       dec_policy_id d = policy_id p \<and>
       (\<forall>q. q \<in> set (policies s) \<and> active q \<and>
          expected_scope c (scope_type q) = Some (scope_value q) \<longrightarrow>
          selection_key p \<le> selection_key q) \<and>
       (\<forall>f. map_of (dec_modes d) f = Some ''enforce'' \<longleftrightarrow>
          map_of (modes p) f = Some ''enforce'' \<and> bucket d < cohort_percent p))"
  using assms
proof (rule decide_selects)
  fix p
  assume p: "p \<in> set (policies s)" "applies c p" "d = decide_with c p" "s' = s"
    and least: "\<And>q. q \<in> set (policies s) \<Longrightarrow> applies c q \<Longrightarrow> selection_key p \<le> selection_key q"
  have "map_of (dec_modes d) f = Some ''enforce'' \<longleftrightarrow>
      map_of (modes p) f = Some ''enforce'' \<and> bucket d < cohort_percent p" for f
    by (auto simp: p decision_modes_get)
  with p least user_bucket_range [of "version p" "ctx_user c"] show ?thesis by auto
qed

lemma rolled_selected:
  assumes ok: "rollout_ok s" and t: "t \<in> set (policies s)" "applies c t"
    and least: "\<And>q. q \<in> set (policies s) \<Longrightarrow> applies c q \<Longrightarrow> selection_key t \<le> selection_key q"
    and fresh: "i \<notin> policy_id ` set (policies s)"
    and r: "r = rolled_policy now i a why (policies s) t"
  shows "decide c (s\<lparr>policies := policies s @ [r]\<rparr>)
      = (Inr (decide_with c r), s\<lparr>policies := policies s @ [r]\<rparr>)"
proof (rule decide_strict)
  show "rollout_ok (s\<lparr>policies := policies s @ [r]\<rparr>)"
    using rollback_ok [OF ok fresh, of now "policy_id t" a why]
    by (simp add: rollback_known [OF ok t(1)] r)
  have "version t < version r" using rolled_version_gt [OF t(1)] r by simp
  then have "selection_key r < selection_key t"
    by (simp add: selection_key_def r)
  then show "selection_key r < selection_key q"
    if "q \<in> set (policies (s\<lparr>policies := policies s @ [r]\<rparr>))" "applies c q" "q \<noteq> r" for q
    using that least by fastforce
qed (use t r in auto)

text \<open>Rolling back the policy that a request selected takes effect on its very next decision:
the rollback succeeds, the next decision comes from the new, higher version, and every feature runs
in shadow mode whatever the user's bucket is.\<close>

theorem rollback_takes_effect:
  assumes "rollout_ok s" and "decide c s = (Inr d, s)"
    and "i \<notin> policy_id ` set (policies s)"
  shows "\<exists>p d' s'. rollback now i (dec_policy_id d) actor why s = (Inr p, s') \<and>
    decide c s' = (Inr d', s') \<and> dec_policy_version d < dec_policy_version d' \<and>
    (\<forall>f \<in> set FEATURES. effective_mode (Some d') f dflt = ''shadow'')"
  using assms(1,2)
proof (rule decide_selects)
  fix t
  assume t: "t \<in> set (policies s)" "applies c t" "d = decide_with c t"
    and least: "\<And>q. q \<in> set (policies s) \<Longrightarrow> applies c q \<Longrightarrow> selection_key t \<le> selection_key q"
  let ?r = "rolled_policy now i actor why (policies s) t"
  let ?s = "s\<lparr>policies := policies s @ [?r]\<rparr>"
  have "rollback now i (dec_policy_id d) actor why s = (Inr ?r, ?s)"
    by (simp add: t(3) rollback_known [OF assms(1) t(1)])
  moreover have "decide c ?s = (Inr (decide_with c ?r), ?s)"
    by (rule rolled_selected [OF assms(1) t(1,2) least assms(3) refl])
  moreover have "version t < version ?r" by (rule rolled_version_gt [OF t(1)]) simp
  moreover have "effective_mode (Some (decide_with c ?r)) f dflt = ''shadow''"
    if "f \<in> set FEATURES" for f
    using that by (simp add: effective_mode_def decision_modes_get)
  ultimately show ?thesis by (auto simp: t(3))
qed

subsection \<open>The monitor acts once per regression\<close>

text \<open>The policies the monitor may downgrade all carry the same scope, so the rolled one is again
a candidate, and the newest.\<close>

lemma downgrade_scope_rolled:
  "downgrade_scope g why (rolled_policy now i a why' ps t) = downgrade_scope g why t" if "active t"
  using that by (simp add: downgrade_scope_def)

lemma downgrade_scope_active: "downgrade_scope g why t \<Longrightarrow> active t"
  by (simp add: downgrade_scope_def split: if_splits)

lemma evaluate_once_acted:
  assumes "rollout_ok s" and "evaluate_once now i g s = (Inr (Some p), s')"
  obtains why t where "trigger g = Some why" "t \<in> set (policies s)" "downgrade_scope g why t"
    "\<And>q. q \<in> set (policies s) \<Longrightarrow> downgrade_scope g why q \<Longrightarrow> version q \<le> version t"
    "(policy_key t, version t) \<notin> set (monitor_versions s)"
    "p = rolled_policy now i ''phase-d-monitor'' why (policies s) t"
    "s' = s\<lparr>policies := policies s @ [p],
            monitor_versions := (policy_key t, version t) # monitor_versions s\<rparr>"
proof -
  obtain why where why: "trigger g = Some why"
    using assms by (cases "trigger g") (auto simp: evaluate_once_def ret_def)
  obtain a as where as: "filter (downgrade_scope g why) (policies s) = a # as"
    using assms why by (cases "filter (downgrade_scope g why) (policies s)")
      (auto simp: evaluate_once_def ret_def bindM_def list_policies_def)
  let ?t = "max_by version a as"
  have set_as: "insert a (set as) = {q \<in> set (policies s). downgrade_scope g why q}"
    using arg_cong [OF as, of set] by auto
  have t: "?t \<in> set (policies s)" "downgrade_scope g why ?t"
    using max_by_in [of version a as] set_as by auto
  let ?s = "s\<lparr>monitor_versions := (policy_key ?t, version ?t) # monitor_versions s\<rparr>"
  have "rollout_ok ?s" using assms(1) by (simp add: rollout_ok_def)
  then have "rollback now i (policy_id ?t) ''phase-d-monitor'' why ?s = (Inr
     (rolled_policy now i ''phase-d-monitor'' why (policies s) ?t), ?s\<lparr>policies := policies s @
     [rolled_policy now i ''phase-d-monitor'' why (policies s) ?t]\<rparr>)"
    using rollback_known [of ?s ?t] t by simp
  with assms(2) show thesis
    using that [OF why t] max_by_ge [of _ a as version] set_as
    by (auto simp: evaluate_once_def why bindM_def list_policies_def as Let_def ret_def catchM_def
        claim_monitor_version_def split: if_splits)
qed

text \<open>The monitor acts at most once on a regression: when it rolled a policy back, evaluating
the same signals again, at any later time, changes nothing.\<close>

theorem monitor_acts_once:
  assumes "rollout_ok s" and "evaluate_once now i g s = (Inr (Some p), s')"
  shows "evaluate_once now' i' g s' = (Inr None, s')"
  using assms
proof (rule evaluate_once_acted)
  fix why t
  assume why: "trigger g = Some why" and t: "t \<in> set (policies s)" "downgrade_scope g why t"
    and max: "\<And>q. q \<in> set (policies s) \<Longrightarrow> downgrade_scope g why q \<Longrightarrow> version q \<le> version t"
    and p: "p = rolled_policy now i ''phase-d-monitor'' why (policies s) t"
    and s': "s' = s\<lparr>policies := policies s @ [p],
            monitor_versions := (policy_key t, version t) # monitor_versions s\<rparr>"
  have in_p: "downgrade_scope g why p"
    unfolding p using t downgrade_scope_active downgrade_scope_rolled by blast
  have gt: "version t < version p" unfolding p by (rule rolled_version_gt [OF t(1)]) simp
  obtain a as where as: "filter (downgrade_scope g why) (policies s') = a # as"
    by (rule filter_Cons_obtain [of p "policies s'" "downgrade_scope g why"]) (use in_p s' in auto)
  have set_as: "insert a (set as) = {q \<in> set (policies s'). downgrade_scope g why q}"
    using arg_cong [OF as, of set] by auto
  have "max_by version a as = p"
  proof (rule max_by_strict)
    show "p \<in> insert a (set as)" using set_as in_p s' by auto
    show "version z < version p" if "z \<in> insert a (set as)" "z \<noteq> p" for z
      using that set_as s' max gt by fastforce
  qed
  moreover have "downgrade_reason p = Some why" by (simp add: p)
  ultimately show ?thesis
    by (simp add: evaluate_once_def why bindM_def list_policies_def as ret_def)
qed

text \<open>A provenance anomaly downgrades the newest active \<^emph>\<open>global\<close> policy, whatever
policy key or route the signals name.\<close>

theorem provenance_downgrades_global:
  assumes "rollout_ok s" and "trigger g = Some ''provenance_incomplete''"
    and "evaluate_once now i g s = (Inr (Some p), s')"
  shows "scope_type p = ''global'' \<and> p \<in> set (policies s') \<and>
    (\<forall>q \<in> set (policies s). active q \<and> scope_type q = ''global'' \<longrightarrow> version q < version p) \<and>
    (\<forall>f \<in> set FEATURES. map_of (modes p) f = Some ''shadow'')"
  using assms(1,3)
proof (rule evaluate_once_acted)
  fix why t
  assume why: "trigger g = Some why" and t: "t \<in> set (policies s)" "downgrade_scope g why t"
    and max: "\<And>q. q \<in> set (policies s) \<Longrightarrow> downgrade_scope g why q \<Longrightarrow> version q \<le> version t"
    and p: "p = rolled_policy now i ''phase-d-monitor'' why (policies s) t"
    and s': "s' = s\<lparr>policies := policies s @ [p],
            monitor_versions := (policy_key t, version t) # monitor_versions s\<rparr>"
  have sc: "downgrade_scope g why q \<longleftrightarrow> active q \<and> scope_type q = ''global''" for q
    using why unfolding assms(2) by (auto simp: downgrade_scope_def)
  have "version t < version p" unfolding p by (rule rolled_version_gt [OF t(1)]) simp
  then show ?thesis using t max sc s' by (fastforce simp: p)
qed

subsection \<open>A concrete store\<close>

definition sample_policy :: rollout_policy where
  "sample_policy = \<lparr>policy_id = ''p1'', policy_key = ''default'', version = 1,
     scope_type = ''global'', scope_value = ''*'', cohort_percent = 50,
     modes = map (\<lambda>name. (name, ''enforce'')) FEATURES, created_by = ''ops'', active = True,
     downgrade_reason = None, policy_created_at = 0\<rparr>"

definition sample_rollout :: rollout_store where
  "sample_rollout = \<lparr>policies = [sample_policy], decisions = [], monitor_versions = []\<rparr>"

definition sample_request :: request_context where
  "sample_request = \<lparr>ctx_user = ''u1'', ctx_tenant = ''t1'', ctx_role = ''analyst'',
     ctx_route = ''chat'', ctx_risk = ''LOW''\<rparr>"

definition sample_signals :: rollout_signals where
  "sample_signals = \<lparr>safety_executions = 0, cross_user_leaks = 0, error_count = 0,
     sample_count = 0, baseline_error_rate = 0, simple_p95_seconds = 0, complex_p95_seconds = 0,
     p95_breach_minutes = 0, provenance_missing = 1, non_terminal_closure_rate = 1,
     affected_policy_key = Some ''other'', affected_route_risk = Some ''chat:LOW''\<rparr>"

lemma sample_rollout_ok: "rollout_ok sample_rollout"
  by (simp add: rollout_ok_def sample_rollout_def sample_policy_def check_policy_def FEATURES_def)

lemma sample_decides:
  "decide sample_request sample_rollout =
     (Inr (decide_with sample_request sample_policy), sample_rollout)"
  by (rule decide_strict [OF sample_rollout_ok])
    (auto simp: sample_rollout_def sample_policy_def sample_request_def expected_scope_def)

lemma sample_fresh: "''p2'' \<notin> policy_id ` set (policies sample_rollout)"
  by (simp add: sample_rollout_def sample_policy_def)

lemma sample_trigger: "trigger sample_signals = Some ''provenance_incomplete''"
  by (simp add: trigger_def sample_signals_def)

lemma sample_policy_sel:
  "policy_id sample_policy = ''p1''" "policy_key sample_policy = ''default''"
  "version sample_policy = 1" "scope_type sample_policy = ''global''" "active sample_policy"
  "downgrade_reason sample_policy = None"
  by (simp_all add: sample_policy_def)

definition sample_rolled :: rollout_policy where
  "sample_rolled = rolled_policy 5 ''p2'' ''phase-d-monitor'' ''provenance_incomplete''
     [sample_policy] sample_policy"

lemma sample_monitor:
  "evaluate_once 5 ''p2'' sample_signals sample_rollout =
     (Inr (Some sample_rolled), \<lparr>policies = [sample_policy, sample_rolled], decisions = [],
       monitor_versions = [(''default'', 1)]\<rparr>)"
proof -
  have "rollout_ok (sample_rollout\<lparr>monitor_versions := [(''default'', 1)]\<rparr>)"
    using sample_rollout_ok by (simp add: rollout_ok_def)
  from rollback_known [OF this, of sample_policy 5 "''p2''" "''phase-d-monitor''"
      "''provenance_incomplete''"]
  have "rollback 5 ''p2'' ''p1'' ''phase-d-monitor'' ''provenance_incomplete''
     \<lparr>policies = [sample_policy], decisions = [], monitor_versions = [(''default'', 1)]\<rparr> =
     (Inr sample_rolled, \<lparr>policies = [sample_policy, sample_rolled], decisions = [],
       monitor_versions = [(''default'', 1)]\<rparr>)"
    by (simp add: sample_rollout_def sample_policy_sel sample_rolled_def)
  then show ?thesis
    by (simp add: evaluate_once_def sample_trigger bindM_def list_policies_def downgrade_scope_def
        claim_monitor_version_def catchM_def ret_def sample_policy_sel sample_rollout_def)
qed

theorem decision_enforces_only_cohort_witness:
  "0 \<le> bucket (decide_with sample_request sample_policy) \<and>
   bucket (decide_with sample_request sample_policy) < 100"
  using decision_enforces_only_cohort [OF sample_rollout_ok sample_decides] by blast

theorem rollback_takes_effect_witness:
  "\<exists>p d' s'. rollback 5 ''p2'' ''p1'' ''ops'' ''incident'' sample_rollout = (Inr p, s') \<and>
     decide sample_request s' = (Inr d', s') \<and> 1 < dec_policy_version d' \<and>
     (\<forall>f \<in> set FEATURES. effective_mode (Some d') f ''off'' = ''shadow'')"
  using rollback_takes_effect [OF sample_rollout_ok sample_decides sample_fresh,
      of 5 "''ops''" "''incident''" "''off''"]
  by (simp add: sample_policy_sel)

theorem monitor_acts_once_witness:
  "\<exists>p s'. evaluate_once 5 ''p2'' sample_signals sample_rollout = (Inr (Some p), s') \<and>
     evaluate_once 9 ''p3'' sample_signals s' = (Inr None, s')"
  using monitor_acts_once [OF sample_rollout_ok sample_monitor, of 9 "''p3''"] sample_monitor
  by blast

theorem provenance_downgrades_global_witness:
  "\<exists>p s'. evaluate_once 5 ''p2'' sample_signals sample_rollout = (Inr (Some p), s') \<and>
     scope_type p = ''global'' \<and> affected_policy_key sample_signals \<noteq> Some (policy_key p)"
  using provenance_downgrades_global [OF sample_rollout_ok sample_trigger sample_monitor]
    sample_monitor
  by (simp add: sample_signals_def sample_rolled_def sample_policy_sel)

end
