(* ===== verification/Trace.thy ===== *)
theory Trace
  imports Rollout
begin

section \<open>The redacted run trace\<close>

text \<open>
  \<open>agent-service/app/observability\<close>: the trace service with its attribute allowlist and sampling
  (\<open>trace.py\<close>), its in-memory and PostgreSQL stores, and the recording half of the metrics registry
  (\<open>metrics.py\<close>). The service is written against the store protocol: the operations are a record
  \<open>trace_ops\<close>, \<open>trace_contract\<close> is what they promise, and both stores interpret it. Rendering
  a float as text, and parsing one, are arguments (\<open>float_text\<close>): the formatting algorithm of
  CPython is not part of the repository.
\<close>

subsection \<open>Events and attributes\<close>

definition TRACE_EVENTS :: "string list" where
  "TRACE_EVENTS = [''request_received'', ''context_compiled'', ''schema_linked'', ''value_linked'',
     ''plan_validated'', ''sql_generated'', ''guard_decided'', ''sql_executed'',
     ''result_verified'', ''clarification_requested'', ''run_failed'', ''run_cancelled'',
     ''run_completed'']"

definition ALLOWED_ATTRIBUTES :: "string list" where
  "ALLOWED_ATTRIBUTES = [''correlation_id'', ''tenant_id'', ''route'', ''risk_level'', ''model_id'',
     ''prompt_version'', ''schema_version'', ''context_policy_version'', ''grounding_mode'',
     ''harness_mode'', ''status'', ''duration_ms'', ''count'', ''db_copilot.context_tokens'',
     ''db_copilot.grounding_coverage'', ''db_copilot.guard_decision'',
     ''db_copilot.failure_stage'', ''db_copilot.rollout_policy_version'',
     ''db_copilot.rollout_cohort'', ''db_copilot.rollout_policy_key'', ''db_copilot.route_class'',
     ''db_copilot.safety_execution'', ''db_copilot.cross_user_leak'',
     ''db_copilot.provenance_missing'']"

datatype attr = AStr string | AInt int | AFloat pyfloat | ABool bool | ANone

record float_text =
  float_repr :: "pyfloat \<Rightarrow> string"
  float_parse :: "string \<Rightarrow> pyfloat option"

text \<open>\<open>str(v)\<close>, \<open>float(v)\<close> and the truth value of an attribute.\<close>

fun attr_str :: "float_text \<Rightarrow> attr \<Rightarrow> string" where
  "attr_str ft (AStr x) = x"
| "attr_str ft (AInt i) = str_int i"
| "attr_str ft (AFloat q) = float_repr ft q"
| "attr_str ft (ABool b) = (if b then ''True'' else ''False'')"
| "attr_str ft ANone = ''None''"

fun attr_float :: "float_text \<Rightarrow> attr \<Rightarrow> exn + pyfloat" where
  "attr_float ft (AStr x) = (case float_parse ft x of
     None \<Rightarrow> Inl (ValueError ''could not convert string to float'') | Some q \<Rightarrow> Inr q)"
| "attr_float ft (AInt i) = Inr (fl (of_int i))"
| "attr_float ft (AFloat q) = Inr q"
| "attr_float ft (ABool b) = Inr (if b then 1 else 0)"
| "attr_float ft ANone = Inl (External ''TypeError'')"

fun attr_truth :: "attr \<Rightarrow> bool" where
  "attr_truth (AStr x) = (x \<noteq> [])"
| "attr_truth (AInt i) = (i \<noteq> 0)"
| "attr_truth (AFloat q) = (q \<noteq> 0)"
| "attr_truth (ABool b) = b"
| "attr_truth ANone = False"

record trace_event =
  event_type :: string
  event_attributes :: "(string, attr) dict"
  event_schema_version :: string
  event_instrumentation :: string
  sampled :: bool
  event_created_at :: time
  sequence_no :: int

subsection \<open>The store contract\<close>

record 's trace_ops =
  tr_append :: "string \<Rightarrow> trace_event \<Rightarrow> ('s, trace_event) py"
  tr_list :: "string \<Rightarrow> ('s, trace_event list) py"

definition numbered :: "trace_event list \<Rightarrow> trace_event \<Rightarrow> trace_event" where
  "numbered es e = e\<lparr>sequence_no := int (length es) + 1\<rparr>"

text \<open>An append either fails and writes nothing, or adds the event with the next number.\<close>

locale trace_contract =
  fixes ops :: "'s trace_ops"
    and events :: "'s \<Rightarrow> string \<Rightarrow> trace_event list"
    and tinvar :: "'s \<Rightarrow> bool"
  assumes append: "tinvar s \<Longrightarrow> (\<exists>ex. tr_append ops rid e s = (Inl ex, s)) \<or>
      (\<exists>s'. tr_append ops rid e s = (Inr (numbered (events s rid) e), s') \<and> tinvar s' \<and>
        events s' = (events s)(rid := events s rid @ [numbered (events s rid) e]))"
    and listed: "tinvar s \<Longrightarrow> tr_list ops rid s = (Inr (events s rid), s)"

subsection \<open>The in-memory store\<close>

type_synonym trace_store = "(string, trace_event list) dict"

definition memory_events :: "trace_store \<Rightarrow> string \<Rightarrow> trace_event list" where
  "memory_events s rid = (case map_of s rid of None \<Rightarrow> [] | Some es \<Rightarrow> es)"

definition trace_memory_append :: "string \<Rightarrow> trace_event \<Rightarrow> (trace_store, trace_event) py" where
  "trace_memory_append rid e s =
     (let es = memory_events s rid; stored = e\<lparr>sequence_no := int (length es) + 1\<rparr>
      in (Inr stored, AList.update rid (es @ [stored]) s))"

definition trace_memory_list :: "string \<Rightarrow> (trace_store, trace_event list) py" where
  "trace_memory_list rid s = (Inr (memory_events s rid), s)"

definition trace_memory_ops :: "trace_store trace_ops" where
  "trace_memory_ops = \<lparr>tr_append = trace_memory_append, tr_list = trace_memory_list\<rparr>"

interpretation mem_trace: trace_contract trace_memory_ops memory_events "\<lambda>_. True"
proof (unfold_locales, goal_cases)
  case (1 s rid e)
  have "memory_events (AList.update rid v s) = (memory_events s)(rid := v)" for v
    by (rule ext) (simp add: memory_events_def)
  then show ?case
    by (simp add: trace_memory_ops_def trace_memory_append_def Let_def numbered_def)
qed (simp add: trace_memory_ops_def trace_memory_list_def)

subsection \<open>The PostgreSQL store\<close>

text \<open>
  The table \<open>run_trace_events\<close> as its rows in insertion order, and the set of run identifiers its
  foreign key accepts. The insert takes the advisory lock of the run and computes
  \<open>COALESCE(MAX(sequence_no)+1,1)\<close> over the rows of the run; the query sorts by the number.
\<close>

record trace_table =
  event_rows :: "(string \<times> trace_event) list"
  known_runs :: "string list"

definition run_rows :: "trace_table \<Rightarrow> string \<Rightarrow> trace_event list" where
  "run_rows s rid = map snd (filter (\<lambda>row. fst row = rid) (event_rows s))"

definition next_sequence :: "trace_event list \<Rightarrow> int" where
  "next_sequence es = (case map sequence_no es of [] \<Rightarrow> 1 | n # ns \<Rightarrow> Max (set (n # ns)) + 1)"

definition trace_pg_append :: "string \<Rightarrow> trace_event \<Rightarrow> (trace_table, trace_event) py" where
  "trace_pg_append rid e s =
     (if rid \<notin> set (known_runs s) then (Inl (External ''ForeignKeyViolation''), s)
      else let row = e\<lparr>sequence_no := next_sequence (run_rows s rid)\<rparr>
           in (Inr row, s\<lparr>event_rows := event_rows s @ [(rid, row)]\<rparr>))"

definition trace_pg_list :: "string \<Rightarrow> (trace_table, trace_event list) py" where
  "trace_pg_list rid s = (Inr (sort_key sequence_no (run_rows s rid)), s)"

definition trace_pg_ops :: "trace_table trace_ops" where
  "trace_pg_ops = \<lparr>tr_append = trace_pg_append, tr_list = trace_pg_list\<rparr>"

definition numbers_ok :: "trace_table \<Rightarrow> bool" where
  "numbers_ok s \<longleftrightarrow> (\<forall>rid. map sequence_no (run_rows s rid) = [1..int (length (run_rows s rid))])"

lemma next_sequence_upto:
  assumes "map sequence_no es = [1..int (length es)]"
  shows "next_sequence es = int (length es) + 1"
proof (cases es)
  case (Cons e es')
  then obtain n ns where n: "map sequence_no es = n # ns" by simp
  have "set (n # ns) = {1..int (length es)}" using assms n by (metis set_upto)
  then have "Max (set (n # ns)) = int (length es)" using Cons by (simp add: Max_eq_iff)
  then show ?thesis by (simp add: next_sequence_def n)
qed (simp add: next_sequence_def)

lemma run_rows_append:
  "run_rows (s\<lparr>event_rows := event_rows s @ [(rid, row)]\<rparr>) =
     (run_rows s)(rid := run_rows s rid @ [row])"
  by (rule ext) (simp add: run_rows_def)

interpretation pg_trace: trace_contract trace_pg_ops run_rows numbers_ok
proof (unfold_locales, goal_cases)
  case (1 s rid e)
  have n: "next_sequence (run_rows s rid) = int (length (run_rows s rid)) + 1"
    using 1 next_sequence_upto by (simp add: numbers_ok_def)
  have "numbers_ok (s\<lparr>event_rows := event_rows s @ [(rid, numbered (run_rows s rid) e)]\<rparr>)"
    using 1 by (simp add: numbers_ok_def run_rows_append numbered_def upto_rec2)
  then show ?case
    by (simp add: trace_pg_ops_def trace_pg_append_def Let_def n run_rows_append
        flip: numbered_def)
next
  case (2 s rid)
  then have "sorted (map sequence_no (run_rows s rid))" by (simp add: numbers_ok_def)
  then show ?case by (simp add: trace_pg_ops_def trace_pg_list_def sorted_sort_id sort_key_id_if_sorted)
qed

subsection \<open>The metrics registry\<close>

text \<open>The series in order of first use; a key is a metric name with its labels sorted.\<close>

type_synonym metrics = "(string \<times> (string \<times> string) list, pyfloat list) dict"

definition record_metric ::
  "string \<Rightarrow> pyfloat \<Rightarrow> (string, string) dict \<Rightarrow> metrics \<Rightarrow> metrics" where
  "record_metric name v labels m =
     (let key = (name, sort labels);
          old = (case map_of m key of None \<Rightarrow> [] | Some vs \<Rightarrow> vs)
      in AList.update key (old @ [v]) m)"

definition observe_run :: "pyfloat \<Rightarrow> string \<Rightarrow> string \<Rightarrow> string \<Rightarrow> string \<Rightarrow> metrics \<Rightarrow> metrics" where
  "observe_run v route risk status mode = record_metric ''db_copilot_run_duration_seconds'' v
     [(''route'', route), (''risk'', risk), (''status'', status), (''mode'', mode)]"

definition observe_stage :: "pyfloat \<Rightarrow> string \<Rightarrow> string \<Rightarrow> string \<Rightarrow> metrics \<Rightarrow> metrics" where
  "observe_stage v stage model mode = record_metric ''db_copilot_stage_duration_seconds'' v
     [(''stage'', stage), (''model'', model), (''mode'', mode)]"

definition increment_guard :: "string \<Rightarrow> string \<Rightarrow> string \<Rightarrow> metrics \<Rightarrow> metrics" where
  "increment_guard guard_type decision mode = record_metric ''db_copilot_guard_decisions_total'' 1
     [(''guard_type'', guard_type), (''decision'', decision), (''mode'', mode)]"

definition increment_clarification :: "string \<Rightarrow> string \<Rightarrow> metrics \<Rightarrow> metrics" where
  "increment_clarification reason outcome = record_metric ''db_copilot_clarifications_total'' 1
     [(''reason'', reason), (''outcome'', outcome)]"

definition observe_context_tokens :: "pyfloat \<Rightarrow> string \<Rightarrow> string \<Rightarrow> metrics \<Rightarrow> metrics" where
  "observe_context_tokens v part prune = record_metric ''db_copilot_context_tokens'' v
     [(''partition'', part), (''prune_reason'', prune)]"

definition observe_grounding :: "pyfloat \<Rightarrow> string \<Rightarrow> string \<Rightarrow> metrics \<Rightarrow> metrics" where
  "observe_grounding v asset_type ver = record_metric ''db_copilot_grounding_coverage'' v
     [(''asset_type'', asset_type), (''version'', ver)]"

definition increment_rollout :: "string \<Rightarrow> string \<Rightarrow> string \<Rightarrow> metrics \<Rightarrow> metrics" where
  "increment_rollout coh decision reason = record_metric ''db_copilot_rollout_decisions_total'' 1
     [(''cohort'', coh), (''decision'', decision), (''reason'', reason)]"

text \<open>One line of the exposition format; the value is the sum in recording order.\<close>

definition render_line ::
  "(pyfloat \<Rightarrow> string) \<Rightarrow> (string \<times> (string \<times> string) list) \<times> pyfloat list \<Rightarrow> string" where
  "render_line repr e = (case e of ((name, labels), vs) \<Rightarrow>
     let label_text = join_with '','' (map (\<lambda>(k, v). k @ ''='' @ [CHR 0x22] @ v @ [CHR 0x22]) labels)
     in name @ (if label_text = [] then [] else ''{'' @ label_text @ ''}'') @ '' '' @
        repr (foldl fadd 0 vs))"

text \<open>\<open>sorted(self._values.items())\<close>: the keys are distinct, so the key decides.\<close>

definition render :: "(pyfloat \<Rightarrow> string) \<Rightarrow> metrics \<Rightarrow> string" where
  "render repr m = join_with [CHR 0x0A] (map (render_line repr) (sort_key fst m)) @ [CHR 0x0A]"

subsection \<open>The trace service\<close>

record trace_config =
  trace_mode :: string
  success_sample_rate :: pyfloat
  trace_schema_version :: string
  instrumentation_version :: string
  metrics_enabled :: bool

text \<open>\<open>TraceService.__init__\<close>.\<close>

definition check_trace_config :: "trace_config \<Rightarrow> exn + trace_config" where
  "check_trace_config c =
     (if trace_mode c \<notin> set [''off'', ''shadow'', ''enforce'']
      then Inl (ValueError ''invalid trace mode'')
      else if \<not> (fl (1 / 100) \<le> success_sample_rate c \<and> success_sample_rate c \<le> fl (1 / 10))
      then Inl (ValueError ''success sample rate must be between 0.01 and 0.10'')
      else Inr c)"

text \<open>The sampling bucket of a run: eight digest bytes as a fraction of \<open>2**64\<close>.\<close>

definition sample_bucket :: "string \<Rightarrow> pyfloat" where
  "sample_bucket rid =
     fdiv (of_int (int_from_bytes (take 8 (sha_digest (utf8_encode rid))))) (2 ^ 64)"

definition should_sample :: "trace_config \<Rightarrow> string \<Rightarrow> string \<Rightarrow> bool" where
  "should_sample c rid status \<longleftrightarrow>
     status \<in> set [''FAILED'', ''CANCELLED'', ''NEEDS_CLARIFICATION'', ''REJECTED'', ''SLOW''] \<or>
     sample_bucket rid < success_sample_rate c"

record 's traced =
  trace_db :: 's
  trace_metrics :: metrics

definition redact :: "(string, attr) dict \<Rightarrow> (string, attr) dict" where
  "redact attrs = filter (\<lambda>(key, _). key \<in> set ALLOWED_ATTRIBUTES) attrs"

text \<open>\<open>str(safe.get(key, dflt))\<close>, and \<open>safe.get(key)\<close> where only a true value counts.\<close>

definition attr_text :: "float_text \<Rightarrow> (string, attr) dict \<Rightarrow> string \<Rightarrow> string \<Rightarrow> string" where
  "attr_text ft safe key dflt =
     (case map_of safe key of None \<Rightarrow> dflt | Some v \<Rightarrow> attr_str ft v)"

definition attr_true :: "(string, attr) dict \<Rightarrow> string \<Rightarrow> attr option" where
  "attr_true safe key =
     (case map_of safe key of None \<Rightarrow> None | Some v \<Rightarrow> if attr_truth v then Some v else None)"

text \<open>\<open>str(safe.get("grounding_mode") or safe.get("harness_mode") or self.mode)\<close>.\<close>

definition metrics_mode :: "float_text \<Rightarrow> trace_config \<Rightarrow> (string, attr) dict \<Rightarrow> string" where
  "metrics_mode ft c safe =
     (case attr_true safe ''grounding_mode'' of
        Some v \<Rightarrow> attr_str ft v
      | None \<Rightarrow>
          (case attr_true safe ''harness_mode'' of
             Some v \<Rightarrow> attr_str ft v
           | None \<Rightarrow> trace_mode c))"

text \<open>The metrics part of \<open>append\<close>; a value that is no number raises.\<close>

definition event_metrics ::
  "float_text \<Rightarrow> trace_config \<Rightarrow> string \<Rightarrow> (string, attr) dict \<Rightarrow> (metrics, unit) py" where
  "event_metrics ft c ev safe =
     bindM
       (if ev = ''guard_decided'' then (\<lambda>m. (Inr (), increment_guard ''query''
           (attr_text ft safe ''db_copilot.guard_decision'' ''unknown'')
           (metrics_mode ft c safe) m))
        else if ev = ''clarification_requested'' then
          (\<lambda>m. (Inr (), increment_clarification ''ambiguity'' ''requested'' m))
        else if ev = ''run_completed'' then
          (case map_of safe ''duration_ms'' of
             None \<Rightarrow> ret ()
           | Some d \<Rightarrow>
               (case attr_float ft d of
                  Inl e \<Rightarrow> raise e
                | Inr q \<Rightarrow> (\<lambda>m. (Inr (), observe_run (fdiv q 1000)
                    (attr_text ft safe ''route'' ''chat'') (attr_text ft safe ''risk_level'' ''LOW'')
                    (attr_text ft safe ''status'' ''COMPLETED'') (metrics_mode ft c safe) m))))
        else ret ())
       (\<lambda>_. case map_of safe ''db_copilot.grounding_coverage'' of
          None \<Rightarrow> ret ()
        | Some v \<Rightarrow>
            (case attr_float ft v of
               Inl e \<Rightarrow> raise e
             | Inr q \<Rightarrow> (\<lambda>m. (Inr (), observe_grounding q ''all''
                 (attr_text ft safe ''schema_version'' ''current'') m))))"

definition trace_event_of ::
  "float_text \<Rightarrow> trace_config \<Rightarrow> time \<Rightarrow> string \<Rightarrow> string \<Rightarrow> (string, attr) dict \<Rightarrow> trace_event" where
  "trace_event_of ft c now rid ev attrs =
     \<lparr>event_type = ev, event_attributes = redact attrs,
      event_schema_version = trace_schema_version c,
      event_instrumentation = instrumentation_version c,
      sampled = should_sample c rid (attr_text ft (redact attrs) ''status'' ''''),
      event_created_at = now, sequence_no = 0\<rparr>"

text \<open>The \<open>except Exception\<close> clause; \<open>mode\<close> is the local variable at the point of failure.\<close>

definition trace_failed :: "string \<Rightarrow> exn \<Rightarrow> ('s, trace_event option) py" where
  "trace_failed mode e =
     (if \<not> is_exception e then raise e
      else if mode = ''enforce''
      then raise (TracePersistenceError ''local trace persistence failed'') else ret None)"

definition trace_append ::
  "'s trace_ops \<Rightarrow> float_text \<Rightarrow> trace_config \<Rightarrow> rollout_decision option \<Rightarrow> time \<Rightarrow> string \<Rightarrow>
   string \<Rightarrow> (string, attr) dict \<Rightarrow> ('s traced, trace_event option) py" where
  "trace_append ops ft c decision now rid ev attrs s =
     (if ev \<notin> set TRACE_EVENTS then (Inl (ValueError ''unsupported trace event type''), s)
      else let mode = effective_mode decision ''otel'' (trace_mode c) in
        if mode = ''off'' then (Inr None, s)
        else case tr_append ops rid (trace_event_of ft c now rid ev attrs) (trace_db s) of
          (Inl e, db) \<Rightarrow> trace_failed mode e (s\<lparr>trace_db := db\<rparr>)
        | (Inr stored, db) \<Rightarrow>
            if \<not> metrics_enabled c then (Inr (Some stored), s\<lparr>trace_db := db\<rparr>)
            else case event_metrics ft c ev (redact attrs) (trace_metrics s) of
              (Inl e, m) \<Rightarrow> trace_failed (metrics_mode ft c (redact attrs)) e
                (s\<lparr>trace_db := db, trace_metrics := m\<rparr>)
            | (Inr _, m) \<Rightarrow> (Inr (Some stored), s\<lparr>trace_db := db, trace_metrics := m\<rparr>))"

definition trace_list :: "'s trace_ops \<Rightarrow> string \<Rightarrow> ('s traced, trace_event list) py" where
  "trace_list ops rid s =
     (case tr_list ops rid (trace_db s) of (r, db) \<Rightarrow> (r, s\<lparr>trace_db := db\<rparr>))"

subsection \<open>What the service promises over any store\<close>

text \<open>An event that may be stored: of a known type, carrying only allowlisted attributes.\<close>

definition event_redacted :: "trace_event \<Rightarrow> bool" where
  "event_redacted e \<longleftrightarrow> event_type e \<in> set TRACE_EVENTS \<and>
     fst ` set (event_attributes e) \<subseteq> set ALLOWED_ATTRIBUTES"

lemma redact_allowed: "fst ` set (redact attrs) \<subseteq> set ALLOWED_ATTRIBUTES"
  by (auto simp: redact_def)

lemma redact_lookup:
  "map_of (redact attrs) k = (if k \<in> set ALLOWED_ATTRIBUTES then map_of attrs k else None)"
  unfolding redact_def by (induction attrs) auto

lemma event_redacted_of:
  "ev \<in> set TRACE_EVENTS \<Longrightarrow> event_redacted (numbered es (trace_event_of ft c now rid ev attrs))"
  using redact_allowed by (simp add: event_redacted_def numbered_def trace_event_of_def)

lemma event_redacted_sampled:
  "event_redacted (numbered es e) = event_redacted e"
  by (simp add: event_redacted_def numbered_def)

lemma trace_failed_state [simp]: "snd (trace_failed mode e s) = s"
  by (simp add: trace_failed_def)

context trace_contract
begin

text \<open>Every stored event is redacted and the events of a run are numbered from one.\<close>

definition trace_ok :: "'s \<Rightarrow> bool" where
  "trace_ok s \<longleftrightarrow> tinvar s \<and> (\<forall>rid. (\<forall>e \<in> set (events s rid). event_redacted e) \<and>
     map sequence_no (events s rid) = [1..int (length (events s rid))])"

lemma append_ok:
  assumes "trace_ok s" and "event_redacted e"
  shows "trace_ok (snd (tr_append ops rid e s))"
proof -
  have inv: "tinvar s" using assms(1) by (simp add: trace_ok_def)
  from append [OF inv, of rid e] show ?thesis
  proof
    assume "\<exists>ex. tr_append ops rid e s = (Inl ex, s)"
    then show ?thesis using assms(1) by auto
  next
    assume "\<exists>s'. tr_append ops rid e s = (Inr (numbered (events s rid) e), s') \<and> tinvar s' \<and>
        events s' = (events s)(rid := events s rid @ [numbered (events s rid) e])"
    then obtain s' where s': "tr_append ops rid e s = (Inr (numbered (events s rid) e), s')"
      "tinvar s'" "events s' = (events s)(rid := events s rid @ [numbered (events s rid) e])"
      by blast
    have "sequence_no (numbered (events s rid) e) = int (length (events s rid)) + 1"
      by (simp add: numbered_def)
    then show ?thesis using assms s'
      by (auto simp: trace_ok_def event_redacted_sampled upto_rec2)
  qed
qed

lemma trace_append_state:
  "trace_db (snd (trace_append ops ft c d now rid ev attrs s)) =
     (if ev \<notin> set TRACE_EVENTS \<or> effective_mode d ''otel'' (trace_mode c) = ''off''
      then trace_db s
      else snd (tr_append ops rid (trace_event_of ft c now rid ev attrs) (trace_db s)))"
  by (simp add: trace_append_def Let_def split: sum.splits prod.splits)

lemma trace_append_ok:
  assumes "trace_ok (trace_db s)"
  shows "trace_ok (trace_db (snd (trace_append ops ft c d now rid ev attrs s)))"
proof (cases "ev \<in> set TRACE_EVENTS")
  case True
  then have "event_redacted (trace_event_of ft c now rid ev attrs)"
    using event_redacted_of [OF True] by (simp add: event_redacted_sampled)
  with assms append_ok show ?thesis by (simp add: trace_append_state)
qed (use assms in \<open>simp add: trace_append_state\<close>)

text \<open>The events of other runs are untouched.\<close>

lemma trace_append_other:
  assumes "tinvar (trace_db s)" and "rid' \<noteq> rid"
  shows "events (trace_db (snd (trace_append ops ft c d now rid ev attrs s))) rid' =
    events (trace_db s) rid'"
  using append [OF assms(1), of rid "trace_event_of ft c now rid ev attrs"] assms(2)
  by (auto simp: trace_append_state)

end

text \<open>A sequence of calls of the service, the caller ignoring results and exceptions.\<close>

record trace_call =
  call_decision :: "rollout_decision option"
  call_at :: time
  call_run :: string
  call_event :: string
  call_attrs :: "(string, attr) dict"

definition do_call :: "'s trace_ops \<Rightarrow> float_text \<Rightarrow> trace_config \<Rightarrow> trace_call \<Rightarrow> 's traced \<Rightarrow>
    's traced" where
  "do_call ops ft c k s = snd (trace_append ops ft c (call_decision k) (call_at k) (call_run k)
     (call_event k) (call_attrs k) s)"

context trace_contract
begin

lemma calls_ok:
  assumes "trace_ok (trace_db s)"
  shows "trace_ok (trace_db (fold (do_call ops ft c) ks s))"
  using assms by (induction ks arbitrary: s) (auto simp: do_call_def trace_append_ok)

end

definition empty_trace_table :: "string list \<Rightarrow> trace_table" where
  "empty_trace_table known = \<lparr>event_rows = [], known_runs = known\<rparr>"

lemma empty_trace_table_ok: "pg_trace.trace_ok (empty_trace_table known)"
  by (simp add: pg_trace.trace_ok_def numbers_ok_def run_rows_def empty_trace_table_def)

text \<open>Whatever the callers pass, the trace table of a deployment only ever holds events of known
types with allowlisted attributes, and the events of each run are listed in order with consecutive
numbers from one.\<close>

theorem trace_table_redacted:
  "case trace_list trace_pg_ops rid (fold (do_call trace_pg_ops ft c) ks
      \<lparr>trace_db = empty_trace_table known, trace_metrics = []\<rparr>) of
     (Inr es, _) \<Rightarrow> map sequence_no es = [1..int (length es)] \<and>
        list_all (\<lambda>e. event_type e \<in> set TRACE_EVENTS \<and>
          fst ` set (event_attributes e) \<subseteq> set ALLOWED_ATTRIBUTES) es
   | (Inl _, _) \<Rightarrow> False"
proof -
  let ?s = "fold (do_call trace_pg_ops ft c) ks
      \<lparr>trace_db = empty_trace_table known, trace_metrics = []\<rparr>"
  have ok: "pg_trace.trace_ok (trace_db ?s)"
    by (rule pg_trace.calls_ok) (simp add: empty_trace_table_ok)
  then have "tr_list trace_pg_ops rid (trace_db ?s) = (Inr (run_rows (trace_db ?s) rid), trace_db ?s)"
    by (intro pg_trace.listed) (simp add: pg_trace.trace_ok_def)
  with ok show ?thesis
    by (simp add: trace_list_def pg_trace.trace_ok_def event_redacted_def list_all_iff)
qed

text \<open>The mode a failure is judged by is overwritten before the metrics are recorded: with a
trace service in shadow mode, whose failures must not reach the caller, a metrics error in a run
whose harness enforces raises, although the event is already stored.\<close>

theorem shadow_trace_can_raise:
  assumes "trace_mode c = ''shadow''" and "metrics_enabled c"
    and "map_of attrs ''db_copilot.grounding_coverage'' = Some ANone"
    and "attr_true attrs ''grounding_mode'' = None"
    and "map_of attrs ''harness_mode'' = Some (AStr ''enforce'')"
  shows "\<exists>s'. trace_append trace_memory_ops ft c None now rid ''plan_validated'' attrs s =
       (Inl (TracePersistenceError ''local trace persistence failed''), s') \<and>
     length (memory_events (trace_db s') rid) = length (memory_events (trace_db s) rid) + 1"
proof -
  have t: "attr_true (redact attrs) ''grounding_mode'' = None"
    using assms(4) by (simp add: attr_true_def redact_lookup ALLOWED_ATTRIBUTES_def)
  have "metrics_mode ft c (redact attrs) = ''enforce''"
    using assms(5)
    by (simp add: metrics_mode_def t) (simp add: attr_true_def redact_lookup ALLOWED_ATTRIBUTES_def)
  moreover have "map_of (redact attrs) ''db_copilot.grounding_coverage'' = Some ANone"
    using assms(3) by (simp add: redact_lookup ALLOWED_ATTRIBUTES_def)
  moreover have "memory_events (AList.update rid v d) rid = v" for v d
    by (simp add: memory_events_def)
  ultimately show ?thesis using assms(1,2)
    by (simp add: trace_append_def TRACE_EVENTS_def effective_mode_def trace_memory_ops_def
        trace_memory_append_def Let_def event_metrics_def trace_failed_def is_exception_def)
qed

theorem shadow_trace_can_raise_witness:
  "\<exists>s'. trace_append trace_memory_ops
      \<lparr>float_repr = \<lambda>_. ''0.0'', float_parse = \<lambda>_. None\<rparr>
      \<lparr>trace_mode = ''shadow'', success_sample_rate = fl (1 / 20), trace_schema_version = ''1.0.0'',
       instrumentation_version = ''phase-d.1'', metrics_enabled = True\<rparr> None 7 ''r1''
      ''plan_validated''
      [(''harness_mode'', AStr ''enforce''), (''db_copilot.grounding_coverage'', ANone)]
      \<lparr>trace_db = [], trace_metrics = []\<rparr> =
     (Inl (TracePersistenceError ''local trace persistence failed''), s') \<and>
     length (memory_events (trace_db s') ''r1'') = 1"
  using shadow_trace_can_raise [of "\<lparr>trace_mode = ''shadow'', success_sample_rate = fl (1 / 20),
      trace_schema_version = ''1.0.0'', instrumentation_version = ''phase-d.1'',
      metrics_enabled = True\<rparr>"
      "[(''harness_mode'', AStr ''enforce''), (''db_copilot.grounding_coverage'', ANone)]"
      "\<lparr>float_repr = \<lambda>_. ''0.0'', float_parse = \<lambda>_. None\<rparr>" 7 "''r1''"
      "\<lparr>trace_db = [], trace_metrics = []\<rparr>"]
  by (simp add: attr_true_def memory_events_def)

end
