(* ===== verification/Harness.thy ===== *)
theory Harness
  imports Run_Store Trace
begin

section \<open>The request harness and its lifecycle hooks\<close>

text \<open>
  \<open>agent-service/app/harness/lifecycle.py\<close> (the budget hooks around every tool call) and
  \<open>agent-service/app/harness/request.py\<close> (the run handle, the stream that drives a run through its
  states, the resumed stream, and the closing of a failed or cancelled run).

  The definitions take the run store as the operations record of its protocol. A step reads the
  clock at each store call: \<open>t i\<close> is the reading of the \<open>i\<close>-th one. The agent itself is not part of
  the repository: the \<open>operation\<close> that a stream runs is the argument \<open>body\<close>, together with the
  consumer of the stream. What it does to the stores is its effect on the state, and its outcome is
  a value (the stream was consumed) or the exception that reached the \<open>async for\<close> loop:
  an error of the agent, \<open>TimeoutError\<close> when the deadline fired, \<open>CancelledError\<close>, or
  \<open>GeneratorExit\<close> when the consumer closed the stream. The trace call is the argument \<open>tr\<close>.
\<close>

subsection \<open>Lifecycle hooks\<close>

definition READ_RETRY_ERRORS :: "string list" where
  "READ_RETRY_ERRORS = [''semantic_validation'', ''sql_policy'', ''database'']"

text \<open>\<open>before_tool\<close>; \<open>None\<close> is a call outside any run.\<close>

definition before_tool ::
  "'s run_ops \<Rightarrow> harness_budget \<Rightarrow> (nat \<Rightarrow> time) \<Rightarrow> string option \<Rightarrow> ('s, unit) py" where
  "before_tool ops b t run =
     (case run of
        None \<Rightarrow> ret ()
      | Some rid \<Rightarrow>
          bindM (op_get ops rid) (\<lambda>rec.
            if (case rec of None \<Rightarrow> False | Some r \<Rightarrow> status r = NEEDS_CLARIFICATION)
            then raise (HarnessPausedForClarification ''run is waiting for clarification'')
            else if (case rec of None \<Rightarrow> False | Some r \<Rightarrow> terminal (status r))
            then raise (RuntimeError (''run is already terminal: '' @ status_value (status (the rec))))
            else bindM (op_increment_tool_calls ops (t 0) rid) (\<lambda>calls.
              if calls > max_tool_calls b
              then raise (HarnessBudgetExceeded ''tool call budget exceeded'')
              else bindM (op_get ops rid) (\<lambda>rec2.
                if (case rec2 of None \<Rightarrow> False | Some r \<Rightarrow> status r \<in> {MODEL_RUNNING, GENERATING})
                then thenM (op_transition ops (t 1) rid TOOL_RUNNING None) (ret ())
                else ret ()))))"

text \<open>\<open>after_tool\<close>; \<open>enforce\<close> is the effective mode, \<open>success\<close> and \<open>err\<close> come from the result.\<close>

definition after_tool ::
  "'s run_ops \<Rightarrow> harness_budget \<Rightarrow> bool \<Rightarrow> (nat \<Rightarrow> time) \<Rightarrow> string option \<Rightarrow> bool \<Rightarrow> string option \<Rightarrow>
   ('s, unit) py" where
  "after_tool ops b enforce t run success err =
     (case run of
        None \<Rightarrow> ret ()
      | Some rid \<Rightarrow>
          thenM
            (if \<not> success \<and> (case err of None \<Rightarrow> False | Some e \<Rightarrow> e \<in> set READ_RETRY_ERRORS)
             then bindM (op_increment_retries ops (t 0) rid) (\<lambda>retries.
               if retries > max_read_retries b
               then raise (HarnessBudgetExceeded ''read retry budget exceeded'') else ret ())
             else ret ())
            (bindM (op_get ops rid) (\<lambda>rec.
               if (case rec of None \<Rightarrow> False | Some r \<Rightarrow> status r = TOOL_RUNNING)
               then thenM (op_transition ops (t 1) rid
                      (if enforce then GENERATING else MODEL_RUNNING) None) (ret ())
               else ret ())))"

subsection \<open>The run handle\<close>

definition mark_tool_running ::
  "'s run_ops \<Rightarrow> harness_budget \<Rightarrow> (nat \<Rightarrow> time) \<Rightarrow> string \<Rightarrow> ('s, unit) py" where
  "mark_tool_running ops b t rid =
     bindM (op_increment_tool_calls ops (t 0) rid) (\<lambda>calls.
       if calls > max_tool_calls b
       then raise (HarnessBudgetExceeded ''tool call budget exceeded'')
       else thenM (op_transition ops (t 1) rid TOOL_RUNNING None) (ret ()))"

definition mark_model_running :: "'s run_ops \<Rightarrow> time \<Rightarrow> string \<Rightarrow> ('s, unit) py" where
  "mark_model_running ops now rid = thenM (op_transition ops now rid MODEL_RUNNING None) (ret ())"

definition mark_verifying :: "'s run_ops \<Rightarrow> time \<Rightarrow> string \<Rightarrow> ('s, unit) py" where
  "mark_verifying ops now rid = thenM (op_transition ops now rid VERIFYING None) (ret ())"

definition record_read_retry ::
  "'s run_ops \<Rightarrow> harness_budget \<Rightarrow> time \<Rightarrow> string \<Rightarrow> ('s, unit) py" where
  "record_read_retry ops b now rid =
     bindM (op_increment_retries ops now rid) (\<lambda>retries.
       if retries > max_read_retries b
       then raise (HarnessBudgetExceeded ''read retry budget exceeded'') else ret ())"

subsection \<open>The trace call of the harness\<close>

text \<open>\<open>RequestHarness._trace\<close>: the attributes of an event, under the bound rollout decision.\<close>

definition trace_attrs ::
  "rollout_decision option \<Rightarrow> string \<Rightarrow> run_record \<Rightarrow> string \<Rightarrow> int option \<Rightarrow> (string, attr) dict" where
  "trace_attrs decision mode r st duration =
     [(''correlation_id'', AStr (correlation_id r)), (''tenant_id'', AStr ''default''),
      (''route'', AStr ''chat''), (''risk_level'', AStr ''LOW''), (''status'', AStr st),
      (''harness_mode'', AStr (effective_mode decision ''context_harness'' mode)),
      (''db_copilot.route_class'', AStr ''simple'')] @
     (case decision of None \<Rightarrow> [] | Some d \<Rightarrow>
        [(''db_copilot.rollout_policy_key'', AStr (dec_policy_key d)),
         (''db_copilot.rollout_policy_version'', AInt (dec_policy_version d)),
         (''db_copilot.rollout_cohort'', AStr (cohort d))]) @
     (case duration of None \<Rightarrow> [] | Some ms \<Rightarrow> [(''duration_ms'', AInt ms)])"

type_synonym 's tracer = "run_record \<Rightarrow> string \<Rightarrow> string \<Rightarrow> int option \<Rightarrow> ('s, unit) py"

subsection \<open>Closing a run\<close>

definition finish_as ::
  "'s run_ops \<Rightarrow> 's tracer \<Rightarrow> time \<Rightarrow> string \<Rightarrow> run_status \<Rightarrow> string \<Rightarrow> string \<Rightarrow> ('s, unit) py" where
  "finish_as ops tr now rid st ft ev =
     bindM (op_get ops rid) (\<lambda>rec.
       case rec of
         None \<Rightarrow> ret ()
       | Some r \<Rightarrow>
           if terminal (status r) then ret ()
           else thenM (op_transition ops now rid st (Some ft)) (tr r ev (status_value st) None))"

definition finish_failed ::
  "'s run_ops \<Rightarrow> 's tracer \<Rightarrow> time \<Rightarrow> string \<Rightarrow> string \<Rightarrow> ('s, unit) py" where
  "finish_failed ops tr now rid ft = finish_as ops tr now rid FAILED ft ''run_failed''"

definition finish_cancelled :: "'s run_ops \<Rightarrow> 's tracer \<Rightarrow> time \<Rightarrow> string \<Rightarrow> ('s, unit) py" where
  "finish_cancelled ops tr now rid = finish_as ops tr now rid CANCELLED ''cancelled'' ''run_cancelled''"

subsection \<open>The stream of a request\<close>

text \<open>The stages entered before the agent runs, each with its trace event.\<close>

fun enter_stages ::
  "'s run_ops \<Rightarrow> 's tracer \<Rightarrow> (nat \<Rightarrow> time) \<Rightarrow> run_record \<Rightarrow> nat \<Rightarrow>
   (run_status \<times> string option) list \<Rightarrow> ('s, unit) py" where
  "enter_stages ops tr t r i [] = ret ()"
| "enter_stages ops tr t r i ((st, ev) # xs) =
     thenM (op_transition ops (t i) (run_id r) st None)
       (thenM (case ev of None \<Rightarrow> ret () | Some e \<Rightarrow> tr r e (status_value st) None)
         (enter_stages ops tr t r (i + 1) xs))"

definition enforce_stages :: "(run_status \<times> string option) list" where
  "enforce_stages = [(CONTEXT_BUILDING, Some ''context_compiled''),
     (LINKING, Some ''schema_linked''), (PLANNING, Some ''plan_validated''),
     (GENERATING, Some ''sql_generated'')]"

definition shadow_stages :: "(run_status \<times> string option) list" where
  "shadow_stages = [(CONTEXT_READY, Some ''context_compiled''), (MODEL_RUNNING, None)]"

definition closing_stages :: "(run_status \<times> string option) list" where
  "closing_stages = [(VALIDATING, Some ''guard_decided''), (EXECUTING, Some ''sql_executed''),
     (VERIFYING, None)]"

text \<open>\<open>max(0, round((utc_now() - record.created_at).total_seconds() * 1000))\<close>.\<close>

definition duration_ms :: "time \<Rightarrow> run_record \<Rightarrow> int" where
  "duration_ms now r =
     max 0 (round_half_even (fmul (fdiv (of_int (now - created_at r)) 1000000) 1000))"

text \<open>From the end of the agent's stream to the completed run.\<close>

definition stream_close ::
  "'s run_ops \<Rightarrow> 's tracer \<Rightarrow> (nat \<Rightarrow> time) \<Rightarrow> bool \<Rightarrow> run_record \<Rightarrow> ('s, unit) py" where
  "stream_close ops tr t enforce r =
     bindM (op_get ops (run_id r)) (\<lambda>cur.
       if (case cur of None \<Rightarrow> False | Some c \<Rightarrow> status c = NEEDS_CLARIFICATION)
       then tr r ''clarification_requested'' (status_value NEEDS_CLARIFICATION) None
       else thenM
         (case cur of
            None \<Rightarrow> ret ()
          | Some c \<Rightarrow>
              if enforce then
                (if status c = GENERATING then enter_stages ops tr t r 4 closing_stages else ret ())
              else if status c \<noteq> VERIFYING
              then thenM (op_transition ops (t 4) (run_id r) VERIFYING None) (ret ())
              else ret ())
         (thenM (op_transition ops (t 7) (run_id r) COMPLETED None)
           (thenM (tr r ''result_verified'' (status_value VERIFYING) None)
             (tr r ''run_completed'' (status_value COMPLETED) (Some (duration_ms (t 8) r))))))"

definition stream_main ::
  "'s run_ops \<Rightarrow> 's tracer \<Rightarrow> (nat \<Rightarrow> time) \<Rightarrow> bool \<Rightarrow> run_record \<Rightarrow> ('s, unit) py \<Rightarrow> ('s, unit) py" where
  "stream_main ops tr t enforce r body =
     thenM (enter_stages ops tr t r 0 (if enforce then enforce_stages else shadow_stages))
       (thenM body (stream_close ops tr t enforce r))"

text \<open>The \<open>except\<close> clauses of \<open>execute_stream\<close>.\<close>

definition is_paused :: "exn \<Rightarrow> bool" where
  "is_paused e = (case e of HarnessPausedForClarification _ \<Rightarrow> True | _ \<Rightarrow> False)"

definition close_failed_stream ::
  "'s run_ops \<Rightarrow> 's tracer \<Rightarrow> time \<Rightarrow> string \<Rightarrow> exn \<Rightarrow> ('s, unit) py" where
  "close_failed_stream ops tr now rid e =
     thenM
       (if e = TimeoutError then finish_failed ops tr now rid ''timeout''
        else if e = CancelledError \<or> e = GeneratorExit then finish_cancelled ops tr now rid
        else finish_failed ops tr now rid (exn_name e))
       (raise e)"

definition stream_except ::
  "'s run_ops \<Rightarrow> 's tracer \<Rightarrow> time \<Rightarrow> run_record \<Rightarrow> exn \<Rightarrow> ('s, unit) py" where
  "stream_except ops tr now r e =
     (if is_paused e
      then bindM (op_get ops (run_id r)) (\<lambda>cur.
        if (case cur of None \<Rightarrow> True | Some c \<Rightarrow> status c \<noteq> NEEDS_CLARIFICATION) then raise e
        else tr r ''clarification_requested'' (status_value NEEDS_CLARIFICATION) None)
      else close_failed_stream ops tr now (run_id r) e)"

text \<open>
  \<open>execute_stream\<close>: \<open>r\<close> is the record it builds, \<open>persist\<close> stores the bound rollout decision (it
  does nothing when there is none), \<open>enforce\<close> is the effective mode of the request.
\<close>

definition execute_stream ::
  "'s run_ops \<Rightarrow> 's tracer \<Rightarrow> ('s, unit) py \<Rightarrow> (nat \<Rightarrow> time) \<Rightarrow> bool \<Rightarrow> run_record \<Rightarrow>
   ('s, unit) py \<Rightarrow> ('s, unit) py" where
  "execute_stream ops tr persist t enforce r body =
     catchM
       (thenM (op_create ops r) (thenM persist
         (thenM (tr r ''request_received'' (status_value RECEIVED) None)
           (stream_main ops tr t enforce r body))))
       (stream_except ops tr (t 9) r)"

subsection \<open>The resumed stream\<close>

definition resumed_stages :: "(run_status \<times> string option) list" where
  "resumed_stages = [(LINKING, None), (PLANNING, None), (GENERATING, None)]"

definition resumed_closing :: "(run_status \<times> string option) list" where
  "resumed_closing = [(VALIDATING, None), (EXECUTING, None), (VERIFYING, None)]"

definition resumed_close ::
  "'s run_ops \<Rightarrow> 's tracer \<Rightarrow> (nat \<Rightarrow> time) \<Rightarrow> run_record \<Rightarrow> ('s, unit) py" where
  "resumed_close ops tr t child =
     bindM (op_get ops (run_id child)) (\<lambda>cur.
       if (case cur of None \<Rightarrow> False | Some c \<Rightarrow> status c = NEEDS_CLARIFICATION) then ret ()
       else bindM (op_get ops (run_id child)) (\<lambda>cur2.
         thenM
           (case cur2 of
              None \<Rightarrow> ret ()
            | Some c \<Rightarrow>
                if status c = GENERATING then enter_stages ops tr t child 3 resumed_closing
                else if status c \<noteq> VERIFYING
                then thenM (op_transition ops (t 3) (run_id child) VERIFYING None) (ret ())
                else ret ())
           (thenM (op_transition ops (t 6) (run_id child) COMPLETED None) (ret ()))))"

definition execute_resumed_stream ::
  "'s run_ops \<Rightarrow> 's tracer \<Rightarrow> (nat \<Rightarrow> time) \<Rightarrow> run_record \<Rightarrow> ('s, unit) py \<Rightarrow> ('s, unit) py" where
  "execute_resumed_stream ops tr t child body =
     (if operation_kind child \<noteq> READ_QUERY
      then raise (ValueError ''resume only supports READ_QUERY'')
      else if status child \<noteq> CONTEXT_BUILDING
      then raise (ValueError ''resume child must be atomically claimed first'')
      else catchM
        (thenM (enter_stages ops tr t child 0 resumed_stages)
          (thenM body (resumed_close ops tr t child)))
        (close_failed_stream ops tr (t 7) (run_id child)))"

subsection \<open>The environment of the harness\<close>

text \<open>
  What the streams rely on beside the run store: the trace call and the persisting of the rollout
  decision may fail, but do not touch the runs.
\<close>

locale harness_env = run_store_contract ops view invar
  for ops :: "'s run_ops" and view :: "'s \<Rightarrow> string \<Rightarrow> run_record option"
    and invar :: "'s \<Rightarrow> bool" +
  fixes tr :: "'s tracer" and persist :: "('s, unit) py"
  assumes trace_frame: "invar s \<Longrightarrow> invar (snd (tr r ev st d s)) \<and> view (snd (tr r ev st d s)) = view s"
    and persist_frame: "invar s \<Longrightarrow> invar (snd (persist s)) \<and> view (snd (persist s)) = view s"

context run_store_contract
begin

text \<open>An operation that only lets the runs evolve.\<close>

definition evolving :: "('s, 'a) py \<Rightarrow> bool" where
  "evolving m \<longleftrightarrow> (\<forall>s. invar s \<longrightarrow> grows s (snd (m s)))"

lemma evolvingD: "evolving m \<Longrightarrow> grows s0 s \<Longrightarrow> grows s0 (snd (m s))"
  using grows_invar grows_trans by (auto simp: evolving_def)

lemma evolving_keeps: "evolving m \<Longrightarrow> keeps (grows s0) m"
  by (simp add: keeps_def evolvingD)

lemma keeps_grows:
  assumes "keeps (grows s) m" and "invar s" and "m s = (x, s')"
  shows "grows s s'"
  using keepsD [OF assms(1) grows_refl [OF assms(2)]] assms(3) by simp

lemma keeps_evolving: "(\<And>s0. keeps (grows s0) m) \<Longrightarrow> evolving m"
  using grows_refl by (simp add: evolving_def keeps_def)

lemma evolving_ops:
  "evolving (op_get ops rid)" "evolving (op_transition ops now rid st ft)"
  "evolving (op_increment_tool_calls ops now rid)" "evolving (op_increment_retries ops now rid)"
  "fresh_record r \<Longrightarrow> evolving (op_create ops r)"
  by (simp_all add: evolving_def get_grows transition_grows calls_grows retries_grows create_grows)

lemma evolving_frame:
  "(\<And>s. invar s \<Longrightarrow> invar (snd (m s)) \<and> view (snd (m s)) = view s) \<Longrightarrow> evolving m"
  by (simp add: evolving_def grows_def)

lemmas grows_ops [keeps_rules] = evolving_ops [THEN evolving_keeps]

lemma keeps_before_tool [keeps_rules]: "keeps (grows s0) (before_tool ops b t run)"
  unfolding before_tool_def by (intro keeps_rules)

lemma keeps_after_tool [keeps_rules]: "keeps (grows s0) (after_tool ops b e t run ok err)"
  unfolding after_tool_def by (intro keeps_rules)

lemma keeps_mark_tool_running [keeps_rules]: "keeps (grows s0) (mark_tool_running ops b t rid)"
  unfolding mark_tool_running_def by (intro keeps_rules)

lemma keeps_record_read_retry [keeps_rules]: "keeps (grows s0) (record_read_retry ops b now rid)"
  unfolding record_read_retry_def by (intro keeps_rules)

text \<open>\<open>before_tool\<close> on a run that may go on, and on one that may not.\<close>

lemma before_tool_stopped:
  assumes "view s rid = Some r" and "terminal (status r)"
  shows "\<exists>e. before_tool ops b t (Some rid) s = (Inl e, s) \<and>
    (is_paused e \<longleftrightarrow> status r = NEEDS_CLARIFICATION)"
  using assms by (auto simp: before_tool_def bindM_def get is_paused_def)

lemma before_tool_passes:
  assumes inv: "invar s" and r: "view s rid = Some r"
    and pass: "before_tool ops b t (Some rid) s = (Inr (), s')"
  shows "\<not> terminal (status r) \<and> tool_call_count r + 1 \<le> max_tool_calls b \<and>
    (\<exists>r'. view s' rid = Some r' \<and> tool_call_count r' = tool_call_count r + 1)"
proof -
  obtain s1 where s1: "op_increment_tool_calls ops (t 0) rid s = (Inr (tool_call_count r + 1), s1)"
    "invar s1" "view s1 = put_run (view s) rid (counted_call (t 0) r)"
    using calls_done [OF inv r] by blast
  have nt: "\<not> terminal (status r)"
    using before_tool_stopped [OF r, of b t] pass by auto
  from pass r nt s1 have le: "tool_call_count r + 1 \<le> max_tool_calls b"
    and rest: "(if status r \<in> {MODEL_RUNNING, GENERATING}
      then thenM (op_transition ops (t 1) rid TOOL_RUNNING None) (ret ()) else ret ()) s1 = (Inr (), s')"
    by (auto simp: before_tool_def bindM_def get TERMINAL_STATUSES_def split: if_splits)
  have "\<exists>r'. view s' rid = Some r' \<and> tool_call_count r' = tool_call_count r + 1"
  proof (cases "status r \<in> {MODEL_RUNNING, GENERATING}")
    case True
    then have al: "allowed (status (counted_call (t 0) r)) TOOL_RUNNING"
      by (auto simp: ALLOWED_TRANSITIONS.simps)
    have v: "view s1 rid = Some (counted_call (t 0) r)" by (simp add: s1(3))
    from transition_done [OF s1(2) v al, of "t 1" None] rest True show ?thesis
      by (auto simp: thenM_def bindM_def)
  next
    case False
    with rest s1(3) show ?thesis by auto
  qed
  with nt le show ?thesis by blast
qed

end

context harness_env
begin

lemma evolving_env: "evolving (tr r ev st d)" "evolving persist"
  using trace_frame persist_frame by (auto intro: evolving_frame)

lemmas grows_env [keeps_rules] = evolving_env [THEN evolving_keeps]

lemma keeps_finish_as [keeps_rules]: "keeps (grows s0) (finish_as ops tr now rid st ft ev)"
  unfolding finish_as_def by (intro keeps_rules)

lemma keeps_enter_stages [keeps_rules]: "keeps (grows s0) (enter_stages ops tr t r i xs)"
proof (induction xs arbitrary: i)
  case (Cons x xs)
  then show ?case by (cases x) (simp, intro keeps_rules; simp)
qed simp

lemma keeps_stream_close [keeps_rules]: "keeps (grows s0) (stream_close ops tr t e r)"
  unfolding stream_close_def by (intro keeps_rules)

lemma keeps_resumed_close [keeps_rules]: "keeps (grows s0) (resumed_close ops tr t r)"
  unfolding resumed_close_def by (intro keeps_rules)

lemma keeps_close_failed [keeps_rules]: "keeps (grows s0) (close_failed_stream ops tr now rid e)"
  unfolding close_failed_stream_def finish_failed_def finish_cancelled_def by (intro keeps_rules)

lemma keeps_stream_except [keeps_rules]: "keeps (grows s0) (stream_except ops tr now r e)"
  unfolding stream_except_def by (intro keeps_rules)

lemma keeps_execute_stream:
  assumes "fresh_record r" and "evolving body"
  shows "keeps (grows s0) (execute_stream ops tr persist t enforce r body)"
  unfolding execute_stream_def stream_main_def
  by (intro keeps_rules evolving_keeps [OF assms(2)] assms(1))

text \<open>Closing an open run records how it ended; a closed one keeps its outcome.\<close>

lemma finish_as_effect:
  assumes "invar s" and "view s rid = Some r" and "st = FAILED \<or> st = CANCELLED"
  shows "view (snd (finish_as ops tr now rid st ft ev s)) rid =
     Some (if terminal (status r) then r else moved now st (Some ft) r)"
proof (cases "terminal (status r)")
  case False
  then have "allowed (status r) st" using assms(3) allowed_close by auto
  from transition_done [OF assms(1,2) this, of now "Some ft"] obtain s' where
    s': "op_transition ops now rid st (Some ft) s = (Inr (moved now st (Some ft) r), s')"
    "invar s'" "view s' = put_run (view s) rid (moved now st (Some ft) r)" by blast
  have "finish_as ops tr now rid st ft ev s = tr r ev (status_value st) None s'"
    using assms(2) False s'(1) by (simp add: finish_as_def bindM_def thenM_def get)
  with s' trace_frame [OF s'(2)] False show ?thesis by simp
qed (use assms in \<open>simp add: finish_as_def bindM_def get\<close>)

definition closing_status :: "exn \<Rightarrow> run_status" where
  "closing_status e = (if e = CancelledError \<or> e = GeneratorExit then CANCELLED else FAILED)"

definition closing_failure :: "exn \<Rightarrow> string" where
  "closing_failure e = (if e = TimeoutError then ''timeout''
     else if e = CancelledError \<or> e = GeneratorExit then ''cancelled'' else exn_name e)"

lemma close_failed_effect:
  assumes "invar s" and "view s rid = Some r"
  shows "view (snd (close_failed_stream ops tr now rid e s)) rid =
     Some (if terminal (status r) then r else moved now (closing_status e) (Some (closing_failure e)) r)"
proof -
  have "snd (close_failed_stream ops tr now rid e s) =
      snd (finish_as ops tr now rid (closing_status e) (closing_failure e)
        (if e = CancelledError \<or> e = GeneratorExit then ''run_cancelled'' else ''run_failed'') s)"
    by (simp add: close_failed_stream_def finish_failed_def finish_cancelled_def thenM_def bindM_def
        closing_status_def closing_failure_def split: prod.splits sum.splits)
  then show ?thesis using finish_as_effect [OF assms] by (simp add: closing_status_def)
qed

lemma close_failed_terminal:
  assumes "invar s" and "view s rid = Some r"
  shows "\<exists>r'. view (snd (close_failed_stream ops tr now rid e s)) rid = Some r' \<and> terminal (status r')"
  using close_failed_effect [OF assms] by (auto simp: closing_status_def TERMINAL_STATUSES_def)

lemma close_failed_raises: "fst (close_failed_stream ops tr now rid e s) \<noteq> Inr x"
  by (auto simp: close_failed_stream_def thenM_def bindM_def split: prod.splits sum.splits)

text \<open>A stream that ends normally leaves the run completed, or waiting for the user.\<close>

lemma transition_returned:
  assumes "invar s" and "op_transition ops now rid st ft s = (Inr x, s')"
  shows "\<exists>r. view s rid = Some r \<and> x = moved now st ft r \<and> invar s' \<and> view s' rid = Some x"
proof (cases "view s rid")
  case None then show ?thesis using assms by (simp add: transition_missing)
next
  case (Some r)
  then show ?thesis
    using assms transition_refused [OF Some, of st now ft] transition_done [OF assms(1) Some, of st now ft]
    by (cases "allowed (status r) st") auto
qed

lemma completing:
  assumes "invar s" and "grows s0 s" and "view s0 rid = Some r0"
    and "thenM (op_transition ops now rid COMPLETED None) k s = (Inr (), s')"
    and "\<And>s1. keeps (grows s1) k"
  shows "\<exists>r. view s' rid = Some r \<and> status r = COMPLETED"
proof -
  from assms(4) obtain x s1 where x: "op_transition ops now rid COMPLETED None s = (Inr x, s1)"
    "k s1 = (Inr (), s')" by (auto simp: thenM_def elim: bindM_InrE)
  from transition_returned [OF assms(1) x(1)] have "view s1 rid = Some x" "status x = COMPLETED"
    "invar s1" by auto
  moreover have "grows s1 s'"
    by (rule keeps_grows [OF assms(5) \<open>invar s1\<close> x(2)])
  ultimately show ?thesis
    using grows_terminal [of s1 s' rid x] by (auto simp: TERMINAL_STATUSES_def)
qed

lemma stream_close_returned:
  assumes "invar s" and "stream_close ops tr t e r s = (Inr (), s')"
    and "view s (run_id r) = Some c"
  shows "\<exists>r'. view s' (run_id r) = Some r' \<and> status r' \<in> {COMPLETED, NEEDS_CLARIFICATION}"
proof (cases "status c = NEEDS_CLARIFICATION")
  case True
  have "stream_close ops tr t e r s =
      tr r ''clarification_requested'' (status_value NEEDS_CLARIFICATION) None s"
    using assms True by (simp add: stream_close_def bindM_def get)
  then have "view s' = view s" using assms trace_frame [OF assms(1)] by (metis snd_conv)
  with assms True show ?thesis by auto
next
  case False
  define m where "m = (if e
      then if status c = GENERATING then enter_stages ops tr t r 4 closing_stages else ret ()
      else if status c \<noteq> VERIFYING
      then thenM (op_transition ops (t 4) (run_id r) VERIFYING None) (ret ()) else ret ())"
  define k where "k = thenM (tr r ''result_verified'' (status_value VERIFYING) None)
     (tr r ''run_completed'' (status_value COMPLETED) (Some (duration_ms (t 8) r)))"
  have "thenM m (thenM (op_transition ops (t 7) (run_id r) COMPLETED None) k) s = (Inr (), s')"
    using assms(2,3) False by (simp add: stream_close_def bindM_def get m_def k_def)
  then obtain s1 where s1: "m s = (Inr (), s1)"
    "thenM (op_transition ops (t 7) (run_id r) COMPLETED None) k s1 = (Inr (), s')"
    by (auto simp: thenM_def [of m] elim: bindM_InrE)
  have "keeps (grows s) m" unfolding m_def by (intro keeps_rules)
  then have g: "grows s s1" using assms(1) s1(1) by (rule keeps_grows)
  have "keeps (grows s2) k" for s2 unfolding k_def by (intro keeps_rules)
  from completing [OF grows_invar [OF g] g assms(3) s1(2) this] show ?thesis by auto
qed

lemma resumed_close_returned:
  assumes "invar s" and "resumed_close ops tr t r s = (Inr (), s')"
    and "view s (run_id r) = Some c"
  shows "\<exists>r'. view s' (run_id r) = Some r' \<and> status r' \<in> {COMPLETED, NEEDS_CLARIFICATION}"
proof (cases "status c = NEEDS_CLARIFICATION")
  case True
  with assms show ?thesis by (auto simp: resumed_close_def bindM_def get)
next
  case False
  define m where "m = (if status c = GENERATING then enter_stages ops tr t r 3 resumed_closing
      else if status c \<noteq> VERIFYING
      then thenM (op_transition ops (t 3) (run_id r) VERIFYING None) (ret ()) else ret ())"
  have "thenM m (thenM (op_transition ops (t 6) (run_id r) COMPLETED None) (ret ())) s = (Inr (), s')"
    using assms(2,3) False by (simp add: resumed_close_def bindM_def get m_def)
  then obtain s1 where s1: "m s = (Inr (), s1)"
    "thenM (op_transition ops (t 6) (run_id r) COMPLETED None) (ret ()) s1 = (Inr (), s')"
    by (auto simp: thenM_def [of m] elim: bindM_InrE)
  have "keeps (grows s) m" unfolding m_def by (intro keeps_rules)
  then have g: "grows s s1" using assms(1) s1(1) by (rule keeps_grows)
  from completing [OF grows_invar [OF g] g assms(3) s1(2)] show ?thesis by auto
qed

text \<open>After the agent's part, normal or not: the run is closed, unless the paused signal reached
the stream although the run was not waiting.\<close>

lemma stream_after_create:
  assumes "invar s" and "view s (run_id r) = Some r0" and "evolving body"
    and "catchM (thenM persist (thenM (tr r ev st d) (stream_main ops tr t enforce r body)))
        (stream_except ops tr now r) s = (res, s')"
  shows "\<exists>r'. view s' (run_id r) = Some r' \<and> evolves r0 r' \<and>
    (case res of Inr _ \<Rightarrow> status r' \<in> {COMPLETED, NEEDS_CLARIFICATION}
     | Inl e \<Rightarrow> terminal (status r') \<or> is_paused e)"
proof -
  define pre where "pre = thenM persist (thenM (tr r ev st d)
    (thenM (enter_stages ops tr t r 0 (if enforce then enforce_stages else shadow_stages)) body))"
  have m: "thenM persist (thenM (tr r ev st d) (stream_main ops tr t enforce r body)) =
      thenM pre (stream_close ops tr t enforce r)"
    by (simp add: stream_main_def thenM_def bindM_assoc pre_def)
  have kp: "keeps (grows s) pre" unfolding pre_def
    by (intro keeps_rules evolving_keeps [OF assms(3)])
  have all: "grows s s'"
  proof (rule keeps_grows)
    show "keeps (grows s) (catchM (thenM pre (stream_close ops tr t enforce r))
        (stream_except ops tr now r))" by (intro keeps_rules kp)
  qed (use assms(1,4) in \<open>simp_all add: m\<close>)
  then obtain r' where r': "view s' (run_id r) = Some r'" "evolves r0 r'"
    using assms(2) by (auto simp: grows_def)
  obtain x s1 where x: "thenM pre (stream_close ops tr t enforce r) s = (x, s1)" by fastforce
  have g1: "grows s s1"
  proof (rule keeps_grows)
    show "keeps (grows s) (thenM pre (stream_close ops tr t enforce r))" by (intro keeps_rules kp)
  qed (use assms(1) x in simp_all)
  then obtain r1 where r1: "view s1 (run_id r) = Some r1" using assms(2) by (auto simp: grows_def)
  show ?thesis
  proof (cases x)
    case (Inr u)
    then have res: "res = Inr ()" "s' = s1" using assms(4) x by (auto simp: m catchM_def)
    from x Inr obtain s2 where s2: "pre s = (Inr (), s2)" "stream_close ops tr t enforce r s2 = (Inr (), s1)"
      by (auto simp: thenM_def elim: bindM_InrE)
    have g2: "grows s s2" by (rule keeps_grows [OF kp assms(1) s2(1)])
    then obtain r2 where "view s2 (run_id r) = Some r2" using assms(2) by (auto simp: grows_def)
    from stream_close_returned [OF grows_invar [OF g2] s2(2) this] r' res show ?thesis by auto
  next
    case (Inl e)
    then have h: "stream_except ops tr now r e s1 = (res, s')" using assms(4) x by (simp add: m catchM_def)
    show ?thesis
    proof (cases "is_paused e")
      case False
      then have "close_failed_stream ops tr now (run_id r) e s1 = (res, s')"
        using h by (simp add: stream_except_def)
      with close_failed_terminal [OF grows_invar [OF g1] r1, of now e]
        close_failed_raises [of now "run_id r" e s1] r' show ?thesis
        by (auto split: sum.splits)
    next
      case True
      show ?thesis
      proof (cases "status r1 = NEEDS_CLARIFICATION")
        case False
        then have "res = Inl e" using h r1 True by (simp add: stream_except_def bindM_def get)
        with r' True show ?thesis by auto
      next
        case waiting: True
        then have "tr r ''clarification_requested'' (status_value NEEDS_CLARIFICATION) None s1 = (res, s')"
          using h r1 True by (simp add: stream_except_def bindM_def get)
        then have "view s' = view s1" using trace_frame [OF grows_invar [OF g1]] by (metis snd_conv)
        with r1 r' waiting show ?thesis by (auto simp: TERMINAL_STATUSES_def split: sum.splits)
      qed
    qed
  qed
qed

end

context harness_env
begin

theorem execute_stream_effect:
  assumes "invar s" and "view s (run_id r) = None" and "fresh_record r" and "evolving body"
    and "execute_stream ops tr persist t enforce r body s = (res, s')"
  shows "\<exists>r'. view s' (run_id r) = Some r' \<and> evolves r r' \<and>
    (case res of Inr _ \<Rightarrow> status r' \<in> {COMPLETED, NEEDS_CLARIFICATION}
     | Inl e \<Rightarrow> terminal (status r') \<or> is_paused e)"
proof -
  from create_new [OF assms(1,3,2)] obtain s1 where s1: "op_create ops r s = (Inr (), s1)"
    "invar s1" "view s1 = put_run (view s) (run_id r) r" by blast
  have "catchM (thenM persist (thenM (tr r ''request_received'' (status_value RECEIVED) None)
      (stream_main ops tr t enforce r body))) (stream_except ops tr (t 9) r) s1 = (res, s')"
    using assms(5) s1(1) by (simp add: execute_stream_def catchM_def thenM_def [of "op_create ops r"] bindM_def)
  from stream_after_create [OF s1(2) _ assms(4) this, of r] s1(3) show ?thesis by simp
qed

text \<open>The resumed stream, from a claimed child.\<close>

lemma execute_resumed_effect:
  assumes "invar s" and "view s (run_id r) = Some r0" and "evolving body"
    and "operation_kind r = READ_QUERY" and "status r = CONTEXT_BUILDING"
    and "execute_resumed_stream ops tr t r body s = (res, s')"
  shows "\<exists>r'. view s' (run_id r) = Some r' \<and> evolves r0 r' \<and>
    (case res of Inr _ \<Rightarrow> status r' \<in> {COMPLETED, NEEDS_CLARIFICATION} | Inl e \<Rightarrow> terminal (status r'))"
proof -
  define pre where "pre = thenM (enter_stages ops tr t r 0 resumed_stages) body"
  have m: "execute_resumed_stream ops tr t r body =
      catchM (thenM pre (resumed_close ops tr t r)) (close_failed_stream ops tr (t 7) (run_id r))"
    using assms(4,5) by (simp add: execute_resumed_stream_def thenM_def bindM_assoc pre_def)
  have kp: "keeps (grows s) pre" unfolding pre_def
    by (intro keeps_rules evolving_keeps [OF assms(3)])
  have "grows s s'"
  proof (rule keeps_grows)
    show "keeps (grows s) (catchM (thenM pre (resumed_close ops tr t r))
        (close_failed_stream ops tr (t 7) (run_id r)))" by (intro keeps_rules kp)
  qed (use assms(1,6) in \<open>simp_all add: m\<close>)
  then obtain r' where r': "view s' (run_id r) = Some r'" "evolves r0 r'"
    using assms(2) by (auto simp: grows_def)
  obtain x s1 where x: "thenM pre (resumed_close ops tr t r) s = (x, s1)" by fastforce
  have g1: "grows s s1"
  proof (rule keeps_grows)
    show "keeps (grows s) (thenM pre (resumed_close ops tr t r))" by (intro keeps_rules kp)
  qed (use assms(1) x in simp_all)
  then obtain r1 where r1: "view s1 (run_id r) = Some r1" using assms(2) by (auto simp: grows_def)
  show ?thesis
  proof (cases x)
    case (Inr u)
    then have res: "res = Inr ()" "s' = s1" using assms(6) x by (auto simp: m catchM_def)
    from x Inr obtain s2 where s2: "pre s = (Inr (), s2)" "resumed_close ops tr t r s2 = (Inr (), s1)"
      by (auto simp: thenM_def elim: bindM_InrE)
    have g2: "grows s s2" by (rule keeps_grows [OF kp assms(1) s2(1)])
    then obtain r2 where "view s2 (run_id r) = Some r2" using assms(2) by (auto simp: grows_def)
    from resumed_close_returned [OF grows_invar [OF g2] s2(2) this] r' res show ?thesis by auto
  next
    case (Inl e)
    then have "close_failed_stream ops tr (t 7) (run_id r) e s1 = (res, s')"
      using assms(6) x by (simp add: m catchM_def)
    with close_failed_terminal [OF grows_invar [OF g1] r1, of "t 7" e]
      close_failed_raises [of "t 7" "run_id r" e s1] r' show ?thesis
      by (auto split: sum.splits)
  qed
qed

end

subsection \<open>The tool loop of an agent\<close>

text \<open>
  What an agent does with the hooks of one run: it asks before a tool call, reports after one, and
  in between anything that lets the runs evolve may happen. \<open>tool_loop\<close> counts the calls that
  were let through, whatever the agent does with the errors of the hooks.
\<close>

datatype 's tool_event =
    Ask "nat \<Rightarrow> time"
  | Report "nat \<Rightarrow> time" bool bool "string option"
  | Meanwhile "'s \<Rightarrow> 's"

fun tool_loop ::
  "'s run_ops \<Rightarrow> harness_budget \<Rightarrow> string \<Rightarrow> 's tool_event list \<Rightarrow> 's \<Rightarrow> int \<times> 's" where
  "tool_loop ops b rid [] s = (0, s)"
| "tool_loop ops b rid (Ask t # es) s =
     (case before_tool ops b t (Some rid) s of
        (Inl _, s') \<Rightarrow> tool_loop ops b rid es s'
      | (Inr _, s') \<Rightarrow> (case tool_loop ops b rid es s' of (n, s'') \<Rightarrow> (n + 1, s'')))"
| "tool_loop ops b rid (Report t enforce ok err # es) s =
     tool_loop ops b rid es (snd (after_tool ops b enforce t (Some rid) ok err s))"
| "tool_loop ops b rid (Meanwhile f # es) s = tool_loop ops b rid es (f s)"

context run_store_contract
begin

lemma tool_loop_bound:
  assumes "invar s" and "view s rid = Some r"
    and "\<And>f s. Meanwhile f \<in> set es \<Longrightarrow> invar s \<Longrightarrow> grows s (f s)"
  shows "fst (tool_loop ops b rid es s) \<le> max 0 (max_tool_calls b - tool_call_count r)"
  using assms
proof (induction es arbitrary: s r)
  case (Cons ev es)
  have step: "fst (tool_loop ops b rid es s1) \<le> max 0 (max_tool_calls b - tool_call_count r)"
    if "grows s s1" for s1
  proof -
    from that Cons.prems(2) obtain r1 where r1: "view s1 rid = Some r1" "evolves r r1"
      by (auto simp: grows_def)
    have "fst (tool_loop ops b rid es s1) \<le> max 0 (max_tool_calls b - tool_call_count r1)"
      by (rule Cons.IH [OF grows_invar [OF that] r1(1)]) (use Cons.prems(3) in simp)
    moreover have "tool_call_count r \<le> tool_call_count r1" using r1(2) by (simp add: evolves_def)
    ultimately show ?thesis by linarith
  qed
  show ?case
  proof (cases ev)
    case (Ask t)
    obtain x s1 where x: "before_tool ops b t (Some rid) s = (x, s1)" by fastforce
    have g: "grows s s1" by (rule keeps_grows [OF keeps_before_tool Cons.prems(1) x])
    show ?thesis
    proof (cases x)
      case (Inr u)
      from before_tool_passes [OF Cons.prems(1,2), of b t s1] x Inr obtain r1 where
        r1: "view s1 rid = Some r1" "tool_call_count r1 = tool_call_count r + 1"
        "tool_call_count r + 1 \<le> max_tool_calls b" by auto
      have "fst (tool_loop ops b rid es s1) \<le> max 0 (max_tool_calls b - tool_call_count r1)"
        by (rule Cons.IH [OF grows_invar [OF g] r1(1)]) (use Cons.prems(3) in simp)
      with r1 x Inr Ask show ?thesis by (cases "tool_loop ops b rid es s1") simp
    qed (use step [OF g] x Ask in simp)
  next
    case (Report t e ok err)
    have "grows s (snd (after_tool ops b e t (Some rid) ok err s))"
      using keepsD [OF keeps_after_tool grows_refl [OF Cons.prems(1)]] .
    then show ?thesis using step Report by simp
  next
    case (Meanwhile f)
    then show ?thesis using step Cons.prems by simp
  qed
qed simp

end

subsection \<open>The deployed harness\<close>

text \<open>The state behind one process: the runs, the trace, the rollout decisions.\<close>

record harness_state =
  h_runs :: run_store
  h_trace :: "trace_table traced"
  h_rollout :: rollout_store

definition on_runs :: "(run_store, 'a) py \<Rightarrow> (harness_state, 'a) py" where
  "on_runs m s = (case m (h_runs s) of (x, rs) \<Rightarrow> (x, s\<lparr>h_runs := rs\<rparr>))"

definition harness_ops :: "harness_state run_ops" where
  "harness_ops = \<lparr>op_create = \<lambda>r. on_runs (run_create r),
     op_transition = \<lambda>now rid st ft. on_runs (run_transition now rid st ft),
     op_get = \<lambda>rid. on_runs (run_get rid),
     op_increment_tool_calls = \<lambda>now rid. on_runs (increment_tool_calls now rid),
     op_increment_retries = \<lambda>now rid. on_runs (increment_retries now rid)\<rparr>"

definition harness_view :: "harness_state \<Rightarrow> string \<Rightarrow> run_record option" where
  "harness_view s = memory_view (h_runs s)"

definition harness_invar :: "harness_state \<Rightarrow> bool" where
  "harness_invar s = store_ok (h_runs s)"

text \<open>\<open>_trace\<close> with its service, or without one; \<open>now\<close> is the reading of the event.\<close>

definition harness_tracer ::
  "(float_text \<times> trace_config) option \<Rightarrow> rollout_decision option \<Rightarrow> string \<Rightarrow> time \<Rightarrow>
   harness_state tracer" where
  "harness_tracer service decision mode now r ev st d s =
     (case service of
        None \<Rightarrow> (Inr (), s)
      | Some (ft, c) \<Rightarrow>
          (case trace_append trace_pg_ops ft c decision now (run_id r) ev
             (trace_attrs decision mode r st d) (h_trace s) of
             (Inl e, tr) \<Rightarrow> (Inl e, s\<lparr>h_trace := tr\<rparr>)
           | (Inr _, tr) \<Rightarrow> (Inr (), s\<lparr>h_trace := tr\<rparr>)))"

text \<open>\<open>if decision is not None and self.rollout_service is not None\<close>.\<close>

definition harness_persist ::
  "bool \<Rightarrow> rollout_decision option \<Rightarrow> string \<Rightarrow> (harness_state, unit) py" where
  "harness_persist service decision rid s =
     (case decision of
        None \<Rightarrow> (Inr (), s)
      | Some d \<Rightarrow>
          if service then (case persist_decision rid d (h_rollout s) of
            (x, ro) \<Rightarrow> (x, s\<lparr>h_rollout := ro\<rparr>)) else (Inr (), s))"

interpretation host: run_store_contract harness_ops harness_view harness_invar
proof (unfold_locales, goal_cases)
  case (3 s r)
  with memory.create_new [of "h_runs s" r] show ?case
    by (auto simp: harness_ops_def on_runs_def harness_view_def harness_invar_def)
next
  case (4 s r)
  with memory.create_taken [of "h_runs s" r] show ?case
    by (auto simp: harness_ops_def on_runs_def harness_view_def)
next
  case (7 s rid r st now ft)
  with memory.transition_done [of "h_runs s" rid r st now ft] show ?case
    by (auto simp: harness_ops_def on_runs_def harness_view_def harness_invar_def)
next
  case (9 s rid r now)
  with memory.calls_done [of "h_runs s" rid r now] show ?case
    by (auto simp: harness_ops_def on_runs_def harness_view_def harness_invar_def)
next
  case (11 s rid r now)
  with memory.retries_done [of "h_runs s" rid r now] show ?case
    by (auto simp: harness_ops_def on_runs_def harness_view_def harness_invar_def)
qed (simp_all add: harness_ops_def on_runs_def harness_view_def harness_invar_def
    memory.get [simplified] memory.view_run_id memory.transition_missing [simplified]
    memory.transition_refused [simplified] memory.calls_missing [simplified]
    memory.retries_missing [simplified])

interpretation served: harness_env harness_ops harness_view harness_invar
  "harness_tracer service decision mode now" "harness_persist rollout decision rid"
  for service decision mode now rollout rid
  by unfold_locales
    (simp_all add: harness_tracer_def harness_persist_def harness_view_def harness_invar_def
      persist_decision_def split: option.splits prod.splits sum.splits)

text \<open>Anything done to the runs through the methods of their store lets them evolve.\<close>

lemma store_steps_grow:
  assumes "harness_invar s" and "store_step\<^sup>*\<^sup>* (h_runs s) (h_runs s')"
  shows "host.grows s s'"
  using store_steps_evolve [OF assms(2)] assms(1)
  by (auto simp: host.grows_def harness_invar_def harness_view_def memory_view_def store_evolves_def)

lemma store_steps_evolving:
  "(\<And>s. store_step\<^sup>*\<^sup>* (h_runs s) (h_runs (snd (body s)))) \<Longrightarrow> host.evolving body"
  using store_steps_grow by (auto simp: host.evolving_def)

subsection \<open>Properties\<close>


text \<open>C15. However an agent interleaves tool calls with anything else that happens to the runs, the
hooks of a run let through at most the budgeted number of tool calls, counted over the whole life
of the run.\<close>

theorem tool_budget_enforced:
  assumes "store_ok rs" and "map_of (records rs) rid = Some r"
    and "\<And>f x. Meanwhile f \<in> set es \<Longrightarrow> store_step\<^sup>*\<^sup>* x (f x)"
  shows "fst (tool_loop memory_ops b rid es rs) \<le> max 0 (max_tool_calls b - tool_call_count r)"
proof (rule memory.tool_loop_bound [OF assms(1)])
  show "memory_view rs rid = Some r" using assms(2) by (simp add: memory_view_def)
  show "memory.grows s (f s)" if "Meanwhile f \<in> set es" "store_ok s" for f s
    using store_steps_evolve [OF assms(3) [OF that(1)] that(2)]
    by (auto simp: memory.grows_def memory_view_def store_evolves_def)
qed

text \<open>A pause signal that reaches a resumed stream is not the clean stop it is for a first
request: the waiting run keeps its state, but the signal is raised to the caller.\<close>

theorem resumed_stream_raises_pause:
  assumes "store_ok (h_runs s)" and "map_of (records (h_runs s)) (run_id r) = Some r"
    and "operation_kind r = READ_QUERY" and "status r = CONTEXT_BUILDING"
    and "\<And>s r0. store_ok (h_runs s) \<Longrightarrow> map_of (records (h_runs s)) (run_id r) = Some r0 \<Longrightarrow>
      status r0 = GENERATING \<Longrightarrow>
      \<exists>s' r'. body s = (Inl (HarnessPausedForClarification m), s') \<and> store_ok (h_runs s') \<and>
        map_of (records (h_runs s')) (run_id r) = Some r' \<and> status r' = NEEDS_CLARIFICATION"
  shows "\<exists>s' r'. execute_resumed_stream harness_ops (harness_tracer None None mode now) t r body s =
      (Inl (HarnessPausedForClarification m), s') \<and>
    map_of (records (h_runs s')) (run_id r) = Some r' \<and> status r' = NEEDS_CLARIFICATION"
proof -
  have v: "harness_view s (run_id r) = Some r" "harness_invar s"
    using assms(1,2) by (simp_all add: harness_invar_def harness_view_def memory_view_def)
  let ?r1 = "moved (t 0) LINKING None r" and ?r2 = "moved (t 1) PLANNING None (moved (t 0) LINKING None r)"
  have al: "allowed (status r) LINKING" "allowed (status ?r1) PLANNING" "allowed (status ?r2) GENERATING"
    using assms(4) by (simp_all add: ALLOWED_TRANSITIONS.simps)
  from host.transition_done [OF v(2,1) al(1), of "t 0" None] obtain s1 where s1:
    "op_transition harness_ops (t 0) (run_id r) LINKING None s = (Inr ?r1, s1)" "harness_invar s1"
    "harness_view s1 = put_run (harness_view s) (run_id r) ?r1" by blast
  from host.transition_done [OF s1(2) _ al(2), of "run_id r" "t 1" None] s1(3) obtain s2 where s2:
    "op_transition harness_ops (t 1) (run_id r) PLANNING None s1 = (Inr ?r2, s2)" "harness_invar s2"
    "harness_view s2 = put_run (harness_view s1) (run_id r) ?r2" by auto
  from host.transition_done [OF s2(2) _ al(3), of "run_id r" "t 2" None] s2(3) obtain s3 where s3:
    "op_transition harness_ops (t 2) (run_id r) GENERATING None s2 = (Inr (moved (t 2) GENERATING None ?r2), s3)"
    "harness_invar s3" "harness_view s3 = put_run (harness_view s2) (run_id r) (moved (t 2) GENERATING None ?r2)"
    by auto
  have "map_of (records (h_runs s3)) (run_id r) = Some (moved (t 2) GENERATING None ?r2)"
    using fun_cong [OF s3(3), of "run_id r"] by (simp add: harness_view_def memory_view_def)
  from assms(5) [OF _ this] s3(2) obtain s4 r4 where s4: "body s3 = (Inl (HarnessPausedForClarification m), s4)"
    "store_ok (h_runs s4)" "map_of (records (h_runs s4)) (run_id r) = Some r4"
    "status r4 = NEEDS_CLARIFICATION" by (auto simp: harness_invar_def)
  have f: "op_get harness_ops (run_id r) s4 = (Inr (Some r4), s4)"
    using s4(3) by (simp add: host.get harness_view_def memory_view_def)
  have "execute_resumed_stream harness_ops (harness_tracer None None mode now) t r body s =
      close_failed_stream harness_ops (harness_tracer None None mode now) (t 7) (run_id r)
        (HarnessPausedForClarification m) s4"
    using assms(3,4) s1(1) s2(1) s3(1) s4(1)
    by (simp add: execute_resumed_stream_def catchM_def thenM_def bindM_def resumed_stages_def
        numeral_2_eq_2)
  also have "\<dots> = (Inl (HarnessPausedForClarification m), s4)"
    using f s4(4) by (simp add: close_failed_stream_def finish_failed_def finish_as_def thenM_def
        bindM_def TERMINAL_STATUSES_def)
  finally show ?thesis using s4(3,4) by blast
qed

subsection \<open>Concrete runs\<close>

definition sample_host :: "run_store \<Rightarrow> harness_state" where
  "sample_host rs = \<lparr>h_runs = rs, h_trace = \<lparr>trace_db = empty_trace_table [''r1''], trace_metrics = []\<rparr>,
     h_rollout = sample_rollout\<rparr>"

text \<open>An agent that makes one tool call, and one that asks the user and stops.\<close>

definition calling_body :: "(harness_state, unit) py" where
  "calling_body = before_tool harness_ops default_budget (\<lambda>i. 3 + int i) (Some ''r1'')"

definition pausing_body :: "(harness_state, unit) py" where
  "pausing_body = thenM (op_transition harness_ops 5 ''r1'' NEEDS_CLARIFICATION None)
     (raise (HarnessPausedForClarification ''run is waiting for clarification''))"

lemma on_runs_step:
  "(\<And>rs. store_step\<^sup>*\<^sup>* rs (snd (m rs))) \<Longrightarrow> store_step\<^sup>*\<^sup>* (h_runs s) (h_runs (snd (on_runs m s)))"
  by (simp add: on_runs_def split: prod.splits) (metis snd_conv)

lemma keeps_store_steps: "keeps (\<lambda>s'. store_step\<^sup>*\<^sup>* (h_runs s) (h_runs s')) (on_runs m)"
  if "\<And>rs. store_step\<^sup>*\<^sup>* rs (snd (m rs))"
  using that on_runs_step by (auto simp: keeps_def intro: rtranclp_trans)

lemma calling_body_steps: "store_step\<^sup>*\<^sup>* (h_runs s) (h_runs (snd (calling_body s)))"
proof -
  have "keeps (\<lambda>s'. store_step\<^sup>*\<^sup>* (h_runs s) (h_runs s')) calling_body"
    unfolding calling_body_def before_tool_def harness_ops_def run_ops.simps
    by (intro keeps_rules keeps_store_steps)
      (auto simp: run_get_def intro: store_step.intros)
  then show ?thesis by (rule keepsD) simp
qed


theorem tool_budget_enforced_witness:
  "fst (tool_loop memory_ops default_budget ''r1'' (replicate 20 (Ask (\<lambda>i. int i))) sample_runs) \<le> 8"
  using tool_budget_enforced [OF sample_runs_ok sample_runs_record,
      of "replicate 20 (Ask (\<lambda>i. int i))" default_budget]
  by (simp add: default_budget_def sample_run_def)

lemma pausing_body_pauses:
  assumes "store_ok (h_runs s)" and "map_of (records (h_runs s)) ''r1'' = Some r0"
    and "status r0 = GENERATING"
  shows "\<exists>s' r'. pausing_body s =
      (Inl (HarnessPausedForClarification ''run is waiting for clarification''), s') \<and>
    store_ok (h_runs s') \<and> map_of (records (h_runs s')) ''r1'' = Some r' \<and>
    status r' = NEEDS_CLARIFICATION"
proof -
  have "harness_invar s" "harness_view s ''r1'' = Some r0" "allowed (status r0) NEEDS_CLARIFICATION"
    using assms by (simp_all add: harness_invar_def harness_view_def memory_view_def
        ALLOWED_TRANSITIONS.simps)
  from host.transition_done [OF this, of 5 None] show ?thesis
    by (auto simp: pausing_body_def thenM_def bindM_def harness_invar_def harness_view_def
        memory_view_def dest!: fun_cong [of _ _ "''r1''"])
qed

theorem resumed_stream_raises_pause_witness:
  "\<exists>s' r'. execute_resumed_stream harness_ops (harness_tracer None None ''enforce'' 0) (\<lambda>i. int i)
      (moved 1 CONTEXT_BUILDING None sample_run) pausing_body (sample_host sample_runs) =
      (Inl (HarnessPausedForClarification ''run is waiting for clarification''), s') \<and>
    map_of (records (h_runs s')) ''r1'' = Some r' \<and> status r' = NEEDS_CLARIFICATION"
  using resumed_stream_raises_pause [of "sample_host sample_runs"
      "moved 1 CONTEXT_BUILDING None sample_run" pausing_body
      "''run is waiting for clarification''" "''enforce''" 0 "\<lambda>i. int i"]
    sample_runs_ok sample_runs_record pausing_body_pauses
  by (simp add: sample_host_def sample_run_def)

end
