(* ===== verification/Unicode_Text.thy ===== *)
theory Unicode_Text
  imports Sha256
begin

section \<open>Text beyond 8-bit characters\<close>

text \<open>
  The questions of the users are Chinese, and several parts of the service look for Chinese phrases in
  them. Where it matters, a Python string is a \<open>utext\<close>: the list of its code points. Most of the development
  needs no such text and uses HOL strings.
\<close>

type_synonym utext = "nat list"

definition text_of_string :: "string \<Rightarrow> utext" where
  "text_of_string s = map of_char s"

text \<open>\<open>needle in hay\<close>.\<close>

fun occurs :: "'a list \<Rightarrow> 'a list \<Rightarrow> bool" where
  "occurs needle [] = (needle = [])"
| "occurs needle (c # cs) = (take (length needle) (c # cs) = needle \<or> occurs needle cs)"

lemma take_prefix: "take (length p) s = p \<longleftrightarrow> (\<exists>b. s = p @ b)"
  by (metis append_take_drop_id append_eq_conv_conj)

lemma occurs_iff: "occurs needle s \<longleftrightarrow> (\<exists>a b. s = a @ needle @ b)"
proof
  assume "occurs needle s"
  then show "\<exists>a b. s = a @ needle @ b"
  proof (induction s)
    case (Cons c s)
    then show ?case by (auto simp: take_prefix simp del: take_Suc_Cons) (metis append_Cons append_Nil)+
  qed simp
next
  assume "\<exists>a b. s = a @ needle @ b"
  then obtain a b where "s = a @ needle @ b" by blast
  then show "occurs needle s"
  proof (induction a arbitrary: s)
    case Nil
    have "take (length needle) s = needle" using Nil by simp
    then show ?case by (cases s) (simp_all del: take_Suc_Cons)
  qed simp
qed

text \<open>\<open>any(p in s for p in phrases)\<close>, and \<open>re.search\<close> for one of the left phrases followed by one of the
right ones.\<close>

definition any_of :: "utext list \<Rightarrow> utext \<Rightarrow> bool" where
  "any_of phrases s \<longleftrightarrow> list_ex (\<lambda>p. occurs p s) phrases"

definition found_pair :: "utext list \<Rightarrow> utext list \<Rightarrow> utext \<Rightarrow> bool" where
  "found_pair lefts rights s \<longleftrightarrow> list_ex (\<lambda>p. list_ex (\<lambda>q. occurs (p @ q) s) rights) lefts"

lemma found_pair_iff:
  "found_pair lefts rights s \<longleftrightarrow> (\<exists>a p q b. p \<in> set lefts \<and> q \<in> set rights \<and> s = a @ p @ q @ b)"
  by (auto simp: found_pair_def list_ex_iff occurs_iff)

text \<open>\<open>sep.join(parts)\<close>.\<close>

fun joined :: "utext \<Rightarrow> utext list \<Rightarrow> utext" where
  "joined sep [] = []"
| "joined sep [x] = x"
| "joined sep (x # y # ys) = x @ sep @ joined sep (y # ys)"

text \<open>The characters that \<open>str.isspace\<close> accepts, \<open>str.strip\<close>, and \<open>str.lower\<close> on the letters of ASCII.\<close>

definition space_point :: "nat \<Rightarrow> bool" where
  "space_point n \<longleftrightarrow> n \<in> set [9, 10, 11, 12, 13, 28, 29, 30, 31, 32, 133, 160, 5760, 8232, 8233, 8239, 8287, 12288] \<or>
     8192 \<le> n \<and> n \<le> 8202"

definition strip_text :: "utext \<Rightarrow> utext" where
  "strip_text s = rev (dropWhile space_point (rev (dropWhile space_point s)))"

definition ascii_lower :: "utext \<Rightarrow> utext" where
  "ascii_lower s = map (\<lambda>n. if 65 \<le> n \<and> n \<le> 90 then n + 32 else n) s"

text \<open>\<open>str.encode("utf-8")\<close>.\<close>

definition utf8_point :: "nat \<Rightarrow> byte list" where
  "utf8_point n =
     (if n < 128 then [n]
      else if n < 2048 then [192 + n div 64, 128 + n mod 64]
      else if n < 65536 then [224 + n div 4096, 128 + n div 64 mod 64, 128 + n mod 64]
      else [240 + n div 262144, 128 + n div 4096 mod 64, 128 + n div 64 mod 64, 128 + n mod 64])"

definition utf8_text :: "utext \<Rightarrow> byte list" where
  "utf8_text s = concat (map utf8_point s)"

definition text_sha256 :: "utext \<Rightarrow> string" where
  "text_sha256 s = hexlify (sha_digest (utf8_text s))"

lemma utf8_text_of_string: "utf8_text (text_of_string s) = utf8_encode s"
proof -
  have "utf8_point (of_char c) = utf8_char c" for c
  proof -
    have "(of_char c :: nat) < 256" by (rule of_char_less_256)
    then have "(of_char c :: nat) < 2048" "(of_char c :: nat) < 65536" by linarith+
    then show ?thesis by (simp add: utf8_point_def utf8_char_def Let_def)
  qed
  then show ?thesis by (simp add: utf8_text_def utf8_encode_def text_of_string_def comp_def)
qed

text \<open>On texts that HOL strings hold, the two hashes agree.\<close>

lemma text_sha256_of_string: "text_sha256 (text_of_string s) = sha256_hex s"
  by (simp add: text_sha256_def sha256_hex_def utf8_text_of_string)

end
