(* ===== verification/Context_Compiler.thy ===== *)
theory Context_Compiler
  imports Py_Float Numbered_Rows Unicode_Text "HOL-Library.Multiset"
begin

section \<open>The context compiler\<close>

text \<open>
  \<open>agent-service/app/context_v2\<close>: context items, sections and manifests (\<open>models.py\<close>), the
  deterministic compiler that admits items under a token budget (\<open>compiler.py\<close>), the compactor's
  versioning (\<open>conversation.py\<close>), and the manifest stores (\<open>store.py\<close>). The token estimator and
  the partition ratios are parameters of the class and of the model; the clock is read once per
  item and pass, \<open>t i\<close> is the \<open>i\<close>-th reading.
\<close>

subsection \<open>Models\<close>

datatype context_partition =
    SAFETY | AUTH | REQUEST | PLAN | EVIDENCE | GROUNDING | MEMORY | CONVERSATION | SUMMARY | EXAMPLE

fun partition_value :: "context_partition \<Rightarrow> string" where
  "partition_value SAFETY = ''safety''"
| "partition_value AUTH = ''auth''"
| "partition_value REQUEST = ''request''"
| "partition_value PLAN = ''plan''"
| "partition_value EVIDENCE = ''evidence''"
| "partition_value GROUNDING = ''grounding''"
| "partition_value MEMORY = ''memory''"
| "partition_value CONVERSATION = ''conversation''"
| "partition_value SUMMARY = ''summary''"
| "partition_value EXAMPLE = ''example''"

definition PARTITION_ORDER :: "context_partition list" where
  "PARTITION_ORDER = [SAFETY, AUTH, REQUEST, PLAN, EVIDENCE, GROUNDING, MEMORY, CONVERSATION,
     SUMMARY, EXAMPLE]"

record context_item =
  item_id :: string
  part :: context_partition
  item_content :: string
  source_id :: string
  item_source_hash :: string
  trust_level :: string
  priority :: int
  mandatory :: bool
  item_expires_at :: "time option"

definition has_provenance :: "context_item \<Rightarrow> bool" where
  "has_provenance e \<longleftrightarrow> strip (source_id e) \<noteq> [] \<and> strip (item_source_hash e) \<noteq> []"

definition is_expired :: "time \<Rightarrow> context_item \<Rightarrow> bool" where
  "is_expired now e \<longleftrightarrow> (case item_expires_at e of None \<Rightarrow> False | Some x \<Rightarrow> x \<le> now)"

record manifest_item =
  mi_id :: string
  mi_part :: context_partition
  mi_source_id :: string
  mi_source_hash :: string
  mi_trust_level :: string
  token_count :: int
  mi_mandatory :: bool

record pruned_item =
  pr_id :: string
  pr_part :: context_partition
  pr_reason :: string
  estimated_tokens :: int

record context_section =
  sec_part :: context_partition
  sec_content :: string
  sec_item_ids :: "string list"

record context_manifest =
  man_run_id :: string
  policy_version :: string
  man_mode :: string
  total_token_budget :: int
  actual_tokens :: int
  partition_budgets :: "(string, int) dict"
  partition_usage :: "(string, int) dict"
  included_items :: "manifest_item list"
  pruned_items :: "pruned_item list"
  man_created_at :: time

definition provenance_coverage :: "context_manifest \<Rightarrow> pyfloat option" where
  "provenance_coverage m =
     (if included_items m = [] then None
      else Some (fdiv (of_nat (length (filter (\<lambda>e. mi_source_id e \<noteq> [] \<and> mi_source_hash e \<noteq> [])
             (included_items m)))) (of_nat (length (included_items m)))))"

record compiled_context =
  sections :: "context_section list"
  manifest :: context_manifest

definition context_prompt :: "compiled_context \<Rightarrow> string" where
  "context_prompt c = join_with [CHR 0x0A, CHR 0x0A] (map (\<lambda>sec.
     ''<context partition='' @ [CHR 0x22] @ partition_value (sec_part sec) @ [CHR 0x22] @ ''>'' @
     [CHR 0x0A] @ sec_content sec @ [CHR 0x0A] @ ''</context>'') (sections c))"

subsection \<open>The compiler\<close>

fun DEFAULT_PARTITION_RATIOS :: "context_partition \<Rightarrow> pyfloat" where
  "DEFAULT_PARTITION_RATIOS SAFETY = fl (10 / 100)"
| "DEFAULT_PARTITION_RATIOS AUTH = fl (5 / 100)"
| "DEFAULT_PARTITION_RATIOS REQUEST = fl (10 / 100)"
| "DEFAULT_PARTITION_RATIOS PLAN = fl (5 / 100)"
| "DEFAULT_PARTITION_RATIOS GROUNDING = fl (30 / 100)"
| "DEFAULT_PARTITION_RATIOS EVIDENCE = fl (20 / 100)"
| "DEFAULT_PARTITION_RATIOS CONVERSATION = fl (6 / 100)"
| "DEFAULT_PARTITION_RATIOS SUMMARY = fl (4 / 100)"
| "DEFAULT_PARTITION_RATIOS MEMORY = fl (5 / 100)"
| "DEFAULT_PARTITION_RATIOS EXAMPLE = fl (5 / 100)"

definition estimate_tokens :: "string \<Rightarrow> int" where
  "estimate_tokens content = max 1 ((int (length content) + 3) div 4)"

record compiler_config =
  cc_policy_version :: string
  token_estimator :: "string \<Rightarrow> int"
  partition_ratios :: "context_partition \<Rightarrow> pyfloat"

definition default_compiler :: compiler_config where
  "default_compiler = \<lparr>cc_policy_version = ''context-v2.0'', token_estimator = estimate_tokens,
     partition_ratios = DEFAULT_PARTITION_RATIOS\<rparr>"

text \<open>\<open>{partition: index}\<close>.\<close>

fun index_of :: "'a \<Rightarrow> 'a list \<Rightarrow> nat" where
  "index_of x [] = 0"
| "index_of x (y # ys) = (if x = y then 0 else Suc (index_of x ys))"

definition order_key :: "context_item \<Rightarrow> nat \<times> int \<times> string" where
  "order_key e = (index_of (part e) PARTITION_ORDER, - priority e, item_id e)"

definition ordered_items :: "context_item list \<Rightarrow> context_item list" where
  "ordered_items items = sort_key order_key items"

definition tokens_of :: "compiler_config \<Rightarrow> context_item \<Rightarrow> int" where
  "tokens_of c e = token_estimator c (item_content e)"

definition budget_of :: "compiler_config \<Rightarrow> int \<Rightarrow> context_partition \<Rightarrow> int" where
  "budget_of c cap p = py_int (fmul (fl (of_int cap)) (partition_ratios c p))"

text \<open>The sum over the mandatory items that can be used; item \<open>i\<close> is tested at \<open>t i\<close>.\<close>

definition mandatory_tokens :: "compiler_config \<Rightarrow> (nat \<Rightarrow> time) \<Rightarrow> context_item list \<Rightarrow> int" where
  "mandatory_tokens c t ordered = (\<Sum>(i, e) \<leftarrow> enumerate 0 ordered.
     if mandatory e \<and> has_provenance e \<and> \<not> is_expired (t i) e then tokens_of c e else 0)"

definition prune :: "compiler_config \<Rightarrow> string \<Rightarrow> context_item \<Rightarrow> pruned_item" where
  "prune c why e = \<lparr>pr_id = item_id e, pr_part = part e, pr_reason = why,
     estimated_tokens = tokens_of c e\<rparr>"

text \<open>The validity pass: the usable items and the pruned ones, from item \<open>i\<close> on.\<close>

fun validate_items ::
  "compiler_config \<Rightarrow> bool \<Rightarrow> (nat \<Rightarrow> time) \<Rightarrow> nat \<Rightarrow> context_item list \<Rightarrow>
   exn + (context_item list \<times> pruned_item list)" where
  "validate_items c enforce t i [] = Inr ([], [])"
| "validate_items c enforce t i (e # es) =
     (if \<not> has_provenance e then
        (if mandatory e \<and> enforce
         then Inl (ContextCompilationError (''mandatory context item lacks provenance: '' @ item_id e))
         else case validate_items c enforce t (i + 1) es of
                Inl x \<Rightarrow> Inl x
              | Inr (vs, ps) \<Rightarrow> Inr (vs, prune c ''missing_provenance'' e # ps))
      else case validate_items c enforce t (i + 1) es of
             Inl x \<Rightarrow> Inl x
           | Inr (vs, ps) \<Rightarrow>
               if is_expired (t i) e then Inr (vs, prune c ''expired'' e # ps)
               else Inr (e # vs, ps))"

text \<open>The admission pass; \<open>usage\<close> is what each partition holds, \<open>used\<close> the running total.\<close>

fun admit ::
  "compiler_config \<Rightarrow> int \<Rightarrow> context_item list \<Rightarrow> (context_partition \<Rightarrow> int) \<Rightarrow> int \<Rightarrow>
   context_item list \<times> pruned_item list \<times> (context_partition \<Rightarrow> int) \<times> int" where
  "admit c cap [] usage used = ([], [], usage, used)"
| "admit c cap (e # es) usage used =
     (let tokens = tokens_of c e;
          exceeds_partition = budget_of c cap (part e) < usage (part e) + tokens;
          exceeds_total = cap < used + tokens
      in if \<not> mandatory e \<and> (exceeds_partition \<or> exceeds_total) then
           (case admit c cap es usage used of (is, ps, u, n) \<Rightarrow>
              (is, prune c (if exceeds_partition then ''partition_budget_exceeded''
                            else ''total_budget_exceeded'') e # ps, u, n))
         else
           (case admit c cap es (usage(part e := usage (part e) + tokens)) (used + tokens) of
              (is, ps, u, n) \<Rightarrow> (e # is, ps, u, n)))"

definition admission_order :: "context_item list \<Rightarrow> context_item list" where
  "admission_order valid = filter mandatory valid @ filter (\<lambda>e. \<not> mandatory e) valid"

definition make_sections :: "context_item list \<Rightarrow> context_section list" where
  "make_sections included =
     map (\<lambda>p. let entries = filter (\<lambda>e. part e = p) included
              in \<lparr>sec_part = p, sec_content = join_with [CHR 0x0A] (map item_content entries),
                  sec_item_ids = map item_id entries\<rparr>)
       (filter (\<lambda>p. filter (\<lambda>e. part e = p) included \<noteq> []) PARTITION_ORDER)"

definition to_manifest_item :: "compiler_config \<Rightarrow> context_item \<Rightarrow> manifest_item" where
  "to_manifest_item c e = \<lparr>mi_id = item_id e, mi_part = part e, mi_source_id = source_id e,
     mi_source_hash = item_source_hash e, mi_trust_level = trust_level e,
     token_count = tokens_of c e, mi_mandatory = mandatory e\<rparr>"

definition compile_context ::
  "compiler_config \<Rightarrow> (nat \<Rightarrow> time) \<Rightarrow> time \<Rightarrow> string \<Rightarrow> context_item list \<Rightarrow> int \<Rightarrow> string \<Rightarrow>
   exn + compiled_context" where
  "compile_context c t created rid items cap mode =
     (if mode \<notin> set [''off'', ''shadow'', ''enforce'']
      then Inl (ValueError ''mode must be off, shadow, or enforce'')
      else if cap < 1 then Inl (ValueError ''total_token_budget must be positive'')
      else
        (let ordered = ordered_items items; enforce = (mode = ''enforce'') in
         if mandatory_tokens c t ordered > cap \<and> enforce
         then Inl (ContextCompilationError ''mandatory context exceeds total token budget'')
         else case validate_items c enforce (\<lambda>i. t (length ordered + i)) 0 ordered of
           Inl x \<Rightarrow> Inl x
         | Inr (valid, pruned) \<Rightarrow>
             (case admit c cap (admission_order valid) (\<lambda>_. 0) 0 of (inc, pruned', usage, used) \<Rightarrow>
               (let included = sort_key order_key inc in
                if used > cap \<and> enforce
                then Inl (ContextCompilationError ''compiled context exceeds total token budget'')
                else Inr \<lparr>sections = make_sections included,
                  manifest = \<lparr>man_run_id = rid, policy_version = cc_policy_version c, man_mode = mode,
                    total_token_budget = cap, actual_tokens = used,
                    partition_budgets = map (\<lambda>p. (partition_value p, budget_of c cap p)) PARTITION_ORDER,
                    partition_usage = map (\<lambda>p. (partition_value p, usage p)) PARTITION_ORDER,
                    included_items = map (to_manifest_item c) included,
                    pruned_items = pruned @ pruned', man_created_at = created\<rparr>\<rparr>))))"

subsection \<open>The two passes\<close>

lemma validate_items_keeps_ids:
  "validate_items c en t i es = Inr (vs, ps) \<Longrightarrow>
   mset (map item_id vs) + mset (map pr_id ps) = mset (map item_id es)"
  by (induction es arbitrary: i vs ps)
    (auto simp: prune_def split: if_splits sum.splits prod.splits)

lemma validate_items_eq:
  "validate_items c en t i es = Inr (vs, ps) \<Longrightarrow>
   vs = map snd (filter (\<lambda>(j, e). has_provenance e \<and> \<not> is_expired (t j) e) (enumerate i es))"
proof (induction es arbitrary: i vs ps)
  case (Cons e es)
  then show ?case
    by (cases "validate_items c en t (i + 1) es") (force split: if_splits)+
qed simp

lemma validate_items_enforce:
  "validate_items c True t i es = Inr (vs, ps) \<Longrightarrow> e \<in> set es \<Longrightarrow> mandatory e \<Longrightarrow> has_provenance e"
  by (induction es arbitrary: i vs ps) (auto split: if_splits sum.splits prod.splits)

lemma validate_items_error:
  "validate_items c en t i es = Inl x \<Longrightarrow> en \<and> (\<exists>e \<in> set es. mandatory e \<and> \<not> has_provenance e \<and>
     x = ContextCompilationError (''mandatory context item lacks provenance: '' @ item_id e))"
  by (induction es arbitrary: i) (auto split: if_splits sum.splits prod.splits)

definition token_sum :: "compiler_config \<Rightarrow> context_item list \<Rightarrow> int" where
  "token_sum c es = sum_list (map (tokens_of c) es)"

lemma token_sum_simps [simp]:
  "token_sum c [] = 0" "token_sum c (e # es) = tokens_of c e + token_sum c es"
  "token_sum c (xs @ ys) = token_sum c xs + token_sum c ys"
  by (simp_all add: token_sum_def)

lemma token_sum_mset: "mset xs = mset ys \<Longrightarrow> token_sum c xs = token_sum c ys"
  unfolding token_sum_def by (metis mset_map sum_mset_sum_list)

lemma admit_keeps_ids:
  "admit c cap es u n = (xs, ps, u', n') \<Longrightarrow>
   mset (map item_id xs) + mset (map pr_id ps) = mset (map item_id es)"
  by (induction es arbitrary: u n xs ps u' n')
    (auto simp: prune_def Let_def split: if_splits prod.splits)

lemma admit_accounts:
  "admit c cap es u n = (xs, ps, u', n') \<Longrightarrow>
   n' = n + token_sum c xs \<and> u' p = u p + token_sum c (filter (\<lambda>e. part e = p) xs)"
  by (induction es arbitrary: u n xs ps u' n')
    (fastforce simp: Let_def split: if_splits prod.splits)+

lemma admit_mandatory:
  "admit c cap es u n = (xs, ps, u', n') \<Longrightarrow> filter mandatory xs = filter mandatory es"
  by (induction es arbitrary: u n xs ps u' n') (auto simp: Let_def split: if_splits prod.splits)

lemma admit_subset: "admit c cap es u n = (xs, ps, u', n') \<Longrightarrow> set xs \<subseteq> set es"
  by (induction es arbitrary: u n xs ps u' n') (fastforce simp: Let_def split: if_splits prod.splits)+

lemma admit_reasons:
  "admit c cap es u n = (xs, ps, u', n') \<Longrightarrow> p \<in> set ps \<Longrightarrow>
   pr_reason p \<in> {''partition_budget_exceeded'', ''total_budget_exceeded''}"
  by (induction es arbitrary: u n xs ps u' n')
    (auto simp: Let_def prune_def split: if_splits prod.splits)

lemma admit_append:
  "admit c cap (es @ fs) u n =
   (case admit c cap es u n of (xs, ps, u1, n1) \<Rightarrow>
      (case admit c cap fs u1 n1 of (ys, qs, u2, n2) \<Rightarrow> (xs @ ys, ps @ qs, u2, n2)))"
  by (induction es arbitrary: u n) (auto simp: Let_def split: prod.splits)

text \<open>Optional items never push a total or a partition over its budget.\<close>

lemma admit_optional_total:
  "admit c cap es u n = (xs, ps, u', n') \<Longrightarrow> list_all (\<lambda>e. \<not> mandatory e) es \<Longrightarrow> n \<le> cap \<Longrightarrow> n' \<le> cap"
  by (induction es arbitrary: u n xs ps u' n') (auto simp: Let_def split: if_splits prod.splits)

lemma admit_partition:
  "admit c cap es u n = (xs, ps, u', n') \<Longrightarrow>
   list_all (\<lambda>e. part e = p \<longrightarrow> \<not> mandatory e) xs \<Longrightarrow> u p \<le> budget_of c cap p \<Longrightarrow> u' p \<le> budget_of c cap p"
  by (induction es arbitrary: u n xs ps u' n') (auto simp: Let_def split: if_splits prod.splits)

lemma admit_all_mandatory:
  "admit c cap es u n = (xs, ps, u', n') \<Longrightarrow> list_all mandatory es \<Longrightarrow> xs = es"
  by (induction es arbitrary: u n xs ps u' n') (fastforce simp: Let_def split: prod.splits)+

subsection \<open>What a compiled context is\<close>

lemma compile_returned:
  assumes "compile_context c t created rid items cap mode = Inr r"
  obtains vs ps xs qs u n where
    "validate_items c (mode = ''enforce'') (\<lambda>i. t (length items + i)) 0 (ordered_items items) = Inr (vs, ps)"
    "admit c cap (admission_order vs) (\<lambda>_. 0) 0 = (xs, qs, u, n)"
    "included_items (manifest r) = map (to_manifest_item c) (sort_key order_key xs)"
    "pruned_items (manifest r) = ps @ qs" "actual_tokens (manifest r) = n"
    "partition_usage (manifest r) = map (\<lambda>p. (partition_value p, u p)) PARTITION_ORDER"
    "sections r = make_sections (sort_key order_key xs)"
    "mode = ''enforce'' \<Longrightarrow> mandatory_tokens c t (ordered_items items) \<le> cap \<and> n \<le> cap"
    "1 \<le> cap"
proof -
  have len: "length (ordered_items items) = length items" by (simp add: ordered_items_def)
  define en where "en = (mode = ''enforce'')"
  note c = assms [unfolded compile_context_def Let_def len, folded en_def]
  have ok: "\<not> mode \<notin> set [''off'', ''shadow'', ''enforce'']"
    using c by (rule contrapos_pn) (simp only: if_True sum.distinct not_False_eq_True)
  note c1 = c [unfolded if_not_P [OF ok]]
  have pos: "\<not> cap < 1" using c1 by (rule contrapos_pn) (simp only: if_True sum.distinct not_False_eq_True)
  note c2 = c1 [unfolded if_not_P [OF pos]]
  have man: "\<not> (cap < mandatory_tokens c t (ordered_items items) \<and> en)"
    using c2 by (rule contrapos_pn) simp
  note c3 = c2 [unfolded if_not_P [OF man]]
  obtain vs ps where v: "validate_items c en (\<lambda>i. t (length items + i)) 0 (ordered_items items) = Inr (vs, ps)"
    by (cases "validate_items c en (\<lambda>i. t (length items + i)) 0 (ordered_items items)") (use c3 in auto)
  obtain xs qs u n where a: "admit c cap (admission_order vs) (\<lambda>_. 0) 0 = (xs, qs, u, n)"
    by (metis prod_cases4)
  note c4 = c3 [unfolded v sum.case prod.case a]
  have over: "\<not> (cap < n \<and> en)" using c4 by (rule contrapos_pn) simp
  note c5 = c4 [unfolded if_not_P [OF over] sum.inject, symmetric]
  show thesis
    by (rule that [OF v [unfolded en_def] a]) (use pos man over in \<open>simp_all add: c5 en_def\<close>)
qed

lemma admission_order_mset: "mset (admission_order vs) = mset vs"
  by (simp add: admission_order_def)

lemma nothing_lost:
  assumes "compile_context c t created rid items cap mode = Inr r"
  shows "mset (map mi_id (included_items (manifest r))) + mset (map pr_id (pruned_items (manifest r))) =
    mset (map item_id items)"
  using assms
proof (rule compile_returned)
  fix vs ps xs qs u n
  assume v: "validate_items c (mode = ''enforce'') (\<lambda>i. t (length items + i)) 0 (ordered_items items) =
      Inr (vs, ps)"
    and a: "admit c cap (admission_order vs) (\<lambda>_. 0) 0 = (xs, qs, u, n)"
    and i: "included_items (manifest r) = map (to_manifest_item c) (sort_key order_key xs)"
    and p: "pruned_items (manifest r) = ps @ qs"
  have "mi_id \<circ> to_manifest_item c = item_id" by (auto simp: to_manifest_item_def)
  then have "mset (map mi_id (included_items (manifest r))) = image_mset item_id (mset xs)"
    by (simp add: i mset_map [symmetric] del: mset_map) (simp add: multiset.map_comp)
  moreover have "image_mset item_id (mset xs) + mset (map pr_id qs) = image_mset item_id (mset vs)"
    using admit_keeps_ids [OF a] admission_order_mset [of vs] by (metis mset_map)
  moreover have "image_mset item_id (mset vs) + mset (map pr_id ps) = image_mset item_id (mset items)"
    using validate_items_keeps_ids [OF v] by (simp add: ordered_items_def)
  ultimately show ?thesis by (simp add: p ac_simps)
qed

text \<open>The second overflow check of the compiler is never reached with an overflow: the mandatory
items that can still be used were counted first, and optional items stay below the budget.\<close>

lemma mandatory_counted:
  assumes "\<And>x. 0 \<le> token_estimator c x" and "mono t"
  shows "token_sum c (filter mandatory (map snd (filter (\<lambda>(j, e). has_provenance e \<and>
      \<not> is_expired (t (k + j)) e) (enumerate i es)))) \<le>
    (\<Sum>(j, e) \<leftarrow> enumerate i es.
       if mandatory e \<and> has_provenance e \<and> \<not> is_expired (t j) e then tokens_of c e else 0)"
proof (induction es arbitrary: i)
  case (Cons e es)
  have "is_expired (t (k + i)) e" if "is_expired (t i) e"
    using that monoD [OF assms(2), of i "k + i"]
    by (auto simp: is_expired_def split: option.splits)
  then show ?case using Cons.IH [of "Suc i"] assms(1) [of "item_content e"] by (auto simp: tokens_of_def)
qed simp

lemma no_late_overflow:
  assumes est: "\<And>x. 0 \<le> token_estimator c x" and "mono t"
    and v: "validate_items c en (\<lambda>i. t (length items + i)) 0 (ordered_items items) = Inr (vs, ps)"
    and a: "admit c cap (admission_order vs) (\<lambda>_. 0) 0 = (xs, qs, u, n)"
    and m: "mandatory_tokens c t (ordered_items items) \<le> cap"
  shows "n \<le> cap"
proof -
  obtain xs1 ps1 u1 n1 where a1: "admit c cap (filter mandatory vs) (\<lambda>_. 0) 0 = (xs1, ps1, u1, n1)"
    by (metis prod_cases4)
  obtain xs2 ps2 u2 n2 where a2: "admit c cap (filter (\<lambda>e. \<not> mandatory e) vs) u1 n1 = (xs2, ps2, u2, n2)"
    by (metis prod_cases4)
  have n: "n = n2" using a a1 a2 by (simp add: admission_order_def admit_append)
  have "xs1 = filter mandatory vs"
    using admit_all_mandatory [OF a1] by (simp add: list_all_iff)
  then have "n1 = token_sum c (filter mandatory vs)" using admit_accounts [OF a1] by simp
  also have "\<dots> \<le> mandatory_tokens c t (ordered_items items)"
    unfolding validate_items_eq [OF v] mandatory_tokens_def
    by (rule mandatory_counted [OF est assms(2)])
  finally have "n1 \<le> cap" using m by simp
  then show ?thesis using admit_optional_total [OF a2] n by (simp add: list_all_iff)
qed

text \<open>Sections list the included items, partition by partition.\<close>

lemma concat_filter_upto:
  fixes f :: "'a \<Rightarrow> nat"
  assumes "sorted (map f xs)"
  shows "concat (map (\<lambda>i. filter (\<lambda>x. f x = i) xs) [0..<n]) = filter (\<lambda>x. f x < n) xs"
proof (induction n)
  case (Suc n)
  have "filter (\<lambda>x. f x < n) xs @ filter (\<lambda>x. f x = n) xs = filter (\<lambda>x. f x < Suc n) xs"
    using assms
  proof (induction xs)
    case (Cons x xs)
    have "filter (\<lambda>y. f y < n) xs = []" if "\<not> f x < n"
      using Cons.prems that by (force simp: filter_empty_conv)
    then show ?case using Cons by (auto simp: less_Suc_eq)
  qed simp
  with Suc show ?case by simp
qed simp

lemma index_of_less: "x \<in> set ys \<Longrightarrow> index_of x ys < length ys"
  by (induction ys) auto

lemma index_of_nth: "x \<in> set ys \<Longrightarrow> ys ! index_of x ys = x"
  by (induction ys) auto

lemma index_of_inj: "distinct ys \<Longrightarrow> i < length ys \<Longrightarrow> index_of (ys ! i) ys = i"
  by (induction ys arbitrary: i) (auto simp: nth_Cons split: nat.splits)

lemma in_order: "p \<in> set PARTITION_ORDER"
  by (cases p) (simp_all add: PARTITION_ORDER_def)

lemma sections_items:
  "concat (map sec_item_ids (make_sections (sort_key order_key xs))) = map item_id (sort_key order_key xs)"
proof -
  let ?xs = "sort_key order_key xs" and ?f = "\<lambda>e. index_of (part e) PARTITION_ORDER"
  have "sorted_wrt (\<lambda>a b. order_key a \<le> order_key b) ?xs"
    using sorted_map [of order_key ?xs] by simp
  then have "sorted_wrt (\<lambda>a b. ?f a \<le> ?f b) ?xs"
    by (rule sorted_wrt_mono_rel [rotated]) (auto simp: order_key_def less_eq_prod_def)
  then have sorted: "sorted (map ?f ?xs)" by (simp add: sorted_map)
  have d: "distinct PARTITION_ORDER" by (simp add: PARTITION_ORDER_def)
  have eq: "part e = PARTITION_ORDER ! i \<longleftrightarrow> ?f e = i" if "i < length PARTITION_ORDER" for e i
    using that index_of_inj [OF d that] index_of_nth [OF in_order, of "part e"] by auto
  have "map (\<lambda>p. filter (\<lambda>e. part e = p) ?xs) PARTITION_ORDER =
      map (\<lambda>i. filter (\<lambda>e. ?f e = i) ?xs) [0..<length PARTITION_ORDER]"
    by (rule nth_equalityI) (simp_all add: eq)
  then have "concat (map (\<lambda>p. filter (\<lambda>e. part e = p) ?xs) PARTITION_ORDER) =
      concat (map (\<lambda>i. filter (\<lambda>e. ?f e = i) ?xs) [0..<length PARTITION_ORDER])"
    by simp
  also have "\<dots> = ?xs"
    using index_of_less [OF in_order] by (simp add: concat_filter_upto [OF sorted] filter_True)
  finally have all: "concat (map (\<lambda>p. filter (\<lambda>e. part e = p) ?xs) PARTITION_ORDER) = ?xs" .
  have skip: "concat (map g (filter (\<lambda>p. g p \<noteq> []) ps)) = concat (map g ps)"
    for g :: "context_partition \<Rightarrow> context_item list" and ps by (induction ps) auto
  have "concat (map sec_item_ids (make_sections ?xs)) = map item_id
      (concat (map (\<lambda>p. filter (\<lambda>e. part e = p) ?xs)
        (filter (\<lambda>p. filter (\<lambda>e. part e = p) ?xs \<noteq> []) PARTITION_ORDER)))"
    by (simp add: make_sections_def Let_def map_concat comp_def)
  with all show ?thesis by (simp add: skip)
qed

subsection \<open>Properties\<close>

text \<open>C20. Nothing is lost and nothing is invented: every item given to the compiler is either included
or pruned, exactly once, and the sections of the prompt list exactly the included items, in the
order of the manifest.\<close>

theorem every_item_accounted:
  assumes "compile_context c t created rid items cap mode = Inr r"
  shows "mset (map mi_id (included_items (manifest r))) + mset (map pr_id (pruned_items (manifest r))) =
      mset (map item_id items) \<and>
    concat (map sec_item_ids (sections r)) = map mi_id (included_items (manifest r))"
proof
  show "concat (map sec_item_ids (sections r)) = map mi_id (included_items (manifest r))"
    using assms
  proof (rule compile_returned)
    fix vs ps xs qs u n
    assume i: "included_items (manifest r) = map (to_manifest_item c) (sort_key order_key xs)"
      and s: "sections r = make_sections (sort_key order_key xs)"
    show ?thesis using sections_items [of xs] by (simp add: i s to_manifest_item_def comp_def)
  qed
qed (rule nothing_lost [OF assms])


text \<open>Mandatory context is never crowded out: a compilation that returns includes every mandatory
item with provenance that has not expired, in every mode; an enforcing one raises rather than
drop a mandatory item for its provenance.\<close>

theorem mandatory_items_included:
  assumes "compile_context c t created rid items cap mode = Inr r" and "e \<in> set items"
    and "mandatory e"
  shows "(has_provenance e \<and> (\<forall>i. \<not> is_expired (t i) e) \<longrightarrow>
      to_manifest_item c e \<in> set (included_items (manifest r))) \<and>
    (mode = ''enforce'' \<longrightarrow> has_provenance e)"
  using assms(1)
proof (rule compile_returned)
  fix vs ps xs qs u n
  assume v: "validate_items c (mode = ''enforce'') (\<lambda>i. t (length items + i)) 0 (ordered_items items) =
      Inr (vs, ps)"
    and a: "admit c cap (admission_order vs) (\<lambda>_. 0) 0 = (xs, qs, u, n)"
    and i: "included_items (manifest r) = map (to_manifest_item c) (sort_key order_key xs)"
  have mem: "e \<in> set (ordered_items items)" using assms(2) by (simp add: ordered_items_def)
  have "to_manifest_item c e \<in> set (included_items (manifest r))"
    if "has_provenance e" "\<And>i. \<not> is_expired (t i) e"
  proof -
    from mem obtain k where "(k, e) \<in> set (enumerate 0 (ordered_items items))"
      by (metis in_set_conv_nth length_enumerate nth_enumerate_eq add_0)
    then have "e \<in> set vs" unfolding validate_items_eq [OF v] using that by force
    then have "e \<in> set (filter mandatory (admission_order vs))"
      using assms(3) by (simp add: admission_order_def)
    then have "e \<in> set xs" unfolding admit_mandatory [OF a, symmetric] by simp
    then show ?thesis by (simp add: i)
  qed
  moreover have "has_provenance e" if "mode = ''enforce''"
    using validate_items_enforce [of c _ 0 "ordered_items items" vs ps e] v that mem assms(3) by simp
  ultimately show ?thesis by blast
qed

text \<open>With a clock that does not run backwards and non-negative token estimates, the second
overflow check of the compiler is dead code: the first one already caught every overflow.\<close>

theorem late_overflow_check_is_dead:
  assumes "\<And>x. 0 \<le> token_estimator c x" and "mono t"
  shows "compile_context c t created rid items cap mode \<noteq>
    Inl (ContextCompilationError ''compiled context exceeds total token budget'')"
proof
  define en where "en = (mode = ''enforce'')"
  have len: "length (ordered_items items) = length items" by (simp add: ordered_items_def)
  assume "compile_context c t created rid items cap mode =
    Inl (ContextCompilationError ''compiled context exceeds total token budget'')"
  note c = this [unfolded compile_context_def Let_def len, folded en_def]
  have ok: "\<not> mode \<notin> set [''off'', ''shadow'', ''enforce'']"
    using c by (rule contrapos_pn) (simp only: if_True sum.inject exn.distinct not_False_eq_True)
  note c1 = c [unfolded if_not_P [OF ok]]
  have pos: "\<not> cap < 1"
    using c1 by (rule contrapos_pn) (simp only: if_True sum.inject exn.distinct not_False_eq_True)
  note c2 = c1 [unfolded if_not_P [OF pos]]
  have man: "\<not> (cap < mandatory_tokens c t (ordered_items items) \<and> en)"
    using c2 by (rule contrapos_pn) simp
  note c3 = c2 [unfolded if_not_P [OF man]]
  show False
  proof (cases "validate_items c en (\<lambda>i. t (length items + i)) 0 (ordered_items items)")
    case (Inl x)
    with c3 validate_items_error [OF Inl] show ?thesis by auto
  next
    case (Inr vp)
    obtain vs ps where v: "vp = (vs, ps)" by fastforce
    obtain xs qs u n where a: "admit c cap (admission_order vs) (\<lambda>_. 0) 0 = (xs, qs, u, n)"
      by (metis prod_cases4)
    have over: "cap < n \<and> en"
      using c3 [unfolded Inr v sum.case prod.case a]
      by (cases "cap < n \<and> en") (simp_all only: if_False sum.distinct)
    with man have "mandatory_tokens c t (ordered_items items) \<le> cap" by simp
    from no_late_overflow [OF assms Inr [unfolded v] a this] over show ?thesis by simp
  qed
qed

subsection \<open>The manifest store\<close>

text \<open>
  A stored manifest is the redacted dictionary of the manifest (identifiers, counts and coverage, no
  content) with its sequence number, from zero per run. Both stores of \<open>store.py\<close> meet one
  contract: a save appends a version, \<open>get\<close> returns the latest one.
\<close>

record redacted_manifest =
  rm_manifest :: context_manifest
  rm_coverage :: "pyfloat option"
  rm_sequence :: int

definition to_redacted :: "context_manifest \<Rightarrow> redacted_manifest" where
  "to_redacted m = \<lparr>rm_manifest = m, rm_coverage = provenance_coverage m, rm_sequence = 0\<rparr>"

record 's manifest_ops =
  op_save_manifest :: "context_manifest \<Rightarrow> ('s, unit) py"
  op_get_manifest :: "string \<Rightarrow> ('s, redacted_manifest option) py"
  op_list_manifests :: "string \<Rightarrow> ('s, redacted_manifest list) py"

definition versioned :: "redacted_manifest list \<Rightarrow> context_manifest \<Rightarrow> redacted_manifest" where
  "versioned ms m = (to_redacted m)\<lparr>rm_sequence := int (length ms)\<rparr>"

locale manifest_contract =
  fixes ops :: "'s manifest_ops"
    and versions :: "'s \<Rightarrow> string \<Rightarrow> redacted_manifest list"
    and minvar :: "'s \<Rightarrow> bool"
  assumes save_manifest: "minvar s \<Longrightarrow> \<exists>s'. op_save_manifest ops m s = (Inr (), s') \<and> minvar s' \<and>
      versions s' = (versions s)(man_run_id m := versions s (man_run_id m) @
        [versioned (versions s (man_run_id m)) m])"
    and get_manifest: "minvar s \<Longrightarrow> op_get_manifest ops rid s =
      (Inr (if versions s rid = [] then None else Some (last (versions s rid))), s)"
    and list_manifests: "minvar s \<Longrightarrow> op_list_manifests ops rid s = (Inr (versions s rid), s)"
begin

lemma save_then_get:
  assumes "minvar s" and "op_save_manifest ops m s = (x, s')"
  shows "op_get_manifest ops (man_run_id m) s' =
    (Inr (Some (versioned (versions s (man_run_id m)) m)), s') \<and>
    (\<forall>rid. rid \<noteq> man_run_id m \<longrightarrow> op_get_manifest ops rid s' = (fst (op_get_manifest ops rid s), s'))"
  using save_manifest [OF assms(1), of m] assms(2) by (auto simp: get_manifest assms(1))

end

type_synonym memory_manifests = "(string, redacted_manifest list) dict"

definition memory_versions :: "memory_manifests \<Rightarrow> string \<Rightarrow> redacted_manifest list" where
  "memory_versions s rid = (case map_of s rid of None \<Rightarrow> [] | Some vs \<Rightarrow> vs)"

definition memory_save_manifest :: "context_manifest \<Rightarrow> (memory_manifests, unit) py" where
  "memory_save_manifest m s =
     (let vs = memory_versions s (man_run_id m);
          payload = (to_redacted m)\<lparr>rm_sequence := int (length vs)\<rparr>
      in (Inr (), AList.update (man_run_id m) (vs @ [payload]) s))"

definition memory_get_manifest :: "string \<Rightarrow> (memory_manifests, redacted_manifest option) py" where
  "memory_get_manifest rid s =
     (let values = memory_versions s rid in (Inr (if values \<noteq> [] then Some (last values) else None), s))"

definition memory_list_manifests :: "string \<Rightarrow> (memory_manifests, redacted_manifest list) py" where
  "memory_list_manifests rid s = (Inr (memory_versions s rid), s)"

definition memory_manifest_ops :: "memory_manifests manifest_ops" where
  "memory_manifest_ops = \<lparr>op_save_manifest = memory_save_manifest,
     op_get_manifest = memory_get_manifest, op_list_manifests = memory_list_manifests\<rparr>"

interpretation mem_manifests: manifest_contract memory_manifest_ops memory_versions "\<lambda>_. True"
proof (unfold_locales, goal_cases)
  case (1 s m)
  have "memory_versions (AList.update k v s) = (memory_versions s)(k := v)" for k v
    by (rule ext) (simp add: memory_versions_def)
  then show ?case
    by (simp add: memory_manifest_ops_def memory_save_manifest_def versioned_def Let_def)
qed (simp_all add: memory_manifest_ops_def memory_get_manifest_def memory_list_manifests_def)

text \<open>
  The table \<open>context_manifests\<close>: rows of run, sequence number and payload. The save runs in a
  transaction under the advisory lock of the run and takes \<open>COALESCE(MAX(sequence_no)+1, 0)\<close>.
\<close>

type_synonym manifest_table = "redacted_manifest numbered"

definition pg_save_manifest :: "context_manifest \<Rightarrow> (manifest_table, unit) py" where
  "pg_save_manifest m s =
     (let n = next_no (rows_of s (man_run_id m));
          payload = (to_redacted m)\<lparr>rm_sequence := n\<rparr>
      in (Inr (), s @ [(man_run_id m, n, payload)]))"

definition pg_list_manifests :: "string \<Rightarrow> (manifest_table, redacted_manifest list) py" where
  "pg_list_manifests rid s = (Inr (map snd (sort_key fst (rows_of s rid))), s)"

text \<open>\<open>ORDER BY sequence_no DESC LIMIT 1\<close>.\<close>

definition pg_get_manifest :: "string \<Rightarrow> (manifest_table, redacted_manifest option) py" where
  "pg_get_manifest rid s =
     (case rev (sort_key fst (rows_of s rid)) of
        [] \<Rightarrow> (Inr None, s) | row # _ \<Rightarrow> (Inr (Some (snd row)), s))"

definition pg_manifest_ops :: "manifest_table manifest_ops" where
  "pg_manifest_ops = \<lparr>op_save_manifest = pg_save_manifest, op_get_manifest = pg_get_manifest,
     op_list_manifests = pg_list_manifests\<rparr>"

definition pg_versions :: "manifest_table \<Rightarrow> string \<Rightarrow> redacted_manifest list" where
  "pg_versions s rid = map snd (rows_of s rid)"

interpretation pg_manifests: manifest_contract pg_manifest_ops pg_versions numbered_ok
proof (unfold_locales, goal_cases)
  case (1 s m)
  let ?rid = "man_run_id m"
  note n = next_no_length [OF 1, of ?rid] and ok = numbered_ok_append [OF 1, of ?rid]
  from 1 ok show ?case
    by (simp add: pg_manifest_ops_def pg_save_manifest_def Let_def n versioned_def pg_versions_def
        rows_of_append fun_eq_iff)
next
  case (2 s rid)
  note sorted = rows_sorted [OF 2, of rid]
  show ?case
    unfolding pg_manifest_ops_def pg_get_manifest_def manifest_ops.simps sorted pg_versions_def
    by (cases "rows_of s rid" rule: rev_cases) simp_all
next
  case (3 s rid)
  then show ?case
    by (simp add: pg_manifest_ops_def pg_list_manifests_def rows_sorted pg_versions_def)
qed

text \<open>The two manifest stores agree: after the same saves, in any order and over any runs, both
return the same versions and the same latest manifest of every run.\<close>

theorem manifest_stores_agree:
  "fst (op_list_manifests memory_manifest_ops rid
      (fold (\<lambda>m s. snd (op_save_manifest memory_manifest_ops m s)) ms [])) =
    fst (op_list_manifests pg_manifest_ops rid
      (fold (\<lambda>m s. snd (op_save_manifest pg_manifest_ops m s)) ms [])) \<and>
   fst (op_get_manifest memory_manifest_ops rid
      (fold (\<lambda>m s. snd (op_save_manifest memory_manifest_ops m s)) ms [])) =
    fst (op_get_manifest pg_manifest_ops rid
      (fold (\<lambda>m s. snd (op_save_manifest pg_manifest_ops m s)) ms []))"
proof -
  have "numbered_ok b' \<and> memory_versions a' = pg_versions b'"
    if "numbered_ok b" "memory_versions a = pg_versions b"
      "a' = fold (\<lambda>m s. snd (op_save_manifest memory_manifest_ops m s)) ms a"
      "b' = fold (\<lambda>m s. snd (op_save_manifest pg_manifest_ops m s)) ms b" for a b a' b'
    using that
  proof (induction ms arbitrary: a b)
    case (Cons m ms)
    let ?a = "snd (op_save_manifest memory_manifest_ops m a)"
      and ?b = "snd (op_save_manifest pg_manifest_ops m b)"
    have "numbered_ok ?b" "memory_versions ?a = pg_versions ?b"
      using mem_manifests.save_manifest [of m a] pg_manifests.save_manifest [OF Cons.prems(1), of m]
        Cons.prems(2) by auto
    then show ?case using Cons by simp
  qed simp
  moreover have "numbered_ok []" "memory_versions [] = pg_versions []"
    by (simp_all add: numbered_ok_def rows_of_def memory_versions_def pg_versions_def fun_eq_iff)
  ultimately have "numbered_ok (fold (\<lambda>m s. snd (op_save_manifest pg_manifest_ops m s)) ms [])"
    "memory_versions (fold (\<lambda>m s. snd (op_save_manifest memory_manifest_ops m s)) ms []) =
     pg_versions (fold (\<lambda>m s. snd (op_save_manifest pg_manifest_ops m s)) ms [])" by blast+
  then show ?thesis
    by (simp add: mem_manifests.list_manifests mem_manifests.get_manifest pg_manifests.list_manifests
        pg_manifests.get_manifest)
qed

subsection \<open>Conversation states\<close>

text \<open>
  The extractor is a parameter of the compactor class; a failing one yields no state (\<open>Conversation_State\<close>
  models the default one). The message identifier falls back to the position.
\<close>

record state_value =
  sv_key :: string
  sv_value :: utext
  sv_sources :: "string list"

record state_decision =
  sd_asset :: string
  sd_value :: utext
  sd_evidence :: "string list"
  sd_sources :: "string list"

record result_reference =
  rr_artifact :: string
  rr_summary :: string
  rr_hash :: string
  rr_sources :: "string list"

record extracted =
  confirmed_constraints :: "state_value list"
  open_questions :: "state_value list"
  state_decisions :: "state_decision list"
  rejected_options :: "state_value list"
  result_refs :: "result_reference list"

record conversation_state = extracted +
  cs_conversation_id :: string
  summary_version :: int
  source_message_ids :: "string list"
  cs_model_id :: string
  cs_created_at :: time

text \<open>\<open>str(metadata.get("message_id") or f"message:{index}")\<close>, from the optional metadata value.\<close>

definition message_id :: "string option \<Rightarrow> nat \<Rightarrow> string" where
  "message_id given index =
     (case given of None \<Rightarrow> ''message:'' @ str_nat index
      | Some x \<Rightarrow> if x = [] then ''message:'' @ str_nat index else x)"

definition compact ::
  "('m list \<Rightarrow> exn + extracted) \<Rightarrow> ('m \<Rightarrow> string option) \<Rightarrow> string \<Rightarrow> time \<Rightarrow> string \<Rightarrow> 'm list \<Rightarrow>
   int \<Rightarrow> conversation_state option" where
  "compact extractor mid model now cid messages previous =
     (case extractor messages of
        Inl _ \<Rightarrow> None
      | Inr x \<Rightarrow> Some (extracted.extend x \<lparr>cs_conversation_id = cid, summary_version = previous + 1,
          source_message_ids = map (\<lambda>(i, m). message_id (mid m) i) (enumerate 0 messages),
          cs_model_id = model, cs_created_at = now\<rparr>))"

type_synonym conversation_states = "(string, conversation_state list) dict"

definition memory_save_state :: "conversation_state \<Rightarrow> (conversation_states, unit) py" where
  "memory_save_state x s =
     (let old = (case map_of s (cs_conversation_id x) of None \<Rightarrow> [] | Some vs \<Rightarrow> vs)
      in (Inr (), AList.update (cs_conversation_id x) (old @ [x]) s))"

definition memory_list_states :: "string \<Rightarrow> (conversation_states, conversation_state list) py" where
  "memory_list_states cid s = (Inr (case map_of s cid of None \<Rightarrow> [] | Some vs \<Rightarrow> vs), s)"

text \<open>The table: \<open>ON CONFLICT (conversation_id,summary_version) DO NOTHING\<close>, read by version.\<close>

definition pg_save_state :: "conversation_state \<Rightarrow> (conversation_state list, unit) py" where
  "pg_save_state x s =
     (if list_ex (\<lambda>y. cs_conversation_id y = cs_conversation_id x \<and>
           summary_version y = summary_version x) s then (Inr (), s) else (Inr (), s @ [x]))"

definition pg_list_states :: "string \<Rightarrow> (conversation_state list, conversation_state list) py" where
  "pg_list_states cid s =
     (Inr (sort_key summary_version (filter (\<lambda>y. cs_conversation_id y = cid) s)), s)"

subsection \<open>A concrete compilation\<close>

definition sample_item :: "string \<Rightarrow> context_partition \<Rightarrow> bool \<Rightarrow> context_item" where
  "sample_item i p must = \<lparr>item_id = i, part = p, item_content = ''0123456789'', source_id = ''s'',
     item_source_hash = ''h'', trust_level = ''verified'', priority = 50, mandatory = must,
     item_expires_at = None\<rparr>"

definition sample_items :: "context_item list" where
  "sample_items = [sample_item ''b'' MEMORY False, sample_item ''a'' SAFETY True]"

text \<open>A compiler whose every partition may use the whole budget.\<close>

definition open_compiler :: compiler_config where
  "open_compiler = default_compiler\<lparr>partition_ratios := (\<lambda>_. 1)\<rparr>"

lemma open_budget: "budget_of open_compiler 100 p = 100"
  using fl_numeral [of "num.Bit0 (num.Bit0 (num.Bit1 (num.Bit0 (num.Bit0 (num.Bit1 num.One)))))"]
  by (simp add: budget_of_def open_compiler_def fmul_def py_int_def)

lemma sample_provenance: "has_provenance (sample_item i p must)"
  by (simp add: has_provenance_def sample_item_def strip_def is_space_def)

lemma sample_compiles:
  "\<exists>r. compile_context open_compiler (\<lambda>_. 0) 0 ''r1'' sample_items 100 ''enforce'' = Inr r \<and>
     included_items (manifest r) = map (to_manifest_item open_compiler)
       [sample_item ''a'' SAFETY True, sample_item ''b'' MEMORY False]"
proof -
  have o: "ordered_items sample_items = [sample_item ''a'' SAFETY True, sample_item ''b'' MEMORY False]"
    by (simp add: ordered_items_def sample_items_def order_key_def sample_item_def PARTITION_ORDER_def)
  have tk: "tokens_of open_compiler (sample_item i p must) = 3" for i p must
    by (simp add: tokens_of_def open_compiler_def default_compiler_def estimate_tokens_def sample_item_def)
  have ex: "\<not> is_expired 0 (sample_item i p must)" for i p must
    by (simp add: is_expired_def sample_item_def)
  have md: "mandatory (sample_item i p must) = must" for i p must by (simp add: sample_item_def)
  show ?thesis
    by (simp add: compile_context_def Let_def o mandatory_tokens_def sample_provenance ex md tk
        admission_order_def open_budget order_key_def PARTITION_ORDER_def)
      (simp add: sample_item_def)
qed

theorem every_item_accounted_witness:
  "\<exists>r. compile_context open_compiler (\<lambda>_. 0) 0 ''r1'' sample_items 100 ''enforce'' = Inr r \<and>
     mset (map mi_id (included_items (manifest r))) + mset (map pr_id (pruned_items (manifest r))) =
       {#''a'', ''b''#}"
proof -
  obtain r where r: "compile_context open_compiler (\<lambda>_. 0) 0 ''r1'' sample_items 100 ''enforce'' = Inr r"
    using sample_compiles by blast
  from every_item_accounted [OF r] r show ?thesis
    by (auto simp: sample_items_def sample_item_def)
qed


theorem mandatory_items_included_witness:
  "\<exists>r. compile_context open_compiler (\<lambda>_. 0) 0 ''r1'' sample_items 100 ''enforce'' = Inr r \<and>
     to_manifest_item open_compiler (sample_item ''a'' SAFETY True) \<in> set (included_items (manifest r))"
proof -
  obtain r where r: "compile_context open_compiler (\<lambda>_. 0) 0 ''r1'' sample_items 100 ''enforce'' = Inr r"
    using sample_compiles by blast
  have "sample_item ''a'' SAFETY True \<in> set sample_items" "mandatory (sample_item ''a'' SAFETY True)"
    "\<not> is_expired 0 (sample_item ''a'' SAFETY True)"
    by (simp_all add: sample_items_def sample_item_def is_expired_def)
  with mandatory_items_included [OF r this(1,2)] r sample_provenance show ?thesis by blast
qed

theorem late_overflow_check_is_dead_witness:
  "compile_context default_compiler (\<lambda>i. int i) 0 ''r1'' sample_items 5 ''enforce'' \<noteq>
     Inl (ContextCompilationError ''compiled context exceeds total token budget'')"
  by (rule late_overflow_check_is_dead)
    (simp_all add: default_compiler_def estimate_tokens_def monoI)

end
