(* ===== verification/Sql_Tree.thy ===== *)
theory Sql_Tree
  imports Prelude
begin

section \<open>Parse trees of SQL\<close>

text \<open>
  What the SQL guards of \<open>agent-service/app/security\<close> use of \<open>sqlglot\<close>. A node of the tree carries the
  classes that \<open>isinstance\<close> finds for it, its scalar arguments and its child nodes, each under the
  name of its argument and in the order of \<open>node.args\<close>; an argument that holds a list gives
  several children of one name. The parser, the renderer and the derived names of nodes are
  third-party code: the record \<open>sqlglot\<close> holds them as arguments of the model. What the model fixes is
  the documented traversal: \<open>find_all\<close> visits the node and everything below it breadth first, and
  \<open>find_ancestor\<close> looks up the chain of parents. A node therefore comes as an occurrence, with
  the nodes above it, nearest first.
\<close>

datatype sql_class = X_Select | X_CTE | X_Table | X_Column | X_Literal | X_Null | X_EQ | X_NEQ | X_GT | X_GTE
  | X_LT | X_LTE | X_In | X_Not | X_Between | X_Is | X_And | X_Or | X_Where | X_Having | X_Join | X_Alias | X_AggFunc
  | X_Query | X_Anonymous | X_Star | X_Insert | X_Update | X_Delete | X_Merge | X_Create | X_Drop | X_Alter | X_Command
  | X_Transaction | X_Copy | X_Grant | X_Revoke | X_Into | X_Lock

datatype scalar = Text string | Flag bool

datatype sql = Sql (node_classes: "sql_class list") (scalars: "(string \<times> scalar) list") (kids: "(string \<times> sql) list")

record sqlglot =
  parse_one :: "string \<Rightarrow> exn + sql"
  parse_all :: "string \<Rightarrow> exn + sql option list"
  add_limit :: "int \<Rightarrow> sql \<Rightarrow> sql"
  render_sql :: "sql \<Rightarrow> string"
  node_name :: "sql \<Rightarrow> string"
  node_alias :: "sql \<Rightarrow> string"
  alias_or_name :: "sql \<Rightarrow> string"
  column_table :: "sql \<Rightarrow> string"
  table_db :: "sql \<Rightarrow> string"
  table_catalog :: "sql \<Rightarrow> string"
  node_selects :: "sql \<Rightarrow> sql list"
  literal_string :: "sql \<Rightarrow> bool"
  literal_number :: "sql \<Rightarrow> bool"
  literal_int :: "sql \<Rightarrow> int option"
  literal_text :: "sql \<Rightarrow> string"
  to_identifier :: "string \<Rightarrow> sql"

definition is_a :: "sql_class \<Rightarrow> sql \<Rightarrow> bool" where
  "is_a c n \<longleftrightarrow> c \<in> set (node_classes n)"

text \<open>\<open>node.args.get(k)\<close> for a child, and the children of a list argument.\<close>

definition arg :: "string \<Rightarrow> sql \<Rightarrow> sql option" where
  "arg k n = map_of (kids n) k"

definition list_arg :: "string \<Rightarrow> sql \<Rightarrow> sql list" where
  "list_arg k n = map snd (filter (\<lambda>(k', _). k' = k) (kids n))"

subsection \<open>Occurrences\<close>

type_synonym occ = "sql list \<times> sql"

definition at_root :: "sql \<Rightarrow> occ" where
  "at_root n = ([], n)"

definition child :: "string \<Rightarrow> occ \<Rightarrow> occ option" where
  "child k o1 = map_option (\<lambda>m. (snd o1 # fst o1, m)) (arg k (snd o1))"

definition below :: "occ \<Rightarrow> occ list" where
  "below o1 = map (\<lambda>(_, m). (snd o1 # fst o1, m)) (kids (snd o1))"

primrec at_depth :: "nat \<Rightarrow> occ \<Rightarrow> occ list" where
  "at_depth 0 o1 = [o1]"
| "at_depth (Suc d) o1 = concat (map (at_depth d) (below o1))"

primrec height :: "sql \<Rightarrow> nat" where
  "height (Sql c s ks) = Suc (foldr max (map snd (map (map_prod id height) ks)) 0)"

text \<open>\<open>node.walk(bfs=True)\<close>: level by level.\<close>

definition walk :: "occ \<Rightarrow> occ list" where
  "walk o1 = concat (map (\<lambda>d. at_depth d o1) [0..<height (snd o1)])"

definition find_all :: "sql_class \<Rightarrow> occ \<Rightarrow> occ list" where
  "find_all c o1 = filter (\<lambda>p. is_a c (snd p)) (walk o1)"

text \<open>\<open>node.find_ancestor(c)\<close> and \<open>isinstance(node.parent, c)\<close>.\<close>

definition ancestor :: "sql_class \<Rightarrow> occ \<Rightarrow> sql option" where
  "ancestor c o1 = find (is_a c) (fst o1)"

definition inside :: "sql_class \<Rightarrow> occ \<Rightarrow> bool" where
  "inside c o1 \<longleftrightarrow> ancestor c o1 \<noteq> None"

definition parent_is :: "sql_class \<Rightarrow> occ \<Rightarrow> bool" where
  "parent_is c o1 \<longleftrightarrow> (case fst o1 of [] \<Rightarrow> False | m # _ \<Rightarrow> is_a c m)"

subsection \<open>The walk visits the whole tree\<close>

inductive inner :: "occ \<Rightarrow> occ \<Rightarrow> bool" where
  here: "inner o1 o1"
| down: "inner o1 p \<Longrightarrow> q \<in> set (below p) \<Longrightarrow> inner o1 q"

lemma inner_below: "q \<in> set (below o1) \<Longrightarrow> inner q p \<Longrightarrow> inner o1 p"
  by (rotate_tac 1, induction q p rule: inner.induct) (auto intro: inner.intros)

lemma at_depth_inner: "p \<in> set (at_depth d o1) \<Longrightarrow> inner o1 p"
  by (induction d arbitrary: o1) (auto intro: inner.here inner_below)

lemma at_depth_down: "p \<in> set (at_depth d o1) \<Longrightarrow> q \<in> set (below p) \<Longrightarrow> q \<in> set (at_depth (Suc d) o1)"
proof (induction d arbitrary: o1)
  case (Suc d)
  then obtain x where "x \<in> set (below o1)" "p \<in> set (at_depth d x)" by auto
  with Suc.IH [OF this(2) Suc.prems(2)] show ?case by (auto simp del: at_depth.simps(2) simp: at_depth.simps(2) [of "Suc d"])
qed auto

lemma max_member: "x \<in> set xs \<Longrightarrow> x \<le> foldr max xs (0::nat)"
  by (induction xs) auto

lemma height_kid: "(k, m) \<in> set (kids n) \<Longrightarrow> height m < height n"
  by (cases n) (force intro: le_less_trans [OF max_member] simp: image_iff)

lemma height_below: "q \<in> set (below o1) \<Longrightarrow> height (snd q) < height (snd o1)"
  by (auto simp: below_def height_kid)

lemma height_pos: "0 < height n"
  by (cases n) simp

lemma at_depth_height: "p \<in> set (at_depth d o1) \<Longrightarrow> d + height (snd p) \<le> height (snd o1)"
proof (induction d arbitrary: o1)
  case (Suc d)
  then obtain q where "q \<in> set (below o1)" "p \<in> set (at_depth d q)" by auto
  with Suc.IH [OF this(2)] height_below [OF this(1)] show ?case by simp
qed simp

lemma set_walk: "set (walk o1) = {p. inner o1 p}"
proof
  show "set (walk o1) \<subseteq> {p. inner o1 p}" by (auto simp: walk_def dest: at_depth_inner)
next
  have "\<exists>d < height (snd o1). p \<in> set (at_depth d o1)" if "inner o1 p" for p
    using that
  proof (induction o1 p rule: inner.induct)
    case (here o1)
    show ?case using height_pos [of "snd o1"] by (intro exI [of _ 0]) simp
  next
    case (down o1 p q)
    then obtain d where d: "p \<in> set (at_depth d o1)" by blast
    have q: "q \<in> set (at_depth (Suc d) o1)" by (rule at_depth_down [OF d down.hyps(2)])
    have "Suc d < height (snd o1)" using at_depth_height [OF q] height_pos [of "snd q"] by simp
    with q show ?case by blast
  qed
  then show "{p. inner o1 p} \<subseteq> set (walk o1)" by (fastforce simp: walk_def)
qed

lemma find_all_iff: "p \<in> set (find_all c o1) \<longleftrightarrow> inner o1 p \<and> is_a c (snd p)"
  by (simp add: find_all_def set_walk)

lemma child_below: "child k o1 = Some q \<Longrightarrow> q \<in> set (below o1)"
  by (force simp: child_def below_def arg_def dest: map_of_SomeD)

lemma inner_child: "inner o1 p \<Longrightarrow> child k p = Some q \<Longrightarrow> inner o1 q"
  using child_below inner.down by blast

text \<open>The nodes above an occurrence stay above everything below it.\<close>

lemma inner_above: "inner o1 p \<Longrightarrow> p = o1 \<or> (\<exists>us. fst p = us @ snd o1 # fst o1)"
proof (induction o1 p rule: inner.induct)
  case (down o1 p q)
  then have "fst q = snd p # fst p" by (auto simp: below_def)
  with down.IH show ?case by auto
qed simp

lemma inside_below:
  assumes "inner o1 p" and "p \<noteq> o1" and "is_a c (snd o1)"
  shows "inside c p"
  using inner_above [OF assms(1)] assms(2,3) by (auto simp: inside_def ancestor_def find_None_iff)

subsection \<open>Changing a tree\<close>

text \<open>\<open>node.set(k, m)\<close> and \<open>node.set(k, None)\<close>.\<close>

definition set_arg :: "string \<Rightarrow> sql option \<Rightarrow> sql \<Rightarrow> sql" where
  "set_arg k m n = Sql (node_classes n) (AList.delete k (scalars n))
     (case m of None \<Rightarrow> AList.delete k (kids n) | Some x \<Rightarrow> AList.update k x (kids n))"

text \<open>\<open>node.set(k, items)\<close> for a list.\<close>

definition set_list :: "string \<Rightarrow> 'a list \<Rightarrow> (string \<times> 'a) list \<Rightarrow> (string \<times> 'a) list" where
  "set_list k items ks = takeWhile (\<lambda>x. fst x \<noteq> k) ks @ map (Pair k) items @
     filter (\<lambda>x. fst x \<noteq> k) (dropWhile (\<lambda>x. fst x \<noteq> k) ks)"

subsection \<open>An instance\<close>

text \<open>The arguments for trees whose scalars hold the names, texts and numbers of their nodes, and a
parser that knows one text.\<close>

definition text_of :: "string \<Rightarrow> sql \<Rightarrow> string" where
  "text_of k n = (case map_of (scalars n) k of Some (Text t) \<Rightarrow> t | _ \<Rightarrow> [])"

definition tree_glot :: "sql \<Rightarrow> sqlglot" where
  "tree_glot e = \<lparr>parse_one = (\<lambda>t. if t = ''q'' then Inr e else Inl (External ''ParseError'')),
     parse_all = (\<lambda>t. if t = ''q'' then Inr [Some e] else Inl (External ''ParseError'')),
     add_limit = (\<lambda>_ n. n), render_sql = text_of ''this'', node_name = text_of ''name'', node_alias = text_of ''alias'',
     alias_or_name = text_of ''name'', column_table = text_of ''table'', table_db = text_of ''db'',
     table_catalog = text_of ''catalog'', node_selects = list_arg ''expressions'',
     literal_string = (\<lambda>n. text_of ''this'' n \<noteq> []), literal_number = (\<lambda>n. text_of ''int'' n \<noteq> []),
     literal_int = (\<lambda>n. if text_of ''int'' n = [] then None else Some 10), literal_text = text_of ''this'',
     to_identifier = (\<lambda>t. Sql [] [(''this'', Text t)] [])\<rparr>"

end
