(* ===== verification/Query_Plan.thy ===== *)
theory Query_Plan
  imports Grounding_Models
begin

section \<open>Query plans and their validation against the grounding\<close>

text \<open>
  \<open>agent-service/app/grounding/query_plan.py\<close>: the draft a model proposes, with the constraints of
  its fields and validators, and the validator that accepts it only when everything it names is
  grounded. The field constraints are those of the class declarations; pydantic strips strings
  before it checks them. The canonical JSON text that pydantic and \<open>json\<close> produce of a draft is the
  argument \<open>dump\<close>; the parser of example queries is the argument \<open>parse\<close>. The iteration order of a
  Python set of strings is not determined by the program: where the code takes its first element,
  the model takes an argument \<open>pick\<close>.
\<close>

subsection \<open>Drafts\<close>

datatype filter_operator =
  EQ | NE | IN_OP | NOT_IN | GT | GTE | LT | LTE | BETWEEN | IS_NULL | IS_NOT_NULL

fun operator_value :: "filter_operator \<Rightarrow> string" where
  "operator_value EQ = ''EQ''" | "operator_value NE = ''NE''" | "operator_value IN_OP = ''IN''"
| "operator_value NOT_IN = ''NOT_IN''" | "operator_value GT = ''GT''"
| "operator_value GTE = ''GTE''" | "operator_value LT = ''LT''" | "operator_value LTE = ''LTE''"
| "operator_value BETWEEN = ''BETWEEN''" | "operator_value IS_NULL = ''IS_NULL''"
| "operator_value IS_NOT_NULL = ''IS_NOT_NULL''"

datatype time_preset = TODAY | YESTERDAY | LAST_7_DAYS | LAST_30_DAYS | THIS_MONTH | LAST_MONTH
  | THIS_QUARTER | LAST_QUARTER | CUSTOM

datatype sort_direction = ASC | DESC

datatype query_plan_status = VALID | NEEDS_CLARIFICATION | BLOCKED

datatype literal = LInt int | LFloat pyfloat

record metric_ref =
  metric_id :: string
  metric_alias :: string

record dimension_ref =
  dim_asset_id :: string
  dim_alias :: string

record filter_clause =
  fc_asset_id :: string
  fc_op :: filter_operator
  value_ids :: "string list"
  literal_values :: "literal list"

record time_range =
  field_id :: string
  preset :: time_preset
  tr_start :: "time option"
  tr_end :: "time option"

record sort_clause =
  sort_field :: string
  direction :: sort_direction

record plan_ambiguity =
  pa_code :: string
  pa_message :: string
  option_ids :: "string list"

record query_plan_draft =
  metrics :: "metric_ref list"
  dimensions :: "dimension_ref list"
  filters :: "filter_clause list"
  plan_time_range :: "time_range option"
  grain :: "string list"
  plan_sort :: "sort_clause list"
  plan_limit :: int
  join_path_ids :: "string list"
  evidence_ids :: "string list"
  ambiguities :: "plan_ambiguity list"

subsection \<open>Field constraints\<close>

definition len_in :: "nat \<Rightarrow> nat \<Rightarrow> 'a list \<Rightarrow> bool" where
  "len_in lo hi xs \<longleftrightarrow> lo \<le> length xs \<and> length xs \<le> hi"

text \<open>A string field with \<open>str_strip_whitespace\<close>, \<open>min_length\<close> and \<open>max_length\<close>.\<close>

definition text_ok :: "nat \<Rightarrow> string \<Rightarrow> bool" where
  "text_ok hi s \<longleftrightarrow> len_in 1 hi s"

definition alpha_char :: "char \<Rightarrow> bool" where
  "alpha_char c = (let n = of_char c :: nat in 65 \<le> n \<and> n \<le> 90 \<or> 97 \<le> n \<and> n \<le> 122)"

definition digit_char :: "char \<Rightarrow> bool" where
  "digit_char c = (let n = of_char c :: nat in 48 \<le> n \<and> n \<le> 57)"

text \<open>\<open>^[A-Za-z_][A-Za-z0-9_]*$\<close>.\<close>

definition alias_ok :: "string \<Rightarrow> bool" where
  "alias_ok s \<longleftrightarrow> text_ok 80 s \<and>
     (case s of [] \<Rightarrow> False | c # cs \<Rightarrow> (alpha_char c \<or> c = CHR ''_'') \<and>
        list_all (\<lambda>d. alpha_char d \<or> digit_char d \<or> d = CHR ''_'') cs)"

definition strip_metric :: "metric_ref \<Rightarrow> metric_ref" where
  "strip_metric m = \<lparr>metric_id = strip (metric_id m), metric_alias = strip (metric_alias m)\<rparr>"

definition metric_ok :: "metric_ref \<Rightarrow> bool" where
  "metric_ok m \<longleftrightarrow> text_ok 320 (metric_id m) \<and> alias_ok (metric_alias m)"

definition strip_dimension :: "dimension_ref \<Rightarrow> dimension_ref" where
  "strip_dimension d = \<lparr>dim_asset_id = strip (dim_asset_id d), dim_alias = strip (dim_alias d)\<rparr>"

definition dimension_ok :: "dimension_ref \<Rightarrow> bool" where
  "dimension_ok d \<longleftrightarrow> text_ok 320 (dim_asset_id d) \<and> alias_ok (dim_alias d)"

definition strip_filter :: "filter_clause \<Rightarrow> filter_clause" where
  "strip_filter f = f\<lparr>fc_asset_id := strip (fc_asset_id f), value_ids := map strip (value_ids f)\<rparr>"

definition filter_fields_ok :: "filter_clause \<Rightarrow> bool" where
  "filter_fields_ok f \<longleftrightarrow> text_ok 320 (fc_asset_id f) \<and> len_in 0 20 (value_ids f) \<and>
     len_in 0 20 (literal_values f)"

text \<open>\<open>FilterClause.validate_values\<close>.\<close>

definition null_ops :: "filter_operator set" where
  "null_ops = {IS_NULL, IS_NOT_NULL}"

definition single_value_ops :: "filter_operator set" where
  "single_value_ops = {EQ, NE, GT, GTE, LT, LTE}"

definition validate_values :: "filter_clause \<Rightarrow> exn + unit" where
  "validate_values f = all_checks
     [check_that (\<not> (fc_op f \<in> null_ops \<and> (value_ids f \<noteq> [] \<or> literal_values f \<noteq> [])))
        ''null filters cannot contain values'',
      check_that (\<not> (fc_op f \<notin> null_ops \<and> \<not> (value_ids f \<noteq> [] \<or> literal_values f \<noteq> [])))
        ''filter requires value_ids or literal_values'',
      check_that (\<not> (value_ids f \<noteq> [] \<and> literal_values f \<noteq> []))
        ''use value_ids or literal_values, not both'',
      check_that (\<not> (fc_op f = BETWEEN \<and> length (literal_values f) \<noteq> 2))
        ''BETWEEN requires exactly two literal values'',
      check_that (\<not> (fc_op f \<in> single_value_ops \<and>
          (if value_ids f \<noteq> [] then length (value_ids f) else length (literal_values f)) \<noteq> 1))
        (operator_value (fc_op f) @ '' requires exactly one value'')]"

text \<open>\<open>TimeRange.validate_range\<close>; the times of the model carry their zone.\<close>

definition validate_range :: "time_range \<Rightarrow> exn + unit" where
  "validate_range r =
     (if preset r = CUSTOM then
        (case (tr_start r, tr_end r) of
           (Some a, Some b) \<Rightarrow> check_that (\<not> b \<le> a) ''time range end must be later than start''
         | _ \<Rightarrow> Inl (ValueError ''CUSTOM time range requires start and end''))
      else check_that (tr_start r = None \<and> tr_end r = None)
        ''preset time range cannot contain custom timestamps'')"

definition strip_range :: "time_range \<Rightarrow> time_range" where
  "strip_range r = r\<lparr>field_id := strip (field_id r)\<rparr>"

definition strip_sort :: "sort_clause \<Rightarrow> sort_clause" where
  "strip_sort c = c\<lparr>sort_field := strip (sort_field c)\<rparr>"

definition strip_ambiguity :: "plan_ambiguity \<Rightarrow> plan_ambiguity" where
  "strip_ambiguity a = \<lparr>pa_code = strip (pa_code a), pa_message = strip (pa_message a),
     option_ids = map strip (option_ids a)\<rparr>"

definition ambiguity_ok :: "bool \<Rightarrow> plan_ambiguity \<Rightarrow> bool" where
  "ambiguity_ok given a \<longleftrightarrow> text_ok 80 (pa_code a) \<and> text_ok 300 (pa_message a) \<and>
     (given \<longrightarrow> len_in 2 3 (option_ids a))"

text \<open>\<open>QueryPlanDraft.validate_references\<close>.\<close>

definition draft_aliases :: "query_plan_draft \<Rightarrow> string list" where
  "draft_aliases d = map metric_alias (metrics d) @ map dim_alias (dimensions d)"

definition validate_references :: "query_plan_draft \<Rightarrow> exn + unit" where
  "validate_references d =
     (let unknown_sort = filter (\<lambda>f. f \<notin> set (draft_aliases d)) (map sort_field (plan_sort d))
      in all_checks
        [check_that (distinct (draft_aliases d)) ''metric and dimension aliases must be unique'',
         check_that (unknown_sort = [])
           (''sort fields must reference output aliases: '' @ repr_sorted unknown_sort),
         check_that (set (grain d) \<subseteq> dim_asset_id ` set (dimensions d))
           ''grain must reference declared dimension asset ids''])"

text \<open>Building a draft from input: strip, check the fields, run the validators. Pydantic collects
every failure in one \<open>ValidationError\<close>; the model keeps that it is raised.\<close>

definition strip_draft :: "query_plan_draft \<Rightarrow> query_plan_draft" where
  "strip_draft d = d\<lparr>metrics := map strip_metric (metrics d),
     dimensions := map strip_dimension (dimensions d), filters := map strip_filter (filters d),
     plan_time_range := map_option strip_range (plan_time_range d), grain := map strip (grain d),
     plan_sort := map strip_sort (plan_sort d), join_path_ids := map strip (join_path_ids d),
     evidence_ids := map strip (evidence_ids d), ambiguities := map strip_ambiguity (ambiguities d)\<rparr>"

definition draft_fields_ok :: "bool \<Rightarrow> (plan_ambiguity \<Rightarrow> bool) \<Rightarrow> query_plan_draft \<Rightarrow> bool" where
  "draft_fields_ok evidence_given options_given d \<longleftrightarrow>
     len_in 0 8 (metrics d) \<and> list_all metric_ok (metrics d) \<and>
     len_in 0 12 (dimensions d) \<and> list_all dimension_ok (dimensions d) \<and>
     len_in 0 20 (filters d) \<and> list_all filter_fields_ok (filters d) \<and>
     (case plan_time_range d of None \<Rightarrow> True | Some r \<Rightarrow> text_ok 320 (field_id r)) \<and>
     len_in 0 12 (grain d) \<and>
     len_in 0 8 (plan_sort d) \<and> list_all (\<lambda>c. text_ok 80 (sort_field c)) (plan_sort d) \<and>
     1 \<le> plan_limit d \<and> plan_limit d \<le> 200 \<and>
     len_in 0 12 (join_path_ids d) \<and> (evidence_given \<longrightarrow> len_in 1 40 (evidence_ids d)) \<and>
    
     len_in 0 8 (ambiguities d) \<and> list_all (\<lambda>a. ambiguity_ok (options_given a) a) (ambiguities d)"

definition validators_ok :: "query_plan_draft \<Rightarrow> bool" where
  "validators_ok d \<longleftrightarrow> list_all (\<lambda>f. validate_values f = Inr ()) (filters d) \<and>
     (case plan_time_range d of None \<Rightarrow> True | Some r \<Rightarrow> validate_range r = Inr ()) \<and>
     validate_references d = Inr ()"

text \<open>A default is not validated: the length limits of \<open>evidence_ids\<close> and of the options of an
ambiguity bind only where the input gives the field (an omitted one is the empty list).\<close>

definition make_draft ::
  "bool \<Rightarrow> (plan_ambiguity \<Rightarrow> bool) \<Rightarrow> query_plan_draft \<Rightarrow> exn + query_plan_draft" where
  "make_draft evidence_given options_given input =
     (let d = strip_draft input in
      if draft_fields_ok evidence_given options_given d \<and> validators_ok d then Inr d
      else Inl (External ''ValidationError''))"

subsection \<open>The validator\<close>

record validated_plan =
  vp_status :: query_plan_status
  plan_hash :: string
  plan_version :: int
  confidence :: pyfloat
  vp_evidence_ids :: "string list"
  vp_errors :: "string list"
  plan :: query_plan_draft

text \<open>The tables an asset stands for: \<open>add_asset_table\<close>.\<close>

definition asset_table :: "semantic_asset option \<Rightarrow> string list" where
  "asset_table found =
     (case found of
        None \<Rightarrow> []
      | Some a \<Rightarrow>
          (case map_of (payload a) ''table_name'' of
             Some (PStr t) \<Rightarrow> [''table:'' @
               (case map_of (payload a) ''database_schema'' of None \<Rightarrow> ''public''
                | Some v \<Rightarrow> payload_text v) @ ''.'' @ t]
           | _ \<Rightarrow> []))"

definition require_asset ::
  "time \<Rightarrow> catalog \<Rightarrow> grounding_snapshot \<Rightarrow> asset_type \<Rightarrow> string \<Rightarrow> string list" where
  "require_asset now cat snap expected aid =
     (case last_with asset_id (cat_assets cat) aid of
        None \<Rightarrow> [''UNKNOWN_'' @ asset_type_value expected @ '':'' @ aid]
      | Some a \<Rightarrow>
          if asset_type a \<noteq> expected then [''UNKNOWN_'' @ asset_type_value expected @ '':'' @ aid]
          else if \<not> asset_current now a then [''INELIGIBLE_'' @ asset_type_value expected @ '':'' @ aid]
          else if aid \<notin> set (snap_evidence_ids snap) then [''ASSET_NOT_GROUNDED:'' @ aid]
          else [])"

text \<open>The metric loop: errors, and the tables of the example query.\<close>

definition metric_check ::
  "sql_parser \<Rightarrow> time \<Rightarrow> catalog \<Rightarrow> grounding_snapshot \<Rightarrow> metric_ref \<Rightarrow> string list \<times> string list" where
  "metric_check parse now cat snap m =
     (let errs = require_asset now cat snap METRIC (metric_id m) in
      case last_with asset_id (cat_assets cat) (metric_id m) of
        None \<Rightarrow> (errs, [])
      | Some a \<Rightarrow>
          (case map_of (payload a) ''example_sql'' of
             Some (PStr sql) \<Rightarrow>
               (case parse sql of
                  None \<Rightarrow> (errs @ [''METRIC_EXAMPLE_INVALID:'' @ metric_id m], [])
                | Some tree \<Rightarrow>
                    (errs, map (\<lambda>(name, _). ''table:public.'' @ lower name) (tree_tables tree)))
           | _ \<Rightarrow> (errs, [])))"

definition column_name_of :: "semantic_asset option \<Rightarrow> string" where
  "column_name_of found =
     (case found of None \<Rightarrow> '''' | Some a \<Rightarrow>
        lower (case map_of (payload a) ''column_name'' of None \<Rightarrow> '''' | Some v \<Rightarrow> payload_text v))"

definition value_check ::
  "time \<Rightarrow> catalog \<Rightarrow> grounding_snapshot \<Rightarrow> string \<Rightarrow> string \<Rightarrow> string list" where
  "value_check now cat snap aid vid =
     (case last_with value_id (cat_values cat) vid of
        None \<Rightarrow> [''VALUE_NOT_GROUNDED:'' @ vid]
      | Some v \<Rightarrow>
          if \<not> value_current now v \<or> vid \<notin> set (snap_evidence_ids snap)
          then [''VALUE_NOT_GROUNDED:'' @ vid]
          else if column_asset_id v \<noteq> aid then [''VALUE_COLUMN_MISMATCH:'' @ vid] else [])"

definition filter_check ::
  "time \<Rightarrow> catalog \<Rightarrow> grounding_snapshot \<Rightarrow> filter_clause \<Rightarrow> string list" where
  "filter_check now cat snap f =
     (let aid = fc_asset_id f; cn = column_name_of (last_with asset_id (cat_assets cat) aid) in
      require_asset now cat snap COLUMN aid @
      (if literal_values f \<noteq> [] \<and> (cn = ''id'' \<or> ends_with ''_id'' cn)
       then [''IDENTIFIER_LITERAL_FORBIDDEN:'' @ aid] else []) @
      (if aid \<in> column_asset_id ` set (cat_values cat) \<and> literal_values f \<noteq> []
       then [''CONTROLLED_VALUE_ID_REQUIRED:'' @ aid] else []) @
      concat (map (value_check now cat snap aid) (value_ids f)))"

text \<open>The tables the draft refers to, and the evidence it needs.\<close>

definition referenced_tables :: "sql_parser \<Rightarrow> time \<Rightarrow> catalog \<Rightarrow> grounding_snapshot \<Rightarrow>
    query_plan_draft \<Rightarrow> string list" where
  "referenced_tables parse now cat snap d =
     concat (map (\<lambda>m. snd (metric_check parse now cat snap m)) (metrics d)) @
     concat (map (\<lambda>x. asset_table (last_with asset_id (cat_assets cat) x))
       (map dim_asset_id (dimensions d) @ map fc_asset_id (filters d) @
        (case plan_time_range d of None \<Rightarrow> [] | Some r \<Rightarrow> [field_id r])))"

text \<open>The relation checks of a join path.\<close>

definition relation_check :: "time \<Rightarrow> catalog \<Rightarrow> string \<Rightarrow> string list" where
  "relation_check now cat rid =
     (case last_with relation_id (cat_relations cat) rid of
        None \<Rightarrow> [''JOIN_NOT_CONFIRMED:'' @ rid]
      | Some r \<Rightarrow>
          if rel_status r \<noteq> CONFIRMED \<or> rel_sensitivity r = RESTRICTED \<or>
             list_ex (\<lambda>e. case last_with asset_id (cat_assets cat) e of None \<Rightarrow> True
                | Some a \<Rightarrow> \<not> asset_current now a) [left_asset_id r, right_asset_id r]
          then [''JOIN_NOT_CONFIRMED:'' @ rid] else [])"

definition path_check ::
  "time \<Rightarrow> catalog \<Rightarrow> grounding_snapshot \<Rightarrow> string list \<Rightarrow> string \<Rightarrow> string list" where
  "path_check now cat snap referenced pid =
     (case last_with path_id (join_paths snap) pid of
        None \<Rightarrow> [''JOIN_PATH_NOT_GROUNDED:'' @ pid]
      | Some p \<Rightarrow>
          (if table_asset_ids p = [] \<or>
              \<not> {hd (table_asset_ids p), last (table_asset_ids p)} \<subseteq> set referenced
           then [''UNNEEDED_JOIN_PATH:'' @ pid] else []) @
          concat (map (relation_check now cat) (relation_ids p)))"

definition selected_paths :: "grounding_snapshot \<Rightarrow> query_plan_draft \<Rightarrow> join_path list" where
  "selected_paths snap d = List.map_filter (last_with path_id (join_paths snap)) (join_path_ids d)"

text \<open>The undirected edges of \<open>path_graph\<close>.\<close>

definition path_edges :: "join_path list \<Rightarrow> (string \<times> string) list" where
  "path_edges ps = concat (map (\<lambda>p. concat (map (\<lambda>(a, b). [(a, b), (b, a)])
     (zip (table_asset_ids p) (tl (table_asset_ids p))))) ps)"

definition path_neighbors :: "(string \<times> string) list \<Rightarrow> string \<Rightarrow> string list" where
  "path_neighbors es x = map snd (filter (\<lambda>e. fst e = x) es)"

text \<open>
  The worklist of the connectivity test: \<open>pending.pop()\<close> takes the last element, a new table is
  marked and its unmarked neighbours are appended. It ends: every round either marks one more
  table of the finite graph, or shortens the worklist.
\<close>

function reach_tables :: "(string \<times> string) list \<Rightarrow> string list \<Rightarrow> string list \<Rightarrow> string list" where
  "reach_tables es seen pending =
     (if pending = [] then seen
      else let x = last pending; rest = butlast pending in
        if x \<in> set seen then reach_tables es seen rest
        else reach_tables es (x # seen)
          (rest @ filter (\<lambda>y. y \<notin> set (x # seen)) (remdups (path_neighbors es x))))"
  by pat_completeness auto

termination
proof (relation "measures [\<lambda>(es, seen, pending). card ((set pending \<union> snd ` set es) - set seen),
    \<lambda>(es, seen, pending). length pending]", goal_cases)
  case 1
  show ?case by simp
next
  case (2 es seen pending x rest)
  then have "set rest \<subseteq> set pending" by (auto dest: in_set_butlastD)
  then have "(set rest \<union> snd ` set es) - set seen \<subseteq> (set pending \<union> snd ` set es) - set seen" by auto
  then have "card ((set rest \<union> snd ` set es) - set seen) \<le> card ((set pending \<union> snd ` set es) - set seen)"
    by (rule card_mono [rotated]) simp
  with 2 show ?case by (auto simp: le_less)
next
  case (3 es seen pending x rest)
  let ?new = "rest @ filter (\<lambda>y. y \<notin> set (x # seen)) (remdups (path_neighbors es x))"
  have sub: "set rest \<subseteq> set pending" and x: "x \<in> set pending"
    using 3 by (auto dest: in_set_butlastD)
  have "(set ?new \<union> snd ` set es) - set (x # seen) \<subseteq> ((set pending \<union> snd ` set es) - set seen) - {x}"
    using sub by (auto simp: path_neighbors_def)
  then have "card ((set ?new \<union> snd ` set es) - set (x # seen)) \<le>
      card (((set pending \<union> snd ` set es) - set seen) - {x})"
    by (rule card_mono [rotated]) simp
  also have "\<dots> < card ((set pending \<union> snd ` set es) - set seen)"
    using x 3 by (intro card_Diff1_less) auto
  finally show ?case by simp
qed

declare reach_tables.simps [simp del]

definition connection_errors :: "(string list \<Rightarrow> string) \<Rightarrow> join_path list \<Rightarrow> string list" where
  "connection_errors pick ps =
     (let selected = concat (map table_asset_ids ps) in
      if selected = [] then []
      else let reachable = reach_tables (path_edges ps) [] [pick selected];
               disconnected = filter (\<lambda>t. t \<notin> set reachable) selected
           in if disconnected = [] then [] else [''DISCONNECTED_JOIN_PATHS:'' @ repr_sorted disconnected])"

definition required_evidence :: "grounding_snapshot \<Rightarrow> query_plan_draft \<Rightarrow> string list" where
  "required_evidence snap d = map metric_id (metrics d) @ map dim_asset_id (dimensions d) @
     concat (map (\<lambda>f. fc_asset_id f # value_ids f) (filters d)) @
     (case plan_time_range d of None \<Rightarrow> [] | Some r \<Rightarrow> [field_id r]) @
     concat (map relation_ids (selected_paths snap d))"

definition join_required_errors :: "string list \<Rightarrow> join_path list \<Rightarrow> string list" where
  "join_required_errors referenced ps =
     (let missing = filter (\<lambda>t. t \<notin> set (concat (map table_asset_ids ps))) referenced in
      if card (set referenced) > 1 \<and> missing \<noteq> [] then [''JOIN_PATH_REQUIRED:'' @ repr_sorted missing]
      else [])"

definition evidence_errors :: "grounding_snapshot \<Rightarrow> query_plan_draft \<Rightarrow> string list" where
  "evidence_errors snap d =
     (let ungrounded = filter (\<lambda>e. e \<notin> set (snap_evidence_ids snap)) (evidence_ids d);
          missing = filter (\<lambda>e. e \<notin> set (evidence_ids d)) (required_evidence snap d)
      in (if ungrounded = [] then [] else [''EVIDENCE_NOT_GROUNDED:'' @ repr_sorted ungrounded]) @
         (if missing = [] then [] else [''REQUIRED_EVIDENCE_MISSING:'' @ repr_sorted missing]))"

definition plan_errors ::
  "sql_parser \<Rightarrow> (string list \<Rightarrow> string) \<Rightarrow> time \<Rightarrow> query_plan_draft \<Rightarrow> grounding_snapshot \<Rightarrow>
   catalog \<Rightarrow> string list" where
  "plan_errors parse pick now d snap cat =
     (let referenced = referenced_tables parse now cat snap d; ps = selected_paths snap d in
      concat (map (\<lambda>m. fst (metric_check parse now cat snap m)) (metrics d)) @
      concat (map (\<lambda>x. require_asset now cat snap COLUMN (dim_asset_id x)) (dimensions d)) @
      concat (map (filter_check now cat snap) (filters d)) @
      (case plan_time_range d of None \<Rightarrow> [] | Some r \<Rightarrow> require_asset now cat snap COLUMN (field_id r)) @
      concat (map (path_check now cat snap referenced) (join_path_ids d)) @
      join_required_errors referenced ps @ connection_errors pick ps @ evidence_errors snap d)"

text \<open>The share of the required evidence that the draft names.\<close>

definition evidence_coverage :: "grounding_snapshot \<Rightarrow> query_plan_draft \<Rightarrow> pyfloat" where
  "evidence_coverage snap d =
     fdiv (of_nat (card (set (required_evidence snap d) \<inter> set (evidence_ids d))))
       (of_nat (max (card (set (required_evidence snap d))) 1))"

definition plan_confidence :: "pyfloat \<Rightarrow> pyfloat \<Rightarrow> bool \<Rightarrow> pyfloat" where
  "plan_confidence snap_conf coverage valid =
     (let c = fround (fmul snap_conf (fadd (3 / 4) (fmul coverage (1 / 4)))) 4
      in if valid then c else min c (fl (49 / 100)))"

definition validate_plan ::
  "sql_parser \<Rightarrow> (string list \<Rightarrow> string) \<Rightarrow> (query_plan_draft \<Rightarrow> string) \<Rightarrow> time \<Rightarrow>
   query_plan_draft \<Rightarrow> grounding_snapshot \<Rightarrow> catalog \<Rightarrow> validated_plan" where
  "validate_plan parse pick dump now d snap cat =
     (let errors = plan_errors parse pick now d snap cat;
          codes = map pa_code (ambiguities d) @ snap_ambiguities snap;
          st = (if errors \<noteq> [] then BLOCKED else if codes \<noteq> [] then NEEDS_CLARIFICATION else VALID)
      in \<lparr>vp_status = st, plan_hash = sha256_hex (dump d), plan_version = 1,
          confidence = plan_confidence (snap_confidence snap) (evidence_coverage snap d) (st = VALID),
          vp_evidence_ids = sort (remdups (evidence_ids d)),
          vp_errors = errors @ map (\<lambda>c. ''AMBIGUITY:'' @ c) (sort (remdups codes)), plan = d\<rparr>)"

subsection \<open>The connectivity test\<close>

lemma reach_tables_sound:
  "y \<in> set (reach_tables es seen pending) \<Longrightarrow>
   y \<in> set seen \<or> (\<exists>x \<in> set pending. (x, y) \<in> (set es)\<^sup>*)"
proof (induction es seen pending rule: reach_tables.induct)
  case (1 es seen pending)
  show ?case
  proof (cases "pending = []")
    case True
    with 1(3) show ?thesis by (simp add: reach_tables.simps)
  next
    case False
    define x rest where "x = last pending" and "rest = butlast pending"
    have p: "set rest \<subseteq> set pending" "x \<in> set pending"
      using False by (auto simp: x_def rest_def dest: in_set_butlastD)
    show ?thesis
    proof (cases "x \<in> set seen")
      case True
      with 1(1) [OF False x_def rest_def True] 1(3) False p show ?thesis
        by (subst (asm) reach_tables.simps) (auto simp: x_def rest_def Let_def)
    next
      case new: False
      let ?next = "rest @ filter (\<lambda>y. y \<notin> set (x # seen)) (remdups (path_neighbors es x))"
      have "y \<in> set (reach_tables es (x # seen) ?next)"
        using 1(3) False new by (subst (asm) reach_tables.simps) (simp add: x_def rest_def Let_def)
      with 1(2) [OF False x_def rest_def new]
      have "y \<in> set (x # seen) \<or> (\<exists>z \<in> set ?next. (z, y) \<in> (set es)\<^sup>*)" by blast
      moreover have "(x, z) \<in> set es" if "z \<in> set (path_neighbors es x)" for z
        using that by (auto simp: path_neighbors_def)
      ultimately show ?thesis using p by (auto intro: converse_rtrancl_into_rtrancl)
    qed
  qed
qed

lemma reach_tables_closed:
  assumes "\<forall>a \<in> set seen. \<forall>b. (a, b) \<in> set es \<longrightarrow> b \<in> set seen \<union> set pending"
  shows "set seen \<union> set pending \<subseteq> set (reach_tables es seen pending) \<and>
    (\<forall>a \<in> set (reach_tables es seen pending). \<forall>b. (a, b) \<in> set es \<longrightarrow>
       b \<in> set (reach_tables es seen pending))"
  using assms
proof (induction es seen pending rule: reach_tables.induct)
  case (1 es seen pending)
  show ?case
  proof (cases "pending = []")
    case True
    with 1(3) show ?thesis by (simp add: reach_tables.simps)
  next
    case False
    define x rest where "x = last pending" and "rest = butlast pending"
    have p: "set pending = insert x (set rest)"
      using False append_butlast_last_id [of pending] by (metis x_def rest_def set_append
          list.set(1) list.set(2) Un_insert_right Un_empty_right)
    show ?thesis
    proof (cases "x \<in> set seen")
      case True
      have "reach_tables es seen pending = reach_tables es seen rest"
        using False True by (subst reach_tables.simps) (simp add: x_def rest_def Let_def)
      with 1(1) [OF False x_def rest_def True] 1(3) p True show ?thesis by auto
    next
      case new: False
      let ?next = "rest @ filter (\<lambda>y. y \<notin> set (x # seen)) (remdups (path_neighbors es x))"
      have eq: "reach_tables es seen pending = reach_tables es (x # seen) ?next"
        using False new by (subst reach_tables.simps) (simp add: x_def rest_def Let_def)
      have "\<forall>a \<in> set (x # seen). \<forall>b. (a, b) \<in> set es \<longrightarrow> b \<in> set (x # seen) \<union> set ?next"
        using 1(3) p by (auto simp: path_neighbors_def image_iff)
      with 1(2) [OF False x_def rest_def new] show ?thesis unfolding eq using p by auto
    qed
  qed
qed

text \<open>From one start, the test marks exactly the tables that are connected to it.\<close>

lemma reach_tables_eq: "set (reach_tables es [] [x]) = {y. (x, y) \<in> (set es)\<^sup>*}"
proof
  show "set (reach_tables es [] [x]) \<subseteq> {y. (x, y) \<in> (set es)\<^sup>*}"
    using reach_tables_sound [of _ es "[]" "[x]"] by auto
  have c: "x \<in> set (reach_tables es [] [x])"
    "\<And>a b. a \<in> set (reach_tables es [] [x]) \<Longrightarrow> (a, b) \<in> set es \<Longrightarrow> b \<in> set (reach_tables es [] [x])"
    using reach_tables_closed [of "[]" es "[x]"] by auto
  have "y \<in> set (reach_tables es [] [x])" if "(x, y) \<in> (set es)\<^sup>*" for y
    using that by (induction rule: rtrancl_induct) (use c in auto)
  then show "{y. (x, y) \<in> (set es)\<^sup>*} \<subseteq> set (reach_tables es [] [x])" by auto
qed

lemma path_edges_sym: "(a, b) \<in> set (path_edges ps) \<Longrightarrow> (b, a) \<in> set (path_edges ps)"
  by (auto simp: path_edges_def)

lemma connection_errors_Nil:
  assumes "connection_errors pick ps = []" and "\<And>xs. xs \<noteq> [] \<Longrightarrow> pick xs \<in> set xs"
    and "a \<in> set (concat (map table_asset_ids ps))" and "b \<in> set (concat (map table_asset_ids ps))"
  shows "(a, b) \<in> (set (path_edges ps))\<^sup>*"
proof -
  let ?sel = "concat (map table_asset_ids ps)" and ?E = "set (path_edges ps)"
  have ne: "?sel \<noteq> []" using assms(3) by (metis empty_iff list.set(1))
  have "filter (\<lambda>t. t \<notin> set (reach_tables (path_edges ps) [] [pick ?sel])) ?sel = []"
    using assms(1) ne by (auto simp: connection_errors_def Let_def split: if_splits)
  then have all: "\<And>t. t \<in> set ?sel \<Longrightarrow> (pick ?sel, t) \<in> ?E\<^sup>*"
    unfolding filter_empty_conv reach_tables_eq by auto
  have "sym ?E" using path_edges_sym by (auto intro: symI)
  then have "sym (?E\<^sup>*)" by (rule sym_rtrancl)
  with all [OF assms(3)] have "(a, pick ?sel) \<in> ?E\<^sup>*" by (blast dest: symD)
  then show ?thesis using all [OF assms(4)] by (blast intro: rtrancl_trans)
qed

subsection \<open>Properties of validation\<close>

definition asset_grounded :: "time \<Rightarrow> catalog \<Rightarrow> grounding_snapshot \<Rightarrow> asset_type \<Rightarrow> string \<Rightarrow> bool" where
  "asset_grounded now cat snap ty aid \<longleftrightarrow>
     (\<exists>a \<in> set (cat_assets cat). asset_id a = aid \<and> asset_type a = ty \<and> asset_current now a) \<and>
     aid \<in> set (snap_evidence_ids snap)"

definition relation_usable :: "time \<Rightarrow> catalog \<Rightarrow> string \<Rightarrow> bool" where
  "relation_usable now cat rid \<longleftrightarrow> (\<exists>r \<in> set (cat_relations cat). relation_id r = rid \<and>
     rel_status r = CONFIRMED \<and> rel_sensitivity r \<noteq> RESTRICTED \<and>
     (\<forall>e \<in> {left_asset_id r, right_asset_id r}.
        \<exists>a \<in> set (cat_assets cat). asset_id a = e \<and> asset_current now a))"

lemma require_asset_Nil: "require_asset now cat snap ty aid = [] \<Longrightarrow> asset_grounded now cat snap ty aid"
  by (auto simp: require_asset_def asset_grounded_def split: option.splits if_splits
      dest!: last_with_Some)

lemma relation_check_Nil:
  assumes "relation_check now cat rid = []"
  shows "relation_usable now cat rid"
proof -
  from assms obtain r where r: "last_with relation_id (cat_relations cat) rid = Some r"
    by (auto simp: relation_check_def split: option.splits)
  with assms have u: "rel_status r = CONFIRMED" "rel_sensitivity r \<noteq> RESTRICTED"
    "\<forall>e \<in> {left_asset_id r, right_asset_id r}. \<exists>a. last_with asset_id (cat_assets cat) e = Some a \<and>
       asset_current now a"
    by (auto simp: relation_check_def split: if_splits option.splits)
  then have "\<forall>e \<in> {left_asset_id r, right_asset_id r}.
      \<exists>a \<in> set (cat_assets cat). asset_id a = e \<and> asset_current now a"
    using last_with_Some [of asset_id "cat_assets cat"] by blast
  with u(1,2) last_with_Some [OF r] show ?thesis by (auto simp: relation_usable_def)
qed

lemma value_check_Nil:
  "value_check now cat snap aid vid = [] \<Longrightarrow>
   (\<exists>v \<in> set (cat_values cat). value_id v = vid \<and> value_current now v \<and> column_asset_id v = aid) \<and>
   vid \<in> set (snap_evidence_ids snap)"
  by (auto simp: value_check_def split: option.splits if_splits dest!: last_with_Some)

lemma metric_check_Nil:
  "fst (metric_check parse now cat snap m) = [] \<Longrightarrow> require_asset now cat snap METRIC (metric_id m) = []"
  by (auto simp: metric_check_def Let_def split: option.splits payload_value.splits)


text \<open>The confidence of a plan is a probability, and a plan that is not valid never has more
than 0.49.\<close>

theorem plan_confidence_bounds:
  assumes "0 \<le> snap_confidence snap" and "snap_confidence snap \<le> 1"
  shows "0 \<le> confidence (validate_plan parse pick dump now d snap cat) \<and>
    confidence (validate_plan parse pick dump now d snap cat) \<le> 1 \<and>
    (vp_status (validate_plan parse pick dump now d snap cat) \<noteq> VALID \<longrightarrow>
     confidence (validate_plan parse pick dump now d snap cat) \<le> fl (49 / 100))"
proof -
  let ?c = "evidence_coverage snap d"
  have "card (set (required_evidence snap d) \<inter> set (evidence_ids d)) \<le> max (card (set (required_evidence snap d))) 1"
    by (rule le_trans [OF card_mono]) auto
  then have c: "0 \<le> ?c" "?c \<le> 1"
    unfolding evidence_coverage_def
    using fdiv_range [of "of_nat (card (set (required_evidence snap d) \<inter> set (evidence_ids d)))"
        "of_nat (max (card (set (required_evidence snap d))) 1)"] by (auto simp del: of_nat_max)
  have m: "0 \<le> fmul ?c (1 / 4)" "fmul ?c (1 / 4) \<le> fl (1 / 4)"
    using c fl_nonneg [of "?c * (1 / 4)"] fl_mono [of "?c * (1 / 4)" "1 / 4"] by (auto simp: fmul_def)
  have q: "fl (1 / 4) \<le> 1 / 4" by code_simp
  have a: "0 \<le> fadd (3 / 4) (fmul ?c (1 / 4))" "fadd (3 / 4) (fmul ?c (1 / 4)) \<le> 1"
    using m q fl_nonneg [of "3 / 4 + fmul ?c (1 / 4)"] fl_le_1 [of "3 / 4 + fmul ?c (1 / 4)"]
    by (auto simp: fadd_def)
  let ?p = "fmul (snap_confidence snap) (fadd (3 / 4) (fmul ?c (1 / 4)))"
  have "snap_confidence snap * fadd (3 / 4) (fmul ?c (1 / 4)) \<le> 1"
    using mult_mono [OF assms(2) a(2)] assms(1) a(1) by simp
  then have p: "0 \<le> ?p" "?p \<le> 1"
    using assms a fl_nonneg [of "snap_confidence snap * fadd (3 / 4) (fmul ?c (1 / 4))"]
      fl_le_1 by (auto simp: fmul_def)
  have "0 \<le> fround ?p 4 \<and> fround ?p 4 \<le> 1" using fround_range p by blast
  moreover have "0 \<le> fl (49 / 100)" by (rule fl_nonneg) simp
  ultimately show ?thesis
    by (auto simp: validate_plan_def Let_def plan_confidence_def)
qed

subsection \<open>The connectivity test is exact\<close>

text \<open>The worklist test of the validator is exact: it reports no disconnected tables exactly when
every two tables of the chosen join paths are linked by a chain of hops of those paths, whichever
table the test starts from.\<close>

theorem connectivity_test_exact:
  assumes "\<And>xs. xs \<noteq> [] \<Longrightarrow> pick xs \<in> set xs"
  shows "connection_errors pick ps = [] \<longleftrightarrow>
    (\<forall>a \<in> set (concat (map table_asset_ids ps)). \<forall>b \<in> set (concat (map table_asset_ids ps)).
       (a, b) \<in> (set (path_edges ps))\<^sup>*)"
proof
  assume "connection_errors pick ps = []"
  then show "\<forall>a \<in> set (concat (map table_asset_ids ps)). \<forall>b \<in> set (concat (map table_asset_ids ps)).
       (a, b) \<in> (set (path_edges ps))\<^sup>*"
    using connection_errors_Nil [OF _ assms] by blast
next
  let ?sel = "concat (map table_asset_ids ps)"
  assume linked: "\<forall>a \<in> set ?sel. \<forall>b \<in> set ?sel. (a, b) \<in> (set (path_edges ps))\<^sup>*"
  show "connection_errors pick ps = []"
  proof (cases "?sel = []")
    case False
    with assms have "pick ?sel \<in> set ?sel" by blast
    with linked have "\<forall>b \<in> set ?sel. b \<in> set (reach_tables (path_edges ps) [] [pick ?sel])"
      unfolding reach_tables_eq by blast
    then have "filter (\<lambda>t. t \<notin> set (reach_tables (path_edges ps) [] [pick ?sel])) ?sel = []"
      by (simp add: filter_empty_conv)
    then show ?thesis by (simp add: connection_errors_def Let_def del: map_concat)
  qed (simp add: connection_errors_def)
qed

subsection \<open>Concrete plans\<close>

definition city_column :: semantic_asset where
  "city_column = \<lparr>asset_id = ''column:public.shop.city'', asset_type = COLUMN, title = ''city'',
     description = ''city'', source_uri = '''', source_hash = '''', tenant_id = ''default'',
     schema_version = 1, content_version = 1, trust_level = HIGH_TRUST, sensitivity = INTERNAL,
     status = PUBLISHED, aliases = [], effective_from = None, effective_to = None, owner = None,
     payload = [(''table_name'', PStr ''shop''), (''column_name'', PStr ''city'')]\<rparr>"

definition sample_catalog :: catalog where
  "sample_catalog = \<lparr>cat_assets = [city_column], cat_values = [], cat_relations = []\<rparr>"

definition sample_snapshot :: grounding_snapshot where
  "sample_snapshot = \<lparr>query_hash = '''', snap_tenant_id = ''default'', table_candidates = [],
     column_candidates = [], knowledge_candidates = [], value_candidates = [],
     join_paths = [\<lparr>path_id = ''joinpath:1'', relation_ids = [],
       table_asset_ids = [''table:public.shop'', ''table:public.sale''], path_score = 1\<rparr>],
     snap_evidence_ids = [''column:public.shop.city''], snap_confidence = 1, snap_ambiguities = []\<rparr>"

definition empty_draft :: query_plan_draft where
  "empty_draft = \<lparr>metrics = [], dimensions = [], filters = [], plan_time_range = None, grain = [],
     plan_sort = [], plan_limit = 50, join_path_ids = [], evidence_ids = [], ambiguities = []\<rparr>"

definition city_draft :: query_plan_draft where
  "city_draft = empty_draft\<lparr>
     dimensions := [\<lparr>dim_asset_id = ''column:public.shop.city'', dim_alias = ''city''\<rparr>],
     evidence_ids := [''column:public.shop.city'']\<rparr>"

lemma city_plan_valid:
  "vp_status (validate_plan (\<lambda>_. None) hd (\<lambda>_. '''') 0 city_draft sample_snapshot sample_catalog) = VALID"
  by (simp add: validate_plan_def plan_errors_def city_draft_def empty_draft_def sample_snapshot_def
      sample_catalog_def city_column_def require_asset_def asset_current_def current_at_def
      join_required_errors_def referenced_tables_def asset_table_def selected_paths_def
      connection_errors_def evidence_errors_def required_evidence_def map_filter_simps)


theorem plan_confidence_bounds_witness:
  "confidence (validate_plan (\<lambda>_. None) hd (\<lambda>_. '''') 0 city_draft sample_snapshot sample_catalog) \<le> 1"
  using plan_confidence_bounds [of sample_snapshot] by (simp add: sample_snapshot_def)

theorem connectivity_test_exact_witness:
  "connection_errors hd (join_paths sample_snapshot) = []"
proof -
  have "connection_errors hd (join_paths sample_snapshot) = [] \<longleftrightarrow>
    (\<forall>a \<in> {''table:public.shop'', ''table:public.sale''}. \<forall>b \<in> {''table:public.shop'', ''table:public.sale''}.
       (a, b) \<in> (set (path_edges (join_paths sample_snapshot)))\<^sup>*)"
    using connectivity_test_exact [of hd "join_paths sample_snapshot"]
    by (simp add: sample_snapshot_def)
  then show ?thesis by (auto simp: sample_snapshot_def path_edges_def)
qed

text \<open>The limit of at least one evidence id does not bind a draft that leaves the field out: a
draft with nothing in it is accepted, and over a snapshot without ambiguities it is a valid plan.\<close>

theorem empty_plan_is_valid:
  assumes "snap_ambiguities snap = []"
  shows "make_draft False g empty_draft = Inr empty_draft \<and>
    vp_status (validate_plan parse pick dump now empty_draft snap cat) = VALID"
  using assms
  by (simp add: empty_draft_def make_draft_def strip_draft_def Let_def draft_fields_ok_def len_in_def
      validators_ok_def validate_references_def draft_aliases_def check_that_def
      validate_plan_def plan_errors_def join_required_errors_def referenced_tables_def
      selected_paths_def connection_errors_def evidence_errors_def required_evidence_def map_filter_simps)

theorem empty_plan_is_valid_witness:
  "make_draft False (\<lambda>_. False) empty_draft = Inr empty_draft \<and>
    vp_status (validate_plan (\<lambda>_. None) hd (\<lambda>_. '''') 0 empty_draft sample_snapshot sample_catalog) = VALID"
  by (rule empty_plan_is_valid) (simp add: sample_snapshot_def)

end
