(* ===== verification/Plan_Guard.thy ===== *)
theory Plan_Guard
  imports Sql_Tree Query_Plan
begin

section \<open>The guard between a validated plan and the SQL that runs\<close>

text \<open>
  \<open>agent-service/app/security/query_plan_guard.py\<close>: before a generated query is executed, its parse
  tree is compared with the validated plan. Every deviation is an error code; the query is refused
  unless there is none. The parts of the check follow the function \<open>query_plan_alignment_errors\<close> from
  top to bottom.

  Arguments of the model: the parser and renderer of \<open>sqlglot\<close> (record \<open>sqlglot\<close> of \<open>Sql_Tree\<close>);
  \<open>number_text\<close>, the text of a number (\<open>str\<close> of an int or float); \<open>iso_date\<close>, the calendar date of a
  datetime in its own time zone, which the model's instants do not carry. A binary node has its two
  operands and an alias its value, as the constructors of \<open>sqlglot\<close> require.
\<close>

subsection \<open>Text\<close>

text \<open>\<open>str.upper\<close> below 256; the two characters whose capital is above stay as they are.\<close>

definition upper_char :: "char \<Rightarrow> string" where
  "upper_char c = (let n = of_char c :: nat in
     if 97 \<le> n \<and> n \<le> 122 \<or> 224 \<le> n \<and> n \<le> 254 \<and> n \<noteq> 247 then [char_of (n - 32)]
     else if n = 223 then ''SS'' else [c])"

definition upper :: "string \<Rightarrow> string" where
  "upper s = concat (map upper_char s)"

fun split_on :: "(char \<Rightarrow> bool) \<Rightarrow> string \<Rightarrow> string list" where
  "split_on p [] = [[]]"
| "split_on p (c # cs) =
     (if p c then [] # split_on p cs
      else (case split_on p cs of [] \<Rightarrow> [[c]] | w # ws \<Rightarrow> (c # w) # ws))"

text \<open>\<open>" ".join(s.upper().split())\<close>.\<close>

definition normal_text :: "string \<Rightarrow> string" where
  "normal_text s = join_with '' '' (filter (\<lambda>w. w \<noteq> []) (split_on is_space (upper s)))"

definition repr_pairs :: "(string \<times> string) list \<Rightarrow> string" where
  "repr_pairs xs = ''['' @ join_with '', '' (map (\<lambda>(a, b). ''('' @ repr_str a @ '', '' @ repr_str b @ '')'') xs) @ '']''"

definition get_or_self :: "(string, string) dict \<Rightarrow> string \<Rightarrow> string" where
  "get_or_self d k = (case map_of d k of None \<Rightarrow> k | Some v \<Rightarrow> v)"

subsection \<open>Columns\<close>

text \<open>\<open>_asset_column\<close> and \<open>_asset_table\<close>.\<close>

definition asset_column :: "string \<Rightarrow> (string \<times> string) option" where
  "asset_column aid =
     (if \<not> starts_with ''column:'' aid then None
      else (case split_on (\<lambda>c. c = CHR ''.'') (drop 7 aid) of
              [_, t, c] \<Rightarrow> Some (lower t, lower c)
            | _ \<Rightarrow> None))"

definition asset_table_name :: "string \<Rightarrow> string option" where
  "asset_table_name aid =
     (if starts_with ''table:'' aid then Some (lower (last (split_on (\<lambda>c. c = CHR ''.'') aid)))
      else map_option fst (asset_column aid))"

text \<open>The table and column that a column node stands for; an unqualified one has an empty table.\<close>

definition table_of :: "sqlglot \<Rightarrow> (string, string) dict \<Rightarrow> sql \<Rightarrow> string" where
  "table_of g al n = (if column_table g n = [] then [] else get_or_self al (lower (column_table g n)))"

definition column_pair :: "sqlglot \<Rightarrow> (string, string) dict \<Rightarrow> sql \<Rightarrow> string \<times> string" where
  "column_pair g al n = (table_of g al n, lower (node_name g n))"

definition columns_in :: "sqlglot \<Rightarrow> (string, string) dict \<Rightarrow> occ option \<Rightarrow> (string \<times> string) list" where
  "columns_in g al o1 = (case o1 of None \<Rightarrow> [] | Some p \<Rightarrow> map (\<lambda>c. column_pair g al (snd c)) (find_all X_Column p))"

definition column_matches :: "sqlglot \<Rightarrow> (string, string) dict \<Rightarrow> string \<times> string \<Rightarrow> sql \<Rightarrow> bool" where
  "column_matches g al target n \<longleftrightarrow> is_a X_Column n \<and>
     (column_pair g al n = target \<or> table_of g al n = [] \<and> lower (node_name g n) = snd target)"

definition mentions :: "sqlglot \<Rightarrow> (string, string) dict \<Rightarrow> string \<times> string \<Rightarrow> occ \<Rightarrow> bool" where
  "mentions g al target o1 \<longleftrightarrow> list_ex (\<lambda>c. column_matches g al target (snd c)) (find_all X_Column o1)"

text \<open>\<open>column not in columns and ("", column[1]) not in columns\<close>.\<close>

definition absent :: "string \<times> string \<Rightarrow> (string \<times> string) list \<Rightarrow> bool" where
  "absent c cs \<longleftrightarrow> c \<notin> set cs \<and> ([], snd c) \<notin> set cs"

subsection \<open>Operators and literals of a filter\<close>

definition this_is :: "sql_class \<Rightarrow> occ \<Rightarrow> bool" where
  "this_is c o1 \<longleftrightarrow> (case arg ''this'' (snd o1) of None \<Rightarrow> False | Some m \<Rightarrow> is_a c m)"

definition null_test :: "occ \<Rightarrow> bool" where
  "null_test o1 \<longleftrightarrow> (case arg ''expression'' (snd o1) of None \<Rightarrow> False | Some m \<Rightarrow> is_a X_Null m)"

fun operator_nodes :: "filter_operator \<Rightarrow> occ \<Rightarrow> occ list" where
  "operator_nodes EQ o1 = find_all X_EQ o1"
| "operator_nodes NE o1 = find_all X_NEQ o1"
| "operator_nodes GT o1 = find_all X_GT o1"
| "operator_nodes GTE o1 = find_all X_GTE o1"
| "operator_nodes LT o1 = find_all X_LT o1"
| "operator_nodes LTE o1 = find_all X_LTE o1"
| "operator_nodes IN_OP o1 = filter (\<lambda>n. \<not> parent_is X_Not n) (find_all X_In o1)"
| "operator_nodes NOT_IN o1 = List.map_filter (child ''this'') (filter (this_is X_In) (find_all X_Not o1))"
| "operator_nodes BETWEEN o1 = find_all X_Between o1"
| "operator_nodes IS_NULL o1 = filter (\<lambda>n. null_test n \<and> \<not> parent_is X_Not n) (find_all X_Is o1)"
| "operator_nodes IS_NOT_NULL o1 = filter null_test
     (List.map_filter (child ''this'') (filter (this_is X_Is) (find_all X_Not o1)))"

text \<open>A node that counts for a filter on a column: under WHERE or HAVING, not under OR.\<close>

definition counts_for :: "sqlglot \<Rightarrow> (string, string) dict \<Rightarrow> string \<times> string \<Rightarrow> occ \<Rightarrow> bool" where
  "counts_for g al target n \<longleftrightarrow> (inside X_Where n \<or> inside X_Having n) \<and> \<not> inside X_Or n \<and> mentions g al target n"

definition operator_present ::
  "sqlglot \<Rightarrow> (string, string) dict \<Rightarrow> filter_operator \<Rightarrow> string \<times> string \<Rightarrow> occ \<Rightarrow> bool" where
  "operator_present g al op target o1 \<longleftrightarrow> list_ex (counts_for g al target) (operator_nodes op o1)"

text \<open>The texts of the string and of the number literals.\<close>

definition predicate_literals ::
  "sqlglot \<Rightarrow> (string, string) dict \<Rightarrow> filter_operator \<Rightarrow> string \<times> string \<Rightarrow> occ \<Rightarrow> string list \<times> string list" where
  "predicate_literals g al op target o1 =
     (let ls = concat (map (\<lambda>n. map snd (find_all X_Literal n)) (filter (counts_for g al target) (operator_nodes op o1)))
      in (map (literal_text g) (filter (literal_string g) ls),
          map (literal_text g) (filter (\<lambda>l. \<not> literal_string g l \<and> literal_number g l) ls)))"
subsection \<open>The time range\<close>

definition single_quoted :: "string \<Rightarrow> string" where
  "single_quoted s = [CHR 0x27] @ s @ [CHR 0x27]"

definition truncated_to :: "string \<Rightarrow> string" where
  "truncated_to period = ''DATE_TRUNC('' @ single_quoted period"

definition has_current_boundary :: "string \<Rightarrow> bool" where
  "has_current_boundary s \<longleftrightarrow>
     list_ex (\<lambda>w. contains w s) [''CURRENT_DATE'', ''CURRENT_TIMESTAMP'', ''NOW()'']"

text \<open>The comparisons with the time column that are not under OR: on which side of the column each
one is, as \<open>Some True\<close> for a lower bound and \<open>Some False\<close> for an upper one.\<close>

definition opt_mentions :: "sqlglot \<Rightarrow> (string, string) dict \<Rightarrow> string \<times> string \<Rightarrow> occ option \<Rightarrow> bool" where
  "opt_mentions g al target o1 = (case o1 of None \<Rightarrow> False | Some n \<Rightarrow> mentions g al target n)"

definition bound_side :: "sqlglot \<Rightarrow> (string, string) dict \<Rightarrow> string \<times> string \<Rightarrow> occ \<Rightarrow> bool option" where
  "bound_side g al target n =
     (let l = opt_mentions g al target (child ''this'' n); r = opt_mentions g al target (child ''expression'' n);
          greater = is_a X_GT (snd n) \<or> is_a X_GTE (snd n)
      in if l = r then None else Some (l \<and> greater \<or> r \<and> \<not> greater))"

definition time_comparisons :: "occ \<Rightarrow> occ list" where
  "time_comparisons w = filter (\<lambda>n. \<not> inside X_Or n) (concat (map (\<lambda>c. find_all c w) [X_GT, X_GTE, X_LT, X_LTE]))"

definition time_betweens :: "sqlglot \<Rightarrow> (string, string) dict \<Rightarrow> string \<times> string \<Rightarrow> occ \<Rightarrow> occ list" where
  "time_betweens g al target w =
     filter (\<lambda>n. \<not> inside X_Or n \<and> opt_mentions g al target (child ''this'' n)) (find_all X_Between w)"

definition bound_text :: "sqlglot \<Rightarrow> (string, string) dict \<Rightarrow> string \<times> string \<Rightarrow> bool \<Rightarrow> occ \<Rightarrow> string" where
  "bound_text g al target low w = normal_text (join_with '' '' (map (\<lambda>n. render_sql g (snd n))
     (filter (\<lambda>n. bound_side g al target n = Some low) (time_comparisons w) @ time_betweens g al target w)))"

definition equality_text :: "sqlglot \<Rightarrow> (string, string) dict \<Rightarrow> string \<times> string \<Rightarrow> occ \<Rightarrow> string" where
  "equality_text g al target w = normal_text (join_with '' '' (map (\<lambda>n. render_sql g (snd n))
     (filter (\<lambda>n. \<not> inside X_Or n \<and> mentions g al target n) (find_all X_EQ w))))"

definition all_in :: "string \<Rightarrow> string list \<Rightarrow> bool" where
  "all_in s ws \<longleftrightarrow> list_all (\<lambda>w. contains w s) ws"

definition quote_digit :: "string \<Rightarrow> string" where
  "quote_digit s = [CHR 0x27] @ s"

definition quarter_text :: "string \<Rightarrow> bool" where
  "quarter_text s \<longleftrightarrow> all_in s [quote_digit ''1'', ''QUARTER''] \<or> all_in s [quote_digit ''3'', ''MONTH'']"

fun preset_matches :: "(time \<Rightarrow> string) \<Rightarrow> time_preset \<Rightarrow> time option \<Rightarrow> time option \<Rightarrow>
    string \<Rightarrow> string \<Rightarrow> string \<Rightarrow> bool" where
  "preset_matches dt TODAY a b low up eq \<longleftrightarrow>
     contains ''CURRENT_DATE'' eq \<and> list_ex (\<lambda>w. contains w eq) [''DATE('', ''::DATE'', truncated_to ''DAY''] \<or>
     has_current_boundary low \<and> has_current_boundary up \<and> all_in up [''+ INTERVAL'', quote_digit ''1'', ''DAY'']"
| "preset_matches dt YESTERDAY a b low up eq \<longleftrightarrow>
     all_in low [''CURRENT_DATE'', ''INTERVAL'', ''- INTERVAL'', quote_digit ''1'', ''DAY''] \<and> contains ''CURRENT_DATE'' up"
| "preset_matches dt LAST_7_DAYS a b low up eq \<longleftrightarrow>
     all_in low [''INTERVAL'', ''- INTERVAL'', quote_digit ''7'', ''DAY''] \<and> has_current_boundary low \<and> has_current_boundary up"
| "preset_matches dt LAST_30_DAYS a b low up eq \<longleftrightarrow>
     all_in low [''INTERVAL'', ''- INTERVAL'', quote_digit ''30'', ''DAY''] \<and> has_current_boundary low \<and> has_current_boundary up"
| "preset_matches dt THIS_MONTH a b low up eq \<longleftrightarrow> contains (truncated_to ''MONTH'') low \<and>
     all_in up [truncated_to ''MONTH'', ''+ INTERVAL'', quote_digit ''1'', ''MONTH'']"
| "preset_matches dt LAST_MONTH a b low up eq \<longleftrightarrow> contains (truncated_to ''MONTH'') low \<and>
     all_in low [''INTERVAL'', ''- INTERVAL'', quote_digit ''1'', ''MONTH''] \<and> contains (truncated_to ''MONTH'') up"
| "preset_matches dt THIS_QUARTER a b low up eq \<longleftrightarrow> contains (truncated_to ''QUARTER'') up \<and>
     contains (truncated_to ''QUARTER'') low \<and> contains ''+ INTERVAL'' up \<and> quarter_text up"
| "preset_matches dt LAST_QUARTER a b low up eq \<longleftrightarrow> contains (truncated_to ''QUARTER'') up \<and>
     contains (truncated_to ''QUARTER'') low \<and> contains ''- INTERVAL'' low \<and> quarter_text low"
| "preset_matches dt CUSTOM a b low up eq \<longleftrightarrow>
     (case (a, b) of (Some x, Some y) \<Rightarrow> contains (dt x) low \<and> contains (dt y) up | _ \<Rightarrow> False)"

definition time_preset_present ::
  "sqlglot \<Rightarrow> (time \<Rightarrow> string) \<Rightarrow> (string, string) dict \<Rightarrow> occ option \<Rightarrow> string \<times> string \<Rightarrow> time_range \<Rightarrow> bool" where
  "time_preset_present g dt al wh target r \<longleftrightarrow>
     (case wh of None \<Rightarrow> False
      | Some w \<Rightarrow>
          (let low = bound_text g al target True w; up = bound_text g al target False w; eq = equality_text g al target w
           in (low \<noteq> [] \<or> up \<noteq> [] \<or> eq \<noteq> []) \<and>
              preset_matches dt (preset r) (tr_start r) (tr_end r) low up eq))"

subsection \<open>Canonical text of an expression\<close>

text \<open>\<open>_canonical_expression\<close>: the columns of a copy are requalified with the physical table (or lose
their qualifier), then the items of every IN are sorted by their text, then the tree is rendered.\<close>

definition fix_column :: "sqlglot \<Rightarrow> (string, string) dict \<Rightarrow> bool \<Rightarrow> sql \<Rightarrow> sql \<Rightarrow> sql" where
  "fix_column g al keep old n =
     (if \<not> is_a X_Column old then n
      else set_arg ''catalog'' None (set_arg ''db'' None
        (if \<not> keep then set_arg ''table'' None n
         else if column_table g old \<noteq> []
         then set_arg ''table'' (Some (to_identifier g (get_or_self al (lower (column_table g old))))) n
         else (case remdups (map snd al) of [t] \<Rightarrow> set_arg ''table'' (Some (to_identifier g t)) n | _ \<Rightarrow> n))))"

primrec fix_columns :: "sqlglot \<Rightarrow> (string, string) dict \<Rightarrow> bool \<Rightarrow> sql \<Rightarrow> sql" where
  "fix_columns g al keep (Sql c s ks) =
     fix_column g al keep (Sql c s ks) (Sql c s (map (map_prod id (fix_columns g al keep)) ks))"

fun sort_ins :: "sqlglot \<Rightarrow> sql \<Rightarrow> sql" where
  "sort_ins g (Sql c s ks) =
     (let items = map (\<lambda>(k, m). (k, upper (render_sql g m), sort_ins g m)) ks
      in Sql c s (map (\<lambda>(k, _, m). (k, m))
        (if X_In \<in> set c
         then set_list ''expressions'' (sort_key fst (map snd (filter (\<lambda>x. fst x = ''expressions'') items))) items
         else items)))"

definition canonical_expression :: "sqlglot \<Rightarrow> (string, string) dict \<Rightarrow> bool \<Rightarrow> sql \<Rightarrow> string" where
  "canonical_expression g al keep n =
     (let t = sort_ins g (fix_columns g al keep n) in
      if is_a X_EQ t
      then (let sides = sort (map (\<lambda>k. case arg k t of None \<Rightarrow> [] | Some m \<Rightarrow> normal_text (render_sql g m))
                  [''this'', ''expression''])
            in sides ! 0 @ '' = '' @ sides ! 1)
      else normal_text (render_sql g t))"

definition aggregate_signatures :: "sqlglot \<Rightarrow> sql \<Rightarrow> string list" where
  "aggregate_signatures g n = map (\<lambda>p. canonical_expression g [] False (snd p)) (find_all X_AggFunc (at_root n))"

lemma arg_size: "arg k n = Some m \<Longrightarrow> size m < size n"
proof (cases n)
  case (Sql c s ks)
  moreover assume "arg k n = Some m"
  ultimately have "(k, m) \<in> set ks" by (auto simp: arg_def dest: map_of_SomeD)
  then have "size m \<le> size_list (size_prod (\<lambda>x. 0) size) ks"
    by (rule size_list_estimation') simp
  with Sql show ?thesis by simp
qed

text \<open>The conjuncts of a condition.\<close>

function conjuncts :: "sql \<Rightarrow> sql list" where
  "conjuncts n =
     (if is_a X_And n
      then (case arg ''this'' n of None \<Rightarrow> [] | Some l \<Rightarrow> conjuncts l) @
           (case arg ''expression'' n of None \<Rightarrow> [] | Some r \<Rightarrow> conjuncts r)
      else [n])"
  by pat_completeness auto
termination by (relation "measure size") (auto dest: arg_size)

declare conjuncts.simps [simp del]

text \<open>Only a WHERE node is opened; a HAVING node counts as one conjunct.\<close>

definition predicate_signatures :: "sqlglot \<Rightarrow> (string, string) dict \<Rightarrow> bool \<Rightarrow> sql option \<Rightarrow> string list" where
  "predicate_signatures g al keep found =
     (case found of
        None \<Rightarrow> []
      | Some w \<Rightarrow>
          (case (if is_a X_Where w then arg ''this'' w else Some w) of
             None \<Rightarrow> []
           | Some n \<Rightarrow> map (canonical_expression g al keep) (conjuncts n)))"

definition join_conditions :: "sql \<Rightarrow> occ list" where
  "join_conditions e = List.map_filter (child ''on'') (find_all X_Join (at_root e))"

definition query_predicate_signatures :: "sqlglot \<Rightarrow> (string, string) dict \<Rightarrow> bool \<Rightarrow> sql \<Rightarrow> string list" where
  "query_predicate_signatures g al keep e =
     predicate_signatures g al keep (arg ''where'' e) @ predicate_signatures g al keep (arg ''having'' e) @
     concat (map (\<lambda>c. predicate_signatures g al keep (Some (snd c))) (join_conditions e))"

definition query_predicate_columns :: "sqlglot \<Rightarrow> (string, string) dict \<Rightarrow> sql \<Rightarrow> (string \<times> string) list" where
  "query_predicate_columns g al e =
     concat (map (\<lambda>p. map (\<lambda>c.
        (if column_table g (snd c) \<noteq> [] then get_or_self al (lower (column_table g (snd c)))
         else (case remdups (map snd al) of [t] \<Rightarrow> t | _ \<Rightarrow> []), lower (node_name g (snd c))))
        (find_all X_Column p))
      (List.map_filter (\<lambda>x. x) [child ''where'' (at_root e), child ''having'' (at_root e)] @ join_conditions e))"

subsection \<open>What the query reads\<close>

definition dict_from :: "(string \<times> string) list \<Rightarrow> (string, string) dict" where
  "dict_from xs = foldl (\<lambda>d (k, v). AList.update k v d) [] xs"

definition cte_names :: "sqlglot \<Rightarrow> sql \<Rightarrow> string list" where
  "cte_names g e = map (\<lambda>p. lower (alias_or_name g (snd p))) (find_all X_CTE (at_root e))"

definition cte_reference :: "sqlglot \<Rightarrow> string list \<Rightarrow> occ \<Rightarrow> bool" where
  "cte_reference g ctes t \<longleftrightarrow> table_db g (snd t) = [] \<and> table_catalog g (snd t) = [] \<and>
     lower (node_name g (snd t)) \<in> set ctes \<and>
     (case ancestor X_CTE t of None \<Rightarrow> True | Some c \<Rightarrow> lower (alias_or_name g c) \<noteq> lower (node_name g (snd t)))"

definition physical_tables :: "sqlglot \<Rightarrow> sql \<Rightarrow> sql list" where
  "physical_tables g e = map snd (filter (\<lambda>t. \<not> cte_reference g (cte_names g e) t) (find_all X_Table (at_root e)))"

definition table_aliases :: "sqlglot \<Rightarrow> sql list \<Rightarrow> (string, string) dict" where
  "table_aliases g ts = dict_from (map (\<lambda>t.
     (lower (if alias_or_name g t = [] then node_name g t else alias_or_name g t), lower (node_name g t))) ts)"

definition multi_scope :: "sql \<Rightarrow> bool" where
  "multi_scope e \<longleftrightarrow> \<not> is_a X_Select e \<or> length (find_all X_Select (at_root e)) \<noteq> 1"

definition alias_value :: "sql \<Rightarrow> sql" where
  "alias_value n = (if is_a X_Alias n then (case arg ''this'' n of None \<Rightarrow> n | Some m \<Rightarrow> m) else n)"

definition has_aggregate :: "sql \<Rightarrow> bool" where
  "has_aggregate n \<longleftrightarrow> find_all X_AggFunc (at_root n) \<noteq> []"

subsection \<open>Metrics\<close>

text \<open>What one metric with an example query adds: errors, tables and columns that predicates may use.\<close>

type_synonym metric_part = "string list \<times> string list \<times> (string \<times> string) list"

definition metric_column_errors ::
  "sqlglot \<Rightarrow> (string \<times> string) list \<Rightarrow> metric_ref \<Rightarrow> sql \<Rightarrow> string list" where
  "metric_column_errors g actual m x =
     (let names = map (\<lambda>c. lower (node_name g (snd c)))
        (concat (map (find_all X_Column) (find_all X_AggFunc (at_root x))) @
         (case child ''where'' (at_root x) of None \<Rightarrow> [] | Some w \<Rightarrow> find_all X_Column w))
      in if set names \<subseteq> snd ` set actual then [] else [''METRIC_COLUMNS_MISSING:'' @ metric_id m])"

definition metric_output_errors ::
  "sqlglot \<Rightarrow> (string, string) dict \<Rightarrow> sql \<Rightarrow> metric_ref \<Rightarrow> (string, string) dict \<Rightarrow> sql \<Rightarrow> string list" where
  "metric_output_errors g al e m mal x =
     (case last_with (\<lambda>n. lower (node_alias g n)) (filter (\<lambda>n. node_alias g n \<noteq> []) (node_selects g e))
        (lower (metric_alias m)) of
        None \<Rightarrow> [''METRIC_OUTPUT_MISSING:'' @ metric_alias m]
      | Some sel \<Rightarrow>
          (let outputs = map (\<lambda>n. canonical_expression g mal True (alias_value n)) (filter has_aggregate (node_selects g x))
           in if \<not> set (aggregate_signatures g x) \<subseteq> set (aggregate_signatures g sel)
              then [''METRIC_AGGREGATE_MISMATCH:'' @ metric_id m]
              else if outputs \<noteq> [] \<and> canonical_expression g al True (alias_value sel) \<notin> set outputs
              then [''METRIC_OUTPUT_EXPRESSION_MISMATCH:'' @ metric_id m] else []))"

definition metric_part ::
  "sqlglot \<Rightarrow> catalog \<Rightarrow> (string, string) dict \<Rightarrow> sql \<Rightarrow> metric_ref \<Rightarrow> exn + metric_part" where
  "metric_part g cat al e m =
     (case (case last_with asset_id (cat_assets cat) (metric_id m) of
              None \<Rightarrow> None | Some a \<Rightarrow> map_of (payload a) ''example_sql'') of
        Some (PStr text) \<Rightarrow>
          (case parse_one g text of
             Inl err \<Rightarrow> Inl err
           | Inr x \<Rightarrow>
               (let ts = map snd (find_all X_Table (at_root x)); mal = table_aliases g ts in
                Inr (metric_column_errors g (columns_in g al (Some (at_root e))) m x @
                     metric_output_errors g al e m mal x @
                     (if set (query_predicate_signatures g mal True x) \<subseteq> set (query_predicate_signatures g al True e)
                      then [] else [''METRIC_PREDICATE_MISMATCH:'' @ metric_id m]),
                     map (\<lambda>t. lower (node_name g t)) ts, query_predicate_columns g mal x)))
      | _ \<Rightarrow> Inr ([], [], []))"

text \<open>The loop over the metrics; the first example query that does not parse ends it.\<close>

fun metric_parts :: "('a \<Rightarrow> exn + 'b) \<Rightarrow> 'a list \<Rightarrow> exn + 'b list" where
  "metric_parts f [] = Inr []"
| "metric_parts f (m # ms) =
     (case f m of Inl e \<Rightarrow> Inl e | Inr p \<Rightarrow> (case metric_parts f ms of Inl e \<Rightarrow> Inl e | Inr ps \<Rightarrow> Inr (p # ps)))"

subsection \<open>Joins\<close>

definition scalar_set :: "scalar option \<Rightarrow> bool" where
  "scalar_set v \<longleftrightarrow> (case v of None \<Rightarrow> False | Some (Text t) \<Rightarrow> t \<noteq> [] | Some (Flag b) \<Rightarrow> b)"

definition inner_join :: "sql \<Rightarrow> bool" where
  "inner_join j \<longleftrightarrow> \<not> scalar_set (map_of (scalars j) ''side'') \<and>
     map_of (scalars j) ''kind'' \<in> {None, Some (Text ''INNER'')}"

definition resolved :: "sqlglot \<Rightarrow> (string, string) dict \<Rightarrow> sql \<Rightarrow> string \<times> string" where
  "resolved g al c = (get_or_self al (lower (column_table g c)), lower (node_name g c))"

definition equates :: "sqlglot \<Rightarrow> (string, string) dict \<Rightarrow> string \<times> string \<Rightarrow> string \<times> string \<Rightarrow> occ \<Rightarrow> bool" where
  "equates g al l r q \<longleftrightarrow> \<not> inside X_Or q \<and>
     (case (arg ''this'' (snd q), arg ''expression'' (snd q)) of
        (Some a, Some b) \<Rightarrow> is_a X_Column a \<and> is_a X_Column b \<and> {resolved g al a, resolved g al b} = {l, r}
      | _ \<Rightarrow> False)"

definition join_found :: "sqlglot \<Rightarrow> (string, string) dict \<Rightarrow> string \<times> string \<Rightarrow> string \<times> string \<Rightarrow> sql \<Rightarrow> bool" where
  "join_found g al l r e \<longleftrightarrow> list_ex (\<lambda>j. inner_join (snd j) \<and>
     (case child ''on'' j of None \<Rightarrow> False | Some on \<Rightarrow> list_ex (equates g al l r) (find_all X_EQ on)))
     (find_all X_Join (at_root e))"

text \<open>The two ends of a relation, when both are columns.\<close>

definition relation_ends :: "schema_relation \<Rightarrow> ((string \<times> string) \<times> (string \<times> string)) option" where
  "relation_ends r = (case (asset_column (left_asset_id r), asset_column (right_asset_id r)) of
     (Some l, Some t) \<Rightarrow> Some (l, t) | _ \<Rightarrow> None)"

definition join_relation_errors ::
  "sqlglot \<Rightarrow> catalog \<Rightarrow> (string, string) dict \<Rightarrow> sql \<Rightarrow> string \<Rightarrow> string list" where
  "join_relation_errors g cat al e rid =
     (case last_with relation_id (cat_relations cat) rid of
        None \<Rightarrow> [''JOIN_RELATION_MISSING:'' @ rid]
      | Some r \<Rightarrow>
          (case relation_ends r of
             None \<Rightarrow> []
           | Some (l, t) \<Rightarrow> if join_found g al l t e then [] else [''CONFIRMED_JOIN_MISSING:'' @ rid]))"

definition join_path_errors ::
  "sqlglot \<Rightarrow> catalog \<Rightarrow> grounding_snapshot \<Rightarrow> (string, string) dict \<Rightarrow> sql \<Rightarrow> string \<Rightarrow> string list" where
  "join_path_errors g cat snap al e pid =
     (case last_with path_id (join_paths snap) pid of
        None \<Rightarrow> [''JOIN_PATH_MISSING:'' @ pid]
      | Some p \<Rightarrow> concat (map (join_relation_errors g cat al e) (relation_ids p)))"

definition join_columns :: "catalog \<Rightarrow> join_path list \<Rightarrow> (string \<times> string) list" where
  "join_columns cat ps = concat (map (\<lambda>(l, t). [l, t])
     (List.map_filter relation_ends (List.map_filter (last_with relation_id (cat_relations cat))
       (concat (map relation_ids ps)))))"

definition join_tables :: "join_path list \<Rightarrow> string list" where
  "join_tables ps = filter (\<lambda>t. t \<noteq> []) (List.map_filter asset_table_name (concat (map table_asset_ids ps)))"

subsection \<open>Filters and time\<close>

definition filter_columns :: "sqlglot \<Rightarrow> (string, string) dict \<Rightarrow> sql \<Rightarrow> (string \<times> string) list" where
  "filter_columns g al e = columns_in g al (child ''where'' (at_root e)) @ columns_in g al (child ''having'' (at_root e))"

definition clause_errors ::
  "sqlglot \<Rightarrow> (literal \<Rightarrow> string) \<Rightarrow> catalog \<Rightarrow> (string, string) dict \<Rightarrow> sql \<Rightarrow> filter_clause \<Rightarrow> string list" where
  "clause_errors g number_text cat al e f =
     (let aid = fc_asset_id f; col = asset_column aid;
          lits = (case col of None \<Rightarrow> ([], []) | Some c \<Rightarrow> predicate_literals g al (fc_op f) c (at_root e));
          found = List.map_filter (last_with value_id (cat_values cat)) (value_ids f)
      in (case col of None \<Rightarrow> []
          | Some c \<Rightarrow>
              (if absent c (filter_columns g al e) then [''PLANNED_FILTER_MISSING:'' @ aid] else []) @
              (if operator_present g al (fc_op f) c (at_root e) then []
               else [''PLANNED_OPERATOR_MISSING:'' @ aid @ '':'' @ operator_value (fc_op f)])) @
         concat (map (\<lambda>vid. case last_with value_id (cat_values cat) vid of
            None \<Rightarrow> []
          | Some v \<Rightarrow> if canonical_value v \<in> set (fst lits) then [] else [''PLANNED_VALUE_MISSING:'' @ vid]) (value_ids f)) @
         (if value_ids f \<noteq> [] \<and> \<not> set (fst lits) \<subseteq> canonical_value ` set found
          then [''UNPLANNED_FILTER_VALUES:'' @ aid] else []) @
         concat (map (\<lambda>x. if number_text x \<in> set (snd lits) then []
            else [''PLANNED_LITERAL_MISSING:'' @ aid @ '':'' @ number_text x]) (literal_values f)) @
         (if literal_values f \<noteq> [] \<and> \<not> set (snd lits) \<subseteq> number_text ` set (literal_values f)
          then [''UNPLANNED_FILTER_LITERALS:'' @ aid] else []))"

fun preset_value :: "time_preset \<Rightarrow> string" where
  "preset_value TODAY = ''TODAY''" | "preset_value YESTERDAY = ''YESTERDAY''"
| "preset_value LAST_7_DAYS = ''LAST_7_DAYS''" | "preset_value LAST_30_DAYS = ''LAST_30_DAYS''"
| "preset_value THIS_MONTH = ''THIS_MONTH''" | "preset_value LAST_MONTH = ''LAST_MONTH''"
| "preset_value THIS_QUARTER = ''THIS_QUARTER''" | "preset_value LAST_QUARTER = ''LAST_QUARTER''"
| "preset_value CUSTOM = ''CUSTOM''"

definition time_errors ::
  "sqlglot \<Rightarrow> (time \<Rightarrow> string) \<Rightarrow> (string, string) dict \<Rightarrow> sql \<Rightarrow> time_range option \<Rightarrow> string list" where
  "time_errors g iso_date al e found =
     (case found of None \<Rightarrow> []
      | Some r \<Rightarrow>
          (case asset_column (field_id r) of
             None \<Rightarrow> [''INVALID_TIME_FIELD:'' @ field_id r, ''TIME_PRESET_MISMATCH:'' @ preset_value (preset r)]
           | Some c \<Rightarrow>
               (if absent c (columns_in g al (child ''where'' (at_root e)))
                then [''PLANNED_TIME_FILTER_MISSING:'' @ field_id r] else []) @
               (if time_preset_present g iso_date al (child ''where'' (at_root e)) c r then []
                else [''TIME_PRESET_MISMATCH:'' @ preset_value (preset r)])))"

subsection \<open>Grain, output, order and limit\<close>

definition selected_columns :: "sqlglot \<Rightarrow> (string, string) dict \<Rightarrow> sql \<Rightarrow> (string \<times> string) list" where
  "selected_columns g al e = concat (map (\<lambda>n. columns_in g al (Some (at_root n))) (node_selects g e))"

definition grain_errors :: "sqlglot \<Rightarrow> (string, string) dict \<Rightarrow> sql \<Rightarrow> string \<Rightarrow> string list" where
  "grain_errors g al e gid =
     (case asset_column gid of None \<Rightarrow> []
      | Some c \<Rightarrow>
          (if absent c (columns_in g al (child ''group'' (at_root e))) then [''GRAIN_NOT_GROUPED:'' @ gid] else []) @
          (if absent c (selected_columns g al e) then [''GRAIN_NOT_SELECTED:'' @ gid] else []))"

definition planned_outputs :: "query_plan_draft \<Rightarrow> string list" where
  "planned_outputs d = map (\<lambda>m. lower (metric_alias m)) (metrics d) @ map (\<lambda>x. lower (dim_alias x)) (dimensions d)"

definition named_selects :: "sqlglot \<Rightarrow> sql \<Rightarrow> sql list" where
  "named_selects g e = filter (\<lambda>n. alias_or_name g n \<noteq> []) (node_selects g e)"

definition actual_outputs :: "sqlglot \<Rightarrow> sql \<Rightarrow> string list" where
  "actual_outputs g e = map (\<lambda>n. lower (alias_or_name g n)) (named_selects g e)"

definition output_errors :: "sqlglot \<Rightarrow> query_plan_draft \<Rightarrow> sql \<Rightarrow> string list" where
  "output_errors g d e =
     (if set (actual_outputs g e) = set (planned_outputs d) then []
      else [''QUERY_OUTPUT_MISMATCH:expected='' @ repr_sorted (planned_outputs d) @ '',actual='' @
            repr_sorted (actual_outputs g e)])"

definition dimension_errors :: "sqlglot \<Rightarrow> (string, string) dict \<Rightarrow> sql \<Rightarrow> dimension_ref \<Rightarrow> string list" where
  "dimension_errors g al e x =
     (case (asset_column (dim_asset_id x),
            last_with (\<lambda>n. lower (alias_or_name g n)) (named_selects g e) (lower (dim_alias x))) of
        (Some c, Some n) \<Rightarrow> if column_matches g al c (alias_value n) then []
                             else [''DIMENSION_OUTPUT_MISMATCH:'' @ dim_asset_id x]
      | _ \<Rightarrow> [])"

definition actual_sort :: "sqlglot \<Rightarrow> sql \<Rightarrow> (string \<times> string) list" where
  "actual_sort g e =
     (case arg ''order'' e of None \<Rightarrow> []
      | Some o1 \<Rightarrow> concat (map (\<lambda>x.
          let field = (case arg ''this'' x of None \<Rightarrow> [] | Some n \<Rightarrow> alias_or_name g n) in
          if field = [] then []
          else [(lower field, if scalar_set (map_of (scalars x) ''desc'') then ''DESC'' else ''ASC'')])
        (list_arg ''expressions'' o1)))"

definition planned_sort :: "query_plan_draft \<Rightarrow> (string \<times> string) list" where
  "planned_sort d = map (\<lambda>s. (lower (sort_field s), case direction s of ASC \<Rightarrow> ''ASC'' | DESC \<Rightarrow> ''DESC'')) (plan_sort d)"

definition sort_errors :: "sqlglot \<Rightarrow> query_plan_draft \<Rightarrow> sql \<Rightarrow> string list" where
  "sort_errors g d e =
     (if actual_sort g e = planned_sort d then []
      else [''QUERY_SORT_MISMATCH:expected='' @ repr_pairs (planned_sort d) @ '',actual='' @ repr_pairs (actual_sort g e)])"

definition limit_errors :: "sqlglot \<Rightarrow> int \<Rightarrow> sql \<Rightarrow> string list" where
  "limit_errors g most e =
     (case arg ''limit'' e of
        None \<Rightarrow> [''QUERY_LIMIT_REQUIRED'']
      | Some l \<Rightarrow>
          (case (case arg ''expression'' l of None \<Rightarrow> None
                 | Some x \<Rightarrow> if is_a X_Literal x then literal_int g x else None) of
             Some n \<Rightarrow> if n > most then [''QUERY_LIMIT_EXCEEDS_PLAN''] else []
           | None \<Rightarrow> [''QUERY_LIMIT_INVALID'']))"

subsection \<open>The whole check\<close>

definition planned_columns :: "query_plan_draft \<Rightarrow> string list" where
  "planned_columns d = map dim_asset_id (dimensions d) @ map fc_asset_id (filters d) @
     (case plan_time_range d of None \<Rightarrow> [] | Some r \<Rightarrow> [field_id r])"

definition planned_column_errors :: "(string \<times> string) list \<Rightarrow> string \<Rightarrow> string list" where
  "planned_column_errors actual aid =
     (case asset_column aid of None \<Rightarrow> []
      | Some c \<Rightarrow> if absent c actual then [''PLANNED_COLUMN_MISSING:'' @ aid] else [])"

text \<open>The columns a predicate may use, and the tables a query may read.\<close>

definition allowed_columns ::
  "catalog \<Rightarrow> grounding_snapshot \<Rightarrow> query_plan_draft \<Rightarrow> metric_part list \<Rightarrow> (string \<times> string) list" where
  "allowed_columns cat snap d ms =
     List.map_filter asset_column (map fc_asset_id (filters d) @
       (case plan_time_range d of None \<Rightarrow> [] | Some r \<Rightarrow> [field_id r])) @
     concat (map (\<lambda>m. snd (snd m)) ms) @ join_columns cat (selected_paths snap d)"

definition allowed_tables :: "grounding_snapshot \<Rightarrow> query_plan_draft \<Rightarrow> metric_part list \<Rightarrow> string list" where
  "allowed_tables snap d ms = map fst (List.map_filter asset_column (planned_columns d)) @
     concat (map (\<lambda>m. fst (snd m)) ms) @ join_tables (selected_paths snap d)"

definition unplanned_columns :: "(string \<times> string) list \<Rightarrow> (string \<times> string) list \<Rightarrow> (string \<times> string) list" where
  "unplanned_columns allowed used = filter (\<lambda>c. c \<notin> set allowed \<and> \<not> (fst c = [] \<and> snd c \<in> snd ` set allowed)) used"

definition scope_errors :: "(string \<times> string) list \<Rightarrow> (string \<times> string) list \<Rightarrow> string list \<Rightarrow> string list \<Rightarrow> string list" where
  "scope_errors allowed used allowed_ts used_ts =
     (let cs = unplanned_columns allowed used; ts = filter (\<lambda>t. t \<notin> set allowed_ts) used_ts
      in (if cs = [] then [] else [''UNPLANNED_PREDICATE_COLUMNS:'' @ repr_pairs (sort (remdups cs))]) @
         (if ts = [] then [] else [''UNPLANNED_TABLES:'' @ repr_sorted ts]))"

definition tree_errors ::
  "sqlglot \<Rightarrow> (literal \<Rightarrow> string) \<Rightarrow> (time \<Rightarrow> string) \<Rightarrow> catalog \<Rightarrow> grounding_snapshot \<Rightarrow> query_plan_draft \<Rightarrow>
   sql \<Rightarrow> exn + string list" where
  "tree_errors g number_text iso_date cat snap d e =
     (let al = table_aliases g (physical_tables g e); tables = map (\<lambda>t. lower (node_name g t)) (physical_tables g e) in
      case metric_parts (metric_part g cat al e) (metrics d) of
        Inl err \<Rightarrow> Inl err
      | Inr ms \<Rightarrow> Inr (
          (if cte_names g e = [] then [] else [''QUERY_PLAN_CTE_UNSUPPORTED'']) @
          (if multi_scope e then [''QUERY_PLAN_MULTISCOPE_UNSUPPORTED''] else []) @
          concat (map (planned_column_errors (columns_in g al (Some (at_root e)))) (planned_columns d)) @
          concat (map fst ms) @
          concat (map (join_path_errors g cat snap al e) (join_path_ids d)) @
          scope_errors (allowed_columns cat snap d ms) (query_predicate_columns g al e) (allowed_tables snap d ms) tables @
          concat (map (clause_errors g number_text cat al e) (filters d)) @
          time_errors g iso_date al e (plan_time_range d) @
          concat (map (grain_errors g al e) (grain d)) @
          output_errors g d e @ concat (map (dimension_errors g al e) (dimensions d)) @
          sort_errors g d e @ limit_errors g (plan_limit d) e))"

definition status_text :: "query_plan_status \<Rightarrow> string" where
  "status_text s = (case s of VALID \<Rightarrow> ''VALID'' | NEEDS_CLARIFICATION \<Rightarrow> ''NEEDS_CLARIFICATION'' | BLOCKED \<Rightarrow> ''BLOCKED'')"

definition query_plan_alignment_errors ::
  "sqlglot \<Rightarrow> (literal \<Rightarrow> string) \<Rightarrow> (time \<Rightarrow> string) \<Rightarrow> string \<Rightarrow> validated_plan option \<Rightarrow>
   grounding_snapshot option \<Rightarrow> catalog option \<Rightarrow> exn + string list" where
  "query_plan_alignment_errors g number_text iso_date text v snap cat =
     (case (v, snap, cat) of
        (Some p, Some s, Some c) \<Rightarrow>
          if vp_status p \<noteq> VALID then Inr [''QUERY_PLAN_'' @ status_text (vp_status p)]
          else (case parse_one g text of
            Inl err \<Rightarrow> Inl err
          | Inr e \<Rightarrow>
              (case tree_errors g number_text iso_date c s (plan p) e of
                 Inl err \<Rightarrow> Inl err
               | Inr errors \<Rightarrow> Inr (sort (remdups errors))))
      | _ \<Rightarrow> Inr [''VALID_QUERY_PLAN_REQUIRED''])"

definition validate_sql_against_query_plan ::
  "sqlglot \<Rightarrow> (literal \<Rightarrow> string) \<Rightarrow> (time \<Rightarrow> string) \<Rightarrow> string \<Rightarrow> validated_plan option \<Rightarrow>
   grounding_snapshot option \<Rightarrow> catalog option \<Rightarrow> exn + unit" where
  "validate_sql_against_query_plan g number_text iso_date text v snap cat =
     (case query_plan_alignment_errors g number_text iso_date text v snap cat of
        Inl err \<Rightarrow> Inl err
      | Inr errors \<Rightarrow> if errors \<noteq> [] then Inl (QueryPlanAlignmentError (join_with ''; '' errors)) else Inr ())"

subsection \<open>What a query that passes looks like\<close>

lemma metric_parts_each:
  "metric_parts f ms = Inr ps \<Longrightarrow> m \<in> set ms \<Longrightarrow> \<exists>p \<in> set ps. f m = Inr p"
  by (induction ms arbitrary: ps) (auto split: sum.splits)

lemma alignment_passed:
  assumes "query_plan_alignment_errors g number_text iso_date text (Some v) (Some snap) (Some cat) = Inr []"
  obtains e where "vp_status v = VALID" and "parse_one g text = Inr e"
    and "tree_errors g number_text iso_date cat snap (plan v) e = Inr []"
proof -
  from assms have v: "vp_status v = VALID" by (auto simp: query_plan_alignment_errors_def split: if_splits)
  with assms obtain e errs where "parse_one g text = Inr e"
    "tree_errors g number_text iso_date cat snap (plan v) e = Inr errs" "sort (remdups errs) = []"
    by (auto simp: query_plan_alignment_errors_def split: sum.splits)
  moreover have "errs = []"
    using arg_cong [OF calculation(3), of set] by simp
  ultimately show thesis using v that by simp
qed

lemma no_ctes: "cte_names g e = [] \<Longrightarrow> physical_tables g e = map snd (find_all X_Table (at_root e))"
  by (simp add: physical_tables_def cte_reference_def)

text \<open>The checks that an empty list of errors has passed.\<close>

lemma tree_errors_Nil:
  assumes "tree_errors g number_text iso_date cat snap d e = Inr []"
  defines "al \<equiv> table_aliases g (map snd (find_all X_Table (at_root e)))"
  obtains ms where "metric_parts (metric_part g cat al e) (metrics d) = Inr ms"
    and "cte_names g e = []" and "\<not> multi_scope e"
    and "\<forall>x \<in> set (planned_columns d). planned_column_errors (columns_in g al (Some (at_root e))) x = []"
    and "\<forall>m \<in> set ms. fst m = []"
    and "\<forall>p \<in> set (join_path_ids d). join_path_errors g cat snap al e p = []"
    and "scope_errors (allowed_columns cat snap d ms) (query_predicate_columns g al e) (allowed_tables snap d ms)
           (map (\<lambda>t. lower (node_name g (snd t))) (find_all X_Table (at_root e))) = []"
    and "\<forall>f \<in> set (filters d). clause_errors g number_text cat al e f = []"
    and "time_errors g iso_date al e (plan_time_range d) = []"
    and "\<forall>x \<in> set (grain d). grain_errors g al e x = []"
    and "output_errors g d e = []" and "\<forall>x \<in> set (dimensions d). dimension_errors g al e x = []"
    and "sort_errors g d e = []" and "limit_errors g (plan_limit d) e = []"
proof -
  have ct: "cte_names g e = []" using assms(1) by (auto simp: tree_errors_def Let_def split: sum.splits if_splits)
  have al: "table_aliases g (physical_tables g e) = al" by (simp add: al_def no_ctes [OF ct])
  obtain ms where ms: "metric_parts (metric_part g cat al e) (metrics d) = Inr ms"
    using assms(1) by (auto simp: tree_errors_def Let_def al split: sum.splits)
  note nil = assms(1) [unfolded tree_errors_def Let_def al ms sum.case sum.inject append_is_Nil_conv concat_eq_Nil_conv]
  show thesis
    by (rule that [OF ms ct]) (use nil in \<open>simp_all add: no_ctes [OF ct] o_def split: if_splits\<close>)
qed

lemma absent_iff: "\<not> absent c cs \<longleftrightarrow> c \<in> set cs \<or> ([], snd c) \<in> set cs"
  by (simp add: absent_def)

lemma unplanned_Nil:
  "unplanned_columns allowed used = [] \<longleftrightarrow>
     (\<forall>c \<in> set used. c \<in> set allowed \<or> fst c = [] \<and> snd c \<in> snd ` set allowed)"
  by (auto simp: unplanned_columns_def filter_empty_conv)

lemma scope_errors_Nil:
  "scope_errors allowed used ats uts = [] \<longleftrightarrow>
     (\<forall>c \<in> set used. c \<in> set allowed \<or> fst c = [] \<and> snd c \<in> snd ` set allowed) \<and> set uts \<subseteq> set ats"
  by (auto simp: scope_errors_def Let_def unplanned_Nil filter_empty_conv)

lemma limit_errors_Nil:
  "limit_errors g most e = [] \<Longrightarrow> \<exists>l x n. arg ''limit'' e = Some l \<and> arg ''expression'' l = Some x \<and>
     is_a X_Literal x \<and> literal_int g x = Some n \<and> n \<le> most"
  by (auto simp: limit_errors_def split: option.splits if_splits)

lemma clause_errors_Nil:
  assumes "clause_errors g number_text cat al e f = []" and "asset_column (fc_asset_id f) = Some c"
  shows "\<exists>n \<in> set (operator_nodes (fc_op f) (at_root e)). (inside X_Where n \<or> inside X_Having n) \<and>
      \<not> inside X_Or n \<and> mentions g al c n"
    and "\<forall>vid \<in> set (value_ids f). \<forall>v. last_with value_id (cat_values cat) vid = Some v \<longrightarrow>
      canonical_value v \<in> set (fst (predicate_literals g al (fc_op f) c (at_root e)))"
    and "value_ids f \<noteq> [] \<Longrightarrow> set (fst (predicate_literals g al (fc_op f) c (at_root e))) \<subseteq>
      canonical_value ` set (List.map_filter (last_with value_id (cat_values cat)) (value_ids f))"
    and "literal_values f \<noteq> [] \<Longrightarrow> set (snd (predicate_literals g al (fc_op f) c (at_root e))) =
      number_text ` set (literal_values f)"
  using assms by (auto simp: clause_errors_def Let_def operator_present_def list_ex_iff counts_for_def split: if_splits)

lemma join_path_errors_Nil:
  "join_path_errors g cat snap al e pid = [] \<Longrightarrow> \<exists>p. last_with path_id (join_paths snap) pid = Some p \<and>
     (\<forall>rid \<in> set (relation_ids p). \<exists>r. last_with relation_id (cat_relations cat) rid = Some r \<and>
        (\<forall>l t. relation_ends r = Some (l, t) \<longrightarrow> join_found g al l t e))"
  by (fastforce simp: join_path_errors_def join_relation_errors_def split: option.splits if_splits)

lemma metric_part_passed:
  assumes "metric_part g cat al e m = Inr (errs, ts, cs)" and "errs = []"
    and "last_with asset_id (cat_assets cat) (metric_id m) = Some a" and "map_of (payload a) ''example_sql'' = Some (PStr text)"
  shows "\<exists>x sel. parse_one g text = Inr x \<and> sel \<in> set (node_selects g e) \<and> lower (node_alias g sel) = lower (metric_alias m) \<and>
    set (aggregate_signatures g x) \<subseteq> set (aggregate_signatures g sel) \<and>
    set (query_predicate_signatures g (table_aliases g (map snd (find_all X_Table (at_root x)))) True x) \<subseteq>
      set (query_predicate_signatures g al True e)"
proof -
  from assms obtain x where x: "parse_one g text = Inr x"
    "metric_output_errors g al e m (table_aliases g (map snd (find_all X_Table (at_root x)))) x = []"
    "set (query_predicate_signatures g (table_aliases g (map snd (find_all X_Table (at_root x)))) True x) \<subseteq>
      set (query_predicate_signatures g al True e)"
    by (auto simp: metric_part_def Let_def split: sum.splits if_splits)
  from x(2) obtain sel where "last_with (\<lambda>n. lower (node_alias g n)) (filter (\<lambda>n. node_alias g n \<noteq> []) (node_selects g e))
      (lower (metric_alias m)) = Some sel" "set (aggregate_signatures g x) \<subseteq> set (aggregate_signatures g sel)"
    by (auto simp: metric_output_errors_def Let_def split: option.splits if_splits)
  with x show ?thesis using last_with_Some by (intro exI [of _ x] exI [of _ sel]) fastforce
qed

subsection \<open>The contract\<close>

text \<open>What a plan lets a query read and test, without the guard: the tables of the columns it names, of
the example queries of its metrics and of its join paths; and the columns of its filters and its
time range, the columns its metrics test, and the ends of the relations of its join paths.\<close>

definition example_query :: "sqlglot \<Rightarrow> catalog \<Rightarrow> metric_ref \<Rightarrow> sql \<Rightarrow> bool" where
  "example_query g cat m x \<longleftrightarrow> (\<exists>a text. last_with asset_id (cat_assets cat) (metric_id m) = Some a \<and>
     map_of (payload a) ''example_sql'' = Some (PStr text) \<and> parse_one g text = Inr x)"

definition plan_reads :: "sqlglot \<Rightarrow> catalog \<Rightarrow> grounding_snapshot \<Rightarrow> query_plan_draft \<Rightarrow> string set" where
  "plan_reads g cat snap d =
     {t. \<exists>aid c. aid \<in> set (planned_columns d) \<and> asset_column aid = Some (t, c)} \<union>
     {lower (node_name g (snd t)) | t m x. m \<in> set (metrics d) \<and> example_query g cat m x \<and> t \<in> set (find_all X_Table (at_root x))} \<union>
     {t. \<exists>p aid. p \<in> set (selected_paths snap d) \<and> aid \<in> set (table_asset_ids p) \<and> asset_table_name aid = Some t}"

definition plan_tests :: "sqlglot \<Rightarrow> catalog \<Rightarrow> grounding_snapshot \<Rightarrow> query_plan_draft \<Rightarrow> (string \<times> string) set" where
  "plan_tests g cat snap d =
     {c. \<exists>f \<in> set (filters d). asset_column (fc_asset_id f) = Some c} \<union>
     {c. \<exists>r. plan_time_range d = Some r \<and> asset_column (field_id r) = Some c} \<union>
     {c. \<exists>m x. m \<in> set (metrics d) \<and> example_query g cat m x \<and>
        c \<in> set (query_predicate_columns g (table_aliases g (map snd (find_all X_Table (at_root x)))) x)} \<union>
     {c. \<exists>p rid r l t. p \<in> set (selected_paths snap d) \<and> rid \<in> set (relation_ids p) \<and>
        last_with relation_id (cat_relations cat) rid = Some r \<and> relation_ends r = Some (l, t) \<and> c \<in> {l, t}}"

lemma set_map_filter: "x \<in> set (List.map_filter f xs) \<longleftrightarrow> (\<exists>y \<in> set xs. f y = Some x)"
  by (induction xs) (auto simp: List.map_filter_simps split: option.splits)

lemma metric_part_adds:
  assumes "metric_part g cat al e m = Inr (errs, ts, cs)"
  shows "t \<in> set ts \<Longrightarrow> \<exists>x p. example_query g cat m x \<and> p \<in> set (find_all X_Table (at_root x)) \<and> t = lower (node_name g (snd p))"
    and "c \<in> set cs \<Longrightarrow> \<exists>x. example_query g cat m x \<and>
      c \<in> set (query_predicate_columns g (table_aliases g (map snd (find_all X_Table (at_root x)))) x)"
proof -
  consider (none) "ts = []" "cs = []"
    | (some) x where "example_query g cat m x" "ts = map (\<lambda>t. lower (node_name g t)) (map snd (find_all X_Table (at_root x)))"
        "cs = query_predicate_columns g (table_aliases g (map snd (find_all X_Table (at_root x)))) x"
    using assms by (auto simp: metric_part_def example_query_def Let_def split: sum.splits option.splits payload_value.splits)
  note cases = this
  show "\<exists>x p. example_query g cat m x \<and> p \<in> set (find_all X_Table (at_root x)) \<and> t = lower (node_name g (snd p))" if "t \<in> set ts"
    using that by (cases rule: cases) (simp, fastforce)
  show "\<exists>x. example_query g cat m x \<and>
      c \<in> set (query_predicate_columns g (table_aliases g (map snd (find_all X_Table (at_root x)))) x)" if "c \<in> set cs"
    using that by (cases rule: cases) auto
qed

lemma metric_parts_member:
  assumes "metric_parts f ms = Inr ps" and "p \<in> set ps"
  shows "\<exists>m \<in> set ms. f m = Inr p"
  using assms by (induction ms arbitrary: ps) (auto split: sum.splits)

lemma allowed_tables_read:
  assumes "metric_parts (metric_part g cat al e) (metrics d) = Inr ms"
  shows "set (allowed_tables snap d ms) \<subseteq> plan_reads g cat snap d"
proof
  fix t assume "t \<in> set (allowed_tables snap d ms)"
  then consider (column) aid c where "aid \<in> set (planned_columns d)" "asset_column aid = Some (t, c)"
    | (metric) errs ts cs where "(errs, ts, cs) \<in> set ms" "t \<in> set ts"
    | (path) p aid where "p \<in> set (selected_paths snap d)" "aid \<in> set (table_asset_ids p)" "asset_table_name aid = Some t"
    unfolding allowed_tables_def join_tables_def by (fastforce simp: set_map_filter)
  then show "t \<in> plan_reads g cat snap d"
  proof cases
    case metric
    from metric_parts_member [OF assms metric(1)] obtain m where m: "m \<in> set (metrics d)"
      "metric_part g cat al e m = Inr (errs, ts, cs)" by blast
    from metric_part_adds(1) [OF this(2) metric(2)] m(1) show ?thesis unfolding plan_reads_def by blast
  qed (auto simp: plan_reads_def)
qed

lemma join_columns_end:
  assumes "c \<in> set (join_columns cat ps)"
  shows "\<exists>p rid r l t. p \<in> set ps \<and> rid \<in> set (relation_ids p) \<and>
    last_with relation_id (cat_relations cat) rid = Some r \<and> relation_ends r = Some (l, t) \<and> c \<in> {l, t}"
proof -
  from assms obtain lt where lt: "lt \<in> set (List.map_filter relation_ends (List.map_filter
      (last_with relation_id (cat_relations cat)) (concat (map relation_ids ps))))" "c \<in> {fst lt, snd lt}"
    by (auto simp: join_columns_def)
  then obtain r where "r \<in> set (List.map_filter (last_with relation_id (cat_relations cat)) (concat (map relation_ids ps)))"
    "relation_ends r = Some lt" by (auto simp: set_map_filter)
  moreover from this(1) obtain rid where "rid \<in> set (concat (map relation_ids ps))"
    "last_with relation_id (cat_relations cat) rid = Some r" by (auto simp: set_map_filter)
  moreover from this(1) obtain p where "p \<in> set ps" "rid \<in> set (relation_ids p)" by auto
  ultimately show ?thesis using lt(2) by (metis prod.collapse)
qed

lemma allowed_columns_tested:
  assumes "metric_parts (metric_part g cat al e) (metrics d) = Inr ms"
  shows "set (allowed_columns cat snap d ms) \<subseteq> plan_tests g cat snap d"
proof
  fix c assume "c \<in> set (allowed_columns cat snap d ms)"
  then consider (filter) f where "f \<in> set (filters d)" "asset_column (fc_asset_id f) = Some c"
    | (time) r where "plan_time_range d = Some r" "asset_column (field_id r) = Some c"
    | (metric) errs ts cs where "(errs, ts, cs) \<in> set ms" "c \<in> set cs"
    | (path) p rid r l t where "p \<in> set (selected_paths snap d)" "rid \<in> set (relation_ids p)"
        "last_with relation_id (cat_relations cat) rid = Some r" "relation_ends r = Some (l, t)" "c \<in> {l, t}"
    using join_columns_end [of c cat "selected_paths snap d"]
    unfolding allowed_columns_def
    by (auto simp: set_map_filter eq_commute [of _ "plan_time_range d"] split: option.splits)
  then show "c \<in> plan_tests g cat snap d"
  proof cases
    case metric
    from metric_parts_member [OF assms metric(1)] obtain m where m: "m \<in> set (metrics d)"
      "metric_part g cat al e m = Inr (errs, ts, cs)" by blast
    from metric_part_adds(2) [OF this(2) metric(2)] m(1) show ?thesis unfolding plan_tests_def by blast
  qed (unfold plan_tests_def, blast+)
qed

lemma validated_passed:
  assumes "validate_sql_against_query_plan g number_text iso_date text v snap cat = Inr ()"
  obtains p s c e where "v = Some p" and "snap = Some s" and "cat = Some c" and "vp_status p = VALID"
    and "parse_one g text = Inr e" and "tree_errors g number_text iso_date c s (plan p) e = Inr []"
proof -
  from assms have "query_plan_alignment_errors g number_text iso_date text v snap cat = Inr []"
    by (auto simp: validate_sql_against_query_plan_def split: sum.splits if_splits)
  moreover from this obtain p s c where "v = Some p" "snap = Some s" "cat = Some c"
    by (auto simp: query_plan_alignment_errors_def split: option.splits)
  ultimately show thesis using alignment_passed that by metis
qed

abbreviation aliases_of :: "sqlglot \<Rightarrow> sql \<Rightarrow> (string, string) dict" where
  "aliases_of g e \<equiv> table_aliases g (map snd (find_all X_Table (at_root e)))"



subsection \<open>A query that passes\<close>

definition city_node :: sql where
  "city_node = Sql [X_Column] [(''name'', Text ''city''), (''table'', Text ''shop'')] []"

definition city_query :: sql where
  "city_query = Sql [X_Select] []
     [(''expressions'', city_node), (''from'', Sql [X_Table] [(''name'', Text ''shop'')] []),
      (''where'', Sql [X_Where] [] [(''this'', Sql [X_EQ] [] [(''this'', city_node),
          (''expression'', Sql [X_Literal] [(''this'', Text ''Paris'')] [])])]),
      (''limit'', Sql [] [] [(''expression'', Sql [X_Literal] [(''int'', Text ''10'')] [])])]"

definition sample_glot :: sqlglot where
  "sample_glot = tree_glot city_query"

definition paris :: value_entry where
  "paris = \<lparr>value_id = ''v1'', column_asset_id = ''column:public.shop.city'', canonical_value = ''Paris'',
     val_source_uri = '''', val_source_hash = '''', val_tenant_id = ''default'', val_aliases = [],
     val_content_version = 1, val_status = PUBLISHED, val_trust_level = HIGH_TRUST, val_sensitivity = PUBLIC,
     val_effective_from = None, val_effective_to = None, val_metadata = []\<rparr>"

definition paris_catalog :: catalog where
  "paris_catalog = sample_catalog\<lparr>cat_values := [paris]\<rparr>"

definition paris_draft :: query_plan_draft where
  "paris_draft = city_draft\<lparr>plan_limit := 100, filters := [\<lparr>fc_asset_id = ''column:public.shop.city'', fc_op = EQ,
     value_ids = [''v1''], literal_values = []\<rparr>]\<rparr>"

definition paris_plan :: validated_plan where
  "paris_plan = \<lparr>vp_status = VALID, plan_hash = '''', plan_version = 1, confidence = 1, vp_evidence_ids = [],
     vp_errors = [], plan = paris_draft\<rparr>"

lemma paris_query_passes:
  "tree_errors sample_glot (\<lambda>_. '''') (\<lambda>_. '''') paris_catalog sample_snapshot paris_draft city_query = Inr []"
  by code_simp

lemma paris_query_validates:
  "validate_sql_against_query_plan sample_glot (\<lambda>_. '''') (\<lambda>_. '''') ''q'' (Some paris_plan)
     (Some sample_snapshot) (Some paris_catalog) = Inr ()"
  using paris_query_passes
  by (simp add: validate_sql_against_query_plan_def query_plan_alignment_errors_def paris_plan_def)
    (simp add: sample_glot_def tree_glot_def)



subsection \<open>A hole: negated comparisons\<close>

text \<open>A comparison counts for a filter even when the query negates it: with \<open>WHERE NOT column = value\<close>
the operator EQ of the column is present. (Only IN and IS NULL look at the parent of the node.)\<close>

theorem negated_comparison_counts:
  assumes "child ''where'' (at_root e) = Some w" and "is_a X_Where (snd w)" and "child ''this'' w = Some n"
    and "is_a X_Not (snd n)" and "child ''this'' n = Some q" and "is_a X_EQ (snd q)"
    and "mentions g al k q" and "\<not> is_a X_Or e" and "\<not> is_a X_Or (snd w)" and "\<not> is_a X_Or (snd n)"
  shows "operator_present g al EQ k (at_root e)"
proof -
  have "inner (at_root e) q"
    using inner_child [OF inner_child [OF inner_child [OF inner.here assms(1)] assms(3)] assms(5)] .
  then have "q \<in> set (operator_nodes EQ (at_root e))" using assms(6) by (simp add: find_all_iff)
  moreover have "fst q = [snd n, snd w, e]" using assms(1,3,5) by (auto simp: child_def at_root_def)
  then have "counts_for g al k q"
    using assms by (simp add: counts_for_def inside_def ancestor_def)
  ultimately show ?thesis by (auto simp: operator_present_def list_ex_iff)
qed

text \<open>\<open>WHERE NOT shop.city = 'Paris'\<close>, for the plan that asks for the shops in Paris.\<close>

definition negated_city_query :: sql where
  "negated_city_query = Sql [X_Select] []
     [(''expressions'', city_node), (''from'', Sql [X_Table] [(''name'', Text ''shop'')] []),
      (''where'', Sql [X_Where] [] [(''this'', Sql [X_Not] [] [(''this'', Sql [X_EQ] [] [(''this'', city_node),
          (''expression'', Sql [X_Literal] [(''this'', Text ''Paris'')] [])])])]),
      (''limit'', Sql [] [] [(''expression'', Sql [X_Literal] [(''int'', Text ''10'')] [])])]"

lemma negated_query_passes:
  "tree_errors sample_glot (\<lambda>_. '''') (\<lambda>_. '''') paris_catalog sample_snapshot paris_draft negated_city_query = Inr []"
  by code_simp

theorem negated_comparison_counts_witness:
  "operator_present sample_glot [(''shop'', ''shop'')] EQ (''shop'', ''city'') (at_root negated_city_query) \<and>
   tree_errors sample_glot (\<lambda>_. '''') (\<lambda>_. '''') paris_catalog sample_snapshot paris_draft negated_city_query = Inr []"
proof -
  obtain w n q where t: "child ''where'' (at_root negated_city_query) = Some w" "child ''this'' w = Some n"
    "child ''this'' n = Some q" "is_a X_Where (snd w)" "is_a X_Not (snd n)" "is_a X_EQ (snd q)"
    "\<not> is_a X_Or negated_city_query" "\<not> is_a X_Or (snd w)" "\<not> is_a X_Or (snd n)" "snd q = Sql [X_EQ] [] [(''this'', city_node),
          (''expression'', Sql [X_Literal] [(''this'', Text ''Paris'')] [])]"
    by (simp add: negated_city_query_def child_def at_root_def arg_def is_a_def)
  obtain c where c: "child ''this'' q = Some c" "snd c = city_node" using t(10) by (simp add: child_def arg_def)
  have "c \<in> set (find_all X_Column q)"
    using inner_child [OF inner.here c(1)] c(2) by (simp add: find_all_iff city_node_def is_a_def)
  moreover have "column_matches sample_glot [(''shop'', ''shop'')] (''shop'', ''city'') city_node" by code_simp
  ultimately have m: "mentions sample_glot [(''shop'', ''shop'')] (''shop'', ''city'') q"
    using c(2) by (simp add: mentions_def list_ex_iff) (rule bexI [of _ c], simp)
  from negated_comparison_counts [OF t(1,4,2,5,3,6) m t(7-9)] negated_query_passes show ?thesis by simp
qed

end
