(* ===== verification/Sql_Guard.thy ===== *)
theory Sql_Guard
  imports Sql_Tree
begin

section \<open>The read-only policy for SQL\<close>

text \<open>
  \<open>agent-service/app/security/sql_guard.py\<close>: \<open>validate_read_query\<close> accepts a single query without
  write, lock, DDL or command nodes, without functions \<open>sqlglot\<close> does not know, over allowed tables
  of the \<open>public\<close> schema, without sensitive columns, and gives it a row limit. The messages of
  \<open>SqlPolicyError\<close> are Chinese text; the model has one constructor for each place that raises.
  The parser, the renderer and the method that adds a LIMIT are third-party code (record \<open>sqlglot\<close>); a
  parse that fails does so with the class \<open>ParseError\<close>.
\<close>

datatype sql_policy_error =
    Empty_Sql
  | Unparsable
  | Not_One_Statement
  | Not_A_Query
  | Forbidden_Node
  | Blocked_Functions "string list"
  | Cross_Database
  | Other_Schema
  | Blocked_Table string
  | No_Table
  | Sensitive_Columns "string list"
  | Star_On_Customers
  | Limit_Not_Fixed
  | Limit_Out_Of_Range
  | Parser_Raised exn

record guarded_sql =
  guarded_text :: string
  guarded_tables :: "string list"
  guarded_columns :: "string list"
  guarded_limit :: int

definition FORBIDDEN_NODES :: "sql_class list" where
  "FORBIDDEN_NODES = [X_Insert, X_Update, X_Delete, X_Merge, X_Create, X_Drop, X_Alter, X_Command, X_Transaction,
     X_Copy, X_Grant, X_Revoke, X_Into, X_Lock]"

definition ALLOWED_ANONYMOUS_FUNCTIONS :: "string list" where
  "ALLOWED_ANONYMOUS_FUNCTIONS = []"

definition DEFAULT_ALLOWED_TABLES :: "string list" where
  "DEFAULT_ALLOWED_TABLES = [''customers'', ''products'', ''orders'', ''order_items'', ''refunds'',
     ''schema_catalog'', ''metric_definitions'', ''query_examples'']"

definition DEFAULT_SENSITIVE_COLUMNS :: "string list" where
  "DEFAULT_SENSITIVE_COLUMNS = [''phone'', ''email'', ''password_hash'', ''approval_token_hash'']"

definition literal_limit :: "sqlglot \<Rightarrow> sql \<Rightarrow> sql_policy_error + int option" where
  "literal_limit g e =
     (case arg ''limit'' e of
        None \<Rightarrow> Inr None
      | Some l \<Rightarrow>
          (case arg ''expression'' l of
             None \<Rightarrow> Inl Limit_Not_Fixed
           | Some v \<Rightarrow>
               if \<not> is_a X_Literal v then Inl Limit_Not_Fixed
               else (case literal_int g v of None \<Rightarrow> Inl Limit_Not_Fixed | Some n \<Rightarrow> Inr (Some n))))"

text \<open>The names of all common table expressions of a query.\<close>

definition cte_aliases :: "sqlglot \<Rightarrow> sql \<Rightarrow> string list" where
  "cte_aliases g e = map (\<lambda>p. lower (alias_or_name g (snd p))) (find_all X_CTE (at_root e))"

text \<open>The loop over the table nodes.\<close>

fun read_tables :: "sqlglot \<Rightarrow> string list \<Rightarrow> string list \<Rightarrow> occ list \<Rightarrow> sql_policy_error + string list" where
  "read_tables g ctes allowed [] = Inr []"
| "read_tables g ctes allowed (t # ts) =
     (let name = lower (node_name g (snd t)) in
      if table_catalog g (snd t) \<noteq> [] then Inl Cross_Database
      else if table_db g (snd t) \<noteq> [] \<and> lower (table_db g (snd t)) \<noteq> ''public'' then Inl Other_Schema
      else if name \<in> set ctes \<and> table_db g (snd t) = [] \<and> table_catalog g (snd t) = []
      then read_tables g ctes allowed ts
      else if name \<notin> set allowed then Inl (Blocked_Table name)
      else (case read_tables g ctes allowed ts of Inl e \<Rightarrow> Inl e | Inr ns \<Rightarrow> Inr (name # ns)))"

definition named_columns :: "sqlglot \<Rightarrow> sql \<Rightarrow> string list" where
  "named_columns g e = map (\<lambda>c. lower (node_name g (snd c))) (find_all X_Column (at_root e))"

definition unknown_functions :: "sqlglot \<Rightarrow> sql \<Rightarrow> string list" where
  "unknown_functions g e = filter (\<lambda>f. f \<notin> set ALLOWED_ANONYMOUS_FUNCTIONS)
     (map (\<lambda>f. lower (node_name g (snd f))) (find_all X_Anonymous (at_root e)))"

text \<open>What follows the table loop.\<close>

definition finish_query ::
  "sqlglot \<Rightarrow> string list \<Rightarrow> int \<Rightarrow> string list \<Rightarrow> sql \<Rightarrow> sql_policy_error + guarded_sql" where
  "finish_query g sensitive max_rows tables e =
     (let blocked = filter (\<lambda>c. c \<in> set sensitive) (named_columns g e) in
      if tables = [] then Inl No_Table
      else if blocked \<noteq> [] then Inl (Sensitive_Columns (sort (remdups blocked)))
      else if find_all X_Star (at_root e) \<noteq> [] \<and> ''customers'' \<in> set tables then Inl Star_On_Customers
      else (case literal_limit g e of
          Inl err \<Rightarrow> Inl err
        | Inr None \<Rightarrow> Inr \<lparr>guarded_text = render_sql g (add_limit g max_rows e), guarded_tables = remdups tables,
            guarded_columns = remdups (named_columns g e), guarded_limit = max_rows\<rparr>
        | Inr (Some n) \<Rightarrow>
            if n < 1 \<or> n > max_rows then Inl Limit_Out_Of_Range
            else Inr \<lparr>guarded_text = render_sql g e, guarded_tables = remdups tables,
              guarded_columns = remdups (named_columns g e), guarded_limit = n\<rparr>))"

definition check_statement ::
  "sqlglot \<Rightarrow> string list \<Rightarrow> string list \<Rightarrow> int \<Rightarrow> sql \<Rightarrow> sql_policy_error + guarded_sql" where
  "check_statement g allowed sensitive max_rows e =
     (if \<not> is_a X_Query e then Inl Not_A_Query
      else if list_ex (\<lambda>c. find_all c (at_root e) \<noteq> []) FORBIDDEN_NODES then Inl Forbidden_Node
      else if unknown_functions g e \<noteq> [] then Inl (Blocked_Functions (sort (remdups (unknown_functions g e))))
      else (case read_tables g (cte_aliases g e) allowed (find_all X_Table (at_root e)) of
          Inl err \<Rightarrow> Inl err
        | Inr tables \<Rightarrow> finish_query g sensitive max_rows tables e))"

definition validate_read_query ::
  "sqlglot \<Rightarrow> string list \<Rightarrow> string list \<Rightarrow> int \<Rightarrow> string \<Rightarrow> sql_policy_error + guarded_sql" where
  "validate_read_query g allowed sensitive max_rows text =
     (if strip text = [] then Inl Empty_Sql
      else (case parse_all g text of
          Inl err \<Rightarrow> Inl (if err = External ''ParseError'' then Unparsable else Parser_Raised err)
        | Inr found \<Rightarrow>
            (case List.map_filter (\<lambda>x. x) found of
               [e] \<Rightarrow> check_statement g allowed sensitive max_rows e
             | _ \<Rightarrow> Inl Not_One_Statement)))"

subsection \<open>What an accepted query is\<close>

lemma read_tables_Inr:
  "read_tables g ctes allowed ts = Inr ns \<Longrightarrow>
   (\<forall>t \<in> set ts. table_catalog g (snd t) = [] \<and> (table_db g (snd t) = [] \<or> lower (table_db g (snd t)) = ''public'') \<and>
      (lower (node_name g (snd t)) \<in> set allowed \<or>
       table_db g (snd t) = [] \<and> lower (node_name g (snd t)) \<in> set ctes)) \<and> set ns \<subseteq> set allowed"
  by (induction ts arbitrary: ns) (auto simp: Let_def split: if_splits sum.splits)

lemma finish_query_Inr:
  "finish_query g sensitive max_rows tables e = Inr q \<Longrightarrow>
   tables \<noteq> [] \<and> set (named_columns g e) \<inter> set sensitive = {} \<and> guarded_tables q = remdups tables \<and>
   (1 \<le> max_rows \<longrightarrow> 1 \<le> guarded_limit q) \<and> guarded_limit q \<le> max_rows \<and>
   (find_all X_Star (at_root e) = [] \<or> ''customers'' \<notin> set tables)"
  by (auto simp: finish_query_def Let_def filter_empty_conv split: if_splits sum.splits option.splits)

lemma check_statement_Inr:
  assumes "check_statement g allowed sensitive max_rows e = Inr q"
  obtains tables where "is_a X_Query e" and "\<forall>c \<in> set FORBIDDEN_NODES. find_all c (at_root e) = []"
    and "find_all X_Anonymous (at_root e) = []"
    and "read_tables g (cte_aliases g e) allowed (find_all X_Table (at_root e)) = Inr tables"
    and "finish_query g sensitive max_rows tables e = Inr q"
proof -
  have "unknown_functions g e = [] \<Longrightarrow> find_all X_Anonymous (at_root e) = []"
    by (simp add: unknown_functions_def ALLOWED_ANONYMOUS_FUNCTIONS_def)
  with assms that show thesis
    by (auto simp: check_statement_def list_ex_iff split: if_splits sum.splits)
qed


subsection \<open>A hole: the name of a common table expression\<close>

text \<open>\<open>WITH t AS (SELECT * FROM t) SELECT * FROM t, orders\<close>: inside its own definition the name is the
physical table.\<close>

definition table_node :: "string \<Rightarrow> sql" where
  "table_node t = Sql [X_Table] [(''name'', Text t)] []"

definition star_node :: sql where
  "star_node = Sql [X_Star] [] []"

definition shadow_query :: "string \<Rightarrow> sql" where
  "shadow_query t = Sql [X_Query, X_Select] []
     [(''with'', Sql [X_CTE] [(''name'', Text t)]
         [(''this'', Sql [X_Query, X_Select] [] [(''expressions'', star_node), (''from'', table_node t)])]),
      (''expressions'', star_node), (''from'', table_node t), (''joins'', table_node ''orders'')]"

text \<open>The table whitelist can be bypassed: for every table there is a query that reads it inside a common
table expression of the same name, where the name is the physical table, and that the policy
accepts, star and all, although the table is not on the list (or is the customers table, whose
columns a star may not expose).\<close>

theorem own_name_bypasses_whitelist:
  assumes "lower t \<noteq> ''orders''" and "t \<noteq> []"
  shows "(\<exists>q. validate_read_query (tree_glot (shadow_query t)) DEFAULT_ALLOWED_TABLES DEFAULT_SENSITIVE_COLUMNS 200 ''q'' =
      Inr q \<and> guarded_tables q = [''orders'']) \<and>
    (\<exists>p c. inner (at_root (shadow_query t)) p \<and> snd p = table_node t \<and> ancestor X_CTE p = Some c \<and>
       alias_or_name (tree_glot (shadow_query t)) c = t)"
proof
  have orders: "lower ''orders'' = ''orders''" by code_simp
  let ?e = "shadow_query t"
  have walk: "map snd (walk (at_root ?e)) = ?e # map snd (kids ?e) @
      [Sql [X_Query, X_Select] [] [(''expressions'', star_node), (''from'', table_node t)], star_node, table_node t]"
    by (simp add: walk_def at_root_def shadow_query_def star_node_def table_node_def below_def upt_rec)
  have all: "map snd (find_all c (at_root ?e)) = filter (is_a c) (map snd (walk (at_root ?e)))" for c
    by (simp add: find_all_def filter_map o_def)
  show "\<exists>q. validate_read_query (tree_glot ?e) DEFAULT_ALLOWED_TABLES DEFAULT_SENSITIVE_COLUMNS 200 ''q'' = Inr q \<and>
      guarded_tables q = [''orders'']"
  proof -
    have nodes: "map snd (find_all X_Table (at_root ?e)) = [table_node t, table_node ''orders'', table_node t]"
      "map snd (find_all X_CTE (at_root ?e)) = [Sql [X_CTE] [(''name'', Text t)]
         [(''this'', Sql [X_Query, X_Select] [] [(''expressions'', star_node), (''from'', table_node t)])]]"
      "map snd (find_all X_Column (at_root ?e)) = []" "map snd (find_all X_Anonymous (at_root ?e)) = []"
      "list_all (\<lambda>c. map snd (find_all c (at_root ?e)) = []) FORBIDDEN_NODES"
      unfolding all walk by (simp_all add: shadow_query_def table_node_def star_node_def is_a_def FORBIDDEN_NODES_def)
    from nodes(1) obtain a b c where ts: "find_all X_Table (at_root ?e) = [a, b, c]" "snd a = table_node t"
      "snd b = table_node ''orders''" "snd c = table_node t" by (auto simp: map_eq_Cons_conv)
    let ?g = "tree_glot ?e"
    have name: "node_name ?g (table_node x) = x" "table_db ?g (table_node x) = []" "table_catalog ?g (table_node x) = []" for x
      by (simp_all add: tree_glot_def text_of_def table_node_def)
    from nodes(2) have cte: "cte_aliases ?g ?e = [lower t]"
      by (auto simp: cte_aliases_def map_eq_Cons_conv tree_glot_def text_of_def)
    have tables: "read_tables ?g (cte_aliases ?g ?e) DEFAULT_ALLOWED_TABLES (find_all X_Table (at_root ?e)) = Inr [''orders'']"
      using assms(1) by (simp add: cte ts name orders Let_def) (simp add: DEFAULT_ALLOWED_TABLES_def)
    have "is_a X_Query ?e" "arg ''limit'' ?e = None" by (simp_all add: shadow_query_def is_a_def arg_def)
    moreover have "\<not> list_ex (\<lambda>c. find_all c (at_root ?e) \<noteq> []) FORBIDDEN_NODES"
      using nodes(5) by (simp add: list_ex_iff list_all_iff)
    moreover have "unknown_functions ?g ?e = []" "named_columns ?g ?e = []"
      using nodes(3,4) by (simp_all add: unknown_functions_def named_columns_def)
    ultimately have "\<exists>q. check_statement ?g DEFAULT_ALLOWED_TABLES DEFAULT_SENSITIVE_COLUMNS 200 ?e = Inr q \<and>
        guarded_tables q = [''orders'']"
      by (simp add: check_statement_def tables finish_query_def literal_limit_def)
    moreover have "strip ''q'' \<noteq> []" "parse_all ?g ''q'' = Inr [Some ?e]" by code_simp (simp add: tree_glot_def)
    ultimately show ?thesis by (simp add: validate_read_query_def List.map_filter_simps)
  qed
next
  let ?e = "shadow_query t"
  let ?c = "Sql [X_CTE] [(''name'', Text t)]
     [(''this'', Sql [X_Query, X_Select] [] [(''expressions'', star_node), (''from'', table_node t)])]"
  let ?s = "Sql [X_Query, X_Select] [] [(''expressions'', star_node), (''from'', table_node t)]"
  have "child ''with'' (at_root ?e) = Some ([?e], ?c)" "child ''this'' ([?e], ?c) = Some ([?c, ?e], ?s)"
    "child ''from'' ([?c, ?e], ?s) = Some ([?s, ?c, ?e], table_node t)"
    by (simp_all add: child_def arg_def shadow_query_def at_root_def)
  note path = this
  have "inner (at_root ?e) ([?s, ?c, ?e], table_node t)"
    by (rule inner_child [OF inner_child [OF inner_child [OF inner.here path(1)] path(2)] path(3)])
  moreover have "ancestor X_CTE ([?s, ?c, ?e], table_node t) = Some ?c" by (simp add: ancestor_def is_a_def)
  moreover have "alias_or_name (tree_glot ?e) ?c = t" by (simp add: tree_glot_def text_of_def)
  ultimately show "\<exists>p c. inner (at_root ?e) p \<and> snd p = table_node t \<and> ancestor X_CTE p = Some c \<and>
       alias_or_name (tree_glot ?e) c = t"
    by (intro exI [of _ "([?s, ?c, ?e], table_node t)"] exI [of _ ?c]) simp
qed

theorem own_name_bypasses_whitelist_witness:
  "''app_users'' \<notin> set DEFAULT_ALLOWED_TABLES \<and>
   (\<exists>q. validate_read_query (tree_glot (shadow_query ''app_users'')) DEFAULT_ALLOWED_TABLES DEFAULT_SENSITIVE_COLUMNS
      200 ''q'' = Inr q \<and> guarded_tables q = [''orders''])"
proof -
  have "lower ''app_users'' \<noteq> ''orders''" "''app_users'' \<noteq> []" "''app_users'' \<notin> set DEFAULT_ALLOWED_TABLES"
    by code_simp+
  with own_name_bypasses_whitelist [OF this(1,2)] show ?thesis by simp
qed

definition orders_query :: sql where
  "orders_query = Sql [X_Query, X_Select] []
     [(''expressions'', Sql [X_Column] [(''name'', Text ''id'')] []), (''from'', table_node ''orders''),
      (''limit'', Sql [] [] [(''expression'', Sql [X_Literal] [(''int'', Text ''10'')] [])])]"

lemma orders_query_accepted:
  "validate_read_query (tree_glot orders_query) DEFAULT_ALLOWED_TABLES DEFAULT_SENSITIVE_COLUMNS 200 ''q'' =
     Inr \<lparr>guarded_text = [], guarded_tables = [''orders''], guarded_columns = [''id''], guarded_limit = 10\<rparr>"
  by code_simp


end
