(* ===== verification/Json.thy ===== *)
theory Json
  imports Py_Float
begin

section \<open>JSON values\<close>

text \<open>What \<open>json.dumps\<close> and \<open>model_dump(mode="json")\<close> produce and what a \<open>jsonb\<close> column holds; an object is a
dictionary in insertion order.\<close>

datatype json = JNull | JBool bool | JInt int | JFloat pyfloat | JStr string
  | JList "json list" | JDict "(string \<times> json) list"

type_synonym jdict = "(string, json) dict"

definition jstrs :: "string list \<Rightarrow> json" where
  "jstrs xs = JList (map JStr xs)"

text \<open>\<open>d.get(k)\<close>, and \<open>d.get(k, [])\<close> for a list.\<close>

definition jget :: "jdict \<Rightarrow> string \<Rightarrow> json" where
  "jget d k = (case map_of d k of None \<Rightarrow> JNull | Some v \<Rightarrow> v)"

fun jitems :: "json option \<Rightarrow> json list" where
  "jitems (Some (JList xs)) = xs"
| "jitems _ = []"

text \<open>\<open>{key: d[key] for key in keys if key in d}\<close>.\<close>

definition jpick :: "string list \<Rightarrow> jdict \<Rightarrow> jdict" where
  "jpick keys d = List.map_filter (\<lambda>k. map_option (Pair k) (map_of d k)) keys"

lemma map_of_jpick: "map_of (jpick keys d) k = (if k \<in> set keys then map_of d k else None)"
  by (induction keys) (auto simp: jpick_def List.map_filter_simps split: option.splits)

end
