(* ===== verification/Memory_Text.thy ===== *)
theory Memory_Text
  imports Json
begin

section \<open>Text of long-term memories: redaction, normal form and similarity\<close>

text \<open>
  The text functions of \<open>agent-service/app/state/memory_service.py\<close>: what is redacted before a
  memory is stored or embedded, the normal form that finds duplicates, the tokens and the two
  similarities of the search. The patterns of the module run on a small backtracking matcher for the
  constructs they use; characters are the code points below 256, so the fullwidth punctuation in two
  of the classes never occurs.
\<close>

subsection \<open>A backtracking matcher\<close>

text \<open>
  \<open>ends r p s\<close> lists the lengths of the matches of \<open>r\<close> at the start of \<open>s\<close>, in the order in which
  a backtracking matcher tries them; \<open>p\<close> is the character before \<open>s\<close>. Repetitions are greedy and are
  only taken of a character class, as in the patterns of the module.
\<close>

datatype rx =
    One "char \<Rightarrow> bool"
  | Exactly nat "char \<Rightarrow> bool"
  | Many nat "char \<Rightarrow> bool"
  | Cat rx rx
  | Or rx rx
  | Opt rx
  | Word_Boundary
  | Not_Behind "char \<Rightarrow> bool"
  | Not_Ahead "char \<Rightarrow> bool"

definition code :: "char \<Rightarrow> nat" where
  "code c = of_char c"

text \<open>\<open>\d\<close>, and \<open>\w\<close> on the code points below 256.\<close>

definition is_digit :: "char \<Rightarrow> bool" where
  "is_digit c \<longleftrightarrow> 48 \<le> code c \<and> code c \<le> 57"

definition ascii_letter :: "char \<Rightarrow> bool" where
  "ascii_letter c \<longleftrightarrow> 65 \<le> code c \<and> code c \<le> 90 \<or> 97 \<le> code c \<and> code c \<le> 122"

definition is_word :: "char \<Rightarrow> bool" where
  "is_word c \<longleftrightarrow> is_digit c \<or> ascii_letter c \<or>
     code c \<in> set [95, 170, 178, 179, 181, 185, 186, 188, 189, 190] \<or>
     192 \<le> code c \<and> code c \<noteq> 215 \<and> code c \<noteq> 247"

definition at_head :: "(char \<Rightarrow> bool) \<Rightarrow> string \<Rightarrow> bool" where
  "at_head P s = (case s of [] \<Rightarrow> False | c # _ \<Rightarrow> P c)"

definition at_prev :: "(char \<Rightarrow> bool) \<Rightarrow> char option \<Rightarrow> bool" where
  "at_prev P p = (case p of None \<Rightarrow> False | Some c \<Rightarrow> P c)"

definition after :: "char option \<Rightarrow> string \<Rightarrow> nat \<Rightarrow> char option" where
  "after p s n = (if n = 0 then p else Some (s ! (n - 1)))"

fun ends :: "rx \<Rightarrow> char option \<Rightarrow> string \<Rightarrow> nat list" where
  "ends (One P) p s = (if at_head P s then [1] else [])"
| "ends (Exactly k P) p s = (if k \<le> length (takeWhile P s) then [k] else [])"
| "ends (Many k P) p s = rev [k..<Suc (length (takeWhile P s))]"
| "ends (Cat a b) p s = concat (map (\<lambda>n. map ((+) n) (ends b (after p s n) (drop n s))) (ends a p s))"
| "ends (Or a b) p s = ends a p s @ ends b p s"
| "ends (Opt a) p s = ends a p s @ [0]"
| "ends Word_Boundary p s = (if at_prev is_word p \<noteq> at_head is_word s then [0] else [])"
| "ends (Not_Behind P) p s = (if at_prev P p then [] else [0])"
| "ends (Not_Ahead P) p s = (if at_head P s then [] else [0])"

text \<open>The match that Python reports, and whether \<open>re.search\<close> finds one.\<close>

definition match_at :: "rx \<Rightarrow> char option \<Rightarrow> string \<Rightarrow> nat option" where
  "match_at r p s = (case ends r p s of [] \<Rightarrow> None | n # _ \<Rightarrow> Some n)"

fun rx_search :: "rx \<Rightarrow> char option \<Rightarrow> string \<Rightarrow> bool" where
  "rx_search r p [] = (ends r p [] \<noteq> [])"
| "rx_search r p (c # cs) = (ends r p (c # cs) \<noteq> [] \<or> rx_search r (Some c) cs)"

text \<open>
  \<open>pattern.sub\<close>: from left to right, a match is replaced and the scan goes on behind it. \<open>m\<close> gives
  the length of the match and its replacement; the patterns of the module never match the empty string.
\<close>

function gsub :: "(char option \<Rightarrow> string \<Rightarrow> (nat \<times> string) option) \<Rightarrow> char option \<Rightarrow> string \<Rightarrow> string" where
  "gsub m p [] = []"
| "gsub m p (c # cs) = (case m p (c # cs) of
     Some (Suc k, r) \<Rightarrow> r @ gsub m (after p (c # cs) (Suc k)) (drop k cs)
   | _ \<Rightarrow> c # gsub m (Some c) cs)"
  by pat_completeness auto
termination by (relation "measure (\<lambda>(m, p, s). length s)") auto

definition replace_by :: "string \<Rightarrow> rx \<Rightarrow> char option \<Rightarrow> string \<Rightarrow> (nat \<times> string) option" where
  "replace_by t r p s = map_option (\<lambda>n. (n, t)) (match_at r p s)"

text \<open>A pattern whose first part is \<open>group(1)\<close>: the replacement keeps the group.\<close>

definition replace_group :: "string \<Rightarrow> rx \<Rightarrow> rx \<Rightarrow> char option \<Rightarrow> string \<Rightarrow> (nat \<times> string) option" where
  "replace_group t a b p s =
     (case concat (map (\<lambda>n. map (Pair n) (ends b (after p s n) (drop n s))) (ends a p s)) of
        [] \<Rightarrow> None
      | (n, k) # _ \<Rightarrow> Some (n + k, take n s @ t))"

text \<open>\<open>re.findall\<close> of a repeated class: the maximal runs of its characters; with \<open>\<not> isspace\<close>,
\<open>str.split()\<close>.\<close>

function runs :: "(char \<Rightarrow> bool) \<Rightarrow> string \<Rightarrow> string list" where
  "runs P [] = []"
| "runs P (c # cs) = (if P c then (c # takeWhile P cs) # runs P (dropWhile P cs) else runs P cs)"
  by pat_completeness auto
termination
  by (relation "measure (\<lambda>(P, s). length s)") (auto simp: le_imp_less_Suc length_dropWhile_le)

definition words :: "string \<Rightarrow> string list" where
  "words s = runs (\<lambda>c. \<not> is_space c) s"

subsection \<open>The patterns\<close>

definition lit :: "char \<Rightarrow> rx" where
  "lit x = One (\<lambda>c. c = x)"

text \<open>A literal under \<open>(?i)\<close>: no other character below 256 folds to an ASCII letter.\<close>

fun ci_text :: "string \<Rightarrow> rx" where
  "ci_text [] = Exactly 0 (\<lambda>_. True)"
| "ci_text (x # xs) = Cat (One (\<lambda>c. lower_char c = x)) (ci_text xs)"

fun cat_all :: "rx list \<Rightarrow> rx" where
  "cat_all [] = Exactly 0 (\<lambda>_. True)"
| "cat_all [r] = r"
| "cat_all (r # rs) = Cat r (cat_all rs)"

definition jwt_char :: "char \<Rightarrow> bool" where
  "jwt_char c \<longleftrightarrow> ascii_letter c \<or> is_digit c \<or> c = CHR ''_'' \<or> c = CHR ''-''"

definition JWT :: rx where
  "JWT = cat_all [Word_Boundary, lit CHR ''e'', lit CHR ''y'', lit CHR ''J'', Many 1 jwt_char, lit CHR ''.'',
     Many 1 jwt_char, lit CHR ''.'', Many 1 jwt_char, Word_Boundary]"

definition mail_char :: "char \<Rightarrow> bool" where
  "mail_char c \<longleftrightarrow> is_word c \<or> c = CHR ''.'' \<or> c = CHR ''-''"

definition EMAIL :: rx where
  "EMAIL = cat_all [Not_Behind mail_char, Many 1 (\<lambda>c. mail_char c \<or> c = CHR ''+''), lit CHR ''@'',
     Many 1 mail_char, lit CHR ''.'', Many 2 ascii_letter, Not_Ahead mail_char]"

definition PHONE :: rx where
  "PHONE = cat_all [Not_Behind is_digit,
     Opt (cat_all [Opt (lit CHR ''+''), lit CHR ''8'', lit CHR ''6'', Opt (One (\<lambda>c. c = CHR ''-'' \<or> c = CHR '' ''))]),
     lit CHR ''1'', One (\<lambda>c. 51 \<le> code c \<and> code c \<le> 57), Exactly 9 is_digit, Not_Ahead is_digit]"

definition API_KEY :: rx where
  "API_KEY = Cat (ci_text ''api'') (Cat (Opt (One (\<lambda>c. c = CHR ''_'' \<or> c = CHR ''-''))) (ci_text ''key''))"

definition SECRET_NAME :: rx where
  "SECRET_NAME = Cat Word_Boundary (Or API_KEY (Or (ci_text ''token'') (Or (ci_text ''password'')
     (Or (ci_text ''passwd'') (ci_text ''secret'')))))"

definition SECRET_VALUE :: rx where
  "SECRET_VALUE = cat_all [Word_Boundary, Many 0 is_space, One (\<lambda>c. c = CHR '':'' \<or> c = CHR ''=''), Many 0 is_space,
     Many 1 (\<lambda>c. \<not> is_space c \<and> c \<noteq> CHR '','' \<and> c \<noteq> CHR '';'')]"

definition SENSITIVE_KEY :: rx where
  "SENSITIVE_KEY = Or (ci_text ''password'') (Or (ci_text ''passwd'') (Or (ci_text ''secret'')
     (Or (ci_text ''token'') API_KEY)))"

subsection \<open>Redaction\<close>

definition TOKEN_MARK :: string where "TOKEN_MARK = ''[REDACTED_TOKEN]''"

definition EMAIL_MARK :: string where "EMAIL_MARK = ''[REDACTED_EMAIL]''"

definition PHONE_MARK :: string where "PHONE_MARK = ''[REDACTED_PHONE]''"

definition SECRET_MARK :: string where "SECRET_MARK = ''[REDACTED_SECRET]''"

definition hide_secrets :: "string \<Rightarrow> string" where
  "hide_secrets = gsub (replace_group (CHR ''='' # SECRET_MARK) SECRET_NAME SECRET_VALUE) None"

definition sanitize_memory_content :: "string \<Rightarrow> string" where
  "sanitize_memory_content content =
     (let v1 = gsub (replace_by TOKEN_MARK JWT) None content;
          v2 = gsub (replace_by EMAIL_MARK EMAIL) None v1;
          v3 = gsub (replace_by PHONE_MARK PHONE) None v2;
          v4 = hide_secrets v3
      in strip (join_with '' '' (words v4)))"

definition normalize_memory_content :: "string \<Rightarrow> string" where
  "normalize_memory_content content = lower (filter (\<lambda>c. is_word c \<and> c \<noteq> CHR ''_'') content)"

text \<open>\<open>_sanitize_value\<close> over the values of JSON.\<close>

fun sanitize_value :: "json \<Rightarrow> json" where
  "sanitize_value (JStr s) = JStr (sanitize_memory_content s)"
| "sanitize_value (JDict d) = JDict (map (\<lambda>(k, v).
     (k, if rx_search SENSITIVE_KEY None k then JStr SECRET_MARK else sanitize_value v)) d)"
| "sanitize_value (JList xs) = JList (map sanitize_value xs)"
| "sanitize_value v = v"

subsection \<open>Similarity\<close>

fun bigrams :: "string \<Rightarrow> string list" where
  "bigrams (a # b # cs) = [a, b] # bigrams (b # cs)"
| "bigrams _ = []"

text \<open>\<open>_tokens\<close>: a set, here a list without repetitions.\<close>

definition tokens :: "string \<Rightarrow> string list" where
  "tokens content = remdups (runs (\<lambda>c. 97 \<le> code c \<and> code c \<le> 122 \<or> is_digit c) (lower content) @
     bigrams (normalize_memory_content content))"

definition keyword_similarity :: "string \<Rightarrow> string \<Rightarrow> pyfloat" where
  "keyword_similarity left right =
     (let a = tokens left; b = tokens right in
      if a \<noteq> [] \<and> b \<noteq> []
      then fdiv (of_nat (length (filter (\<lambda>t. t \<in> set b) a)))
                (of_nat (length (remdups (a @ b))))
      else 0)"

text \<open>\<open>math.sqrt\<close>: the correctly rounded root. The root is taken of the argument scaled by a power of
4 that leaves at least 56 bits, and a last bit says whether it was exact.\<close>

function isqrt :: "int \<Rightarrow> int" where
  "isqrt n = (if n \<le> 0 then 0 else let r = 2 * isqrt (n div 4) in if (r + 1)\<^sup>2 \<le> n then r + 1 else r)"
  by pat_completeness auto
termination by (relation "measure nat") auto

declare isqrt.simps [simp del]

definition fsqrt :: "pyfloat \<Rightarrow> pyfloat" where
  "fsqrt x = (if x \<le> 0 then 0 else
     (let k = 60 - binade x div 2; y = x * (if 0 \<le> k then 4 ^ nat k else 1 / 4 ^ nat (- k));
          r = isqrt \<lfloor>y\<rfloor>;
          twice = 2 * of_int r + (if of_int (r * r) = y then 0 else 1) :: rat
      in fl (twice / (2 * (if 0 \<le> k then 2 ^ nat k else 1 / 2 ^ nat (- k))))))"

definition fsum :: "pyfloat list \<Rightarrow> pyfloat" where
  "fsum xs = foldl fadd 0 xs"

definition cosine :: "pyfloat list option \<Rightarrow> pyfloat list option \<Rightarrow> pyfloat" where
  "cosine left right =
     (case (left, right) of
        (Some xs, Some ys) \<Rightarrow>
          if xs = [] \<or> ys = [] \<or> length xs \<noteq> length ys then 0
          else (let d = fmul (fsqrt (fsum (map (\<lambda>x. fmul x x) xs))) (fsqrt (fsum (map (\<lambda>x. fmul x x) ys)))
                in if d \<noteq> 0 then fdiv (fsum (map (\<lambda>(x, y). fmul x y) (zip xs ys))) d else 0)
      | _ \<Rightarrow> 0)"

subsection \<open>Runs of a class of characters\<close>

lemma runs_skip: "list_all (\<lambda>c. \<not> P c) xs \<Longrightarrow> runs P (xs @ ys) = runs P ys"
  by (induction xs) auto

lemma runs_dropWhile: "runs P (dropWhile (\<lambda>c. \<not> P c) s) = runs P s"
  using runs_skip [of P "takeWhile (\<lambda>c. \<not> P c) s" "dropWhile (\<lambda>c. \<not> P c) s"]
  by (simp add: list_all_iff) (metis set_takeWhileD takeWhile_dropWhile_id)

lemma runs_take_drop: "runs P s = (if at_head P s then [takeWhile P s] else []) @ runs P (dropWhile P s)"
  by (cases s) (auto simp: at_head_def)

text \<open>A character outside the class separates the runs.\<close>

lemma runs_append_sep: "\<not> P c \<Longrightarrow> runs P (xs @ c # ys) = runs P xs @ runs P ys"
proof (induction P xs rule: runs.induct)
  case (2 P x xs)
  show ?case
  proof (cases "list_all P xs")
    case True
    then have t: "takeWhile P xs = xs" "dropWhile P xs = []"
      by (auto simp: list_all_iff takeWhile_eq_all_conv)
    have u: "takeWhile P (xs @ c # ys) = xs" "dropWhile P (xs @ c # ys) = c # ys"
      using True 2(3) by (auto simp: list_all_iff takeWhile_append dropWhile_append)
    show ?thesis using 2(2,3) by (simp add: t u)
  next
    case False
    then have "takeWhile P (xs @ c # ys) = takeWhile P xs" "dropWhile P (xs @ c # ys) = dropWhile P xs @ c # ys"
      by (auto simp: list_all_iff takeWhile_append dropWhile_append)
    then show ?thesis using 2 False by simp
  qed
qed simp

lemma runs_skip_end: "list_all (\<lambda>c. \<not> P c) ys \<Longrightarrow> runs P (xs @ ys) = runs P xs"
  by (induction ys) (auto simp: runs_append_sep runs_skip [where ys = "[]", simplified])

lemma strip_split: "\<exists>a b. list_all is_space a \<and> list_all is_space b \<and> s = a @ strip s @ b"
proof -
  let ?t = "dropWhile is_space s"
  have "s = takeWhile is_space s @ ?t" by simp
  moreover have "?t = rev (takeWhile is_space (rev ?t) @ dropWhile is_space (rev ?t))" by simp
  then have "?t = strip s @ rev (takeWhile is_space (rev ?t))"
    unfolding strip_def by (metis rev_append)
  moreover have "list_all is_space (takeWhile is_space s)" "list_all is_space (rev (takeWhile is_space (rev ?t)))"
    by (auto simp: list_all_iff dest: set_takeWhileD)
  ultimately show ?thesis by metis
qed

text \<open>Splitting at whitespace, joining with one space and stripping leave the runs of a class without
whitespace as they are.\<close>

lemma runs_strip:
  assumes "\<And>c. is_space c \<Longrightarrow> \<not> P c"
  shows "runs P (strip s) = runs P s"
proof -
  obtain a b where ab: "list_all is_space a" "list_all is_space b" and s: "s = a @ strip s @ b"
    using strip_split by blast
  have na: "list_all (\<lambda>c. \<not> P c) a" and nb: "list_all (\<lambda>c. \<not> P c) b"
    using ab assms by (auto simp: list_all_iff)
  have "runs P s = runs P (a @ (strip s @ b))" using s by simp
  also have "\<dots> = runs P (strip s)" by (simp only: runs_skip [OF na] runs_skip_end [OF nb])
  finally show ?thesis by simp
qed

lemma runs_words:
  assumes "\<And>c. is_space c \<Longrightarrow> \<not> P c"
  shows "runs P s = concat (map (runs P) (words s))"
proof -
  have "runs P s = concat (map (runs P) (runs Q s))" if "Q = (\<lambda>c. \<not> is_space c)" for Q
    using that
  proof (induction Q s rule: runs.induct)
    case (2 Q c cs)
    show ?case
    proof (cases "Q c")
      case True
      let ?w = "c # takeWhile Q cs" and ?r = "dropWhile Q cs"
      have s: "c # cs = ?w @ ?r" by simp
      have "runs P (?w @ ?r) = runs P ?w @ runs P ?r"
      proof (cases ?r)
        case (Cons d ds)
        then have "\<not> Q d" by (metis dropWhile_eq_Cons_conv)
        then have "\<not> P d" using 2(3) assms by simp
        then show ?thesis unfolding Cons using runs_append_sep [of P d ?w ds] by simp
      qed (simp only: append_Nil2 runs.simps)
      moreover have "runs P ?r = concat (map (runs P) (runs Q ?r))" using 2(1) [OF True] 2(3) by simp
      moreover have "runs Q (c # cs) = ?w # runs Q ?r" using True by simp
      ultimately show ?thesis using s by (metis concat.simps(2) list.map(2))
    next
      case False
      then show ?thesis using 2 assms [of c] by simp
    qed
  qed simp
  then show ?thesis by (simp add: words_def)
qed

lemma runs_join:
  assumes "\<And>c. is_space c \<Longrightarrow> \<not> P c"
  shows "runs P (join_with '' '' ws) = concat (map (runs P) ws)"
proof -
  have "is_space CHR '' ''" by (simp add: is_space_def)
  then have "\<not> P CHR '' ''" by (rule assms)
  then show ?thesis by (induction ws rule: induct_list012) (simp_all add: runs_append_sep)
qed

subsection \<open>No mobile number survives\<close>

text \<open>A run of digits that is a mobile number, with or without the country code.\<close>

definition mobile :: "string \<Rightarrow> bool" where
  "mobile d \<longleftrightarrow> (\<exists>q x y. d = q @ CHR ''1'' # x # y \<and> 51 \<le> code x \<and> code x \<le> 57 \<and> length y = 9 \<and> q \<in> {[], ''86''})"

text \<open>The run at the start of \<open>s\<close>, unless the character before it is a digit, is such a number; some
run of \<open>s\<close> is.\<close>

definition bare :: "char option \<Rightarrow> string \<Rightarrow> bool" where
  "bare p s \<longleftrightarrow> \<not> at_prev is_digit p \<and> mobile (takeWhile is_digit s)"

fun exposes :: "char option \<Rightarrow> string \<Rightarrow> bool" where
  "exposes p [] = False"
| "exposes p (c # cs) = (bare p (c # cs) \<or> exposes (Some c) cs)"

lemma mobile_Nil [simp]: "\<not> mobile []"
  by (simp add: mobile_def)

lemma bare_not_digit [simp]: "\<not> is_digit c \<Longrightarrow> \<not> bare p (c # cs)"
  by (simp add: bare_def)

lemma exposes_runs:
  "exposes p s \<longleftrightarrow> (\<exists>d \<in> set (runs is_digit (if at_prev is_digit p then dropWhile is_digit s else s)). mobile d)"
proof (induction p s rule: exposes.induct)
  case (2 p c cs)
  then show ?case by (auto simp: bare_def at_prev_def)
qed simp

lemma exposes_skip:
  assumes "list_all (\<lambda>c. \<not> is_digit c) r" and "r \<noteq> []"
  shows "exposes p (r @ t) \<longleftrightarrow> exposes (Some (last r)) t"
  using assms by (induction r arbitrary: p) (auto split: if_splits)

text \<open>
  What a substitution has to do to leave no number: its replacements contain no digit, its matches end
  before a non-digit, they do not start inside a run of digits, and every number that the input may
  still have, as \<open>quiet\<close> says, is the start of a match.
\<close>

lemma gsub_matched: "m p (c # cs) = Some (Suc k, r) \<Longrightarrow>
    gsub m p (c # cs) = r @ gsub m (after p (c # cs) (Suc k)) (drop k cs)"
  by simp

lemma gsub_kept: "\<nexists>k r. m p (c # cs) = Some (Suc k, r) \<Longrightarrow> gsub m p (c # cs) = c # gsub m (Some c) cs"
  by (auto split: option.splits nat.splits)

lemma gsub_induct [case_names Nil matched kept]:
  assumes "\<And>p. Q p []"
    and "\<And>p c cs k r. m p (c # cs) = Some (Suc k, r) \<Longrightarrow> Q (after p (c # cs) (Suc k)) (drop k cs) \<Longrightarrow> Q p (c # cs)"
    and "\<And>p c cs. \<nexists>k r. m p (c # cs) = Some (Suc k, r) \<Longrightarrow> Q (Some c) cs \<Longrightarrow> Q p (c # cs)"
  shows "Q p s"
proof (induction "length s" arbitrary: p s rule: less_induct)
  case less
  show ?case
  proof (cases s)
    case (Cons c cs)
    show ?thesis
    proof (cases "\<exists>k r. m p (c # cs) = Some (Suc k, r)")
      case True
      then obtain k r where "m p (c # cs) = Some (Suc k, r)" by blast
      then show ?thesis unfolding Cons by (rule assms(2)) (rule less, simp add: Cons)
    next
      case False
      then show ?thesis unfolding Cons by (rule assms(3)) (rule less, simp add: Cons)
    qed
  qed (simp add: assms(1))
qed

definition hides :: "(char option \<Rightarrow> string \<Rightarrow> (nat \<times> string) option) \<Rightarrow> bool" where
  "hides m \<longleftrightarrow> (\<forall>p s n r. m p s = Some (n, r) \<longrightarrow> r \<noteq> [] \<and> list_all (\<lambda>c. \<not> is_digit c) r \<and>
     (at_prev is_digit p \<longrightarrow> \<not> at_head is_digit s) \<and> \<not> at_head is_digit (drop n s))"

lemma hidesD:
  assumes "hides m" and "m p s = Some (n, r)"
  shows "r \<noteq> []" and "list_all (\<lambda>c. \<not> is_digit c) r" and "at_prev is_digit p \<Longrightarrow> \<not> at_head is_digit s"
    and "\<not> at_head is_digit (drop n s)"
  using assms unfolding hides_def by blast+

lemma gsub_run:
  assumes "hides m" and "at_prev is_digit p"
  shows "takeWhile is_digit (gsub m p s) = takeWhile is_digit s"
  using assms(2)
proof (induction p s rule: gsub_induct [where m = m])
  case (matched p c cs k r)
  note h = hidesD [OF assms(1) matched(1)]
  have "\<not> is_digit c" using h(3) matched(3) by (simp add: at_head_def)
  then show ?case unfolding gsub_matched [where m = m, OF matched(1)] using h(1,2) by (cases r) auto
next
  case (kept p c cs)
  then show ?case unfolding gsub_kept [where m = m, OF kept(1)] by (cases "is_digit c") (simp_all add: at_prev_def)
qed simp

lemma gsub_hides:
  assumes m: "hides m"
    and tail: "\<And>p c cs. quiet p (c # cs) \<Longrightarrow> quiet (Some c) cs"
    and hit: "\<And>p s. quiet p s \<Longrightarrow> bare p s \<Longrightarrow> \<exists>k r. m p s = Some (Suc k, r)"
    and q: "quiet p s"
    and p': "at_prev is_digit p' \<longrightarrow> at_prev is_digit p"
      "at_prev is_digit p \<and> \<not> at_prev is_digit p' \<longrightarrow> \<not> at_head is_digit s"
  shows "\<not> exposes p' (gsub m p s)"
  using q p'
proof (induction p s arbitrary: p' rule: gsub_induct [where m = m])
  case (matched p c cs k r)
  note h = hidesD [OF m matched(1)]
  have later: "quiet p' (t @ u) \<Longrightarrow> quiet (if t = [] then p' else Some (last t)) u" for p' t u
    by (induction t arbitrary: p') (auto dest: tail)
  have "quiet (after p (c # cs) (Suc k)) (drop k cs)" if "k \<le> length cs"
  proof -
    have "last (take (Suc k) (c # cs)) = (c # cs) ! k"
      using that by (subst last_conv_nth) (simp_all add: min_absorb2 nth_Cons')
    then show ?thesis
      using later [of p "take (Suc k) (c # cs)" "drop (Suc k) (c # cs)"] matched(3)
      by (simp only: append_take_drop_id after_def) simp
  qed
  moreover have "drop k cs = []" if "\<not> k \<le> length cs" using that by simp
  moreover have "\<not> is_digit (last r)" using h(1,2) by (simp add: list_all_iff)
  ultimately have "\<not> exposes (Some (last r)) (gsub m (after p (c # cs) (Suc k)) (drop k cs))"
    using h(4) matched(2) [of "Some (last r)"] by (cases "k \<le> length cs") (simp_all add: at_prev_def)
  then show ?case unfolding gsub_matched [where m = m, OF matched(1)] exposes_skip [OF h(2,1)] .
next
  case (kept p c cs)
  have "\<not> exposes (Some c) (gsub m (Some c) cs)"
    using kept(2) [of "Some c"] tail [OF kept(3)] by simp
  moreover have "\<not> bare p' (c # gsub m (Some c) cs)"
  proof
    assume b: "bare p' (c # gsub m (Some c) cs)"
    then have c: "is_digit c" using bare_not_digit by blast
    then have "takeWhile is_digit (c # gsub m (Some c) cs) = takeWhile is_digit (c # cs)"
      by (simp add: gsub_run [OF m] at_prev_def)
    moreover have "\<not> at_prev is_digit p"
      using kept(5) c b by (auto simp: bare_def at_head_def)
    ultimately have "bare p (c # cs)" using b by (simp only: bare_def simp_thms)
    then show False using hit [OF kept(3)] kept(1) by blast
  qed
  ultimately show ?case unfolding gsub_kept [where m = m, OF kept(1)] by simp
qed simp

text \<open>Matches of the combinators.\<close>

lemma ends_Cat: "k \<in> set (ends (Cat a b) p s) \<longleftrightarrow>
    (\<exists>n m. n \<in> set (ends a p s) \<and> m \<in> set (ends b (after p s n) (drop n s)) \<and> k = n + m)"
  by auto

lemma cat_all_Cons: "rs \<noteq> [] \<Longrightarrow> cat_all (r # rs) = Cat r (cat_all rs)"
  by (cases rs) simp_all

lemma ends_last: "rs \<noteq> [] \<Longrightarrow> k \<in> set (ends (cat_all rs) p s) \<Longrightarrow>
    \<exists>n m q. k = n + m \<and> m \<in> set (ends (last rs) q (drop n s))"
proof (induction rs arbitrary: k p s)
  case (Cons r rs)
  show ?case
  proof (cases "rs = []")
    case True
    then show ?thesis using Cons.prems by (intro exI [of _ 0] exI [of _ k] exI [of _ p]) simp
  next
    case False
    then obtain n m where n: "n \<in> set (ends r p s)" and m: "m \<in> set (ends (cat_all rs) (after p s n) (drop n s))"
      and k: "k = n + m"
      using Cons.prems(2) by (auto simp: cat_all_Cons ends_Cat)
    from Cons.IH [OF False m] obtain i j q where "m = i + j" "j \<in> set (ends (last rs) q (drop i (drop n s)))" by blast
    then show ?thesis using k False
      by (intro exI [of _ "n + i"] exI [of _ j] exI [of _ q]) (simp add: add.commute add.assoc)
  qed
qed simp

lemma ends_first: "k \<in> set (ends (cat_all (r # r' # rs)) p s) \<Longrightarrow> \<exists>n m. k = n + m \<and> n \<in> set (ends r p s)"
  by (auto simp only: cat_all.simps ends_Cat)

lemma match_at_in: "match_at r p s = Some n \<Longrightarrow> n \<in> set (ends r p s)"
  by (auto simp: match_at_def split: list.splits)

lemma match_at_Some: "n \<in> set (ends r p s) \<Longrightarrow> \<exists>k. match_at r p s = Some k"
  by (auto simp: match_at_def split: list.splits)

text \<open>The phone pattern: lookarounds at both ends, and it matches every bare number.\<close>

lemma phone_hides: "hides (replace_by PHONE_MARK PHONE)"
  unfolding hides_def
proof (intro allI impI)
  fix p s n r
  assume "replace_by PHONE_MARK PHONE p s = Some (n, r)"
  then have n: "n \<in> set (ends PHONE p s)" and r: "r = PHONE_MARK"
    by (auto simp: replace_by_def dest: match_at_in)
  have mark: "PHONE_MARK \<noteq> [] \<and> list_all (\<lambda>c. \<not> is_digit c) PHONE_MARK" by code_simp
  have "\<not> at_prev is_digit p"
    using ends_first [OF n [unfolded PHONE_def]] by (auto split: if_splits)
  moreover have "\<not> at_head is_digit (drop n s)"
    using ends_last [OF _ n [unfolded PHONE_def]] by (auto split: if_splits simp: add.commute)
  ultimately show "r \<noteq> [] \<and> list_all (\<lambda>c. \<not> is_digit c) r \<and>
      (at_prev is_digit p \<longrightarrow> \<not> at_head is_digit s) \<and> \<not> at_head is_digit (drop n s)"
    using r mark by simp
qed

definition phone_body :: rx where
  "phone_body = cat_all [lit CHR ''1'', One (\<lambda>c. 51 \<le> code c \<and> code c \<le> 57), Exactly 9 is_digit, Not_Ahead is_digit]"

definition phone_prefix :: rx where
  "phone_prefix = cat_all [Opt (lit CHR ''+''), lit CHR ''8'', lit CHR ''6'', Opt (One (\<lambda>c. c = CHR ''-'' \<or> c = CHR '' ''))]"

lemma PHONE_split: "PHONE = Cat (Not_Behind is_digit) (Cat (Opt phone_prefix) phone_body)"
  by (simp add: PHONE_def phone_prefix_def phone_body_def)

lemma phone_body_length: "n \<in> set (ends phone_body p s) \<Longrightarrow> 0 < n"
  unfolding phone_body_def cat_all.simps ends_Cat by (auto simp: lit_def split: if_splits)

lemma phone_body_hit:
  assumes "51 \<le> code x" and "code x \<le> 57" and "length y = 9" and "list_all is_digit y" and "\<not> at_head is_digit z"
  shows "11 \<in> set (ends phone_body p (CHR ''1'' # x # y @ z))"
proof -
  have t: "takeWhile is_digit (y @ z) = y @ takeWhile is_digit z"
    using assms(4) by (simp add: list_all_iff)
  show ?thesis using assms
    by (simp add: phone_body_def lit_def at_head_def t code_def)
qed

lemma phone_prefix_hit: "2 \<in> set (ends phone_prefix p (CHR ''8'' # CHR ''6'' # z))"
  by (simp add: phone_prefix_def lit_def at_head_def)

lemma phone_hit:
  assumes "bare p s"
  shows "\<exists>k r. replace_by PHONE_MARK PHONE p s = Some (Suc k, r)"
proof -
  have p: "\<not> at_prev is_digit p" and m: "mobile (takeWhile is_digit s)" using assms by (simp_all add: bare_def)
  from m obtain q x y where d: "takeWhile is_digit s = q @ CHR ''1'' # x # y"
    and x: "51 \<le> code x" "code x \<le> 57" and y: "length y = 9" and q: "q = [] \<or> q = ''86''"
    unfolding mobile_def by blast
  let ?z = "dropWhile is_digit s"
  have s: "s = q @ CHR ''1'' # x # y @ ?z"
    using takeWhile_dropWhile_id [of is_digit s] unfolding d by simp
  have "list_all is_digit y" using d set_takeWhileD [of _ is_digit s] by (auto simp: list_all_iff)
  moreover have "\<not> at_head is_digit ?z"
    by (metis at_head_def dropWhile_eq_Cons_conv list.case_eq_if list.collapse)
  ultimately have body: "11 \<in> set (ends phone_body p' (CHR ''1'' # x # y @ ?z))" for p'
    by (intro phone_body_hit x y)
  have "length q \<in> set (ends (Opt phone_prefix) p s)"
  proof (cases "q = []")
    case False
    then have "s = CHR ''8'' # CHR ''6'' # (CHR ''1'' # x # y @ ?z)" using q s by simp
    then show ?thesis using phone_prefix_hit [of p "CHR ''1'' # x # y @ ?z"] False q by (simp add: numeral_2_eq_2)
  qed simp
  moreover have "drop (length q) s = CHR ''1'' # x # y @ ?z" by (subst s) simp
  ultimately have "length q + 11 \<in> set (ends (Cat (Opt phone_prefix) phone_body) p s)"
    using body unfolding ends_Cat by metis
  then have "length q + 11 \<in> set (ends PHONE p s)"
    using p unfolding PHONE_split ends_Cat by (intro exI [of _ 0] exI [of _ "length q + 11"]) (simp add: after_def)
  then obtain n where n: "match_at PHONE p s = Some n" using match_at_Some by blast
  have "0 < n"
    using match_at_in [OF n] phone_body_length unfolding PHONE_split ends_Cat by fastforce
  then show ?thesis using n by (cases n) (auto simp: replace_by_def)
qed

text \<open>The secret pattern: its name has no digit, and its value runs up to a separator.\<close>

lemma lower_digit: "is_digit c \<Longrightarrow> lower_char c = c"
  by (simp add: is_digit_def lower_char_def code_def Let_def)

definition spelled :: "rx \<Rightarrow> bool" where
  "spelled r \<longleftrightarrow> (\<forall>p s n. n \<in> set (ends r p s) \<longrightarrow> n \<le> length s \<and> list_all (\<lambda>c. \<not> is_digit c) (take n s))"

lemma spelled_Cat: "spelled a \<Longrightarrow> spelled b \<Longrightarrow> spelled (Cat a b)"
  unfolding spelled_def ends_Cat
  by (fastforce simp: take_add list_all_append)

lemma spelled_Or: "spelled a \<Longrightarrow> spelled b \<Longrightarrow> spelled (Or a b)"
  by (auto simp: spelled_def)

lemma spelled_Opt: "spelled a \<Longrightarrow> spelled (Opt a)"
  by (auto simp: spelled_def)

lemma spelled_One: "(\<And>c. P c \<Longrightarrow> \<not> is_digit c) \<Longrightarrow> spelled (One P)"
  by (auto simp: spelled_def at_head_def split: list.splits)

lemma spelled_ci_text: "list_all (\<lambda>c. \<not> is_digit c) w \<Longrightarrow> spelled (ci_text w)"
proof (induction w)
  case (Cons x w)
  then show ?case
    by (simp only: ci_text.simps, intro spelled_Cat spelled_One) (auto simp: lower_digit)
qed (simp add: spelled_def)

lemma spelled_Word_Boundary: "spelled Word_Boundary"
  by (simp add: spelled_def)

lemmas spelled_intros = spelled_Cat spelled_Or spelled_Opt spelled_ci_text spelled_Word_Boundary

lemma no_digits:
  "list_all (\<lambda>c. \<not> is_digit c) ''api'' \<and> list_all (\<lambda>c. \<not> is_digit c) ''key'' \<and>
   list_all (\<lambda>c. \<not> is_digit c) ''token'' \<and> list_all (\<lambda>c. \<not> is_digit c) ''password'' \<and>
   list_all (\<lambda>c. \<not> is_digit c) ''passwd'' \<and> list_all (\<lambda>c. \<not> is_digit c) ''secret'' \<and>
   list_all (\<lambda>c. \<not> is_digit c) (CHR ''='' # SECRET_MARK) \<and> \<not> is_digit CHR ''_'' \<and> \<not> is_digit CHR ''-''"
  by code_simp

lemma spelled_SECRET_NAME: "spelled SECRET_NAME"
  unfolding SECRET_NAME_def API_KEY_def
  by (intro spelled_intros spelled_One) (use no_digits in auto)

definition never_empty :: "rx \<Rightarrow> bool" where
  "never_empty r \<longleftrightarrow> (\<forall>p s. 0 \<notin> set (ends r p s))"

lemma never_empty_Cat: "never_empty a \<or> never_empty b \<Longrightarrow> never_empty (Cat a b)"
  unfolding never_empty_def ends_Cat by auto

lemma never_empty_Or: "never_empty a \<Longrightarrow> never_empty b \<Longrightarrow> never_empty (Or a b)"
  by (simp add: never_empty_def)

lemma never_empty_ci_text: "w \<noteq> [] \<Longrightarrow> never_empty (ci_text w)"
  by (cases w) (auto simp: never_empty_def)

lemma secret_name_length: "n \<in> set (ends SECRET_NAME p s) \<Longrightarrow> 0 < n"
proof -
  assume n: "n \<in> set (ends SECRET_NAME p s)"
  have "never_empty (ci_text ''api'')" by (rule never_empty_ci_text) simp
  then have "never_empty SECRET_NAME"
    unfolding SECRET_NAME_def API_KEY_def
    by (intro never_empty_Cat never_empty_Or never_empty_ci_text disjI2 [OF never_empty_Or] disjI1) simp_all
  then show "0 < n" using n by (metis never_empty_def gr0I)
qed

lemma concat_head:
  assumes "concat (map (\<lambda>n. map (g n) (f n)) ns) = y # u"
  shows "\<exists>n m t. n \<in> set ns \<and> f n = m # t \<and> y = g n m"
  using assms
proof (induction ns)
  case (Cons x ns)
  then show ?case by (cases "f x") auto
qed simp

lemma match_at_Cat:
  assumes "match_at (Cat a b) p s = Some k"
  shows "\<exists>n m. n \<in> set (ends a p s) \<and> match_at b (after p s n) (drop n s) = Some m \<and> k = n + m"
proof -
  obtain u where "concat (map (\<lambda>n. map ((+) n) (ends b (after p s n) (drop n s))) (ends a p s)) = k # u"
    using assms by (auto simp: match_at_def split: list.splits)
  from concat_head [OF this] show ?thesis by (auto simp: match_at_def)
qed

lemma match_at_last: "rs \<noteq> [] \<Longrightarrow> match_at (cat_all rs) p s = Some k \<Longrightarrow>
    \<exists>n m q. k = n + m \<and> match_at (last rs) q (drop n s) = Some m"
proof (induction rs arbitrary: k p s)
  case (Cons r rs)
  show ?case
  proof (cases "rs = []")
    case True
    then show ?thesis using Cons.prems by (intro exI [of _ 0] exI [of _ k] exI [of _ p]) simp
  next
    case False
    then obtain n m where m: "match_at (cat_all rs) (after p s n) (drop n s) = Some m" and k: "k = n + m"
      using Cons.prems(2) match_at_Cat [of r "cat_all rs" p s k] by (auto simp: cat_all_Cons)
    from Cons.IH [OF False m] obtain i j q where "m = i + j" "match_at (last rs) q (drop i (drop n s)) = Some j" by blast
    then show ?thesis using k False
      by (intro exI [of _ "n + i"] exI [of _ j] exI [of _ q]) (simp add: add.commute add.assoc)
  qed
qed simp

lemma match_at_Many: "match_at (Many k P) p s = Some n \<Longrightarrow> \<not> at_head P (drop n s)"
  by (auto simp: match_at_def at_head_def dropWhile_eq_drop [symmetric] upt_Suc_append dest: dropWhile_eq_Cons_conv [THEN iffD1]
      split: list.splits if_splits)

lemma secret_hides: "hides (replace_group (CHR ''='' # SECRET_MARK) SECRET_NAME SECRET_VALUE)"
  unfolding hides_def
proof (intro allI impI)
  fix p s n r
  assume "replace_group (CHR ''='' # SECRET_MARK) SECRET_NAME SECRET_VALUE p s = Some (n, r)"
  then obtain i k u where c: "concat (map (\<lambda>n. map (Pair n) (ends SECRET_VALUE (after p s n) (drop n s)))
      (ends SECRET_NAME p s)) = (i, k) # u" and n: "n = i + k" and r: "r = take i s @ CHR ''='' # SECRET_MARK"
    by (auto simp: replace_group_def split: list.splits)
  from concat_head [OF c] obtain t where i: "i \<in> set (ends SECRET_NAME p s)"
    and k: "ends SECRET_VALUE (after p s i) (drop i s) = k # t" by blast
  have name: "i \<le> length s" "list_all (\<lambda>c. \<not> is_digit c) (take i s)" "0 < i"
    using spelled_SECRET_NAME i secret_name_length [OF i] unfolding spelled_def by blast+
  have m: "match_at SECRET_VALUE (after p s i) (drop i s) = Some k" using k by (simp add: match_at_def)
  let ?v = "\<lambda>c. \<not> is_space c \<and> c \<noteq> CHR '','' \<and> c \<noteq> CHR '';''"
  from match_at_last [OF _ m [unfolded SECRET_VALUE_def]]
  obtain a b q where "k = a + b" and "match_at (Many 1 ?v) q (drop a (drop i s)) = Some b" by auto
  then have "\<not> at_head ?v (drop n s)"
    using match_at_Many [of 1 ?v q "drop a (drop i s)" b] n by (simp add: add.commute add.left_commute)
  moreover have "?v c" if "is_digit c" for c
    using that by (auto simp: is_digit_def is_space_def code_def)
  ultimately have "\<not> at_head is_digit (drop n s)" by (auto simp: at_head_def split: list.splits)
  moreover have "\<not> at_head is_digit s" using name by (cases s; cases i) (auto simp: at_head_def)
  ultimately show "r \<noteq> [] \<and> list_all (\<lambda>c. \<not> is_digit c) r \<and>
      (at_prev is_digit p \<longrightarrow> \<not> at_head is_digit s) \<and> \<not> at_head is_digit (drop n s)"
    using r name no_digits by simp
qed

lemma sanitized_runs: "runs is_digit (sanitize_memory_content x) =
    runs is_digit (hide_secrets (gsub (replace_by PHONE_MARK PHONE) None
      (gsub (replace_by EMAIL_MARK EMAIL) None (gsub (replace_by TOKEN_MARK JWT) None x))))"
proof -
  have "\<not> is_digit c" if "is_space c" for c using that by (auto simp: is_digit_def is_space_def code_def)
  then show ?thesis
    by (simp add: sanitize_memory_content_def Let_def runs_strip runs_join runs_words [symmetric])
qed

lemma no_phone_left: "\<not> exposes None (hide_secrets (gsub (replace_by PHONE_MARK PHONE) None v))"
proof -
  let ?t = "gsub (replace_by PHONE_MARK PHONE) None v"
  have "\<not> exposes None ?t"
    by (rule gsub_hides [where quiet = "\<lambda>_ _. True", OF phone_hides]) (auto dest: phone_hit)
  then show ?thesis unfolding hide_secrets_def
    by (intro gsub_hides [where quiet = "\<lambda>p s. \<not> exposes p s", OF secret_hides])
      (auto split: list.splits simp: bare_def neq_Nil_conv elim: exposes.elims)
qed

lemma sanitized_no_mobile: "d \<in> set (runs is_digit (sanitize_memory_content x)) \<Longrightarrow> \<not> mobile d"
  using no_phone_left by (auto simp: sanitized_runs exposes_runs at_prev_def)

subsection \<open>The root and the similarity\<close>

lemma isqrt_correct: "0 \<le> n \<Longrightarrow> 0 \<le> isqrt n \<and> (isqrt n)\<^sup>2 \<le> n \<and> n < (isqrt n + 1)\<^sup>2"
proof (induction n rule: isqrt.induct)
  case (1 n)
  show ?case
  proof (cases "n \<le> 0")
    case True
    then have "isqrt n = 0" by (subst isqrt.simps) simp
    then show ?thesis using 1 True by simp
  next
    case False
    let ?q = "isqrt (n div 4)"
    from False have q: "0 \<le> ?q" "?q\<^sup>2 \<le> n div 4" "n div 4 < (?q + 1)\<^sup>2" using 1 by simp_all
    have "4 * ?q\<^sup>2 \<le> n" and "n < 4 * (?q + 1)\<^sup>2" using q(2,3) by linarith+
    then have "(2 * ?q)\<^sup>2 \<le> n" and "n < (2 * ?q + 2)\<^sup>2"
      by (simp_all add: power2_eq_square algebra_simps)
    moreover have "isqrt n = (if (2 * ?q + 1)\<^sup>2 \<le> n then 2 * ?q + 1 else 2 * ?q)"
      using False by (subst isqrt.simps) (simp only: Let_def if_False)
    moreover have "2 * ?q + 2 = 2 * ?q + 1 + 1" by simp
    ultimately show ?thesis using q(1) by (cases "(2 * ?q + 1)\<^sup>2 \<le> n") (simp_all only: if_True if_False, simp_all)
  qed
qed

lemma tokens_distinct [simp]: "distinct (tokens x)"
  by (simp add: tokens_def)

lemma overlap_bounds:
  assumes "distinct a" and "distinct b"
  shows "length (filter (\<lambda>t. t \<in> set b) a) = card (set a \<inter> set b)"
    and "length (remdups (a @ b)) = card (set a \<union> set b)"
proof -
  have "set (filter (\<lambda>t. t \<in> set b) a) = set a \<inter> set b" by auto
  then show "length (filter (\<lambda>t. t \<in> set b) a) = card (set a \<inter> set b)"
    using distinct_card [of "filter (\<lambda>t. t \<in> set b) a"] assms by simp
  show "length (remdups (a @ b)) = card (set a \<union> set b)"
    by (simp add: length_remdups_card_conv)
qed

lemma keyword_similarity_eq: "keyword_similarity l r =
    (if tokens l \<noteq> [] \<and> tokens r \<noteq> []
     then fdiv (of_nat (card (set (tokens l) \<inter> set (tokens r)))) (of_nat (card (set (tokens l) \<union> set (tokens r))))
     else 0)"
  by (simp only: keyword_similarity_def Let_def overlap_bounds tokens_distinct)

text \<open>The keyword similarity of two texts is symmetric and lies between 0 and 1.\<close>

theorem keyword_similarity_bounds:
  "0 \<le> keyword_similarity l r \<and> keyword_similarity l r \<le> 1 \<and> keyword_similarity l r = keyword_similarity r l"
proof -
  have "card (set (tokens l) \<inter> set (tokens r)) \<le> card (set (tokens l) \<union> set (tokens r))"
    by (rule card_mono) auto
  then have "0 \<le> keyword_similarity l r \<and> keyword_similarity l r \<le> 1"
    using fdiv_range [of "of_nat (card (set (tokens l) \<inter> set (tokens r)))" "of_nat (card (set (tokens l) \<union> set (tokens r)))"]
    by (simp add: keyword_similarity_eq)
  moreover have "keyword_similarity l r = keyword_similarity r l"
    by (simp add: keyword_similarity_eq Int_commute Un_commute)
  ultimately show ?thesis by blast
qed

end
