(* ===== verification/Memory_Store.thy ===== *)
theory Memory_Store
  imports Memory_Text Run_Store_Pg
begin

section \<open>Long-term memories and conversations: records and repositories\<close>

text \<open>
  \<open>agent-service/app/state/models.py\<close> and \<open>state/repositories.py\<close>: memory records and events, the
  in-memory repository and the PostgreSQL one. The service is written against the protocol
  \<open>StateRepository\<close>; here the operations it calls are a record \<open>memory_ops\<close> over an arbitrary state,
  and the locale \<open>memory_contract\<close> says what they promise. Both repositories interpret it.

  A conversation payload holds its user, its messages and its time stamps; a time stamp is the moment
  it denotes with its text, which is what \<open>str\<close> gives and \<open>fromisoformat\<close> reads.
\<close>

subsection \<open>Records\<close>

datatype memory_status = MemCandidate | MemConfirmed | MemRejected

datatype memory_type = USER_PREFERENCE | BUSINESS_TERM | VERIFIED_QUERY | TOOL_PATTERN

datatype memory_scope = USER_SCOPE | GLOBAL_SCOPE

datatype memory_validity = MemActive | MemConflicted | MemSuperseded | MemInvalid

record memory_record =
  m_id :: string
  m_user :: string
  m_type :: memory_type
  m_status :: memory_status
  m_content :: string
  m_normalized :: string
  m_source :: string
  m_scope :: memory_scope
  m_created :: time
  m_updated :: time
  m_tool_name :: "string option"
  m_tool_args :: "json option"
  m_success :: "bool option"
  m_embedding :: "pyfloat list option"
  m_metadata :: json
  m_expires :: "time option"
  m_validity :: memory_validity
  m_source_hash :: "string option"
  m_conflict_key :: "string option"
  m_valid_from :: "time option"
  m_valid_to :: "time option"

record memory_event =
  ev_memory :: "string option"
  ev_user :: string
  ev_type :: string
  ev_details :: json

record stamp =
  moment :: time
  stamp_text :: string

record message =
  msg_role :: string
  msg_content :: string
  msg_rest :: json

record conversation =
  conv_id :: string
  conv_user :: string
  conv_snapshot :: json
  conv_metadata :: json
  conv_messages :: "message list"
  conv_created :: stamp
  conv_updated :: stamp

text \<open>Truth of an optional text: \<open>None\<close> and the empty string are false.\<close>

definition truthy :: "string option \<Rightarrow> bool" where
  "truthy v \<longleftrightarrow> v \<noteq> None \<and> v \<noteq> Some []"

text \<open>\<open>sorted(\<dots>, key=k, reverse=True)\<close>: equal elements keep their order.\<close>

definition sort_desc :: "('a \<Rightarrow> 'b::linorder) \<Rightarrow> 'a list \<Rightarrow> 'a list" where
  "sort_desc k xs = rev (sort_key k (rev xs))"

text \<open>\<open>xs[lo:hi]\<close>.\<close>

definition slice_index :: "int \<Rightarrow> nat \<Rightarrow> nat" where
  "slice_index i n = (if i < 0 then nat (int n + i) else min (nat i) n)"

definition py_slice :: "int \<Rightarrow> int \<Rightarrow> 'a list \<Rightarrow> 'a list" where
  "py_slice lo hi xs =
     (let a = slice_index lo (length xs); b = slice_index hi (length xs) in take (b - a) (drop a xs))"

subsection \<open>What a reader sees\<close>

definition same_key :: "memory_record \<Rightarrow> memory_record \<Rightarrow> bool" where
  "same_key e m \<longleftrightarrow> m_user e = m_user m \<and> m_type e = m_type m \<and> m_normalized e = m_normalized m"

definition unexpired :: "time \<Rightarrow> memory_record \<Rightarrow> bool" where
  "unexpired now m \<longleftrightarrow> (case m_expires m of None \<Rightarrow> True | Some e \<Rightarrow> now < e)"

definition visible :: "time \<Rightarrow> string \<Rightarrow> memory_status list option \<Rightarrow> bool \<Rightarrow> memory_record \<Rightarrow> bool" where
  "visible now uid statuses include_global m \<longleftrightarrow>
     (m_user m = uid \<or> include_global \<and> m_scope m = GLOBAL_SCOPE) \<and>
     (case statuses of None \<Rightarrow> True | Some sts \<Rightarrow> m_status m \<in> set sts) \<and> unexpired now m"

subsection \<open>The in-memory repository\<close>

record state_repo =
  conversations :: "(string, conversation) dict"
  memories :: "(string, memory_record) dict"
  memory_events :: "memory_event list"

definition empty_repo :: state_repo where
  "empty_repo = \<lparr>conversations = [], memories = [], memory_events = []\<rparr>"

definition mem_create_conversation :: "conversation \<Rightarrow> (state_repo, unit) py" where
  "mem_create_conversation c s =
     (if map_of (conversations s) (conv_id c) \<noteq> None
      then (Inl (ValueError ''conversation id already exists''), s)
      else (Inr (), s\<lparr>conversations := AList.update (conv_id c) c (conversations s)\<rparr>))"

definition mem_get_conversation :: "string \<Rightarrow> string \<Rightarrow> (state_repo, conversation option) py" where
  "mem_get_conversation cid uid s =
     (Inr (case map_of (conversations s) cid of
        Some c \<Rightarrow> if conv_user c = uid then Some c else None
      | None \<Rightarrow> None), s)"

definition mem_save_conversation :: "conversation \<Rightarrow> (state_repo, unit) py" where
  "mem_save_conversation c s =
     (case map_of (conversations s) (conv_id c) of
        Some current \<Rightarrow>
          if conv_user current \<noteq> conv_user c
          then (Inl (PermissionError ''conversation not found or belongs to another user''), s)
          else (Inr (), s\<lparr>conversations := AList.update (conv_id c) c (conversations s)\<rparr>)
      | None \<Rightarrow> (Inr (), s\<lparr>conversations := AList.update (conv_id c) c (conversations s)\<rparr>))"

definition mem_delete_conversation :: "string \<Rightarrow> string \<Rightarrow> (state_repo, bool) py" where
  "mem_delete_conversation cid uid =
     bindM (mem_get_conversation cid uid) (\<lambda>found.
       case found of
         None \<Rightarrow> ret False
       | Some _ \<Rightarrow> (\<lambda>s. (Inr True, s\<lparr>conversations := AList.delete cid (conversations s)\<rparr>)))"

definition mem_list_conversations :: "string \<Rightarrow> int \<Rightarrow> int \<Rightarrow> (state_repo, conversation list) py" where
  "mem_list_conversations uid limit offset s =
     (Inr (py_slice offset (offset + limit)
        (sort_desc (\<lambda>c. stamp_text (conv_updated c))
          (filter (\<lambda>c. conv_user c = uid) (map snd (conversations s))))), s)"

definition day :: time where
  "day = 86400 * 1000000"

definition mem_delete_expired :: "time \<Rightarrow> int \<Rightarrow> (state_repo, int) py" where
  "mem_delete_expired now days s =
     (if days < 1 then (Inl (ValueError ''retention_days must be positive''), s)
      else (let cutoff = now - days * day;
                expired = map fst (filter (\<lambda>(_, c). moment (conv_updated c) < cutoff) (conversations s))
            in (Inr (int (length expired)),
                s\<lparr>conversations := foldl (\<lambda>d k. AList.delete k d) (conversations s) expired\<rparr>)))"

definition mem_upsert_memory :: "time \<Rightarrow> memory_record \<Rightarrow> (state_repo, memory_record) py" where
  "mem_upsert_memory now m s =
     (case find (\<lambda>(_, e). same_key e m) (memories s) of
        Some (k, e) \<Rightarrow>
          (let e' = e\<lparr>m_updated := now\<rparr> in (Inr e', s\<lparr>memories := AList.update k e' (memories s)\<rparr>))
      | None \<Rightarrow> (Inr m, s\<lparr>memories := AList.update (m_id m) m (memories s)\<rparr>))"

definition mem_get_memory :: "string \<Rightarrow> string \<Rightarrow> (state_repo, memory_record option) py" where
  "mem_get_memory mid uid s =
     (Inr (case map_of (memories s) mid of
        Some m \<Rightarrow> if m_user m = uid then Some m else None
      | None \<Rightarrow> None), s)"

definition mem_list_memories ::
  "time \<Rightarrow> string \<Rightarrow> memory_status list option \<Rightarrow> bool \<Rightarrow> (state_repo, memory_record list) py" where
  "mem_list_memories now uid statuses include_global s =
     (Inr (sort_desc m_updated (filter (visible now uid statuses include_global) (map snd (memories s)))), s)"

text \<open>The two setters share their shape: only the owner's record is changed.\<close>

definition mem_set :: "(memory_record \<Rightarrow> memory_record) \<Rightarrow> time \<Rightarrow> string \<Rightarrow> string \<Rightarrow>
    (state_repo, memory_record option) py" where
  "mem_set change now mid uid s =
     (case map_of (memories s) mid of
        None \<Rightarrow> (Inr None, s)
      | Some m \<Rightarrow>
          if m_user m \<noteq> uid then (Inr None, s)
          else (let m' = (change m)\<lparr>m_updated := now\<rparr>
                in (Inr (Some m'), s\<lparr>memories := AList.update mid m' (memories s)\<rparr>)))"

definition mem_set_memory_status ::
  "time \<Rightarrow> string \<Rightarrow> string \<Rightarrow> memory_status \<Rightarrow> (state_repo, memory_record option) py" where
  "mem_set_memory_status now mid uid st = mem_set (\<lambda>m. m\<lparr>m_status := st\<rparr>) now mid uid"

definition mem_set_memory_validity ::
  "time \<Rightarrow> string \<Rightarrow> string \<Rightarrow> memory_validity \<Rightarrow> (state_repo, memory_record option) py" where
  "mem_set_memory_validity now mid uid v = mem_set (\<lambda>m. m\<lparr>m_validity := v\<rparr>) now mid uid"

definition mem_delete_memory :: "string \<Rightarrow> string \<Rightarrow> (state_repo, bool) py" where
  "mem_delete_memory mid uid =
     bindM (mem_get_memory mid uid) (\<lambda>found.
       case found of
         None \<Rightarrow> ret False
       | Some _ \<Rightarrow> (\<lambda>s. (Inr True, s\<lparr>memories := AList.delete mid (memories s)\<rparr>)))"

definition mem_add_memory_event :: "memory_event \<Rightarrow> (state_repo, unit) py" where
  "mem_add_memory_event e s = (Inr (), s\<lparr>memory_events := memory_events s @ [e]\<rparr>)"

subsection \<open>The contract\<close>

record 's memory_ops =
  op_upsert_memory :: "time \<Rightarrow> memory_record \<Rightarrow> ('s, memory_record) py"
  op_get_memory :: "string \<Rightarrow> string \<Rightarrow> ('s, memory_record option) py"
  op_list_memories :: "time \<Rightarrow> string \<Rightarrow> memory_status list option \<Rightarrow> bool \<Rightarrow> ('s, memory_record list) py"
  op_set_status :: "time \<Rightarrow> string \<Rightarrow> string \<Rightarrow> memory_status \<Rightarrow> ('s, memory_record option) py"
  op_set_validity :: "time \<Rightarrow> string \<Rightarrow> string \<Rightarrow> memory_validity \<Rightarrow> ('s, memory_record option) py"
  op_delete_memory :: "string \<Rightarrow> string \<Rightarrow> ('s, bool) py"
  op_add_memory_event :: "memory_event \<Rightarrow> ('s, unit) py"
  op_confirm_atomic :: "(time \<Rightarrow> string \<Rightarrow> string \<Rightarrow> ('s, memory_record option) py) option"

definition in_memory_ops :: "state_repo memory_ops" where
  "in_memory_ops = \<lparr>op_upsert_memory = mem_upsert_memory, op_get_memory = mem_get_memory,
     op_list_memories = mem_list_memories, op_set_status = mem_set_memory_status,
     op_set_validity = mem_set_memory_validity, op_delete_memory = mem_delete_memory,
     op_add_memory_event = mem_add_memory_event, op_confirm_atomic = None\<rparr>"

definition owned :: "memory_record option \<Rightarrow> string \<Rightarrow> memory_record option" where
  "owned v uid = (case v of None \<Rightarrow> None | Some m \<Rightarrow> if m_user m = uid then Some m else None)"

text \<open>Two records that differ at most in what a store fills in itself, or in what a confirmation
changes.\<close>

definition entered :: "memory_record \<Rightarrow> memory_record \<Rightarrow> bool" where
  "entered m m' \<longleftrightarrow> m' = m\<lparr>m_created := m_created m', m_updated := m_updated m', m_embedding := m_embedding m',
     m_tool_args := m_tool_args m', m_metadata := m_metadata m'\<rparr>"

definition reviewed :: "memory_record \<Rightarrow> memory_record \<Rightarrow> bool" where
  "reviewed m m' \<longleftrightarrow> m' = m\<lparr>m_status := m_status m', m_updated := m_updated m', m_validity := m_validity m',
     m_valid_to := m_valid_to m'\<rparr>"

text \<open>The effects of the operations on the memories by id, an error leaving them unchanged.\<close>

type_synonym memory_map = "string \<Rightarrow> memory_record option"

definition upserted :: "time \<Rightarrow> memory_record \<Rightarrow> memory_map \<Rightarrow> exn + memory_record \<Rightarrow> memory_map \<Rightarrow> bool" where
  "upserted now m f r f' \<longleftrightarrow> (case r of
     Inl _ \<Rightarrow> f' = f
   | Inr m' \<Rightarrow>
       (\<exists>i e. f i = Some e \<and> same_key e m \<and> m' = e\<lparr>m_updated := now\<rparr> \<and> f' = f(i \<mapsto> m')) \<or>
       ((\<forall>i e. f i = Some e \<longrightarrow> \<not> same_key e m) \<and> entered m m' \<and> f' = f(m_id m \<mapsto> m')))"

definition changed :: "(memory_record \<Rightarrow> memory_record) \<Rightarrow> time \<Rightarrow> string \<Rightarrow> string \<Rightarrow> memory_map \<Rightarrow>
    exn + memory_record option \<Rightarrow> memory_map \<Rightarrow> bool" where
  "changed change now mid uid f r f' \<longleftrightarrow> (case r of
     Inl _ \<Rightarrow> f' = f
   | Inr None \<Rightarrow> owned (f mid) uid = None \<and> f' = f
   | Inr (Some m') \<Rightarrow> (\<exists>m. owned (f mid) uid = Some m \<and> m' = (change m)\<lparr>m_updated := now\<rparr> \<and> f' = f(mid \<mapsto> m')))"

definition listing :: "time \<Rightarrow> string \<Rightarrow> memory_status list option \<Rightarrow> bool \<Rightarrow> memory_map \<Rightarrow> memory_record list \<Rightarrow> bool" where
  "listing now uid statuses g f ms \<longleftrightarrow> set ms = {m. (\<exists>i. f i = Some m) \<and> visible now uid statuses g m} \<and>
     distinct (map m_id ms) \<and> sorted (rev (map m_updated ms))"

locale memory_contract =
  fixes ops :: "'s memory_ops"
    and live :: "'s \<Rightarrow> memory_map"
    and ok :: "'s \<Rightarrow> bool"
  assumes ids: "ok s \<Longrightarrow> live s i = Some m \<Longrightarrow> m_id m = i"
    and list_law: "ok s \<Longrightarrow> statuses \<noteq> Some [] \<Longrightarrow>
      \<exists>ms. op_list_memories ops now uid statuses g s = (Inr ms, s) \<and> listing now uid statuses g (live s) ms"
    and get_law: "ok s \<Longrightarrow> op_get_memory ops mid uid s = (Inr (owned (live s mid) uid), s)"
    and upsert_law: "ok s \<Longrightarrow> op_upsert_memory ops now m s = (r, s') \<Longrightarrow>
      ok s' \<and> upserted now m (live s) r (live s')"
    and status_law: "ok s \<Longrightarrow> op_set_status ops now mid uid st s = (r', s') \<Longrightarrow>
      ok s' \<and> changed (\<lambda>m. m\<lparr>m_status := st\<rparr>) now mid uid (live s) r' (live s')"
    and validity_law: "ok s \<Longrightarrow> op_set_validity ops now mid uid v s = (r', s') \<Longrightarrow>
      ok s' \<and> changed (\<lambda>m. m\<lparr>m_validity := v\<rparr>) now mid uid (live s) r' (live s')"
    and delete_law: "ok s \<Longrightarrow> op_delete_memory ops mid uid s = (b, s') \<Longrightarrow>
      ok s' \<and> (case owned (live s mid) uid of
          None \<Rightarrow> b = Inr False \<and> live s' = live s
        | Some _ \<Rightarrow> b = Inr True \<and> live s' = (live s)(mid := None))"
    and event_law: "ok s \<Longrightarrow> op_add_memory_event ops e s = (u, s') \<Longrightarrow> ok s' \<and> live s' = live s"
    and confirm_law: "ok s \<Longrightarrow> op_confirm_atomic ops = Some f \<Longrightarrow> f now mid uid s = (r', s') \<Longrightarrow>
      ok s' \<and> (\<forall>i. live s' i = live s i \<or> (\<exists>m m'. owned (live s i) uid = Some m \<and> live s' i = Some m' \<and> reviewed m m'))"

lemma same_key_refl [simp]: "same_key m m"
  by (simp add: same_key_def)

lemma owned_Some [simp]: "owned v uid = Some m \<longleftrightarrow> v = Some m \<and> m_user m = uid"
  by (auto simp: owned_def split: option.splits)

lemma owned_None: "owned v uid = None \<longleftrightarrow> (\<forall>m. v = Some m \<longrightarrow> m_user m \<noteq> uid)"
  by (auto simp: owned_def split: option.splits)

lemma set_sort_desc [simp]: "set (sort_desc k xs) = set xs"
  by (simp add: sort_desc_def)

lemma length_sort_desc [simp]: "length (sort_desc k xs) = length xs"
  by (simp add: sort_desc_def)

lemma sorted_sort_desc: "sorted (rev (map k (sort_desc k xs)))"
  by (simp add: sort_desc_def rev_map [symmetric])

subsection \<open>The in-memory repository meets the contract\<close>

definition repo_ok :: "state_repo \<Rightarrow> bool" where
  "repo_ok s \<longleftrightarrow> distinct (map fst (memories s)) \<and> (\<forall>i m. map_of (memories s) i = Some m \<longrightarrow> m_id m = i)"

definition repo_live :: "state_repo \<Rightarrow> memory_map" where
  "repo_live s = map_of (memories s)"

lemma distinct_update [simp]: "distinct (map fst (AList.update k v d)) = distinct (map fst d)"
  by (induction d) (auto simp: dict_keys_update)

lemma distinct_delete [simp]: "distinct (map fst d) \<Longrightarrow> distinct (map fst (AList.delete k d))"
  by (rule distinct_delete)

text \<open>In a dictionary whose keys are the ids of its records, the values have distinct ids.\<close>

lemma keyed_values:
  assumes "distinct (map fst d)" and "\<forall>i m. map_of d i = Some m \<longrightarrow> m_id m = i"
  shows "map m_id (map snd d) = map fst d" and "m \<in> set (map snd d) \<longleftrightarrow> (\<exists>i. map_of d i = Some m)"
proof -
  have "m_id v = k" if "(k, v) \<in> set d" for k v using that assms by (simp add: map_of_is_SomeI)
  then show "map m_id (map snd d) = map fst d" by (auto intro!: map_cong)
  show "m \<in> set (map snd d) \<longleftrightarrow> (\<exists>i. map_of d i = Some m)"
    using assms(1) by (force dest: map_of_SomeD simp: map_of_is_SomeI)
qed

lemma listing_of_values:
  assumes "distinct (map fst d)" and "\<forall>i m. map_of d i = Some m \<longrightarrow> m_id m = i"
  shows "listing now uid statuses g (map_of d)
    (sort_desc m_updated (filter (visible now uid statuses g) (map snd d)))"
proof -
  have "distinct (map m_id (map snd d))" using assms keyed_values by metis
  then have "distinct (map m_id (filter (visible now uid statuses g) (map snd d)))"
    by (rule distinct_map_filter)
  then have "distinct (map m_id (sort_desc m_updated (filter (visible now uid statuses g) (map snd d))))"
    by (simp add: sort_desc_def distinct_map)
  moreover have "set (filter (visible now uid statuses g) (map snd d)) =
      {m. (\<exists>i. map_of d i = Some m) \<and> visible now uid statuses g m}"
    using keyed_values(2) [OF assms] by auto
  ultimately show ?thesis unfolding listing_def by (intro conjI sorted_sort_desc) simp_all
qed

lemma find_key_Some:
  assumes "find (\<lambda>(_, e). P e) d = Some (k, e)" and "distinct (map fst d)"
  shows "map_of d k = Some e" and "P e"
  using assms by (auto simp: find_Some_iff intro!: map_of_is_SomeI) (metis nth_mem)+

lemma find_key_None:
  "find (\<lambda>(_, e). P e) d = None \<Longrightarrow> map_of d i = Some e \<Longrightarrow> \<not> P e"
  by (force simp: find_None_iff dest: map_of_SomeD)

lemma repo_ok_update:
  "repo_ok s \<Longrightarrow> m_id m = k \<Longrightarrow> repo_ok (s\<lparr>memories := AList.update k m (memories s)\<rparr>)"
  by (simp add: repo_ok_def distinct_update)

lemma mem_upsert_effect:
  assumes "repo_ok s" and "mem_upsert_memory now m s = (r, s')"
  shows "repo_ok s' \<and> upserted now m (repo_live s) r (repo_live s')"
proof (cases "find (\<lambda>(_, e). same_key e m) (memories s)")
  case None
  then have r: "r = Inr m" "s' = s\<lparr>memories := AList.update (m_id m) m (memories s)\<rparr>"
    using assms(2) by (simp_all add: mem_upsert_memory_def)
  have "\<forall>i e. map_of (memories s) i = Some e \<longrightarrow> \<not> same_key e m" using find_key_None [OF None] by blast
  then show ?thesis using assms(1) r
    by (auto simp: repo_ok_update upserted_def repo_live_def entered_def fun_eq_iff)
next
  case (Some p)
  obtain k e where p: "p = (k, e)" by (cases p)
  from Some p have found: "find (\<lambda>(_, e). same_key e m) (memories s) = Some (k, e)" by simp
  have d: "distinct (map fst (memories s))" using assms(1) by (simp add: repo_ok_def)
  note ke = find_key_Some [OF found d]
  then have "m_id e = k" using assms(1) by (simp add: repo_ok_def)
  moreover have r: "r = Inr (e\<lparr>m_updated := now\<rparr>)"
      "s' = s\<lparr>memories := AList.update k (e\<lparr>m_updated := now\<rparr>) (memories s)\<rparr>"
    using assms(2) found by (simp_all add: mem_upsert_memory_def Let_def)
  moreover have "repo_live s' = (repo_live s)(k \<mapsto> e\<lparr>m_updated := now\<rparr>)"
    using r by (simp add: repo_live_def fun_eq_iff)
  ultimately show ?thesis using assms(1) ke
    by (auto simp: repo_ok_update upserted_def repo_live_def)
qed

lemma mem_set_effect:
  assumes "repo_ok s" and "mem_set change now mid uid s = (r, s')" and "\<And>m. m_id (change m) = m_id m"
  shows "repo_ok s' \<and> changed change now mid uid (repo_live s) r (repo_live s')"
proof (cases "owned (map_of (memories s) mid) uid")
  case None
  then have "r = Inr None" "s' = s"
    using assms(2) by (auto simp: mem_set_def owned_def split: option.splits if_splits)
  then show ?thesis using assms(1) None by (simp add: changed_def repo_live_def)
next
  case (Some m)
  then have o: "map_of (memories s) mid = Some m" "m_user m = uid" by simp_all
  let ?m = "(change m)\<lparr>m_updated := now\<rparr>"
  have "r = Inr (Some ?m)" "s' = s\<lparr>memories := AList.update mid ?m (memories s)\<rparr>"
    using assms(2) o by (simp_all add: mem_set_def Let_def)
  moreover have "m_id ?m = mid" using assms(1,3) o by (simp add: repo_ok_def)
  ultimately show ?thesis using assms(1) o by (auto simp: repo_ok_update changed_def repo_live_def fun_eq_iff)
qed

lemma mem_delete_effect:
  assumes "repo_ok s" and "mem_delete_memory mid uid s = (b, s')"
  shows "repo_ok s' \<and> (case owned (repo_live s mid) uid of
          None \<Rightarrow> b = Inr False \<and> repo_live s' = repo_live s
        | Some _ \<Rightarrow> b = Inr True \<and> repo_live s' = (repo_live s)(mid := None))"
proof (cases "owned (map_of (memories s) mid) uid")
  case None
  then show ?thesis using assms
    by (auto simp: mem_delete_memory_def mem_get_memory_def bindM_def repo_live_def owned_def split: option.splits if_splits)
next
  case (Some m)
  then have "b = Inr True" "s' = s\<lparr>memories := AList.delete mid (memories s)\<rparr>"
    using assms(2) by (simp_all add: mem_delete_memory_def mem_get_memory_def bindM_def)
  moreover have "distinct (map fst (AList.delete mid (memories s)))"
    using assms(1) by (simp add: repo_ok_def distinct_delete)
  moreover have "repo_live (s\<lparr>memories := AList.delete mid (memories s)\<rparr>) = (repo_live s)(mid := None)"
    by (simp add: repo_live_def fun_eq_iff)
  moreover have "owned (repo_live s mid) uid = Some m" using Some by (simp only: repo_live_def)
  ultimately show ?thesis using assms(1) by (simp add: repo_ok_def del: owned_Some)
qed

lemma mem_get_owned: "mem_get_memory mid uid s = (Inr (owned (repo_live s mid) uid), s)"
  by (simp add: mem_get_memory_def repo_live_def owned_def)

lemma mem_list_listing:
  assumes "repo_ok s"
  shows "\<exists>ms. mem_list_memories now uid statuses g s = (Inr ms, s) \<and> listing now uid statuses g (repo_live s) ms"
  using listing_of_values [of "memories s" now uid statuses g] assms
  by (simp add: mem_list_memories_def repo_ok_def repo_live_def)

interpretation in_memory: memory_contract in_memory_ops repo_live repo_ok
proof unfold_locales
  fix s i m assume "repo_ok s" and "repo_live s i = Some m"
  then show "m_id m = i" by (simp add: repo_ok_def repo_live_def)
next
  fix s now uid statuses g assume "repo_ok s"
  then show "\<exists>ms. op_list_memories in_memory_ops now uid statuses g s = (Inr ms, s) \<and>
      listing now uid statuses g (repo_live s) ms"
    using mem_list_listing by (simp add: in_memory_ops_def)
next
  fix s mid uid assume "repo_ok s"
  then show "op_get_memory in_memory_ops mid uid s = (Inr (owned (repo_live s mid) uid), s)"
    by (simp add: in_memory_ops_def mem_get_owned)
next
  fix s now m r s' assume "repo_ok s" and "op_upsert_memory in_memory_ops now m s = (r, s')"
  then show "repo_ok s' \<and> upserted now m (repo_live s) r (repo_live s')"
    by (intro mem_upsert_effect) (simp_all add: in_memory_ops_def)
next
  fix s now mid uid st r' s' assume "repo_ok s" and "op_set_status in_memory_ops now mid uid st s = (r', s')"
  then show "repo_ok s' \<and> changed (\<lambda>m. m\<lparr>m_status := st\<rparr>) now mid uid (repo_live s) r' (repo_live s')"
    by (intro mem_set_effect) (simp_all add: in_memory_ops_def mem_set_memory_status_def)
next
  fix s now mid uid v r' s' assume "repo_ok s" and "op_set_validity in_memory_ops now mid uid v s = (r', s')"
  then show "repo_ok s' \<and> changed (\<lambda>m. m\<lparr>m_validity := v\<rparr>) now mid uid (repo_live s) r' (repo_live s')"
    by (intro mem_set_effect) (simp_all add: in_memory_ops_def mem_set_memory_validity_def)
next
  fix s mid uid b s' assume "repo_ok s" and "op_delete_memory in_memory_ops mid uid s = (b, s')"
  then show "repo_ok s' \<and> (case owned (repo_live s mid) uid of
          None \<Rightarrow> b = Inr False \<and> repo_live s' = repo_live s
        | Some _ \<Rightarrow> b = Inr True \<and> repo_live s' = (repo_live s)(mid := None))"
    by (intro mem_delete_effect) (simp_all add: in_memory_ops_def)
qed (auto simp: in_memory_ops_def mem_add_memory_event_def repo_ok_def repo_live_def)

end
