(* ===== verification/Memory_Pg.thy ===== *)
theory Memory_Pg
  imports Memory_Store
begin

section \<open>The PostgreSQL repository of memories and conversations\<close>

text \<open>
  \<open>agent-service/app/state/repositories.py\<close>: \<open>PostgresStateRepository\<close> over the tables
  \<open>conversations\<close>, \<open>messages\<close>, \<open>memories\<close> and \<open>memory_events\<close>. Every method is one
  transaction, so an error leaves the tables as they were, and \<open>now()\<close> is its time. The keys of the
  schema are part of the model: the primary keys, the unique key of a user's texts, the partial index
  \<open>uq_memories_one_active_conflict\<close> (one confirmed active memory per user and conflict key, where
  the key is not null), the cascade from a conversation to its messages, and the event's reference to a
  memory, which a delete sets to null. What a column makes of a value (\<open>jsonb\<close>, \<open>REAL\<close>, the text of a
  \<open>timestamptz\<close>) and which records a column constraint refuses are arguments.
\<close>

record pg_types =
  jsonb :: "json \<Rightarrow> json"
  real4 :: "pyfloat \<Rightarrow> pyfloat"
  time_text :: "time \<Rightarrow> string"

record pg_state =
  conversation_rows :: "(string, conversation) dict"
  message_rows :: "(string \<times> nat \<times> message) list"
  memory_rows :: "(string, memory_record) dict"
  event_rows :: "memory_event list"

definition empty_pg_state :: pg_state where
  "empty_pg_state = \<lparr>conversation_rows = [], message_rows = [], memory_rows = [], event_rows = []\<rparr>"

subsection \<open>Memories\<close>

text \<open>The row of a new memory, as \<open>_memory\<close> reads it back.\<close>

definition memory_row :: "pg_types \<Rightarrow> time \<Rightarrow> memory_record \<Rightarrow> memory_record" where
  "memory_row ty now m = m\<lparr>m_created := now, m_updated := now, m_tool_args := map_option (jsonb ty) (m_tool_args m),
     m_embedding := (case m_embedding m of None \<Rightarrow> None | Some xs \<Rightarrow> if xs = [] then None else Some (map (real4 ty) xs)),
     m_metadata := jsonb ty (m_metadata m)\<rparr>"

definition indexed :: "memory_record \<Rightarrow> bool" where
  "indexed m \<longleftrightarrow> m_status m = MemConfirmed \<and> m_validity m = MemActive \<and> m_conflict_key m \<noteq> None"

definition index_ok :: "(string, memory_record) dict \<Rightarrow> bool" where
  "index_ok rows \<longleftrightarrow> distinct (map (\<lambda>m. (m_user m, m_conflict_key m)) (filter indexed (map snd rows)))"

definition pg_upsert_memory ::
  "pg_types \<Rightarrow> (memory_record \<Rightarrow> exn option) \<Rightarrow> time \<Rightarrow> memory_record \<Rightarrow> (pg_state, memory_record) py" where
  "pg_upsert_memory ty column_error now m s =
     (case column_error m of
        Some e \<Rightarrow> (Inl e, s)
      | None \<Rightarrow>
          (case find (\<lambda>(_, e). same_key e m) (memory_rows s) of
             Some (k, e) \<Rightarrow>
               (let e' = e\<lparr>m_updated := now\<rparr> in (Inr e', s\<lparr>memory_rows := AList.update k e' (memory_rows s)\<rparr>))
           | None \<Rightarrow>
               (let m' = memory_row ty now m; rows = AList.update (m_id m) m' (memory_rows s) in
                if map_of (memory_rows s) (m_id m) \<noteq> None \<or> \<not> index_ok rows then (Inl unique_violation, s)
                else (Inr m', s\<lparr>memory_rows := rows\<rparr>))))"

definition pg_get_memory :: "string \<Rightarrow> string \<Rightarrow> (pg_state, memory_record option) py" where
  "pg_get_memory mid uid s = (Inr (owned (map_of (memory_rows s) mid) uid), s)"

text \<open>An empty list of statuses filters nothing here (\<open>if statuses:\<close>).\<close>

definition pg_list_memories ::
  "time \<Rightarrow> string \<Rightarrow> memory_status list option \<Rightarrow> bool \<Rightarrow> (pg_state, memory_record list) py" where
  "pg_list_memories now uid statuses include_global s =
     (let sts = (if statuses = Some [] then None else statuses)
      in (Inr (sort_desc m_updated (filter (visible now uid sts include_global) (map snd (memory_rows s)))), s))"

definition pg_set :: "(memory_record \<Rightarrow> memory_record) \<Rightarrow> time \<Rightarrow> string \<Rightarrow> string \<Rightarrow>
    (pg_state, memory_record option) py" where
  "pg_set change now mid uid s =
     (case owned (map_of (memory_rows s) mid) uid of
        None \<Rightarrow> (Inr None, s)
      | Some m \<Rightarrow>
          (let m' = (change m)\<lparr>m_updated := now\<rparr>; rows = AList.update mid m' (memory_rows s) in
           if index_ok rows then (Inr (Some m'), s\<lparr>memory_rows := rows\<rparr>) else (Inl unique_violation, s)))"

definition pg_set_memory_status ::
  "time \<Rightarrow> string \<Rightarrow> string \<Rightarrow> memory_status \<Rightarrow> (pg_state, memory_record option) py" where
  "pg_set_memory_status now mid uid st = pg_set (\<lambda>m. m\<lparr>m_status := st\<rparr>) now mid uid"

definition pg_set_memory_validity ::
  "time \<Rightarrow> string \<Rightarrow> string \<Rightarrow> memory_validity \<Rightarrow> (pg_state, memory_record option) py" where
  "pg_set_memory_validity now mid uid v = pg_set (\<lambda>m. m\<lparr>m_validity := v\<rparr>) now mid uid"

definition pg_delete_memory :: "string \<Rightarrow> string \<Rightarrow> (pg_state, bool) py" where
  "pg_delete_memory mid uid s =
     (case owned (map_of (memory_rows s) mid) uid of
        None \<Rightarrow> (Inr False, s)
      | Some _ \<Rightarrow> (Inr True, s\<lparr>memory_rows := AList.delete mid (memory_rows s),
          event_rows := map (\<lambda>e. if ev_memory e = Some mid then e\<lparr>ev_memory := None\<rparr> else e) (event_rows s)\<rparr>))"

definition pg_add_memory_event :: "pg_types \<Rightarrow> memory_event \<Rightarrow> (pg_state, unit) py" where
  "pg_add_memory_event ty e s =
     (if (case ev_memory e of None \<Rightarrow> False | Some i \<Rightarrow> map_of (memory_rows s) i = None)
      then (Inl foreign_key_violation, s)
      else (Inr (), s\<lparr>event_rows := event_rows s @ [e\<lparr>ev_details := jsonb ty (ev_details e)\<rparr>]\<rparr>))"

text \<open>\<open>confirm_memory_atomic\<close>. The rows that the first \<open>UPDATE\<close> supersedes, and the row after it.\<close>

definition rival :: "string \<Rightarrow> string \<Rightarrow> string option \<Rightarrow> memory_record \<Rightarrow> bool" where
  "rival mid uid key m \<longleftrightarrow> m_user m = uid \<and> m_conflict_key m = key \<and> m_id m \<noteq> mid \<and>
     m_status m = MemConfirmed \<and> m_validity m = MemActive"

definition superseded :: "time \<Rightarrow> memory_record \<Rightarrow> memory_record" where
  "superseded now m = m\<lparr>m_validity := MemSuperseded, m_valid_to := Some now, m_updated := now\<rparr>"

definition superseded_event :: "pg_types \<Rightarrow> string \<Rightarrow> string \<Rightarrow> string \<Rightarrow> memory_event" where
  "superseded_event ty uid mid other = \<lparr>ev_memory = Some other, ev_user = uid, ev_type = ''superseded'',
     ev_details = jsonb ty (JDict [(''superseded_by'', JStr mid)])\<rparr>"

text \<open>The rows after both updates, the first of which runs only for an active target with a conflict
key (under the lock of that key), and the events in the order of the inserts.\<close>

definition supersedes :: "string \<Rightarrow> string \<Rightarrow> memory_record \<Rightarrow> memory_record \<Rightarrow> bool" where
  "supersedes mid uid target m \<longleftrightarrow> truthy (m_conflict_key target) \<and> m_validity target = MemActive \<and>
     rival mid uid (m_conflict_key target) m"

definition confirmed :: "time \<Rightarrow> memory_record \<Rightarrow> memory_record" where
  "confirmed now m = m\<lparr>m_status := MemConfirmed, m_updated := now\<rparr>"

definition confirmed_rows :: "time \<Rightarrow> string \<Rightarrow> string \<Rightarrow> memory_record \<Rightarrow> (string, memory_record) dict \<Rightarrow>
    (string, memory_record) dict" where
  "confirmed_rows now mid uid target rows = AList.update mid (confirmed now target)
     (map (\<lambda>(k, m). (k, if supersedes mid uid target m then superseded now m else m)) rows)"

definition confirm_events :: "pg_types \<Rightarrow> string \<Rightarrow> string \<Rightarrow> memory_record \<Rightarrow> (string, memory_record) dict \<Rightarrow>
    memory_event list" where
  "confirm_events ty mid uid target rows =
     map (\<lambda>(k, _). superseded_event ty uid mid k) (filter (\<lambda>(_, m). supersedes mid uid target m) rows) @
     [\<lparr>ev_memory = Some mid, ev_user = uid, ev_type = ''confirmed'', ev_details = jsonb ty (JDict [])\<rparr>]"

definition pg_confirm_memory_atomic :: "pg_types \<Rightarrow> time \<Rightarrow> string \<Rightarrow> string \<Rightarrow> (pg_state, memory_record option) py" where
  "pg_confirm_memory_atomic ty now mid uid s =
     (case owned (map_of (memory_rows s) mid) uid of
        None \<Rightarrow> (Inr None, s)
      | Some target \<Rightarrow>
          (let rows = confirmed_rows now mid uid target (memory_rows s) in
           if \<not> index_ok rows then (Inl unique_violation, s)
           else (Inr (Some (confirmed now target)), s\<lparr>memory_rows := rows,
             event_rows := event_rows s @ confirm_events ty mid uid target (memory_rows s)\<rparr>)))"

definition pg_memory_ops :: "pg_types \<Rightarrow> (memory_record \<Rightarrow> exn option) \<Rightarrow> pg_state memory_ops" where
  "pg_memory_ops ty column_error = \<lparr>op_upsert_memory = pg_upsert_memory ty column_error,
     op_get_memory = pg_get_memory, op_list_memories = pg_list_memories,
     op_set_status = pg_set_memory_status, op_set_validity = pg_set_memory_validity,
     op_delete_memory = pg_delete_memory, op_add_memory_event = pg_add_memory_event ty,
     op_confirm_atomic = Some (pg_confirm_memory_atomic ty)\<rparr>"

subsection \<open>Conversations\<close>

definition number_messages :: "pg_types \<Rightarrow> conversation \<Rightarrow> (string \<times> nat \<times> message) list" where
  "number_messages ty c = map (\<lambda>(i, m). (conv_id c, i, m\<lparr>msg_rest := jsonb ty (msg_rest m)\<rparr>))
     (enumerate 0 (conv_messages c))"

definition column_stamp :: "pg_types \<Rightarrow> stamp \<Rightarrow> stamp" where
  "column_stamp ty t = t\<lparr>stamp_text := time_text ty (moment t)\<rparr>"

definition conversation_row :: "pg_types \<Rightarrow> conversation \<Rightarrow> conversation" where
  "conversation_row ty c = c\<lparr>conv_snapshot := jsonb ty (conv_snapshot c), conv_metadata := jsonb ty (conv_metadata c),
     conv_messages := [], conv_created := column_stamp ty (conv_created c), conv_updated := column_stamp ty (conv_updated c)\<rparr>"

definition pg_create_conversation ::
  "pg_types \<Rightarrow> (conversation \<Rightarrow> exn option) \<Rightarrow> conversation \<Rightarrow> (pg_state, unit) py" where
  "pg_create_conversation ty column_error c s =
     (case column_error c of
        Some e \<Rightarrow> (Inl e, s)
      | None \<Rightarrow>
          if map_of (conversation_rows s) (conv_id c) \<noteq> None then (Inl unique_violation, s)
          else (Inr (), s\<lparr>conversation_rows := AList.update (conv_id c) (conversation_row ty c) (conversation_rows s),
                 message_rows := message_rows s @ number_messages ty c\<rparr>))"

definition pg_messages :: "string \<Rightarrow> pg_state \<Rightarrow> message list" where
  "pg_messages cid s = map (\<lambda>row. snd (snd row))
     (sort_key (\<lambda>row. fst (snd row)) (filter (\<lambda>row. fst row = cid) (message_rows s)))"

definition pg_get_conversation :: "string \<Rightarrow> string \<Rightarrow> (pg_state, conversation option) py" where
  "pg_get_conversation cid uid s =
     (Inr (case map_of (conversation_rows s) cid of
        None \<Rightarrow> None
      | Some row \<Rightarrow> if conv_user row = uid then Some (row\<lparr>conv_messages := pg_messages cid s\<rparr>) else None), s)"

definition pg_save_conversation ::
  "pg_types \<Rightarrow> (conversation \<Rightarrow> exn option) \<Rightarrow> conversation \<Rightarrow> (pg_state, unit) py" where
  "pg_save_conversation ty column_error c s =
     (let existing = map_of (conversation_rows s) (conv_id c);
          row = conversation_row ty c;
          row' = (case existing of None \<Rightarrow> row
            | Some old \<Rightarrow> old\<lparr>conv_snapshot := conv_snapshot row, conv_metadata := conv_metadata row,
                conv_updated := conv_updated row\<rparr>) in
      if (case existing of None \<Rightarrow> False | Some old \<Rightarrow> conv_user old \<noteq> conv_user c)
      then (Inl (PermissionError ''conversation not found or belongs to another user''), s)
      else (case column_error c of
          Some e \<Rightarrow> (Inl e, s)
        | None \<Rightarrow> (Inr (), s\<lparr>conversation_rows := AList.update (conv_id c) row' (conversation_rows s),
            message_rows := filter (\<lambda>row. fst row \<noteq> conv_id c) (message_rows s) @ number_messages ty c\<rparr>)))"

definition pg_delete_conversation :: "string \<Rightarrow> string \<Rightarrow> (pg_state, bool) py" where
  "pg_delete_conversation cid uid s =
     (case map_of (conversation_rows s) cid of
        None \<Rightarrow> (Inr False, s)
      | Some row \<Rightarrow>
          if conv_user row \<noteq> uid then (Inr False, s)
          else (Inr True, s\<lparr>conversation_rows := AList.delete cid (conversation_rows s),
                 message_rows := filter (\<lambda>row. fst row \<noteq> cid) (message_rows s)\<rparr>))"

definition pg_list_conversations :: "string \<Rightarrow> int \<Rightarrow> int \<Rightarrow> (pg_state, conversation list) py" where
  "pg_list_conversations uid limit offset s =
     (if limit < 0 then (Inl (External ''InvalidRowCountInLimitClause''), s)
      else if offset < 0 then (Inl (External ''InvalidRowCountInResultOffsetClause''), s)
      else (let rows = take (nat limit) (drop (nat offset) (sort_desc (\<lambda>(_, c). moment (conv_updated c))
                  (filter (\<lambda>(_, c). conv_user c = uid) (conversation_rows s))))
            in (Inr (List.map_filter (\<lambda>(k, _). case pg_get_conversation k uid s of (Inr v, _) \<Rightarrow> v | _ \<Rightarrow> None) rows), s)))"

definition pg_delete_expired :: "time \<Rightarrow> int \<Rightarrow> (pg_state, int) py" where
  "pg_delete_expired now days s =
     (if days < 1 then (Inl (ValueError ''retention_days must be positive''), s)
      else (let old = (\<lambda>c. moment (conv_updated c) < now - days * day);
                gone = map fst (filter (\<lambda>(_, c). old c) (conversation_rows s))
            in (Inr (int (length gone)),
                s\<lparr>conversation_rows := filter (\<lambda>(_, c). \<not> old c) (conversation_rows s),
                  message_rows := filter (\<lambda>row. fst row \<notin> set gone) (message_rows s)\<rparr>)))"

subsection \<open>The memory table meets the contract\<close>

definition pg_live :: "pg_state \<Rightarrow> memory_map" where
  "pg_live s = map_of (memory_rows s)"

definition one_per_key :: "memory_map \<Rightarrow> bool" where
  "one_per_key f \<longleftrightarrow> (\<forall>i j a b. f i = Some a \<longrightarrow> f j = Some b \<longrightarrow> indexed a \<longrightarrow> indexed b \<longrightarrow>
     m_user a = m_user b \<longrightarrow> m_conflict_key a = m_conflict_key b \<longrightarrow> i = j)"

lemma one_per_keyD:
  "one_per_key f \<Longrightarrow> f i = Some a \<Longrightarrow> f j = Some b \<Longrightarrow> indexed a \<Longrightarrow> indexed b \<Longrightarrow>
   m_user a = m_user b \<Longrightarrow> m_conflict_key a = m_conflict_key b \<Longrightarrow> i = j"
  unfolding one_per_key_def by blast

lemma one_per_key_tail: "a \<notin> dom f \<Longrightarrow> one_per_key (f(a \<mapsto> m)) \<longleftrightarrow> one_per_key f \<and>
    (indexed m \<longrightarrow> (\<forall>i b. f i = Some b \<longrightarrow> indexed b \<longrightarrow> \<not> (m_user m = m_user b \<and> m_conflict_key m = m_conflict_key b)))"
proof (intro iffI conjI impI allI)
  assume a: "a \<notin> dom f" and u: "one_per_key (f(a \<mapsto> m))"
  show "one_per_key f" unfolding one_per_key_def
  proof (intro allI impI)
    fix i j b c
    assume h: "f i = Some b" "f j = Some c" "indexed b" "indexed c" "m_user b = m_user c" "m_conflict_key b = m_conflict_key c"
    have "i \<noteq> a" "j \<noteq> a" using a h by auto
    then show "i = j" using one_per_keyD [OF u, of i b j c] h by simp
  qed
  fix i b
  assume b: "indexed m" "f i = Some b" "indexed b"
  then have i: "i \<noteq> a" using a by auto
  show "\<not> (m_user m = m_user b \<and> m_conflict_key m = m_conflict_key b)"
  proof
    assume "m_user m = m_user b \<and> m_conflict_key m = m_conflict_key b"
    then have "i = a" using b i by (intro one_per_keyD [OF u, of i b a m]) simp_all
    then show False using i by simp
  qed
next
  assume "a \<notin> dom f" and h: "one_per_key f \<and>
    (indexed m \<longrightarrow> (\<forall>i b. f i = Some b \<longrightarrow> indexed b \<longrightarrow> \<not> (m_user m = m_user b \<and> m_conflict_key m = m_conflict_key b)))"
  show "one_per_key (f(a \<mapsto> m))" unfolding one_per_key_def
  proof (intro allI impI)
    fix i j b c
    assume i: "(f(a \<mapsto> m)) i = Some b" and j: "(f(a \<mapsto> m)) j = Some c"
      and k: "indexed b" "indexed c" "m_user b = m_user c" "m_conflict_key b = m_conflict_key c"
    show "i = j"
    proof (cases "i = a"; cases "j = a")
      assume "i \<noteq> a" "j \<noteq> a"
      then show ?thesis using one_per_keyD [of f i b j c] h i j k by simp
    next
      assume "i = a" "j \<noteq> a"
      then show ?thesis using h i j k by fastforce
    next
      assume "i \<noteq> a" "j = a"
      then show ?thesis using h i j k by fastforce
    qed simp
  qed
qed

lemma index_ok_iff: "distinct (map fst d) \<Longrightarrow> index_ok d \<longleftrightarrow> one_per_key (map_of d)"
proof (induction d)
  case (Cons p d)
  obtain k m where p: "p = (k, m)" by (cases p)
  have k: "k \<notin> dom (map_of d)" using Cons.prems p by (simp add: dom_map_of_conv_image_fst)
  have d: "distinct (map fst d)" using Cons.prems by simp
  have vals: "set (map snd d) = {b. \<exists>i. map_of d i = Some b}"
    using ran_distinct [OF d] by (simp add: ran_def)
  have "(\<exists>b \<in> set (map snd d). Q b) \<longleftrightarrow> (\<exists>i b. map_of d i = Some b \<and> Q b)" for Q
    unfolding vals by blast
  note ex = this [of "\<lambda>b. indexed b \<and> m_user m = m_user b \<and> m_conflict_key m = m_conflict_key b"]
  have "index_ok (p # d) \<longleftrightarrow> index_ok d \<and> (indexed m \<longrightarrow>
      \<not> (\<exists>b \<in> set (map snd d). indexed b \<and> m_user m = m_user b \<and> m_conflict_key m = m_conflict_key b))"
    unfolding index_ok_def p by (force simp: image_iff)
  also have "\<dots> \<longleftrightarrow> one_per_key (map_of (p # d))"
    unfolding ex using Cons.IH [OF d] one_per_key_tail [OF k, of m] p by auto
  finally show ?case .
qed (simp add: index_ok_def one_per_key_def)

definition pg_mem_ok :: "pg_state \<Rightarrow> bool" where
  "pg_mem_ok s \<longleftrightarrow> distinct (map fst (memory_rows s)) \<and> (\<forall>i m. map_of (memory_rows s) i = Some m \<longrightarrow> m_id m = i) \<and>
     index_ok (memory_rows s)"

lemma pg_mem_okD:
  assumes "pg_mem_ok s"
  shows "distinct (map fst (memory_rows s))" and "map_of (memory_rows s) i = Some m \<Longrightarrow> m_id m = i"
    and "one_per_key (pg_live s)"
  using assms by (auto simp: pg_mem_ok_def index_ok_iff pg_live_def)

lemma pg_live_update: "pg_live (s\<lparr>memory_rows := AList.update k m (memory_rows s)\<rparr>) = (pg_live s)(k \<mapsto> m)"
  by (simp add: pg_live_def fun_eq_iff)

lemma pg_mem_ok_update:
  assumes "pg_mem_ok s" and "m_id m = k" and "index_ok (AList.update k m (memory_rows s))"
  shows "pg_mem_ok (s\<lparr>memory_rows := AList.update k m (memory_rows s)\<rparr>)"
  using assms by (simp add: pg_mem_ok_def distinct_update)

text \<open>Changing nothing that the index reads keeps it.\<close>

lemma index_ok_same:
  assumes "pg_mem_ok s" and "map_of (memory_rows s) k = Some e"
    and "indexed m = indexed e" and "m_user m = m_user e" and "m_conflict_key m = m_conflict_key e"
  shows "index_ok (AList.update k m (memory_rows s))"
proof -
  let ?f = "pg_live s"
  have u: "one_per_key ?f" and e: "?f k = Some e" using pg_mem_okD(3) [OF assms(1)] assms(2) by (simp_all add: pg_live_def)
  have "one_per_key (?f(k \<mapsto> m))" unfolding one_per_key_def
  proof (intro allI impI)
    fix i j a b
    assume i: "(?f(k \<mapsto> m)) i = Some a" and j: "(?f(k \<mapsto> m)) j = Some b"
      and h: "indexed a" "indexed b" "m_user a = m_user b" "m_conflict_key a = m_conflict_key b"
    let ?a = "if i = k then e else a" and ?b = "if j = k then e else b"
    have "?f i = Some ?a" "?f j = Some ?b" "indexed ?a" "indexed ?b"
      "m_user ?a = m_user ?b" "m_conflict_key ?a = m_conflict_key ?b"
      using i j h e assms by (auto split: if_splits)
    then show "i = j" by (rule one_per_keyD [OF u])
  qed
  moreover have "?f(k \<mapsto> m) = map_of (AList.update k m (memory_rows s))" by (simp add: pg_live_def fun_eq_iff)
  ultimately show ?thesis
    using pg_mem_okD(1) [OF assms(1)] by (simp add: index_ok_iff distinct_update)
qed

lemma pg_upsert_effect:
  assumes "pg_mem_ok s" and "pg_upsert_memory ty ce now m s = (r, s')"
  shows "pg_mem_ok s' \<and> upserted now m (pg_live s) r (pg_live s')"
proof (cases "ce m")
  case (Some e)
  then have "r = Inl e" "s' = s" using assms(2) by (simp_all add: pg_upsert_memory_def)
  then show ?thesis using assms(1) by (simp add: upserted_def)
next
  case None
  show ?thesis
  proof (cases "find (\<lambda>(_, e). same_key e m) (memory_rows s)")
    case nf: None
    then have absent: "\<forall>i e. pg_live s i = Some e \<longrightarrow> \<not> same_key e m"
      using find_key_None [OF nf] by (auto simp: pg_live_def)
    let ?m = "memory_row ty now m"
    have "entered m ?m" by (simp add: entered_def memory_row_def)
    moreover have "m_id ?m = m_id m" by (simp add: memory_row_def)
    ultimately show ?thesis using assms None nf absent
      by (auto simp: pg_upsert_memory_def Let_def upserted_def pg_live_update pg_mem_ok_update split: if_splits)
  next
    case (Some p)
    obtain k e where p: "p = (k, e)" by (cases p)
    from Some p have found: "find (\<lambda>(_, e). same_key e m) (memory_rows s) = Some (k, e)" by simp
    note ke = find_key_Some [OF found pg_mem_okD(1) [OF assms(1)]]
    let ?e = "e\<lparr>m_updated := now\<rparr>"
    have r: "r = Inr ?e" "s' = s\<lparr>memory_rows := AList.update k ?e (memory_rows s)\<rparr>"
      using assms(2) None found by (simp_all add: pg_upsert_memory_def Let_def)
    have "pg_mem_ok s'" unfolding r
      by (rule pg_mem_ok_update [OF assms(1)])
        (use ke assms(1) pg_mem_okD(2) in \<open>auto intro!: index_ok_same simp: indexed_def\<close>)
    moreover have "upserted now m (pg_live s) r (pg_live s')"
      using ke by (auto simp: r upserted_def pg_live_update) (auto simp: pg_live_def)
    ultimately show ?thesis by blast
  qed
qed

lemma pg_set_effect:
  assumes "pg_mem_ok s" and "pg_set change now mid uid s = (r, s')" and "\<And>m. m_id (change m) = m_id m"
  shows "pg_mem_ok s' \<and> changed change now mid uid (pg_live s) r (pg_live s')"
proof (cases "owned (map_of (memory_rows s) mid) uid")
  case None
  then have "r = Inr None" "s' = s" using assms(2) by (simp_all add: pg_set_def)
  then show ?thesis using assms(1) None by (simp add: changed_def pg_live_def)
next
  case (Some m)
  let ?m = "(change m)\<lparr>m_updated := now\<rparr>"
  let ?rows = "AList.update mid ?m (memory_rows s)"
  have o: "owned (map_of (memory_rows s) mid) uid = Some m" by (fact Some)
  show ?thesis
  proof (cases "index_ok ?rows")
    case True
    then have r: "r = Inr (Some ?m)" "s' = s\<lparr>memory_rows := ?rows\<rparr>"
      using assms(2) unfolding pg_set_def o by (simp_all add: Let_def)
    moreover have "m_id ?m = mid" using pg_mem_okD(2) [OF assms(1)] o assms(3) by simp
    moreover have "owned (pg_live s mid) uid = Some m" using o by (simp only: pg_live_def)
    ultimately show ?thesis using assms(1) True
      by (auto simp: changed_def pg_live_update pg_mem_ok_update)
  next
    case False
    then have "r = Inl unique_violation" "s' = s"
      using assms(2) unfolding pg_set_def o by (simp_all add: Let_def)
    then show ?thesis using assms(1) by (simp add: changed_def)
  qed
qed

lemma pg_delete_effect:
  assumes "pg_mem_ok s" and "pg_delete_memory mid uid s = (b, s')"
  shows "pg_mem_ok s' \<and> (case owned (pg_live s mid) uid of
          None \<Rightarrow> b = Inr False \<and> pg_live s' = pg_live s
        | Some _ \<Rightarrow> b = Inr True \<and> pg_live s' = (pg_live s)(mid := None))"
proof (cases "owned (pg_live s mid) uid")
  case None
  then show ?thesis using assms by (simp add: pg_delete_memory_def pg_live_def)
next
  case (Some m)
  then have o: "owned (map_of (memory_rows s) mid) uid = Some m" by (simp only: pg_live_def)
  have rows: "memory_rows s' = AList.delete mid (memory_rows s)" and b: "b = Inr True"
    using assms(2) unfolding pg_delete_memory_def o by auto
  have l: "pg_live s' = (pg_live s)(mid := None)" by (simp add: pg_live_def rows fun_eq_iff)
  have d: "distinct (map fst (memory_rows s'))" using pg_mem_okD(1) [OF assms(1)] by (simp add: rows distinct_delete)
  have "one_per_key (pg_live s')" using pg_mem_okD(3) [OF assms(1)] unfolding l one_per_key_def
    by (metis fun_upd_apply option.distinct(1))
  then have "pg_mem_ok s'"
    using d pg_mem_okD(2) [OF assms(1)] l by (auto simp: pg_mem_ok_def index_ok_iff pg_live_def fun_eq_iff)
  then show ?thesis unfolding Some using l b by simp
qed

subsection \<open>The atomic confirmation\<close>

definition settled :: "time \<Rightarrow> string \<Rightarrow> string \<Rightarrow> memory_record \<Rightarrow> memory_map \<Rightarrow> memory_map" where
  "settled now mid uid target f = (\<lambda>i. if i = mid then Some (confirmed now target)
     else map_option (\<lambda>m. if supersedes mid uid target m then superseded now m else m) (f i))"

lemma not_indexed_superseded [simp]: "\<not> indexed (superseded now m)"
  by (simp add: indexed_def superseded_def)

lemma reviewed_superseded: "reviewed m (superseded now m)"
  by (simp add: reviewed_def superseded_def)

lemma reviewed_confirmed: "reviewed m (confirmed now m)"
  by (simp add: reviewed_def confirmed_def)

lemma confirmed_rows_live: "map_of (confirmed_rows now mid uid target rows) = settled now mid uid target (map_of rows)"
  by (rule ext) (simp add: confirmed_rows_def settled_def map_of_map_values)

lemma confirmed_rows_distinct:
  "distinct (map fst rows) \<Longrightarrow> distinct (map fst (confirmed_rows now mid uid target rows))"
  by (simp add: confirmed_rows_def distinct_update comp_def case_prod_unfold)

lemma pg_confirm_effect:
  assumes "pg_mem_ok s" and "pg_confirm_memory_atomic ty now mid uid s = (r, s')"
  shows "pg_mem_ok s' \<and> (\<forall>i. pg_live s' i = pg_live s i \<or>
    (\<exists>m m'. owned (pg_live s i) uid = Some m \<and> pg_live s' i = Some m' \<and> reviewed m m'))"
proof (cases "owned (map_of (memory_rows s) mid) uid")
  case None
  then show ?thesis using assms by (auto simp: pg_confirm_memory_atomic_def)
next
  case (Some target)
  let ?rows = "confirmed_rows now mid uid target (memory_rows s)"
  have o: "map_of (memory_rows s) mid = Some target" "m_user target = uid" using Some by simp_all
  show ?thesis
  proof (cases "index_ok ?rows")
    case False
    then have "s' = s" using assms(2) unfolding pg_confirm_memory_atomic_def Some by (simp add: Let_def)
    then show ?thesis using assms(1) by simp
  next
    case True
    then have rows: "memory_rows s' = ?rows"
      using assms(2) unfolding pg_confirm_memory_atomic_def Some by (auto simp: Let_def)
    have l: "pg_live s' = settled now mid uid target (pg_live s)"
      by (simp add: pg_live_def rows confirmed_rows_live)
    have ids: "m_id m = i" if "pg_live s' i = Some m" for i m
      using that o pg_mem_okD(2) [OF assms(1)] unfolding l settled_def
      by (auto simp: confirmed_def superseded_def pg_live_def split: if_splits)
    have "pg_mem_ok s'" using ids True confirmed_rows_distinct [OF pg_mem_okD(1) [OF assms(1)]]
      by (simp add: pg_mem_ok_def rows) (simp add: pg_live_def rows)
    moreover have "pg_live s' i = pg_live s i \<or>
        (\<exists>m m'. owned (pg_live s i) uid = Some m \<and> pg_live s' i = Some m' \<and> reviewed m m')" for i
    proof (cases "i = mid")
      case True
      have "pg_live s mid = Some target" using o by (simp add: pg_live_def)
      then show ?thesis using True o(2) reviewed_confirmed by (simp add: l settled_def)
    next
      case False
      then show ?thesis using reviewed_superseded
        by (cases "pg_live s i") (auto simp: l settled_def supersedes_def rival_def)
    qed
    ultimately show ?thesis by blast
  qed
qed


text \<open>A key that the code acts on never meets the unique index: the confirmation returns, and the
confirmed memory is the only one of its user and key.\<close>

lemma settled_one_per_key:
  assumes ok: "pg_mem_ok s" and t: "owned (map_of (memory_rows s) mid) uid = Some target"
    and key: "m_conflict_key target \<noteq> Some []"
  shows "one_per_key (settled now mid uid target (pg_live s))"
  unfolding one_per_key_def
proof (intro allI impI)
  fix i j a b
  let ?g = "settled now mid uid target (pg_live s)"
  assume i: "?g i = Some a" and j: "?g j = Some b" and ia: "indexed a" and ib: "indexed b"
    and u: "m_user a = m_user b" and k: "m_conflict_key a = m_conflict_key b"
  have tgt: "m_user target = uid" "m_id target = mid" using t pg_mem_okD(2) [OF ok] by auto
  have other: "pg_live s x = Some y \<and> \<not> supersedes mid uid target y \<and> m_id y = x"
    if h: "?g x = Some y" "x \<noteq> mid" "indexed y" for x y
  proof -
    obtain m where m: "pg_live s x = Some m" and y: "y = (if supersedes mid uid target m then superseded now m else m)"
      using h(1,2) by (auto simp: settled_def)
    have "\<not> supersedes mid uid target m" using h(3) y by auto
    then show ?thesis using m y pg_mem_okD(2) [OF ok, of x m] by (simp add: pg_live_def)
  qed
  have not_both: False if "x \<noteq> mid" "?g x = Some y" "indexed y" "indexed (confirmed now target)"
      "m_user y = m_user target" "m_conflict_key y = m_conflict_key target" for x y
  proof -
    have "truthy (m_conflict_key target)" "m_validity target = MemActive"
      using that(4) key by (auto simp: indexed_def confirmed_def truthy_def)
    then have "supersedes mid uid target y"
      using other [OF that(2,1,3)] that tgt by (auto simp: supersedes_def rival_def indexed_def)
    then show False using other [OF that(2,1,3)] by blast
  qed
  have c: "m_user (confirmed now target) = m_user target" "m_conflict_key (confirmed now target) = m_conflict_key target"
    by (simp_all add: confirmed_def)
  consider "i = mid" "j = mid" | "i = mid" "j \<noteq> mid" | "i \<noteq> mid" "j = mid" | "i \<noteq> mid" "j \<noteq> mid" by blast
  then show "i = j"
  proof cases
    case 2
    then have "a = confirmed now target" using i by (simp add: settled_def)
    then show ?thesis using not_both [OF 2(2) j ib] ia u k c by simp
  next
    case 3
    then have "b = confirmed now target" using j by (simp add: settled_def)
    then show ?thesis using not_both [OF 3(1) i ia] ib u k c by simp
  next
    case 4
    then show ?thesis
      using one_per_keyD [OF pg_mem_okD(3) [OF ok], of i a j b] other [OF i] other [OF j] ia ib u k by blast
  qed simp
qed

lemma pg_confirm_returns:
  assumes ok: "pg_mem_ok s" and t: "owned (map_of (memory_rows s) mid) uid = Some target"
    and key: "m_conflict_key target \<noteq> Some []"
  shows "\<exists>s'. pg_confirm_memory_atomic ty now mid uid s = (Inr (Some (confirmed now target)), s') \<and>
    pg_live s' = settled now mid uid target (pg_live s) \<and> one_per_key (pg_live s')"
proof -
  let ?rows = "confirmed_rows now mid uid target (memory_rows s)"
  have live: "map_of ?rows = settled now mid uid target (pg_live s)"
    by (simp add: confirmed_rows_live pg_live_def)
  have "index_ok ?rows"
    using settled_one_per_key [OF assms, of now] confirmed_rows_distinct [OF pg_mem_okD(1) [OF ok]]
    by (simp add: index_ok_iff live)
  then show ?thesis
    using settled_one_per_key [OF assms, of now]
    unfolding pg_confirm_memory_atomic_def t by (simp add: Let_def pg_live_def live [unfolded pg_live_def])
qed

interpretation pg_memory: memory_contract "pg_memory_ops ty column_error" pg_live pg_mem_ok
proof unfold_locales
  fix s i m assume "pg_mem_ok s" and "pg_live s i = Some m"
  then show "m_id m = i" by (simp add: pg_mem_ok_def pg_live_def)
next
  fix s now uid g and statuses :: "memory_status list option"
  assume "pg_mem_ok s" and "statuses \<noteq> Some []"
  then show "\<exists>ms. op_list_memories (pg_memory_ops ty column_error) now uid statuses g s = (Inr ms, s) \<and>
      listing now uid statuses g (pg_live s) ms"
    using listing_of_values [of "memory_rows s" now uid statuses g]
    by (simp add: pg_memory_ops_def pg_list_memories_def pg_mem_ok_def pg_live_def)
next
  fix s mid uid assume "pg_mem_ok s"
  then show "op_get_memory (pg_memory_ops ty column_error) mid uid s = (Inr (owned (pg_live s mid) uid), s)"
    by (simp add: pg_memory_ops_def pg_get_memory_def pg_live_def)
next
  fix s now m r s' assume "pg_mem_ok s" and "op_upsert_memory (pg_memory_ops ty column_error) now m s = (r, s')"
  then show "pg_mem_ok s' \<and> upserted now m (pg_live s) r (pg_live s')"
    by (intro pg_upsert_effect) (simp_all add: pg_memory_ops_def)
next
  fix s now mid uid st r' s' assume "pg_mem_ok s" and "op_set_status (pg_memory_ops ty column_error) now mid uid st s = (r', s')"
  then show "pg_mem_ok s' \<and> changed (\<lambda>m. m\<lparr>m_status := st\<rparr>) now mid uid (pg_live s) r' (pg_live s')"
    by (intro pg_set_effect) (simp_all add: pg_memory_ops_def pg_set_memory_status_def)
next
  fix s now mid uid v r' s' assume "pg_mem_ok s" and "op_set_validity (pg_memory_ops ty column_error) now mid uid v s = (r', s')"
  then show "pg_mem_ok s' \<and> changed (\<lambda>m. m\<lparr>m_validity := v\<rparr>) now mid uid (pg_live s) r' (pg_live s')"
    by (intro pg_set_effect) (simp_all add: pg_memory_ops_def pg_set_memory_validity_def)
next
  fix s mid uid b s' assume "pg_mem_ok s" and "op_delete_memory (pg_memory_ops ty column_error) mid uid s = (b, s')"
  then show "pg_mem_ok s' \<and> (case owned (pg_live s mid) uid of
          None \<Rightarrow> b = Inr False \<and> pg_live s' = pg_live s
        | Some _ \<Rightarrow> b = Inr True \<and> pg_live s' = (pg_live s)(mid := None))"
    by (intro pg_delete_effect) (simp_all add: pg_memory_ops_def)
next
  fix s e u s' assume "pg_mem_ok s" and "op_add_memory_event (pg_memory_ops ty column_error) e s = (u, s')"
  then show "pg_mem_ok s' \<and> pg_live s' = pg_live s"
    by (auto simp: pg_memory_ops_def pg_add_memory_event_def pg_mem_ok_def pg_live_def split: if_splits)
next
  fix s f now mid uid r' s'
  assume "pg_mem_ok s" and "op_confirm_atomic (pg_memory_ops ty column_error) = Some f" and "f now mid uid s = (r', s')"
  then show "pg_mem_ok s' \<and> (\<forall>i. pg_live s' i = pg_live s i \<or>
      (\<exists>m m'. owned (pg_live s i) uid = Some m \<and> pg_live s' i = Some m' \<and> reviewed m m'))"
    by (intro pg_confirm_effect [where ty = ty]) (auto simp: pg_memory_ops_def)
qed

end
