(* ===== verification/Memory_Service.thy ===== *)
theory Memory_Service
  imports Memory_Pg
begin

section \<open>The memory service\<close>

text \<open>
  \<open>agent-service/app/state/memory_service.py\<close> and its two adapters, \<open>agent_memory.py\<close> and
  \<open>conversation_store.py\<close>. The service works on a repository through \<open>memory_ops\<close>; its lemmas are
  proved once in the locale \<open>memory_contract\<close> and hold for both repositories. The embedder is an
  optional parameter of the class, as in the code, and may raise. Clock readings are arguments in the
  order of the readings (\<open>t 0\<close>, \<open>t 1\<close>, \<open>\<dots>\<close>), as is the fresh identifier of a record.

  The two patterns that recognise \<^emph>\<open>remember\<close> instructions are Chinese phrases, which 8-bit strings do
  not hold: \<open>extract_explicit_candidate\<close> takes the group each of them captured as an argument.
\<close>

subsection \<open>Service state and arguments\<close>

record memory_service =
  ms_embedder :: "(string \<Rightarrow> exn + pyfloat list) option"
  ms_max_active :: int
  ms_retention_days :: int

definition default_service :: memory_service where
  "default_service = \<lparr>ms_embedder = None, ms_max_active = 500, ms_retention_days = 90\<rparr>"

text \<open>The keyword arguments of \<open>create_candidate\<close>.\<close>

record candidate_args =
  ca_type :: memory_type
  ca_source :: string
  ca_tool_name :: "string option"
  ca_tool_args :: "json option"
  ca_success :: "bool option"
  ca_metadata :: "json option"
  ca_scope :: memory_scope
  ca_validity :: memory_validity
  ca_source_hash :: "string option"
  ca_conflict_key :: "string option"
  ca_valid_from :: "time option"
  ca_valid_to :: "time option"

definition default_args :: candidate_args where
  "default_args = \<lparr>ca_type = USER_PREFERENCE, ca_source = ''explicit_instruction'', ca_tool_name = None,
     ca_tool_args = None, ca_success = None, ca_metadata = None, ca_scope = USER_SCOPE, ca_validity = MemActive,
     ca_source_hash = None, ca_conflict_key = None, ca_valid_from = None, ca_valid_to = None\<rparr>"

definition embedding_of :: "memory_service \<Rightarrow> string \<Rightarrow> exn + pyfloat list option" where
  "embedding_of svc text = (case ms_embedder svc of
     None \<Rightarrow> Inr None
   | Some f \<Rightarrow> (case f text of Inl e \<Rightarrow> Inl e | Inr v \<Rightarrow> Inr (Some v)))"

definition memory_event_of :: "string \<Rightarrow> string \<Rightarrow> string \<Rightarrow> json \<Rightarrow> memory_event" where
  "memory_event_of mid uid kind details =
     \<lparr>ev_memory = Some mid, ev_user = uid, ev_type = kind, ev_details = details\<rparr>"

definition new_memory ::
  "memory_service \<Rightarrow> (nat \<Rightarrow> time) \<Rightarrow> string \<Rightarrow> string \<Rightarrow> string \<Rightarrow> candidate_args \<Rightarrow> pyfloat list option \<Rightarrow> memory_record" where
  "new_memory svc t fresh uid clean a emb = \<lparr>m_id = fresh, m_user = uid, m_type = ca_type a, m_status = MemCandidate,
     m_content = clean, m_normalized = normalize_memory_content clean, m_source = ca_source a, m_scope = ca_scope a,
     m_created = t 2, m_updated = t 3, m_tool_name = ca_tool_name a,
     m_tool_args = map_option sanitize_value (ca_tool_args a), m_success = ca_success a, m_embedding = emb,
     m_metadata = sanitize_value (case ca_metadata a of None \<Rightarrow> JDict [] | Some x \<Rightarrow> x),
     m_expires = Some (t 1 + ms_retention_days svc * day), m_validity = ca_validity a,
     m_source_hash = Some (if truthy (ca_source_hash a) then the (ca_source_hash a) else sha256_hex clean),
     m_conflict_key = ca_conflict_key a, m_valid_from = ca_valid_from a, m_valid_to = ca_valid_to a\<rparr>"

definition active_count :: "memory_record list \<Rightarrow> nat" where
  "active_count ms = length (filter (\<lambda>m. m_status m \<noteq> MemRejected) ms)"

definition create_candidate ::
  "'s memory_ops \<Rightarrow> memory_service \<Rightarrow> (nat \<Rightarrow> time) \<Rightarrow> string \<Rightarrow> string \<Rightarrow> string \<Rightarrow> candidate_args \<Rightarrow>
   ('s, memory_record) py" where
  "create_candidate ops svc t fresh uid text a =
     (let clean = sanitize_memory_content text in
      if clean = [] then raise (ValueError ''memory content is empty after sanitization'')
      else bindM (op_list_memories ops (t 0) uid None False) (\<lambda>existing.
        let duplicate = find (\<lambda>m. m_type m = ca_type a \<and> m_normalized m = normalize_memory_content clean) existing in
        if duplicate = None \<and> ms_max_active svc \<le> int (active_count existing)
        then raise (ValueError ''active memory limit reached for user'')
        else (case embedding_of svc clean of
            Inl e \<Rightarrow> raise e
          | Inr emb \<Rightarrow>
              bindM (op_upsert_memory ops (t 4) (new_memory svc t fresh uid clean a emb)) (\<lambda>stored.
                thenM (op_add_memory_event ops (memory_event_of (m_id stored) uid ''created''
                         (JDict [(''source'', JStr (ca_source a))])))
                  (ret stored)))))"

definition extract_explicit_candidate ::
  "'s memory_ops \<Rightarrow> memory_service \<Rightarrow> (nat \<Rightarrow> time) \<Rightarrow> string \<Rightarrow> string \<Rightarrow> string option \<Rightarrow> string option \<Rightarrow> bool \<Rightarrow>
   ('s, memory_record option) py" where
  "extract_explicit_candidate ops svc t fresh uid global_match explicit_match allow_global =
     (case global_match of
        Some text \<Rightarrow>
          if \<not> allow_global then raise (PermissionError ''only admins can create global memory candidates'')
          else bindM (create_candidate ops svc t fresh uid text
                 (default_args\<lparr>ca_type := BUSINESS_TERM, ca_scope := GLOBAL_SCOPE\<rparr>)) (\<lambda>m. ret (Some m))
      | None \<Rightarrow>
          (case explicit_match of
             None \<Rightarrow> ret None
           | Some text \<Rightarrow> bindM (create_candidate ops svc t fresh uid text default_args) (\<lambda>m. ret (Some m))))"

subsection \<open>Review\<close>

text \<open>The loop that supersedes the other memories of a key; the \<open>i\<close>-th of them reads the clock at \<open>t i\<close>.\<close>

fun supersede_others ::
  "'s memory_ops \<Rightarrow> (nat \<Rightarrow> time) \<Rightarrow> memory_record \<Rightarrow> memory_record list \<Rightarrow> ('s, unit) py" where
  "supersede_others ops t m [] = ret ()"
| "supersede_others ops t m (x # xs) =
     thenM (whenM (m_id x \<noteq> m_id m \<and> m_conflict_key x = m_conflict_key m \<and> m_validity x = MemActive)
         (thenM (bindM (op_set_validity ops (t 0) (m_id x) (m_user x) MemSuperseded) (\<lambda>_. ret ()))
            (op_add_memory_event ops (memory_event_of (m_id x) (m_user x) ''superseded''
               (JDict [(''superseded_by'', JStr (m_id m))])))))
       (supersede_others ops (\<lambda>i. t (Suc i)) m xs)"

definition confirm :: "'s memory_ops \<Rightarrow> (nat \<Rightarrow> time) \<Rightarrow> string \<Rightarrow> string \<Rightarrow> ('s, memory_record option) py" where
  "confirm ops t uid mid =
     (case op_confirm_atomic ops of
        Some atomic \<Rightarrow> atomic (t 0) mid uid
      | None \<Rightarrow>
          bindM (op_set_status ops (t 0) mid uid MemConfirmed) (\<lambda>found.
            case found of
              None \<Rightarrow> ret None
            | Some m \<Rightarrow>
                thenM (op_add_memory_event ops (memory_event_of (m_id m) uid ''confirmed'' (JDict [])))
               (thenM (whenM (m_validity m = MemActive \<and> truthy (m_conflict_key m))
                    (bindM (op_list_memories ops (t 1) uid (Some [MemConfirmed]) False)
                       (supersede_others ops (\<lambda>i. t (i + 2)) m)))
                  (ret (Some m)))))"

definition reject :: "'s memory_ops \<Rightarrow> (nat \<Rightarrow> time) \<Rightarrow> string \<Rightarrow> string \<Rightarrow> ('s, memory_record option) py" where
  "reject ops t uid mid =
     bindM (op_set_status ops (t 0) mid uid MemRejected) (\<lambda>found.
       case found of
         None \<Rightarrow> ret None
       | Some m \<Rightarrow> thenM (op_add_memory_event ops (memory_event_of (m_id m) uid ''rejected'' (JDict []))) (ret (Some m)))"

definition delete_memory :: "'s memory_ops \<Rightarrow> string \<Rightarrow> string \<Rightarrow> ('s, bool) py" where
  "delete_memory ops uid mid =
     bindM (op_get_memory ops mid uid) (\<lambda>found.
       case found of
         None \<Rightarrow> ret False
       | Some m \<Rightarrow> thenM (op_add_memory_event ops (memory_event_of (m_id m) uid ''deleted'' (JDict [])))
           (op_delete_memory ops mid uid))"

text \<open>What may be recalled at a moment.\<close>

definition current :: "time \<Rightarrow> memory_record \<Rightarrow> bool" where
  "current now m \<longleftrightarrow> m_validity m = MemActive \<and>
     (case m_valid_from m of None \<Rightarrow> True | Some x \<Rightarrow> x \<le> now) \<and>
     (case m_valid_to m of None \<Rightarrow> True | Some x \<Rightarrow> now < x)"

definition list_for_user :: "'s memory_ops \<Rightarrow> (nat \<Rightarrow> time) \<Rightarrow> string \<Rightarrow> bool \<Rightarrow> ('s, memory_record list) py" where
  "list_for_user ops t uid confirmed_only =
     bindM (op_list_memories ops (t 0) uid (if confirmed_only then Some [MemConfirmed] else None) False) (\<lambda>ms.
       ret (if \<not> confirmed_only then ms else filter (current (t 1)) ms))"

subsection \<open>Search\<close>

text \<open>A candidate of the search with its two scores; \<open>t i\<close> is the reading for the \<open>i\<close>-th memory.\<close>

definition eligible :: "memory_type option \<Rightarrow> string option \<Rightarrow> time \<Rightarrow> memory_record \<Rightarrow> bool" where
  "eligible ty tool now m \<longleftrightarrow> current now m \<and> (case ty of None \<Rightarrow> True | Some x \<Rightarrow> m_type m = x) \<and>
     (truthy tool \<longrightarrow> m_tool_name m = tool)"

type_synonym scored = "memory_record \<times> pyfloat \<times> pyfloat"

definition score_candidates ::
  "(nat \<Rightarrow> time) \<Rightarrow> string \<Rightarrow> pyfloat list option \<Rightarrow> memory_type option \<Rightarrow> string option \<Rightarrow> memory_record list \<Rightarrow> scored list" where
  "score_candidates t clean emb ty tool ms =
     map (\<lambda>(_, m). (m, keyword_similarity clean (m_content m), cosine emb (m_embedding m)))
       (filter (\<lambda>(i, m). eligible ty tool (t i) m) (enumerate 0 ms))"

text \<open>The two rankings: dictionaries from the id to the position, from 1.\<close>

definition rank_by :: "(scored \<Rightarrow> 'b::linorder) \<Rightarrow> scored list \<Rightarrow> (string, nat) dict" where
  "rank_by key cs = foldl (\<lambda>d (i, m, _). AList.update (m_id m) i d) [] (enumerate 1 (sort_desc key cs))"

definition keyword_rank :: "scored list \<Rightarrow> (string, nat) dict" where
  "keyword_rank = rank_by (\<lambda>(m, k, _). (k, m_updated m))"

definition vector_rank :: "pyfloat list option \<Rightarrow> scored list \<Rightarrow> (string, nat) dict" where
  "vector_rank emb cs = (if emb = None then [] else rank_by (\<lambda>(m, _, v). (v, m_updated m)) cs)"

definition similarity :: "pyfloat \<Rightarrow> pyfloat \<Rightarrow> pyfloat" where
  "similarity k v = max (max k v) (if v \<noteq> 0 then fdiv (fadd k v) 2 else k)"

text \<open>Reciprocal rank fusion; \<open>keyword_rank[id]\<close> raises when there is no rank.\<close>

fun fuse_ranks :: "pyfloat \<Rightarrow> (string, nat) dict \<Rightarrow> (string, nat) dict \<Rightarrow> scored list \<Rightarrow>
    exn + (pyfloat \<times> pyfloat \<times> memory_record) list" where
  "fuse_ranks threshold kr vr [] = Inr []"
| "fuse_ranks threshold kr vr ((m, k, v) # cs) =
     (if similarity k v < threshold then fuse_ranks threshold kr vr cs
      else (case map_of kr (m_id m) of
          None \<Rightarrow> Inl (KeyError (m_id m))
        | Some r \<Rightarrow>
            (let rrf = fdiv 1 (of_nat (60 + r));
                 rrf' = (case map_of vr (m_id m) of None \<Rightarrow> rrf | Some r' \<Rightarrow> fadd rrf (fdiv 1 (of_nat (60 + r'))))
             in (case fuse_ranks threshold kr vr cs of
                   Inl e \<Rightarrow> Inl e
                 | Inr xs \<Rightarrow> Inr ((rrf', similarity k v, m) # xs)))))"

definition rank_results ::
  "int \<Rightarrow> pyfloat \<Rightarrow> pyfloat list option \<Rightarrow> scored list \<Rightarrow> exn + (pyfloat \<times> memory_record) list" where
  "rank_results limit threshold emb cs =
     (case fuse_ranks threshold (keyword_rank cs) (vector_rank emb cs) cs of
        Inl e \<Rightarrow> Inl e
      | Inr ranked \<Rightarrow> Inr (map snd
          (take (nat (max 0 limit)) (sort_desc (\<lambda>(r, s, m). (r, s, m_updated m)) ranked))))"

definition search_confirmed ::
  "'s memory_ops \<Rightarrow> memory_service \<Rightarrow> (nat \<Rightarrow> time) \<Rightarrow> string \<Rightarrow> string \<Rightarrow> int \<Rightarrow> pyfloat \<Rightarrow> memory_type option \<Rightarrow>
   string option \<Rightarrow> ('s, (pyfloat \<times> memory_record) list) py" where
  "search_confirmed ops svc t uid query limit threshold ty tool =
     (let clean = sanitize_memory_content query in
      case embedding_of svc clean of
        Inl e \<Rightarrow> raise e
      | Inr emb \<Rightarrow>
          bindM (op_list_memories ops (t 0) uid (Some [MemConfirmed]) True) (\<lambda>ms.
            case rank_results limit threshold emb (score_candidates (\<lambda>i. t (Suc i)) clean emb ty tool ms) of
              Inl e \<Rightarrow> raise e
            | Inr found \<Rightarrow> ret found))"

definition create_tool_candidate ::
  "'s memory_ops \<Rightarrow> memory_service \<Rightarrow> (nat \<Rightarrow> time) \<Rightarrow> string \<Rightarrow> string \<Rightarrow> string \<Rightarrow> string \<Rightarrow> json \<Rightarrow> bool \<Rightarrow>
   json option \<Rightarrow> ('s, memory_record) py" where
  "create_tool_candidate ops svc t fresh uid question tool args success metadata =
     create_candidate ops svc t fresh uid (sanitize_memory_content question)
       (default_args\<lparr>ca_type := TOOL_PATTERN, ca_source := ''tool_usage'', ca_tool_name := Some tool,
          ca_tool_args := Some args, ca_success := Some success, ca_metadata := metadata\<rparr>)"

subsection \<open>The adapter for agent memory\<close>

record text_memory =
  tx_id :: string
  tx_content :: string
  tx_timestamp :: string

record tool_memory =
  tl_id :: string
  tl_question :: string
  tl_tool :: string
  tl_args :: json
  tl_timestamp :: string
  tl_success :: bool
  tl_metadata :: json

text \<open>\<open>_user_id\<close>, of an optional user id; \<open>isofmt\<close> is \<open>datetime.isoformat\<close>.\<close>

definition context_user :: "string option \<Rightarrow> exn + string" where
  "context_user ctx = (case ctx of
     None \<Rightarrow> Inl (ValueError ''memory operation requires an authenticated user'')
   | Some u \<Rightarrow> if u = [] then Inl (ValueError ''memory operation requires an authenticated user'') else Inr u)"

definition with_user :: "string option \<Rightarrow> (string \<Rightarrow> ('s, 'a) py) \<Rightarrow> ('s, 'a) py" where
  "with_user ctx f = (case context_user ctx of Inl e \<Rightarrow> raise e | Inr u \<Rightarrow> f u)"

definition to_text :: "(time \<Rightarrow> string) \<Rightarrow> memory_record \<Rightarrow> text_memory" where
  "to_text isofmt m = \<lparr>tx_id = m_id m, tx_content = m_content m, tx_timestamp = isofmt (m_created m)\<rparr>"

definition to_tool :: "(time \<Rightarrow> string) \<Rightarrow> memory_record \<Rightarrow> tool_memory" where
  "to_tool isofmt m = \<lparr>tl_id = m_id m, tl_question = m_content m,
     tl_tool = (case m_tool_name m of None \<Rightarrow> [] | Some x \<Rightarrow> x),
     tl_args = (case m_tool_args m of None \<Rightarrow> JDict [] | Some x \<Rightarrow> x), tl_timestamp = isofmt (m_created m),
     tl_success = (case m_success m of None \<Rightarrow> True | Some b \<Rightarrow> b), tl_metadata = m_metadata m\<rparr>"

definition save_tool_usage ::
  "'s memory_ops \<Rightarrow> memory_service \<Rightarrow> (nat \<Rightarrow> time) \<Rightarrow> string \<Rightarrow> string option \<Rightarrow> string \<Rightarrow> string \<Rightarrow> json \<Rightarrow> bool \<Rightarrow>
   json option \<Rightarrow> ('s, unit) py" where
  "save_tool_usage ops svc t fresh ctx question tool args success metadata = with_user ctx (\<lambda>uid.
     bindM (create_tool_candidate ops svc t fresh uid question tool args success metadata) (\<lambda>_. ret ()))"

definition save_text_memory ::
  "'s memory_ops \<Rightarrow> memory_service \<Rightarrow> (time \<Rightarrow> string) \<Rightarrow> (nat \<Rightarrow> time) \<Rightarrow> string \<Rightarrow> string option \<Rightarrow> string \<Rightarrow>
   ('s, text_memory) py" where
  "save_text_memory ops svc isofmt t fresh ctx text = with_user ctx (\<lambda>uid.
     bindM (create_candidate ops svc t fresh uid text default_args) (\<lambda>m. ret (to_text isofmt m)))"

definition search_similar_usage ::
  "'s memory_ops \<Rightarrow> memory_service \<Rightarrow> (time \<Rightarrow> string) \<Rightarrow> (nat \<Rightarrow> time) \<Rightarrow> string option \<Rightarrow> string \<Rightarrow> int \<Rightarrow> pyfloat \<Rightarrow>
   string option \<Rightarrow> ('s, (tool_memory \<times> pyfloat \<times> nat) list) py" where
  "search_similar_usage ops svc isofmt t ctx question limit threshold tool = with_user ctx (\<lambda>uid.
     bindM (search_confirmed ops svc t uid question limit threshold (Some TOOL_PATTERN) tool) (\<lambda>found.
       ret (map (\<lambda>(i, s, m). (to_tool isofmt m, s, i)) (enumerate 1 found))))"

definition search_text_memories ::
  "'s memory_ops \<Rightarrow> memory_service \<Rightarrow> (time \<Rightarrow> string) \<Rightarrow> (nat \<Rightarrow> time) \<Rightarrow> string option \<Rightarrow> string \<Rightarrow> int \<Rightarrow> pyfloat \<Rightarrow>
   ('s, (text_memory \<times> pyfloat \<times> nat) list) py" where
  "search_text_memories ops svc isofmt t ctx query limit threshold = with_user ctx (\<lambda>uid.
     bindM (search_confirmed ops svc t uid query (max limit 500) threshold None None) (\<lambda>found.
       ret (map (\<lambda>(i, s, m). (to_text isofmt m, s, i))
         (enumerate 1 (py_slice 0 limit (filter (\<lambda>(_, m). m_type m \<noteq> TOOL_PATTERN) found))))))"

definition get_recent_memories ::
  "'s memory_ops \<Rightarrow> (time \<Rightarrow> string) \<Rightarrow> (nat \<Rightarrow> time) \<Rightarrow> string option \<Rightarrow> int \<Rightarrow> ('s, tool_memory list) py" where
  "get_recent_memories ops isofmt t ctx limit = with_user ctx (\<lambda>uid.
     bindM (list_for_user ops t uid True) (\<lambda>ms.
       ret (py_slice 0 limit (map (to_tool isofmt) (filter (\<lambda>m. m_type m = TOOL_PATTERN) ms)))))"

definition get_recent_text_memories ::
  "'s memory_ops \<Rightarrow> (time \<Rightarrow> string) \<Rightarrow> (nat \<Rightarrow> time) \<Rightarrow> string option \<Rightarrow> int \<Rightarrow> ('s, text_memory list) py" where
  "get_recent_text_memories ops isofmt t ctx limit = with_user ctx (\<lambda>uid.
     bindM (list_for_user ops t uid True) (\<lambda>ms.
       ret (py_slice 0 limit (map (to_text isofmt) (filter (\<lambda>m. m_type m \<noteq> TOOL_PATTERN) ms)))))"

definition delete_by_id :: "'s memory_ops \<Rightarrow> string option \<Rightarrow> string \<Rightarrow> ('s, bool) py" where
  "delete_by_id ops ctx mid = with_user ctx (\<lambda>uid. delete_memory ops uid mid)"

text \<open>\<open>clear_memories\<close>; timestamps are compared as texts.\<close>

fun clear_loop :: "'s memory_ops \<Rightarrow> (time \<Rightarrow> string) \<Rightarrow> string \<Rightarrow> string option \<Rightarrow> string option \<Rightarrow> memory_record list \<Rightarrow>
    int \<Rightarrow> ('s, int) py" where
  "clear_loop ops isofmt uid tool before [] removed = ret removed"
| "clear_loop ops isofmt uid tool before (m # ms) removed =
     (if truthy tool \<and> m_tool_name m \<noteq> tool \<or> truthy before \<and> the before \<le> isofmt (m_created m)
      then clear_loop ops isofmt uid tool before ms removed
      else bindM (delete_memory ops uid (m_id m)) (\<lambda>b.
             clear_loop ops isofmt uid tool before ms (removed + (if b then 1 else 0))))"

definition clear_memories ::
  "'s memory_ops \<Rightarrow> (time \<Rightarrow> string) \<Rightarrow> (nat \<Rightarrow> time) \<Rightarrow> string option \<Rightarrow> string option \<Rightarrow> string option \<Rightarrow> ('s, int) py" where
  "clear_memories ops isofmt t ctx tool before = with_user ctx (\<lambda>uid.
     bindM (list_for_user ops t uid False) (\<lambda>ms. clear_loop ops isofmt uid tool before ms 0))"

subsection \<open>The adapter for conversations\<close>

text \<open>\<open>conversation_store.py\<close>. The conversation class is vanna's: its new conversation and its
validation of a payload are arguments.\<close>

record 's conversation_ops =
  op_create_conversation :: "conversation \<Rightarrow> ('s, unit) py"
  op_get_conversation :: "string \<Rightarrow> string \<Rightarrow> ('s, conversation option) py"
  op_save_conversation :: "conversation \<Rightarrow> ('s, unit) py"
  op_delete_conversation :: "string \<Rightarrow> string \<Rightarrow> ('s, bool) py"
  op_list_conversations :: "string \<Rightarrow> int \<Rightarrow> int \<Rightarrow> ('s, conversation list) py"

definition in_memory_conversations :: "state_repo conversation_ops" where
  "in_memory_conversations = \<lparr>op_create_conversation = mem_create_conversation,
     op_get_conversation = mem_get_conversation, op_save_conversation = mem_save_conversation,
     op_delete_conversation = mem_delete_conversation, op_list_conversations = mem_list_conversations\<rparr>"

definition pg_conversations :: "pg_types \<Rightarrow> (conversation \<Rightarrow> exn option) \<Rightarrow> pg_state conversation_ops" where
  "pg_conversations ty ce = \<lparr>op_create_conversation = pg_create_conversation ty ce,
     op_get_conversation = pg_get_conversation, op_save_conversation = pg_save_conversation ty ce,
     op_delete_conversation = pg_delete_conversation, op_list_conversations = pg_list_conversations\<rparr>"

definition store_create ::
  "'s conversation_ops \<Rightarrow> (string \<Rightarrow> string \<Rightarrow> string \<Rightarrow> conversation) \<Rightarrow> string \<Rightarrow> string \<Rightarrow> string \<Rightarrow> ('s, conversation) py" where
  "store_create ops new_conversation cid uid initial =
     (let c = new_conversation cid uid initial in thenM (op_create_conversation ops c) (ret c))"

definition validated :: "(conversation \<Rightarrow> exn + 'c) \<Rightarrow> conversation \<Rightarrow> ('s, 'c) py" where
  "validated validate c = (case validate c of Inl e \<Rightarrow> raise e | Inr x \<Rightarrow> ret x)"

definition store_get ::
  "'s conversation_ops \<Rightarrow> (conversation \<Rightarrow> exn + 'c) \<Rightarrow> string \<Rightarrow> string \<Rightarrow> ('s, 'c option) py" where
  "store_get ops validate cid uid =
     bindM (op_get_conversation ops cid uid) (\<lambda>found. case found of
       None \<Rightarrow> ret None
     | Some c \<Rightarrow> bindM (validated validate c) (\<lambda>x. ret (Some x)))"

definition store_update :: "'s conversation_ops \<Rightarrow> conversation \<Rightarrow> ('s, unit) py" where
  "store_update ops c = op_save_conversation ops c"

definition store_delete :: "'s conversation_ops \<Rightarrow> string \<Rightarrow> string \<Rightarrow> ('s, bool) py" where
  "store_delete ops cid uid = op_delete_conversation ops cid uid"

fun validate_all :: "(conversation \<Rightarrow> exn + 'c) \<Rightarrow> conversation list \<Rightarrow> ('s, 'c list) py" where
  "validate_all validate [] = ret []"
| "validate_all validate (c # cs) =
     bindM (validated validate c) (\<lambda>x. bindM (validate_all validate cs) (\<lambda>xs. ret (x # xs)))"

definition store_list ::
  "'s conversation_ops \<Rightarrow> (conversation \<Rightarrow> exn + 'c) \<Rightarrow> string \<Rightarrow> int \<Rightarrow> int \<Rightarrow> ('s, 'c list) py" where
  "store_list ops validate uid limit offset =
     bindM (op_list_conversations ops uid (max 0 limit) (max 0 offset)) (validate_all validate)"

text \<open>The first user message whose digest is the given one.\<close>

definition find_instruction_by_hash ::
  "'s conversation_ops \<Rightarrow> string \<Rightarrow> string \<Rightarrow> string \<Rightarrow> ('s, string option) py" where
  "find_instruction_by_hash ops cid uid digest =
     bindM (op_get_conversation ops cid uid) (\<lambda>found. case found of
       None \<Rightarrow> ret None
     | Some c \<Rightarrow> ret (map_option msg_content
         (find (\<lambda>m. msg_role m = ''user'' \<and> sha256_hex (msg_content m) = digest) (conv_messages c))))"

subsection \<open>What the service does to the memories\<close>

text \<open>
  \<open>tame uid f f'\<close>: from \<open>f\<close> to \<open>f'\<close> only memories of the user \<open>uid\<close> changed, appeared or went, and a
  text that appeared is free of mobile numbers.
\<close>

definition redacted :: "string \<Rightarrow> bool" where
  "redacted x \<longleftrightarrow> list_all (\<lambda>d. \<not> mobile d) (runs is_digit x)"

definition tame :: "string \<Rightarrow> memory_map \<Rightarrow> memory_map \<Rightarrow> bool" where
  "tame uid f f' \<longleftrightarrow> (\<forall>i. f' i = f i \<or> (\<forall>m. f i = Some m \<longrightarrow> m_user m = uid) \<and>
     (\<forall>m'. f' i = Some m' \<longrightarrow> m_user m' = uid \<and>
        (redacted (m_content m') \<or> (\<exists>m. f i = Some m \<and> m_content m = m_content m'))))"

lemma tame_refl [simp]: "tame uid f f"
  by (simp add: tame_def)

lemma tame_trans:
  assumes "tame uid f g" and "tame uid g h"
  shows "tame uid f h"
  unfolding tame_def
proof
  fix i
  consider "g i = f i" | "h i = g i" | "g i \<noteq> f i" "h i \<noteq> g i" by blast
  then show "h i = f i \<or> (\<forall>m. f i = Some m \<longrightarrow> m_user m = uid) \<and>
     (\<forall>m'. h i = Some m' \<longrightarrow> m_user m' = uid \<and>
        (redacted (m_content m') \<or> (\<exists>m. f i = Some m \<and> m_content m = m_content m')))"
  proof cases
    case 1
    then show ?thesis using assms(2) unfolding tame_def by metis
  next
    case 2
    then show ?thesis using assms(1) unfolding tame_def by metis
  next
    case 3
    then have f: "\<forall>m. f i = Some m \<longrightarrow> m_user m = uid" using assms(1) unfolding tame_def by blast
    have g: "\<And>m. g i = Some m \<Longrightarrow> redacted (m_content m) \<or> (\<exists>x. f i = Some x \<and> m_content x = m_content m)"
      using 3 assms(1) unfolding tame_def by blast
    have h: "\<And>m. h i = Some m \<Longrightarrow> m_user m = uid \<and> (redacted (m_content m) \<or> (\<exists>x. g i = Some x \<and> m_content x = m_content m))"
      using 3 assms(2) unfolding tame_def by blast
    show ?thesis using f g h by metis
  qed
qed

lemma tame_other: "tame uid f f' \<Longrightarrow> f i = Some m \<Longrightarrow> m_user m \<noteq> uid \<Longrightarrow> f' i = Some m"
  unfolding tame_def by metis

lemma tame_redacted:
  assumes "tame uid f f'" and "\<And>i m. f i = Some m \<Longrightarrow> redacted (m_content m)" and "f' i = Some m"
  shows "redacted (m_content m)"
  using assms unfolding tame_def by metis

lemma tame_changed:
  assumes "changed g now mid uid f r f'" and "\<And>m. m_user (g m) = m_user m \<and> m_content (g m) = m_content m"
  shows "tame uid f f'"
  using assms by (auto simp: changed_def tame_def owned_def split: sum.splits option.splits if_splits)

lemma tame_upserted:
  assumes "upserted now m f r f'" and "m_user m = uid" and "redacted (m_content m)" and "f (m_id m) = None"
  shows "tame uid f f'"
proof (cases r)
  case (Inl e)
  then show ?thesis using assms(1) by (simp add: upserted_def)
next
  case (Inr m')
  with assms(1) consider
    i e where "f i = Some e" "same_key e m" "m' = e\<lparr>m_updated := now\<rparr>" "f' = f(i \<mapsto> m')"
    | "entered m m'" "f' = f(m_id m \<mapsto> m')"
    by (auto simp: upserted_def)
  then show ?thesis
  proof cases
    case 1
    then show ?thesis using assms(2) by (simp add: tame_def same_key_def)
  next
    case 2
    have "m_user m' = m_user m" "m_content m' = m_content m"
      by (subst 2(1) [unfolded entered_def], simp)+
    then show ?thesis using 2(2) assms by (simp add: tame_def)
  qed
qed

lemma tame_reviewed:
  assumes "\<And>i. f' i = f i \<or> (\<exists>m m'. owned (f i) uid = Some m \<and> f' i = Some m' \<and> reviewed m m')"
  shows "tame uid f f'"
proof -
  have "m_user m' = m_user m \<and> m_content m' = m_content m" if "reviewed m m'" for m m'
    by (subst (1 2) that [unfolded reviewed_def]) simp
  then show ?thesis using assms unfolding tame_def owned_Some by (metis option.inject)
qed

lemma sanitized_redacted [simp]: "redacted (sanitize_memory_content x)"
  using sanitized_no_mobile by (auto simp: redacted_def list_all_iff)

context memory_contract
begin

definition stays :: "string \<Rightarrow> memory_map \<Rightarrow> 's \<Rightarrow> bool" where
  "stays uid f s \<longleftrightarrow> ok s \<and> tame uid f (live s)"

lemma stays_start: "ok s \<Longrightarrow> stays uid (live s) s"
  by (simp add: stays_def)

lemma stays_step: "stays uid f s \<Longrightarrow> ok s' \<Longrightarrow> tame uid (live s) (live s') \<Longrightarrow> stays uid f s'"
  using tame_trans unfolding stays_def by blast

lemma stays_result:
  assumes "keeps (stays uid (live s)) m" and "ok s" and "m s = (r, s')"
  shows "ok s' \<and> tame uid (live s) (live s')"
  using keepsD' [OF assms(1) stays_start [OF assms(2)] assms(3)] by (simp add: stays_def)

lemma keeps_list:
  assumes "sts \<noteq> Some []"
  shows "keeps (stays uid f) (op_list_memories ops now u sts g)"
proof
  fix s assume "stays uid f s"
  then show "stays uid f (snd (op_list_memories ops now u sts g s))"
    using list_law [OF _ assms, of s now u g] by (auto simp: stays_def)
qed

lemma keeps_event: "keeps (stays uid f) (op_add_memory_event ops e)"
proof
  fix s assume s: "stays uid f s"
  obtain u s' where r: "op_add_memory_event ops e s = (u, s')" by (cases "op_add_memory_event ops e s")
  then show "stays uid f (snd (op_add_memory_event ops e s))"
    using s event_law [OF _ r] stays_step by (auto simp: stays_def)
qed

lemma keeps_status: "keeps (stays uid f) (op_set_status ops now mid uid st)"
proof
  fix s assume s: "stays uid f s"
  obtain r s' where r: "op_set_status ops now mid uid st s = (r, s')" by (cases "op_set_status ops now mid uid st s")
  have "ok s' \<and> changed (\<lambda>m. m\<lparr>m_status := st\<rparr>) now mid uid (live s) r (live s')"
    using s status_law [OF _ r] by (simp add: stays_def)
  then show "stays uid f (snd (op_set_status ops now mid uid st s))"
    using stays_step [OF s] tame_changed [of "\<lambda>m. m\<lparr>m_status := st\<rparr>" now mid uid "live s" r "live s'"] r by simp
qed

lemma keeps_validity: "keeps (stays uid f) (op_set_validity ops now mid uid v)"
proof
  fix s assume s: "stays uid f s"
  obtain r s' where r: "op_set_validity ops now mid uid v s = (r, s')" by (cases "op_set_validity ops now mid uid v s")
  have "ok s' \<and> changed (\<lambda>m. m\<lparr>m_validity := v\<rparr>) now mid uid (live s) r (live s')"
    using s validity_law [OF _ r] by (simp add: stays_def)
  then show "stays uid f (snd (op_set_validity ops now mid uid v s))"
    using stays_step [OF s] tame_changed [of "\<lambda>m. m\<lparr>m_validity := v\<rparr>" now mid uid "live s" r "live s'"] r by simp
qed

lemma keeps_delete: "keeps (stays uid f) (op_delete_memory ops mid uid)"
proof
  fix s assume s: "stays uid f s"
  obtain b s' where r: "op_delete_memory ops mid uid s = (b, s')" by (cases "op_delete_memory ops mid uid s")
  have law: "ok s' \<and> (case owned (live s mid) uid of None \<Rightarrow> b = Inr False \<and> live s' = live s
        | Some _ \<Rightarrow> b = Inr True \<and> live s' = (live s)(mid := None))"
    using s delete_law [OF _ r] by (simp add: stays_def)
  have "tame uid (live s) (live s')"
  proof (cases "owned (live s mid) uid")
    case None
    then show ?thesis using law by simp
  next
    case (Some m)
    then have "live s mid = Some m" "m_user m = uid" by simp_all
    then show ?thesis using law unfolding Some by (simp add: tame_def)
  qed
  then show "stays uid f (snd (op_delete_memory ops mid uid s))"
    using stays_step [OF s] law r by simp
qed

lemma keeps_get: "keeps (stays uid f) (op_get_memory ops mid u)"
proof
  fix s assume "stays uid f s"
  then show "stays uid f (snd (op_get_memory ops mid u s))" by (simp add: stays_def get_law)
qed

lemma keeps_supersede:
  "(\<And>x. x \<in> set xs \<Longrightarrow> m_user x = uid) \<Longrightarrow> keeps (stays uid f) (supersede_others ops t m xs)"
proof (induction xs arbitrary: t)
  case (Cons x xs)
  have "m_user x = uid" using Cons.prems by simp
  then show ?case unfolding supersede_others.simps
    using Cons by (intro keeps_rules keeps_event) (simp_all add: keeps_bindM keeps_validity)
qed simp

lemma confirm_stays:
  assumes "ok s" and "confirm ops t uid mid s = (r, s')"
  shows "ok s' \<and> tame uid (live s) (live s')"
proof (cases "op_confirm_atomic ops")
  case (Some atomic)
  then have "atomic (t 0) mid uid s = (r, s')" using assms(2) by (simp add: confirm_def)
  from confirm_law [OF assms(1) Some this] show ?thesis using tame_reviewed by blast
next
  case None
  have sup: "keeps (stays uid f) (bindM (op_list_memories ops (t 1) uid (Some [MemConfirmed]) False)
      (supersede_others ops (\<lambda>i. t (i + 2)) m))" for f m
  proof
    fix s assume s: "stays uid f s"
    then obtain ms where l: "op_list_memories ops (t 1) uid (Some [MemConfirmed]) False s = (Inr ms, s)"
      and ms: "listing (t 1) uid (Some [MemConfirmed]) False (live s) ms"
      using list_law [of s "Some [MemConfirmed]" "t 1" uid False] by (auto simp: stays_def)
    have "keeps (stays uid f) (supersede_others ops (\<lambda>i. t (i + 2)) m ms)"
      by (rule keeps_supersede) (use ms in \<open>auto simp: listing_def visible_def\<close>)
    then show "stays uid f (snd (bindM (op_list_memories ops (t 1) uid (Some [MemConfirmed]) False)
      (supersede_others ops (\<lambda>i. t (i + 2)) m) s))"
      unfolding bindM_Inr [where m = "op_list_memories ops (t 1) uid (Some [MemConfirmed]) False", OF l]
      using s by (rule keepsD)
  qed
  have "keeps (stays uid (live s)) (confirm ops t uid mid)"
    unfolding confirm_def None option.case by (intro keeps_rules keeps_status keeps_event sup)
  then show ?thesis by (rule stays_result) (fact assms(1), fact assms(2))
qed

lemma reject_stays:
  assumes "ok s" and "reject ops t uid mid s = (r, s')"
  shows "ok s' \<and> tame uid (live s) (live s')"
proof -
  have "keeps (stays uid (live s)) (reject ops t uid mid)"
    unfolding reject_def by (intro keeps_rules keeps_status keeps_event)
  then show ?thesis by (rule stays_result) (fact assms(1), fact assms(2))
qed

lemma keeps_delete_memory: "keeps (stays uid f) (delete_memory ops uid mid)"
  unfolding delete_memory_def by (intro keeps_rules keeps_get keeps_event keeps_delete)

lemma keeps_clear_loop: "keeps (stays uid f) (clear_loop ops isofmt uid tool before ms n)"
  by (induction ms arbitrary: n) (auto intro!: keeps_rules keeps_delete_memory)

lemma keeps_list_for_user: "keeps (stays uid f) (list_for_user ops t u c)"
  unfolding list_for_user_def by (intro keeps_rules keeps_list) simp

lemma delete_stays:
  assumes "ok s" and "delete_memory ops uid mid s = (r, s')"
  shows "ok s' \<and> tame uid (live s) (live s')"
  by (rule stays_result [OF keeps_delete_memory]) (fact assms(1), fact assms(2))

lemma clear_stays:
  assumes "ok s" and "clear_memories ops isofmt t (Some uid) tool before s = (r, s')"
  shows "ok s' \<and> tame uid (live s) (live s')"
proof -
  have "keeps (stays uid (live s)) (clear_memories ops isofmt t (Some uid) tool before)"
    unfolding clear_memories_def with_user_def context_user_def option.case
    by (cases "uid = []") (simp_all add: keeps_bindM keeps_list_for_user keeps_clear_loop)
  then show ?thesis by (rule stays_result) (fact assms(1), fact assms(2))
qed

lemma create_stays:
  assumes "ok s" and fresh: "live s fresh = None" and "create_candidate ops svc t fresh uid text a s = (r, s')"
  shows "ok s' \<and> tame uid (live s) (live s')"
proof -
  let ?clean = "sanitize_memory_content text"
  obtain ms where l: "op_list_memories ops (t 0) uid None False s = (Inr ms, s)"
    using list_law [OF assms(1), of None "t 0" uid False] by auto
  let ?rec = "\<lambda>emb. new_memory svc t fresh uid ?clean a emb"
  consider "s' = s"
    | emb where "bindM (op_upsert_memory ops (t 4) (?rec emb)) (\<lambda>stored.
        thenM (op_add_memory_event ops (memory_event_of (m_id stored) uid ''created''
           (JDict [(''source'', JStr (ca_source a))]))) (ret stored)) s = (r, s')"
    using assms(3) unfolding create_candidate_def Let_def
    by (auto simp: bindM_Inr [where m = "op_list_memories ops (t 0) uid None False", OF l] split: if_splits sum.splits)
  then show ?thesis
  proof cases
    case 1
    then show ?thesis using assms(1) by simp
  next
    case (2 emb)
    obtain r1 s1 where u: "op_upsert_memory ops (t 4) (?rec emb) s = (r1, s1)"
      by (cases "op_upsert_memory ops (t 4) (?rec emb) s")
    have law: "ok s1" "upserted (t 4) (?rec emb) (live s) r1 (live s1)"
      using upsert_law [OF assms(1) u] by simp_all
    have "tame uid (live s) (live s1)"
      by (rule tame_upserted [OF law(2)]) (simp_all add: new_memory_def fresh)
    then have s1: "stays uid (live s) s1" using law(1) by (simp add: stays_def)
    have "keeps (stays uid (live s)) (thenM (op_add_memory_event ops (memory_event_of (m_id x) uid ''created''
           (JDict [(''source'', JStr (ca_source a))]))) (ret x))" for x
      by (intro keeps_rules keeps_event)
    note tail = keepsD [OF this s1]
    have "stays uid (live s) s'"
    proof (cases r1)
      case (Inl e)
      then show ?thesis using 2 s1 u by (simp add: bindM_def)
    next
      case (Inr x)
      then show ?thesis using 2 tail [of x] u by (simp add: bindM_def)
    qed
    then show ?thesis by (simp add: stays_def)
  qed
qed

end

subsection \<open>What the search returns\<close>

lemma rank_keys:
  "fst ` set (foldl (\<lambda>d (i, m, _). AList.update (m_id m) i d) d0 xs) =
   fst ` set d0 \<union> (\<lambda>(i, m, _). m_id m) ` set xs" for xs :: "(nat \<times> memory_record \<times> 'b) list"
proof (induction xs arbitrary: d0)
  case (Cons x xs)
  obtain i m z where "x = (i, m, z)" by (cases x)
  then show ?case using Cons [of "AList.update (m_id m) i d0"] by (simp only: foldl_Cons case_prod_conv dict_keys_update) simp
qed simp

lemma rank_by_covers: "(m, k, v) \<in> set cs \<Longrightarrow> map_of (rank_by key cs) (m_id m) \<noteq> None"
proof -
  assume "(m, k, v) \<in> set cs"
  then have "(m, k, v) \<in> snd ` set (enumerate 1 (sort_desc key cs))"
    by (simp add: set_map [symmetric] del: set_map)
  then obtain i where "(i, m, k, v) \<in> set (enumerate 1 (sort_desc key cs))" by auto
  then have "m_id m \<in> fst ` set (rank_by key cs)" unfolding rank_by_def rank_keys by force
  then show ?thesis by (simp add: map_of_eq_None_iff)
qed

definition passing :: "pyfloat \<Rightarrow> scored list \<Rightarrow> scored list" where
  "passing threshold cs = filter (\<lambda>(_, k, v). threshold \<le> similarity k v) cs"

lemma fuse_ranks_returns:
  assumes "\<And>m k v. (m, k, v) \<in> set cs \<Longrightarrow> map_of kr (m_id m) \<noteq> None"
  shows "\<exists>xs. fuse_ranks threshold kr vr cs = Inr xs \<and>
    map snd xs = map (\<lambda>(m, k, v). (similarity k v, m)) (passing threshold cs)"
  using assms
proof (induction threshold kr vr cs rule: fuse_ranks.induct)
  case (2 threshold kr vr m k v cs)
  have rest: "map_of kr (m_id x) \<noteq> None" if "(x, a, b) \<in> set cs" for x a b
    using 2(3) [of x a b] that by simp
  obtain r where r: "map_of kr (m_id m) = Some r" using 2(3) [of m k v] by auto
  show ?case
  proof (cases "similarity k v < threshold")
    case True
    then show ?thesis using 2(1) [OF True rest] by (simp add: passing_def)
  next
    case False
    have "\<exists>xs. fuse_ranks threshold kr vr cs = Inr xs \<and>
      map snd xs = map (\<lambda>(m, k, v). (similarity k v, m)) (passing threshold cs)"
      by (rule 2(2) [OF False r refl refl]) (rule rest)
    then obtain xs where "fuse_ranks threshold kr vr cs = Inr xs"
      "map snd xs = map (\<lambda>(m, k, v). (similarity k v, m)) (passing threshold cs)" by blast
    then show ?thesis using False r by (simp add: passing_def Let_def)
  qed
qed (simp add: passing_def)

lemma set_take_desc: "set (take n (sort_desc key xs)) \<subseteq> set xs"
  using set_take_subset [of n "sort_desc key xs"] by simp

lemma distinct_sort_desc: "distinct (map f xs) \<Longrightarrow> distinct (map f (sort_desc key xs))"
  by (simp add: sort_desc_def distinct_map)

lemma rank_results_returns:
  assumes "distinct (map (\<lambda>(m, _). m_id m) cs)"
  shows "\<exists>found. rank_results limit threshold emb cs = Inr found \<and>
    length found = min (nat (max 0 limit)) (length (passing threshold cs)) \<and>
    set found \<subseteq> (\<lambda>(m, k, v). (similarity k v, m)) ` set (passing threshold cs) \<and>
    distinct (map (\<lambda>(_, m). m_id m) found)"
proof -
  obtain xs where f: "fuse_ranks threshold (keyword_rank cs) (vector_rank emb cs) cs = Inr xs"
    and xs: "map snd xs = map (\<lambda>(m, k, v). (similarity k v, m)) (passing threshold cs)"
    using fuse_ranks_returns [of cs "keyword_rank cs" threshold "vector_rank emb cs"] rank_by_covers
    unfolding keyword_rank_def by blast
  let ?k = "\<lambda>(r, s, m). (r, s, m_updated m)"
  let ?found = "map snd (take (nat (max 0 limit)) (sort_desc ?k xs))"
  have len: "length xs = length (passing threshold cs)" using arg_cong [OF xs, of length] by simp
  have "set ?found \<subseteq> snd ` set xs" unfolding set_map by (rule image_mono) (rule set_take_desc)
  also have "\<dots> = (\<lambda>(m, k, v). (similarity k v, m)) ` set (passing threshold cs)"
    using arg_cong [OF xs, of set] by simp
  finally have sub: "set ?found \<subseteq> (\<lambda>(m, k, v). (similarity k v, m)) ` set (passing threshold cs)" .
  have "distinct (map (\<lambda>(m, _). m_id m) (passing threshold cs))"
    using assms unfolding passing_def by (rule distinct_map_filter)
  also have "map (\<lambda>(m, _). m_id m) (passing threshold cs) =
      map (\<lambda>(_, m). m_id m) (map (\<lambda>(m, k, v). (similarity k v, m)) (passing threshold cs))"
    by (simp add: comp_def case_prod_unfold)
  also have "\<dots> = map (\<lambda>(_, _, m). m_id m) xs" unfolding xs [symmetric] by (simp add: comp_def case_prod_unfold)
  finally have "distinct (map (\<lambda>(_, _, m). m_id m) (take (nat (max 0 limit)) (sort_desc ?k xs)))"
    unfolding take_map [symmetric] by (intro distinct_take distinct_sort_desc)
  then have "distinct (map (\<lambda>(_, m). m_id m) ?found)" by (simp add: comp_def case_prod_unfold)
  then show ?thesis using f sub len unfolding rank_results_def by simp
qed

lemma score_candidates_in:
  "(m, k, v) \<in> set (score_candidates t clean emb ty tool ms) \<Longrightarrow> m \<in> set ms \<and> (\<exists>i. eligible ty tool (t i) m)"
  by (auto simp: score_candidates_def in_set_enumerate_eq)

lemma score_candidates_all:
  assumes "m \<in> set ms" and "\<And>i. eligible ty tool (t i) m"
  shows "(m, keyword_similarity clean (m_content m), cosine emb (m_embedding m)) \<in>
    set (score_candidates t clean emb ty tool ms)"
proof -
  obtain i where "i < length ms" "ms ! i = m" using assms(1) by (auto simp: in_set_conv_nth)
  then have "(i, m) \<in> set (filter (\<lambda>(i, m). eligible ty tool (t i) m) (enumerate 0 ms))"
    using assms(2) by (auto simp: in_set_enumerate_eq)
  then show ?thesis unfolding score_candidates_def by force
qed

lemma score_candidates_distinct:
  assumes "distinct (map m_id ms)"
  shows "distinct (map (\<lambda>(m, _). m_id m) (score_candidates t clean emb ty tool ms))"
proof -
  have "map (m_id \<circ> snd) (enumerate 0 ms) = map m_id ms" by (simp add: map_map [symmetric] del: map_map)
  then have "distinct (map (m_id \<circ> snd) (filter (\<lambda>(i, m). eligible ty tool (t i) m) (enumerate 0 ms)))"
    using assms by (intro distinct_map_filter) simp
  then show ?thesis by (simp add: score_candidates_def comp_def case_prod_unfold)
qed

context memory_contract
begin

lemma search_returns:
  assumes "ok s" and emb: "embedding_of svc (sanitize_memory_content query) = Inr emb"
  shows "\<exists>found. search_confirmed ops svc t uid query limit threshold ty tool s = (Inr found, s) \<and>
    length found \<le> nat limit \<and> distinct (map (\<lambda>(_, m). m_id m) found) \<and>
    (\<forall>x m. (x, m) \<in> set found \<longrightarrow> threshold \<le> x \<and> (\<exists>i. live s i = Some m) \<and>
       visible (t 0) uid (Some [MemConfirmed]) True m \<and> (\<exists>i. eligible ty tool (t (Suc i)) m)) \<and>
    (\<forall>i m. live s i = Some m \<longrightarrow> visible (t 0) uid (Some [MemConfirmed]) True m \<longrightarrow>
       (\<forall>j. eligible ty tool (t (Suc j)) m) \<longrightarrow>
       threshold \<le> similarity (keyword_similarity (sanitize_memory_content query) (m_content m)) (cosine emb (m_embedding m)) \<longrightarrow>
       m \<in> snd ` set found \<or> length found = nat limit)"
proof -
  let ?clean = "sanitize_memory_content query" and ?t = "\<lambda>i. t (Suc i)"
  obtain ms where l: "op_list_memories ops (t 0) uid (Some [MemConfirmed]) True s = (Inr ms, s)"
    and ms: "listing (t 0) uid (Some [MemConfirmed]) True (live s) ms"
    using list_law [OF assms(1), of "Some [MemConfirmed]" "t 0" uid True] by auto
  let ?cs = "score_candidates ?t ?clean emb ty tool ms"
  have d: "distinct (map m_id ms)" using ms by (simp add: listing_def)
  obtain found where f: "rank_results limit threshold emb ?cs = Inr found"
    and len: "length found = min (nat (max 0 limit)) (length (passing threshold ?cs))"
    and sub: "set found \<subseteq> (\<lambda>(m, k, v). (similarity k v, m)) ` set (passing threshold ?cs)"
    and df: "distinct (map (\<lambda>(_, m). m_id m) found)"
    using rank_results_returns [OF score_candidates_distinct [OF d]] by blast
  have "search_confirmed ops svc t uid query limit threshold ty tool s = (Inr found, s)"
    using f by (simp add: search_confirmed_def emb bindM_Inr [where m = "op_list_memories ops (t 0) uid (Some [MemConfirmed]) True", OF l])
  moreover have "length found \<le> nat limit" using len by (cases "0 \<le> limit") auto
  moreover have "threshold \<le> x \<and> (\<exists>i. live s i = Some m) \<and>
       visible (t 0) uid (Some [MemConfirmed]) True m \<and> (\<exists>i. eligible ty tool (t (Suc i)) m)"
    if xm: "(x, m) \<in> set found" for x m
  proof -
    obtain k v where kv: "(m, k, v) \<in> set ?cs" "threshold \<le> similarity k v" "x = similarity k v"
      using subsetD [OF sub xm] by (auto simp: passing_def)
    then show ?thesis using score_candidates_in [OF kv(1)] ms by (auto simp: listing_def)
  qed
  moreover have "m \<in> snd ` set found \<or> length found = nat limit"
    if m: "live s i = Some m" "visible (t 0) uid (Some [MemConfirmed]) True m" "\<forall>j. eligible ty tool (t (Suc j)) m"
      and th: "threshold \<le> similarity (keyword_similarity ?clean (m_content m)) (cosine emb (m_embedding m))" for i m
  proof (cases "length (passing threshold ?cs) \<le> nat (max 0 limit)")
    case True
    then have full: "length found = length (passing threshold ?cs)" using len by simp
    let ?h = "\<lambda>(m, k, v). (similarity k v, m)"
    have "card (set found) = length found"
      using df by (metis distinct_card distinct_map)
    moreover have "card (?h ` set (passing threshold ?cs)) \<le> length (passing threshold ?cs)"
      using card_length [of "map ?h (passing threshold ?cs)"] by simp
    ultimately have "set found = ?h ` set (passing threshold ?cs)"
      using sub full by (intro card_seteq) auto
    moreover have "m \<in> set ms" using m ms by (auto simp: listing_def)
    then have "(m, keyword_similarity ?clean (m_content m), cosine emb (m_embedding m)) \<in> set (passing threshold ?cs)"
      using score_candidates_all [of m ms ty tool ?t] m(3) th by (simp add: passing_def)
    ultimately show ?thesis by force
  next
    case False
    then show ?thesis using len by (cases "0 \<le> limit") auto
  qed
  ultimately show ?thesis using df by blast
qed

end

subsection \<open>Runs of the service\<close>

text \<open>
  The states that calls of the service reach from \<open>s0\<close>, with a clock that does not go back: every
  reading of a call lies between the time before it and the time after it. The identifier of a new
  memory is fresh.
\<close>

inductive service_reachable ::
  "'s memory_ops \<Rightarrow> ('s \<Rightarrow> memory_map) \<Rightarrow> memory_service \<Rightarrow> 's \<Rightarrow> time \<Rightarrow> 's \<Rightarrow> bool"
  for ops live svc s0 where
  start: "service_reachable ops live svc s0 now s0"
| create: "service_reachable ops live svc s0 now s \<Longrightarrow> \<forall>i. now \<le> t i \<and> t i \<le> now' \<Longrightarrow> live s fresh = None \<Longrightarrow>
    create_candidate ops svc t fresh uid text a s = (r, s') \<Longrightarrow> service_reachable ops live svc s0 now' s'"
| confirm: "service_reachable ops live svc s0 now s \<Longrightarrow> \<forall>i. now \<le> t i \<and> t i \<le> now' \<Longrightarrow>
    confirm ops t uid mid s = (r', s') \<Longrightarrow> service_reachable ops live svc s0 now' s'"
| reject: "service_reachable ops live svc s0 now s \<Longrightarrow> \<forall>i. now \<le> t i \<and> t i \<le> now' \<Longrightarrow>
    reject ops t uid mid s = (r', s') \<Longrightarrow> service_reachable ops live svc s0 now' s'"
| delete: "service_reachable ops live svc s0 now s \<Longrightarrow> now \<le> now' \<Longrightarrow>
    delete_memory ops uid mid s = (b, s') \<Longrightarrow> service_reachable ops live svc s0 now' s'"

context memory_contract
begin

lemma reachable_safe:
  assumes "service_reachable ops live svc s0 now s" and "ok s0" and "\<And>i m. live s0 i = Some m \<Longrightarrow> redacted (m_content m)"
  shows "ok s \<and> (\<forall>i m. live s i = Some m \<longrightarrow> redacted (m_content m))"
  using assms(1)
proof (induction rule: service_reachable.induct)
  case start
  then show ?case using assms(2,3) by blast
next
  case (create now s t now' fresh uid "text" a r s')
  then have "ok s' \<and> tame uid (live s) (live s')" by (intro create_stays) auto
  then show ?case using create.IH tame_redacted by blast
next
  case (confirm now s t now' uid mid r' s')
  then have "ok s' \<and> tame uid (live s) (live s')" by (intro confirm_stays) auto
  then show ?case using confirm.IH tame_redacted by blast
next
  case (reject now s t now' uid mid r' s')
  then have "ok s' \<and> tame uid (live s) (live s')" by (intro reject_stays) auto
  then show ?case using reject.IH tame_redacted by blast
next
  case (delete now s now' uid mid b s')
  then have "ok s' \<and> tame uid (live s) (live s')" by (intro delete_stays) auto
  then show ?case using delete.IH tame_redacted by blast
qed

lemma others_untouched:
  assumes "ok s" and "live s i = Some m" and "m_user m \<noteq> uid"
  shows "live s fresh = None \<Longrightarrow> live (snd (create_candidate ops svc t fresh uid text a s)) i = Some m"
    and "live (snd (confirm ops t uid mid s)) i = Some m"
    and "live (snd (reject ops t uid mid s)) i = Some m"
    and "live (snd (delete_memory ops uid mid s)) i = Some m"
    and "live (snd (clear_memories ops isofmt t (Some uid) tool before s)) i = Some m"
  using create_stays [OF assms(1), of fresh svc t uid "text" a] confirm_stays [OF assms(1), of t uid mid]
    reject_stays [OF assms(1), of t uid mid] delete_stays [OF assms(1), of uid mid]
    clear_stays [OF assms(1), of isofmt t uid tool before]
  by (metis prod.collapse tame_other assms(2,3))+

end

lemma pg_reachable_ok:
  assumes "service_reachable (pg_memory_ops ty ce) pg_live svc empty_pg_state now s"
  shows "pg_mem_ok s \<and> (\<forall>i m. pg_live s i = Some m \<longrightarrow> redacted (m_content m))"
  by (rule pg_memory.reachable_safe [OF assms])
    (simp_all add: pg_mem_ok_def empty_pg_state_def index_ok_def pg_live_def)

lemma repo_reachable_ok:
  assumes "service_reachable in_memory_ops repo_live svc empty_repo now s"
  shows "repo_ok s \<and> (\<forall>i m. repo_live s i = Some m \<longrightarrow> redacted (m_content m))"
  by (rule in_memory.reachable_safe [OF assms])
    (simp_all add: repo_ok_def empty_repo_def repo_live_def)

subsection \<open>One active memory per conflict key\<close>

text \<open>The memories that compete for a key at a moment; a step after which every competitor was one
before keeps them apart.\<close>

definition contender :: "time \<Rightarrow> memory_record \<Rightarrow> bool" where
  "contender now m \<longleftrightarrow> m_status m = MemConfirmed \<and> m_validity m = MemActive \<and> truthy (m_conflict_key m) \<and>
     unexpired now m"

definition solo :: "time \<Rightarrow> memory_map \<Rightarrow> bool" where
  "solo now f \<longleftrightarrow> (\<forall>i j a b. f i = Some a \<longrightarrow> f j = Some b \<longrightarrow> contender now a \<longrightarrow> contender now b \<longrightarrow>
     m_user a = m_user b \<longrightarrow> m_conflict_key a = m_conflict_key b \<longrightarrow> i = j)"

definition was_contender :: "time \<Rightarrow> memory_record \<Rightarrow> memory_record option \<Rightarrow> bool" where
  "was_contender now b v \<longleftrightarrow> (\<exists>a. v = Some a \<and> contender now a \<and> m_user a = m_user b \<and> m_conflict_key a = m_conflict_key b)"

lemma soloD: "solo now f \<Longrightarrow> f i = Some a \<Longrightarrow> f j = Some b \<Longrightarrow> contender now a \<Longrightarrow> contender now b \<Longrightarrow>
    m_user a = m_user b \<Longrightarrow> m_conflict_key a = m_conflict_key b \<Longrightarrow> i = j"
  unfolding solo_def by blast

lemma contender_earlier: "now \<le> now' \<Longrightarrow> contender now' m \<Longrightarrow> contender now m"
  by (auto simp: contender_def unexpired_def split: option.splits)

lemma solo_shrinks:
  assumes f: "solo now f" and le: "now \<le> now'"
    and shrinks: "\<And>i b. f' i = Some b \<Longrightarrow> contender now b \<Longrightarrow> was_contender now b (f i)"
  shows "solo now' f'"
  unfolding solo_def
proof (intro allI impI)
  fix i j a b
  assume "f' i = Some a" "f' j = Some b" "contender now' a" "contender now' b"
    and k: "m_user a = m_user b" "m_conflict_key a = m_conflict_key b"
  then obtain x y where "f i = Some x" "contender now x" "m_user x = m_user a" "m_conflict_key x = m_conflict_key a"
    "f j = Some y" "contender now y" "m_user y = m_user b" "m_conflict_key y = m_conflict_key b"
    using shrinks contender_earlier [OF le] unfolding was_contender_def by metis
  then show "i = j" using soloD [OF f] k by metis
qed

lemma was_contender_same: "v = Some b \<Longrightarrow> contender now b \<Longrightarrow> was_contender now b v"
  by (auto simp: was_contender_def)

text \<open>The loop of \<open>confirm\<close> over the in-memory repository: what it met is superseded, the rest is
untouched.\<close>

lemma in_memory_status_effect:
  assumes "repo_ok s" and "op_set_status in_memory_ops now mid uid st s = (r, s')"
  shows "repo_ok s' \<and> (case owned (repo_live s mid) uid of
      None \<Rightarrow> r = Inr None \<and> repo_live s' = repo_live s
    | Some m \<Rightarrow> r = Inr (Some (m\<lparr>m_status := st, m_updated := now\<rparr>)) \<and>
        repo_live s' = (repo_live s)(mid \<mapsto> m\<lparr>m_status := st, m_updated := now\<rparr>))"
proof -
  have "\<exists>v. r = Inr v"
    using assms(2) by (auto simp: in_memory_ops_def mem_set_memory_status_def mem_set_def Let_def split: option.splits if_splits)
  then obtain v where r: "r = Inr v" by blast
  have law: "repo_ok s' \<and> changed (\<lambda>m. m\<lparr>m_status := st\<rparr>) now mid uid (repo_live s) r (repo_live s')"
    using in_memory.status_law [OF assms] .
  show ?thesis
  proof (cases v)
    case None
    then show ?thesis using law r by (simp add: changed_def)
  next
    case (Some m')
    then obtain m where m: "owned (repo_live s mid) uid = Some m" "m' = m\<lparr>m_status := st, m_updated := now\<rparr>"
      "repo_live s' = (repo_live s)(mid \<mapsto> m')"
      using law r by (auto simp: changed_def)
    then show ?thesis unfolding m(1) using law r Some by simp
  qed
qed

lemma in_memory_validity_effect:
  assumes "repo_ok s" and "op_set_validity in_memory_ops now mid uid v s = (r, s')"
  shows "repo_ok s' \<and> (\<exists>w. r = Inr w) \<and> (case owned (repo_live s mid) uid of
      None \<Rightarrow> repo_live s' = repo_live s
    | Some m \<Rightarrow> repo_live s' = (repo_live s)(mid \<mapsto> m\<lparr>m_validity := v, m_updated := now\<rparr>))"
proof -
  have "\<exists>w. r = Inr w"
    using assms(2) by (auto simp: in_memory_ops_def mem_set_memory_validity_def mem_set_def Let_def split: option.splits if_splits)
  then obtain w where r: "r = Inr w" by blast
  have law: "repo_ok s' \<and> changed (\<lambda>m. m\<lparr>m_validity := v\<rparr>) now mid uid (repo_live s) r (repo_live s')"
    using in_memory.validity_law [OF assms] .
  show ?thesis
  proof (cases w)
    case None
    then show ?thesis using law r by (simp add: changed_def)
  next
    case (Some m')
    then obtain m where m: "owned (repo_live s mid) uid = Some m" "m' = m\<lparr>m_validity := v, m_updated := now\<rparr>"
      "repo_live s' = (repo_live s)(mid \<mapsto> m')"
      using law r by (auto simp: changed_def)
    then show ?thesis unfolding m(1) using law r Some by simp
  qed
qed

lemma in_memory_event_effect:
  "op_add_memory_event in_memory_ops e s = (Inr (), s\<lparr>memory_events := memory_events s @ [e]\<rparr>)"
  by (simp add: in_memory_ops_def mem_add_memory_event_def)

lemma live_events [simp]: "repo_live (s\<lparr>memory_events := e\<rparr>) = repo_live s" "repo_ok (s\<lparr>memory_events := e\<rparr>) = repo_ok s"
  by (simp_all add: repo_live_def repo_ok_def)

definition struck :: "memory_record \<Rightarrow> memory_record list \<Rightarrow> string \<Rightarrow> bool" where
  "struck m xs i \<longleftrightarrow> (\<exists>x \<in> set xs. m_id x = i \<and> m_id x \<noteq> m_id m \<and> m_conflict_key x = m_conflict_key m \<and> m_validity x = MemActive)"

lemma supersede_effect:
  assumes "repo_ok s" and "supersede_others in_memory_ops t m xs s = (r, s')"
    and "\<And>x. x \<in> set xs \<Longrightarrow> owned (repo_live s (m_id x)) (m_user x) \<noteq> None"
  shows "repo_ok s' \<and> r = Inr () \<and> (\<forall>i b. repo_live s' i = Some b \<longrightarrow>
     (if struck m xs i then m_validity b = MemSuperseded else repo_live s i = Some b))"
  using assms
proof (induction xs arbitrary: s t)
  case (Cons x xs)
  let ?hit = "m_id x \<noteq> m_id m \<and> m_conflict_key x = m_conflict_key m \<and> m_validity x = MemActive"
  obtain s1 where step: "repo_ok s1" "supersede_others in_memory_ops (\<lambda>i. t (Suc i)) m xs s1 = (r, s')"
    and live: "if ?hit then \<exists>y. owned (repo_live s (m_id x)) (m_user x) = Some y \<and>
        repo_live s1 = (repo_live s)(m_id x \<mapsto> y\<lparr>m_validity := MemSuperseded, m_updated := t 0\<rparr>)
      else s1 = s"
  proof (cases ?hit)
    case False
    then have "supersede_others in_memory_ops (\<lambda>i. t (Suc i)) m xs s = (r, s')"
      using Cons.prems(2) False [THEN eq_False [THEN iffD2]]
      by (simp only: supersede_others.simps whenM_def thenM_def if_False bindM_ret)
    then show ?thesis using that Cons.prems(1) False by metis
  next
    case True
    obtain y where y: "owned (repo_live s (m_id x)) (m_user x) = Some y" using Cons.prems(3) [of x] by auto
    obtain rv s0 where v: "op_set_validity in_memory_ops (t 0) (m_id x) (m_user x) MemSuperseded s = (rv, s0)"
      by (cases "op_set_validity in_memory_ops (t 0) (m_id x) (m_user x) MemSuperseded s")
    have e: "repo_ok s0" "\<exists>w. rv = Inr w"
      "repo_live s0 = (repo_live s)(m_id x \<mapsto> y\<lparr>m_validity := MemSuperseded, m_updated := t 0\<rparr>)"
      using in_memory_validity_effect [OF Cons.prems(1) v] unfolding y by simp_all
    from e(2) obtain w where w: "rv = Inr w" by blast
    have "supersede_others in_memory_ops (\<lambda>i. t (Suc i)) m xs (s0\<lparr>memory_events := memory_events s0 @
        [memory_event_of (m_id x) (m_user x) ''superseded'' (JDict [(''superseded_by'', JStr (m_id m))])]\<rparr>) = (r, s')"
      using Cons.prems(2) True [THEN eq_True [THEN iffD2]]
      by (simp only: supersede_others.simps whenM_def thenM_def if_True)
        (simp add: bindM_def v w in_memory_event_effect)
    then show ?thesis using that e True y by (metis live_events)
  qed
  have own: "owned (repo_live s1 (m_id z)) (m_user z) \<noteq> None" if "z \<in> set xs" for z
    using live Cons.prems(3) [of z] that by (auto simp: owned_def split: if_splits option.splits)
  have IH: "repo_ok s' \<and> r = Inr () \<and> (\<forall>i b. repo_live s' i = Some b \<longrightarrow>
     (if struck m xs i then m_validity b = MemSuperseded else repo_live s1 i = Some b))"
    by (rule Cons.IH [OF step own])
  have st: "struck m (x # xs) i \<longleftrightarrow> ?hit \<and> m_id x = i \<or> struck m xs i" for i by (auto simp: struck_def)
  have "if struck m (x # xs) i then m_validity b = MemSuperseded else repo_live s i = Some b"
    if b: "repo_live s' i = Some b" for i b
  proof -
    have later: "if struck m xs i then m_validity b = MemSuperseded else repo_live s1 i = Some b" using IH b by blast
    show ?thesis
    proof (cases "struck m xs i")
      case True
      then show ?thesis using later st by simp
    next
      case False
      then have s1: "repo_live s1 i = Some b" using later by simp
      show ?thesis
      proof (cases ?hit)
        case True
        then obtain y where "repo_live s1 = (repo_live s)(m_id x \<mapsto> y\<lparr>m_validity := MemSuperseded, m_updated := t 0\<rparr>)"
          using live by auto
        then show ?thesis using s1 True False st [of i] by (cases "i = m_id x") auto
      next
        case False
        then have "s1 = s" using live by metis
        then show ?thesis using s1 False \<open>\<not> struck m xs i\<close> st [of i] by auto
      qed
    qed
  qed
  then show ?case using IH by blast
qed (auto simp: struck_def)

lemma in_memory_confirm_solo:
  assumes ok: "repo_ok s" and solo: "solo now (repo_live s)"
    and clock: "\<forall>i. now \<le> t i \<and> t i \<le> now'"
    and call: "confirm in_memory_ops t uid mid s = (r, s')"
  shows "solo now' (repo_live s')"
proof -
  have le: "now \<le> now'" using clock order_trans by blast
  obtain r1 s1 where set: "op_set_status in_memory_ops (t 0) mid uid MemConfirmed s = (r1, s1)"
    by (cases "op_set_status in_memory_ops (t 0) mid uid MemConfirmed s")
  note eff = in_memory_status_effect [OF ok set]
  show ?thesis
  proof (cases "owned (repo_live s mid) uid")
    case None
    then have "r1 = Inr None" "repo_live s1 = repo_live s" using eff by simp_all
    then have "repo_live s' = repo_live s"
      using call set by (simp add: confirm_def in_memory_ops_def bindM_def)
    then show ?thesis by (intro solo_shrinks [OF solo le]) (simp add: was_contender_same)
  next
    case (Some m0)
    define m where "m = m0\<lparr>m_status := MemConfirmed, m_updated := t 0\<rparr>"
    have r1: "r1 = Inr (Some m)" and l1: "repo_live s1 = (repo_live s)(mid \<mapsto> m)" and ok1: "repo_ok s1"
      using eff unfolding Some by (simp_all add: m_def)
    have id: "m_id m = mid" using in_memory.ids [OF ok1, of mid m] l1 by simp
    have user: "m_user m = uid" using Some by (simp add: m_def)
    let ?s2 = "s1\<lparr>memory_events := memory_events s1 @ [memory_event_of (m_id m) uid ''confirmed'' (JDict [])]\<rparr>"
    have rest: "thenM (whenM (m_validity m = MemActive \<and> truthy (m_conflict_key m))
          (bindM (op_list_memories in_memory_ops (t 1) uid (Some [MemConfirmed]) False)
             (supersede_others in_memory_ops (\<lambda>i. t (i + 2)) m))) (ret (Some m)) ?s2 = (r, s')"
      using call set r1 by (simp add: confirm_def in_memory_ops_def bindM_def thenM_def mem_add_memory_event_def)
    show ?thesis
    proof (cases "m_validity m = MemActive \<and> truthy (m_conflict_key m)")
      case False
      then have "s' = ?s2" using rest by (auto simp: whenM_def thenM_def)
      then have l: "repo_live s' = (repo_live s)(mid \<mapsto> m)" by (simp add: l1)
      show ?thesis
      proof (rule solo_shrinks [OF solo le])
        fix i b assume "repo_live s' i = Some b" and c: "contender now b"
        moreover have "i \<noteq> mid" using calculation False by (auto simp: l contender_def)
        ultimately show "was_contender now b (repo_live s i)" by (simp add: l was_contender_same)
      qed
    next
      case True
      obtain ms where lst: "op_list_memories in_memory_ops (t 1) uid (Some [MemConfirmed]) False ?s2 = (Inr ms, ?s2)"
        and ms: "listing (t 1) uid (Some [MemConfirmed]) False (repo_live ?s2) ms"
        using in_memory.list_law [of ?s2 "Some [MemConfirmed]" "t 1" uid False] ok1 by auto
      obtain u s3 where sup: "supersede_others in_memory_ops (\<lambda>i. t (i + 2)) m ms ?s2 = (u, s3)"
        by (cases "supersede_others in_memory_ops (\<lambda>i. t (i + 2)) m ms ?s2")
      have eff3: "repo_ok s3 \<and> u = Inr () \<and> (\<forall>i b. repo_live s3 i = Some b \<longrightarrow>
          (if struck m ms i then m_validity b = MemSuperseded else repo_live ?s2 i = Some b))"
      proof (rule supersede_effect [OF _ sup])
        fix x assume "x \<in> set ms"
        then obtain i where "repo_live s1 i = Some x" using ms by (auto simp: listing_def)
        then show "owned (repo_live ?s2 (m_id x)) (m_user x) \<noteq> None"
          using in_memory.ids [OF ok1] by (auto simp: owned_def)
      qed (simp add: ok1)
      have "s' = s3"
        using rest True lst sup eff3 by (simp add: whenM_def thenM_def bindM_def)
      then have live: "if struck m ms i then m_validity b = MemSuperseded else repo_live s1 i = Some b"
        if b: "repo_live s' i = Some b" for i b
      proof -
        have "if struck m ms i then m_validity b = MemSuperseded else repo_live ?s2 i = Some b"
          using eff3 b \<open>s' = s3\<close> by blast
        then show ?thesis by (simp only: live_events)
      qed
      have left: "was_contender now b (repo_live s i)"
        if "repo_live s' i = Some b" "contender now b" "i \<noteq> mid" for i b
        using live [OF that(1)] that(2,3) by (auto simp: l1 contender_def was_contender_def split: if_splits)
      have alone: False if b: "repo_live s' i = Some b" "contender now' b" "i \<noteq> mid" "m_user b = uid"
          "m_conflict_key b = m_conflict_key m" for i b
      proof -
        have l: "repo_live s1 i = Some b" and ns: "\<not> struck m ms i"
          using live [OF b(1)] b(2) by (auto simp: contender_def split: if_splits)
        have "contender (t 1) b" using contender_earlier [OF _ b(2)] clock by blast
        then have "b \<in> set ms" using ms l b(4) by (auto simp: listing_def visible_def contender_def)
        then show False using ns b in_memory.ids [OF ok1 l] id
          by (auto simp: struck_def contender_def)
      qed
      have mid: "m_user b = uid \<and> m_conflict_key b = m_conflict_key m"
        if "repo_live s' mid = Some b" "contender now' b" for b
        using live [OF that(1)] that(2) user by (auto simp: l1 contender_def split: if_splits)
      show ?thesis unfolding solo_def
      proof (intro allI impI)
        fix i j a b
        assume h: "repo_live s' i = Some a" "repo_live s' j = Some b" "contender now' a" "contender now' b"
          "m_user a = m_user b" "m_conflict_key a = m_conflict_key b"
        consider "i = mid" "j = mid" | "i = mid" "j \<noteq> mid" | "i \<noteq> mid" "j = mid" | "i \<noteq> mid" "j \<noteq> mid" by blast
        then show "i = j"
        proof cases
          case 2
          then show ?thesis using mid [of a] h alone [of j b] by simp
        next
          case 3
          then show ?thesis using mid [of b] h alone [of i a] by simp
        next
          case 4
          then obtain x y where "repo_live s i = Some x" "contender now x" "m_user x = m_user a" "m_conflict_key x = m_conflict_key a"
            "repo_live s j = Some y" "contender now y" "m_user y = m_user b" "m_conflict_key y = m_conflict_key b"
            using left [OF h(1)] left [OF h(2)] contender_earlier [OF le] h(3,4) unfolding was_contender_def by metis
          then show ?thesis using soloD [OF solo] h(5,6) by metis
        qed simp
      qed
    qed
  qed
qed

end
