(* ===== verification/Memory_Facts.thy ===== *)
theory Memory_Facts
  imports Memory_Service
begin

section \<open>What long-term memory promises\<close>

text \<open>
  The properties of the memory service over its two repositories: what a search may recall, that users
  are isolated, that stored texts are redacted, that a conflict key has one active memory, what the
  limit on active memories bounds, and that the two repositories hold the same conversations. The
  locale lemmas of \<open>Memory_Service\<close> carry them, through the interpretations \<open>in_memory\<close> and
  \<open>pg_memory\<close>.
\<close>

subsection \<open>A concrete service\<close>

definition sample_memory :: "string \<Rightarrow> string \<Rightarrow> memory_status \<Rightarrow> string \<Rightarrow> memory_record" where
  "sample_memory i uid st text = \<lparr>m_id = i, m_user = uid, m_type = USER_PREFERENCE, m_status = st, m_content = text,
     m_normalized = text, m_source = ''explicit_instruction'', m_scope = USER_SCOPE, m_created = 0, m_updated = 0,
     m_tool_name = None, m_tool_args = None, m_success = None, m_embedding = None, m_metadata = JDict [],
     m_expires = Some 100, m_validity = MemActive, m_source_hash = Some ''h'', m_conflict_key = Some ''k'',
     m_valid_from = None, m_valid_to = None\<rparr>"

definition plain_types :: pg_types where
  "plain_types = \<lparr>jsonb = (\<lambda>x. x), real4 = (\<lambda>x. x), time_text = (\<lambda>_. ''t'')\<rparr>"

definition sample_tables :: pg_state where
  "sample_tables = \<lparr>conversation_rows = [], message_rows = [],
     memory_rows = [(''a'', sample_memory ''a'' ''u'' MemConfirmed ''sales''), (''b'', sample_memory ''b'' ''u'' MemCandidate ''paid''),
       (''c'', sample_memory ''c'' ''v'' MemConfirmed ''cost'')],
     event_rows = []\<rparr>"

lemma sample_tables_ok: "pg_mem_ok sample_tables"
  by (auto simp: pg_mem_ok_def sample_tables_def sample_memory_def index_ok_def indexed_def split: if_splits)

subsection \<open>Recall\<close>

text \<open>C31. A search of the PostgreSQL repository returns when the embedder does. It returns at most
\<open>limit\<close> memories, none twice, each with at least the asked similarity, and each of them is the user's
own or global, confirmed, unexpired, active and within its validity at a moment of the search. Nothing
that is eligible throughout is passed over unless the result is full.\<close>

theorem recall_is_safe:
  assumes "pg_mem_ok s" and "embedding_of svc (sanitize_memory_content query) = Inr emb"
  shows "\<exists>found. search_confirmed (pg_memory_ops ty ce) svc t uid query limit threshold kind tool s = (Inr found, s) \<and>
    length found \<le> nat limit \<and> distinct (map (\<lambda>(_, m). m_id m) found) \<and>
    (\<forall>x m. (x, m) \<in> set found \<longrightarrow> threshold \<le> x \<and> (\<exists>i. pg_live s i = Some m) \<and>
       (m_user m = uid \<or> m_scope m = GLOBAL_SCOPE) \<and> m_status m = MemConfirmed \<and> unexpired (t 0) m \<and>
       (\<exists>i. eligible kind tool (t (Suc i)) m)) \<and>
    (\<forall>i m. pg_live s i = Some m \<longrightarrow> visible (t 0) uid (Some [MemConfirmed]) True m \<longrightarrow>
       (\<forall>j. eligible kind tool (t (Suc j)) m) \<longrightarrow>
       threshold \<le> similarity (keyword_similarity (sanitize_memory_content query) (m_content m)) (cosine emb (m_embedding m)) \<longrightarrow>
       m \<in> snd ` set found \<or> length found = nat limit)"
  using pg_memory.search_returns [OF assms, of ty ce t uid limit threshold kind tool]
  unfolding visible_def by simp

theorem recall_is_safe_witness:
  "\<exists>found. search_confirmed (pg_memory_ops plain_types (\<lambda>_. None)) default_service (\<lambda>_. 5) ''u'' ''sales'' 3 0 None None
     sample_tables = (Inr found, sample_tables) \<and> sample_memory ''a'' ''u'' MemConfirmed ''sales'' \<in> snd ` set found"
proof -
  let ?m = "sample_memory ''a'' ''u'' MemConfirmed ''sales''"
  have "embedding_of default_service (sanitize_memory_content ''sales'') = Inr None"
    by (simp add: embedding_of_def default_service_def)
  from recall_is_safe [OF sample_tables_ok this, of plain_types "\<lambda>_. None" "\<lambda>_. 5" "''u''" 3 0 None None]
  obtain found where f: "search_confirmed (pg_memory_ops plain_types (\<lambda>_. None)) default_service (\<lambda>_. 5) ''u'' ''sales'' 3 0
      None None sample_tables = (Inr found, sample_tables)"
    and d: "distinct (map (\<lambda>(_, m). m_id m) found)"
    and sound: "\<forall>x m. (x, m) \<in> set found \<longrightarrow> (\<exists>i. pg_live sample_tables i = Some m) \<and> (m_user m = ''u'' \<or> m_scope m = GLOBAL_SCOPE)"
    and complete: "\<forall>i m. pg_live sample_tables i = Some m \<longrightarrow> visible 5 ''u'' (Some [MemConfirmed]) True m \<longrightarrow>
       (\<forall>j. eligible None None 5 m) \<longrightarrow>
       0 \<le> similarity (keyword_similarity (sanitize_memory_content ''sales'') (m_content m)) (cosine None (m_embedding m)) \<longrightarrow>
       m \<in> snd ` set found \<or> length found = 3"
    by auto
  have sub: "(\<lambda>(_, m). m_id m) ` set found \<subseteq> {''a'', ''b''}"
  proof
    fix z assume "z \<in> (\<lambda>(_, m). m_id m) ` set found"
    then obtain x m where "(x, m) \<in> set found" "z = m_id m" by auto
    with sound obtain i where "pg_live sample_tables i = Some m" "m_user m = ''u'' \<or> m_scope m = GLOBAL_SCOPE" by blast
    then show "z \<in> {''a'', ''b''}"
      using \<open>z = m_id m\<close> by (auto simp: pg_live_def sample_tables_def sample_memory_def split: if_splits)
  qed
  have "length found = card ((\<lambda>(_, m). m_id m) ` set found)" using distinct_card [OF d] by simp
  also have "\<dots> \<le> card {''a'', ''b''}" by (rule card_mono [OF _ sub]) simp
  finally have "length found \<noteq> 3" by simp
  moreover have "0 \<le> similarity k 0" if "0 \<le> k" for k using that by (simp add: similarity_def)
  ultimately have "?m \<in> snd ` set found"
    using complete [rule_format, of "''a''" ?m] keyword_similarity_eq [of "sanitize_memory_content ''sales''" "''sales''"]
    by (simp add: pg_live_def sample_tables_def sample_memory_def visible_def unexpired_def eligible_def current_def
        truthy_def cosine_def fdiv_def fl_nonneg)
  then show ?thesis using f by blast
qed

subsection \<open>Isolation and redaction\<close>

text \<open>C32. Users are isolated: no call of the service by one user changes or removes a memory of another
in the PostgreSQL repository (\<open>in_memory.others_untouched\<close> says the same of the in-memory one).\<close>

theorem users_are_isolated:
  assumes "pg_mem_ok s" and "pg_live s i = Some m" and "m_user m \<noteq> uid" and "pg_live s fresh = None"
  shows "pg_live (snd (create_candidate (pg_memory_ops ty ce) svc t fresh uid new_text a s)) i = Some m \<and>
    pg_live (snd (confirm (pg_memory_ops ty ce) t uid mid s)) i = Some m \<and>
    pg_live (snd (reject (pg_memory_ops ty ce) t uid mid s)) i = Some m \<and>
    pg_live (snd (delete_memory (pg_memory_ops ty ce) uid mid s)) i = Some m \<and>
    pg_live (snd (clear_memories (pg_memory_ops ty ce) isofmt t (Some uid) tool before s)) i = Some m"
  by (intro conjI pg_memory.others_untouched assms)

theorem users_are_isolated_witness:
  "pg_live (snd (confirm (pg_memory_ops plain_types (\<lambda>_. None)) (\<lambda>_. 5) ''u'' ''b'' sample_tables)) ''c'' =
     Some (sample_memory ''c'' ''v'' MemConfirmed ''cost'')"
  using users_are_isolated [of sample_tables "''c''" "sample_memory ''c'' ''v'' MemConfirmed ''cost''" "''u''" "''d''"]
    sample_tables_ok by (simp add: pg_live_def sample_tables_def sample_memory_def)


text \<open>A run of the in-memory service: a text with a number is stored, then confirmed.\<close>

definition keyed_args :: candidate_args where
  "keyed_args = default_args\<lparr>ca_source_hash := Some ''h'', ca_conflict_key := Some ''k''\<rparr>"

definition one_stored :: state_repo where
  "one_stored = snd (create_candidate in_memory_ops default_service (\<lambda>_. 0) ''a'' ''u'' ''ask 13812345678'' keyed_args empty_repo)"

lemma sanitize_sample: "sanitize_memory_content ''ask 13812345678'' = ''ask [REDACTED_PHONE]''"
  by code_simp

text \<open>What a creation does in the in-memory repository when the text is new and the limit not reached.\<close>

definition stored_new :: "memory_record \<Rightarrow> string \<Rightarrow> candidate_args \<Rightarrow> state_repo \<Rightarrow> state_repo" where
  "stored_new m uid a s = s\<lparr>memories := AList.update (m_id m) m (memories s),
     memory_events := memory_events s @ [memory_event_of (m_id m) uid ''created'' (JDict [(''source'', JStr (ca_source a))])]\<rparr>"

definition users_memories :: "time \<Rightarrow> string \<Rightarrow> state_repo \<Rightarrow> memory_record list" where
  "users_memories now uid s = filter (visible now uid None False) (map snd (memories s))"

lemma active_count_sort [simp]: "active_count (sort_desc k ms) = active_count ms"
proof -
  have "active_count (rev (sort_key k (rev ms))) = length (filter (\<lambda>m. m_status m \<noteq> MemRejected) (sort_key k (rev ms)))"
    by (simp add: active_count_def rev_filter [symmetric])
  also have "\<dots> = length (filter (\<lambda>m. m_status m \<noteq> MemRejected) (rev ms))"
    by (simp add: filter_sort)
  finally show ?thesis by (simp add: sort_desc_def active_count_def rev_filter [symmetric])
qed

lemma create_stores_new:
  assumes clean: "sanitize_memory_content input = clean" "clean \<noteq> []" and "ms_embedder svc = None"
    and new: "\<And>k e. (k, e) \<in> set (memories s) \<Longrightarrow> \<not> same_key e (new_memory svc t fresh uid clean a None)"
    and room: "int (active_count (users_memories (t 0) uid s)) < ms_max_active svc"
  shows "create_candidate in_memory_ops svc t fresh uid input a s =
    (Inr (new_memory svc t fresh uid clean a None), stored_new (new_memory svc t fresh uid clean a None) uid a s)"
proof -
  let ?m = "new_memory svc t fresh uid clean a None"
  let ?ms = "sort_desc m_updated (users_memories (t 0) uid s)"
  have l: "op_list_memories in_memory_ops (t 0) uid None False s = (Inr ?ms, s)"
    by (simp add: in_memory_ops_def mem_list_memories_def users_memories_def)
  have f: "find (\<lambda>m. m_type m = ca_type a \<and> m_normalized m = normalize_memory_content clean) ?ms = None"
    unfolding find_None_iff
  proof
    assume "\<exists>x. x \<in> set ?ms \<and> m_type x = ca_type a \<and> m_normalized x = normalize_memory_content clean"
    then obtain k x where "(k, x) \<in> set (memories s)" "m_user x = uid" "m_type x = ca_type a"
      "m_normalized x = normalize_memory_content clean"
      by (auto simp: users_memories_def visible_def)
    then show False using new [of k x] by (simp add: same_key_def new_memory_def)
  qed
  have u: "find (\<lambda>(_, e). same_key e ?m) (memories s) = None"
    using new by (auto simp: find_None_iff)
  have up: "op_upsert_memory in_memory_ops (t 4) ?m s = (Inr ?m, s\<lparr>memories := AList.update (m_id ?m) ?m (memories s)\<rparr>)"
    by (simp add: in_memory_ops_def mem_upsert_memory_def u)
  show ?thesis
    unfolding create_candidate_def clean(1) Let_def using clean(2) room f assms(3)
    by (simp add: bindM_def l up embedding_of_def thenM_def in_memory_event_effect stored_new_def)
qed

lemma one_stored_eq: "one_stored = stored_new (new_memory default_service (\<lambda>_. 0) ''a'' ''u'' ''ask [REDACTED_PHONE]'' keyed_args None)
    ''u'' keyed_args empty_repo"
  unfolding one_stored_def
  by (subst create_stores_new [OF sanitize_sample])
    (simp_all add: default_service_def empty_repo_def users_memories_def active_count_def)

lemma one_stored_live: "repo_live one_stored ''a'' =
    Some (new_memory default_service (\<lambda>_. 0) ''a'' ''u'' ''ask [REDACTED_PHONE]'' keyed_args None)"
  by (simp add: one_stored_eq stored_new_def repo_live_def new_memory_def)

lemma one_stored_reachable: "service_reachable in_memory_ops repo_live default_service empty_repo 0 one_stored"
proof (rule service_reachable.create [where t = "\<lambda>_. 0"])
  show "service_reachable in_memory_ops repo_live default_service empty_repo 0 empty_repo" by (rule service_reachable.start)
  show "repo_live empty_repo ''a'' = None" by (simp add: repo_live_def empty_repo_def)
  show "create_candidate in_memory_ops default_service (\<lambda>_. 0) ''a'' ''u'' ''ask 13812345678'' keyed_args empty_repo =
      (fst (create_candidate in_memory_ops default_service (\<lambda>_. 0) ''a'' ''u'' ''ask 13812345678'' keyed_args empty_repo), one_stored)"
    by (simp add: one_stored_def)
qed simp


subsection \<open>One active memory per conflict key\<close>

lemma solo_create:
  assumes ok: "repo_ok s" and solo: "solo now (repo_live s)" and le: "now \<le> now'"
    and call: "create_candidate in_memory_ops svc t fresh uid input a s = (r, s')"
  shows "solo now' (repo_live s')"
proof -
  let ?clean = "sanitize_memory_content input"
  obtain ms where l: "op_list_memories in_memory_ops (t 0) uid None False s = (Inr ms, s)"
    using in_memory.list_law [OF ok, of None "t 0" uid False] by auto
  consider "s' = s" | emb r1 s1 where
      "op_upsert_memory in_memory_ops (t 4) (new_memory svc t fresh uid ?clean a emb) s = (r1, s1)"
      "repo_live s' = repo_live s1"
  proof (cases "\<exists>emb. embedding_of svc ?clean = Inr emb \<and>
      s' = snd (bindM (op_upsert_memory in_memory_ops (t 4) (new_memory svc t fresh uid ?clean a emb)) (\<lambda>stored.
        thenM (op_add_memory_event in_memory_ops (memory_event_of (m_id stored) uid ''created''
           (JDict [(''source'', JStr (ca_source a))]))) (ret stored)) s)")
    case True
    then obtain emb where s': "s' = snd (bindM (op_upsert_memory in_memory_ops (t 4) (new_memory svc t fresh uid ?clean a emb)) (\<lambda>stored.
        thenM (op_add_memory_event in_memory_ops (memory_event_of (m_id stored) uid ''created''
           (JDict [(''source'', JStr (ca_source a))]))) (ret stored)) s)" by blast
    obtain r1 s1 where u: "op_upsert_memory in_memory_ops (t 4) (new_memory svc t fresh uid ?clean a emb) s = (r1, s1)"
      by (cases "op_upsert_memory in_memory_ops (t 4) (new_memory svc t fresh uid ?clean a emb) s")
    have "repo_live s' = repo_live s1"
      unfolding s' by (cases r1) (simp_all add: bindM_def u thenM_def in_memory_event_effect)
    then show ?thesis using that(2) u by blast
  next
    case False
    then have "s' = s" using call unfolding create_candidate_def Let_def
      by (auto simp: bindM_Inr [where m = "op_list_memories in_memory_ops (t 0) uid None False", OF l] split: if_splits sum.splits)
    then show ?thesis by (rule that(1))
  qed
  then show ?thesis
  proof cases
    case 1
    then show ?thesis by (intro solo_shrinks [OF solo le]) (simp add: was_contender_same)
  next
    case (2 emb r1 s1)
    have up: "upserted (t 4) (new_memory svc t fresh uid ?clean a emb) (repo_live s) r1 (repo_live s')"
      using in_memory.upsert_law [OF ok 2(1)] 2(2) by simp
    show ?thesis
    proof (rule solo_shrinks [OF solo le])
      fix i b assume b: "repo_live s' i = Some b" "contender now b"
      show "was_contender now b (repo_live s i)"
      proof (cases "repo_live s i = Some b")
        case True
        then show ?thesis using b(2) by (rule was_contender_same)
      next
        case False
        from up b False consider e where "repo_live s i = Some e" "b = e\<lparr>m_updated := t 4\<rparr>"
          | "entered (new_memory svc t fresh uid ?clean a emb) b"
          by (auto simp: upserted_def split: sum.splits if_splits)
        then show ?thesis
        proof cases
          case 1
          then show ?thesis using b(2) by (auto simp: was_contender_def contender_def unexpired_def)
        next
          case 2
          then have "m_status b = MemCandidate" by (subst 2 [unfolded entered_def]) (simp add: new_memory_def)
          then show ?thesis using b(2) by (simp add: contender_def)
        qed
      qed
    qed
  qed
qed

lemma reachable_solo:
  assumes "service_reachable in_memory_ops repo_live svc empty_repo now s"
  shows "repo_ok s \<and> solo now (repo_live s)"
  using assms
proof (induction rule: service_reachable.induct)
  case start
  then show ?case by (simp add: repo_ok_def empty_repo_def repo_live_def solo_def)
next
  case (create now s t now' fresh uid input a r s')
  have "now \<le> now'" using create.hyps(2) order_trans by blast
  moreover have "repo_ok s'" using in_memory.create_stays [OF _ create.hyps(3,4)] create.IH by blast
  ultimately show ?case using solo_create [OF _ _ _ create.hyps(4)] create.IH by blast
next
  case (confirm now s t now' uid mid r' s')
  have "repo_ok s'" using in_memory.confirm_stays [OF _ confirm.hyps(3)] confirm.IH by blast
  then show ?case using in_memory_confirm_solo [OF _ _ confirm.hyps(2,3)] confirm.IH by blast
next
  case (reject now s t now' uid mid r' s')
  have le: "now \<le> now'" using reject.hyps(2) order_trans by blast
  have ok: "repo_ok s'" using in_memory.reject_stays [OF _ reject.hyps(3)] reject.IH by blast
  obtain r1 s1 where set: "op_set_status in_memory_ops (t 0) mid uid MemRejected s = (r1, s1)"
    by (cases "op_set_status in_memory_ops (t 0) mid uid MemRejected s")
  have eff: "changed (\<lambda>m. m\<lparr>m_status := MemRejected\<rparr>) (t 0) mid uid (repo_live s) r1 (repo_live s1)"
    using in_memory.status_law [OF _ set] reject.IH by blast
  have "repo_live s' = repo_live s1"
    using reject.hyps(3) set unfolding reject_def
    by (auto simp: bindM_def thenM_def in_memory_event_effect split: sum.splits option.splits)
  then have "was_contender now b (repo_live s i)" if "repo_live s' i = Some b" "contender now b" for i b
    using that eff by (auto simp: changed_def contender_def was_contender_def split: sum.splits option.splits if_splits)
  then have "solo now' (repo_live s')" using reject.IH by (intro solo_shrinks [OF _ le]) auto
  then show ?case using ok by blast
next
  case (delete now s now' uid mid b s')
  have ok: "repo_ok s'" using in_memory.delete_stays [OF _ delete.hyps(3)] delete.IH by blast
  have "repo_live s' i = repo_live s i \<or> repo_live s' i = None" for i
    using delete.hyps(3) unfolding delete_memory_def
    by (auto simp: in_memory_ops_def bindM_def thenM_def mem_get_memory_def mem_add_memory_event_def mem_delete_memory_def
        repo_live_def split: option.splits if_splits)
  then have "was_contender now c (repo_live s i)" if "repo_live s' i = Some c" "contender now c" for i c
    using that was_contender_same by (metis option.distinct(1))
  then have "solo now' (repo_live s')" using delete.IH by (intro solo_shrinks [OF _ delete.hyps(2)]) auto
  then show ?case using ok by blast
qed

text \<open>C37. In every state that the service reaches over the in-memory repository, a user has at most one
confirmed, active, unexpired memory of a conflict key: confirming another supersedes it.\<close>

theorem one_active_per_key:
  assumes "service_reachable in_memory_ops repo_live svc empty_repo now s"
    and "repo_live s i = Some a" and "repo_live s j = Some b" and "contender now a" and "contender now b"
    and "m_user a = m_user b" and "m_conflict_key a = m_conflict_key b"
  shows "i = j"
  using reachable_solo [OF assms(1)] soloD [OF _ assms(2-7)] by blast

definition one_confirmed :: state_repo where
  "one_confirmed = snd (confirm in_memory_ops (\<lambda>_. 0) ''u'' ''a'' one_stored)"

lemma one_confirmed_reachable: "service_reachable in_memory_ops repo_live default_service empty_repo 0 one_confirmed"
  by (rule service_reachable.confirm [OF one_stored_reachable, where t = "\<lambda>_. 0" and uid = "''u''" and mid = "''a''"
      and r' = "fst (confirm in_memory_ops (\<lambda>_. 0) ''u'' ''a'' one_stored)"])
    (simp_all add: one_confirmed_def)

lemma one_confirmed_live: "\<exists>m. repo_live one_confirmed ''a'' = Some m \<and> contender 0 m"
proof -
  let ?m = "new_memory default_service (\<lambda>_. 0) ''a'' ''u'' ''ask [REDACTED_PHONE]'' keyed_args None"
  have mem: "memories one_stored = [(''a'', ?m)]"
    by (simp add: one_stored_eq stored_new_def empty_repo_def new_memory_def)
  have "repo_live one_confirmed ''a'' = Some (?m\<lparr>m_status := MemConfirmed\<rparr>)"
    unfolding one_confirmed_def confirm_def
    by (simp add: in_memory_ops_def mem_set_memory_status_def mem_set_def mem new_memory_def bindM_def thenM_def whenM_def
        mem_add_memory_event_def mem_list_memories_def visible_def unexpired_def sort_desc_def repo_live_def
        keyed_args_def default_args_def truthy_def default_service_def day_def Let_def)
  then show ?thesis
    by (simp add: contender_def new_memory_def unexpired_def keyed_args_def default_args_def truthy_def
        default_service_def day_def)
qed

theorem one_active_per_key_witness:
  "\<exists>m. repo_live one_confirmed ''a'' = Some m \<and> contender 0 m \<and> (\<forall>j. repo_live one_confirmed j = Some m \<longrightarrow> j = ''a'')"
proof -
  obtain m where "repo_live one_confirmed ''a'' = Some m" "contender 0 m" using one_confirmed_live by blast
  then show ?thesis using one_active_per_key [OF one_confirmed_reachable] by metis
qed

text \<open>The atomic confirmation of the PostgreSQL repository never meets its unique index: of the user's
own memory, unless its conflict key is the empty text, it returns the memory confirmed; when the memory
is active and has a key, every other confirmed active memory of the key is superseded and closed, nothing
else changes, and at most one confirmed active memory of each user and key is left.\<close>

theorem pg_confirm_settles:
  assumes "pg_mem_ok s" and "pg_live s mid = Some target" and "m_user target = uid"
    and "m_conflict_key target \<noteq> Some []"
  shows "\<exists>s'. confirm (pg_memory_ops ty ce) t uid mid s = (Inr (Some (confirmed (t 0) target)), s') \<and>
    (\<forall>i. pg_live s' i = (if i = mid then Some (confirmed (t 0) target)
       else map_option (\<lambda>m. if supersedes mid uid target m then superseded (t 0) m else m) (pg_live s i))) \<and>
    one_per_key (pg_live s')"
proof -
  have "owned (map_of (memory_rows s) mid) uid = Some target" using assms by (simp add: pg_live_def)
  from pg_confirm_returns [OF assms(1) this assms(4), of ty "t 0"]
  obtain s' where c: "pg_confirm_memory_atomic ty (t 0) mid uid s = (Inr (Some (confirmed (t 0) target)), s')"
    and l: "pg_live s' = settled (t 0) mid uid target (pg_live s)" and o: "one_per_key (pg_live s')" by blast
  show ?thesis
    by (intro exI [of _ s'] conjI allI o) (simp_all only: confirm_def pg_memory_ops_def memory_ops.simps option.case c l settled_def)
qed

theorem pg_confirm_settles_witness:
  "\<exists>s'. confirm (pg_memory_ops plain_types (\<lambda>_. None)) (\<lambda>_. 5) ''u'' ''b'' sample_tables =
      (Inr (Some (confirmed 5 (sample_memory ''b'' ''u'' MemCandidate ''paid''))), s') \<and>
    pg_live s' ''a'' = Some (superseded 5 (sample_memory ''a'' ''u'' MemConfirmed ''sales''))"
proof -
  have "pg_live sample_tables ''b'' = Some (sample_memory ''b'' ''u'' MemCandidate ''paid'')"
    by (simp add: pg_live_def sample_tables_def)
  from pg_confirm_settles [OF sample_tables_ok this, of "''u''" plain_types "\<lambda>_. None" "\<lambda>_. 5"]
  obtain s' where "confirm (pg_memory_ops plain_types (\<lambda>_. None)) (\<lambda>_. 5) ''u'' ''b'' sample_tables =
      (Inr (Some (confirmed 5 (sample_memory ''b'' ''u'' MemCandidate ''paid''))), s')"
    and l: "\<forall>i. pg_live s' i = (if i = ''b'' then Some (confirmed 5 (sample_memory ''b'' ''u'' MemCandidate ''paid''))
       else map_option (\<lambda>m. if supersedes ''b'' ''u'' (sample_memory ''b'' ''u'' MemCandidate ''paid'') m then superseded 5 m else m)
         (pg_live sample_tables i))"
    by (auto simp: sample_memory_def)
  moreover have "pg_live s' ''a'' = Some (superseded 5 (sample_memory ''a'' ''u'' MemConfirmed ''sales''))"
    unfolding l [rule_format]
    by (simp add: pg_live_def sample_tables_def supersedes_def rival_def truthy_def sample_memory_def)
  ultimately show ?thesis by blast
qed

subsection \<open>Expiry and the limit\<close>

text \<open>A text that the user has stored before stays what it was: when an own memory of the type and the
normal form exists, creating it again returns that memory with only its time of update changed, so one that
has expired or was rejected stays expired or rejected, and no reader sees it.\<close>

theorem recreated_memory_keeps_its_state:
  assumes "pg_mem_ok s" and "pg_live s i = Some old" and "m_user old = uid" and "m_type old = ca_type a"
    and "m_normalized old = normalize_memory_content (sanitize_memory_content input)"
    and "\<And>j e. pg_live s j = Some e \<Longrightarrow> same_key e old \<Longrightarrow> j = i"
    and "create_candidate (pg_memory_ops ty ce) svc t fresh uid input a s = (Inr m, s')"
  shows "m = old\<lparr>m_updated := t 4\<rparr> \<and> pg_live s' = (pg_live s)(i \<mapsto> m) \<and>
    (unexpired (t 0) old \<or> (\<forall>now u sts g. t 0 \<le> now \<longrightarrow> \<not> visible now u sts g m))"
proof -
  let ?clean = "sanitize_memory_content input" and ?ops = "pg_memory_ops ty ce"
  obtain ms where l: "op_list_memories ?ops (t 0) uid None False s = (Inr ms, s)"
    using pg_memory.list_law [OF assms(1), of None ty ce "t 0" uid False] by auto
  obtain emb s1 where u: "op_upsert_memory ?ops (t 4) (new_memory svc t fresh uid ?clean a emb) s = (Inr m, s1)"
    and live: "pg_live s' = pg_live s1"
  proof -
    from assms(7) obtain emb where "bindM (op_upsert_memory ?ops (t 4) (new_memory svc t fresh uid ?clean a emb)) (\<lambda>stored.
        thenM (op_add_memory_event ?ops (memory_event_of (m_id stored) uid ''created''
           (JDict [(''source'', JStr (ca_source a))]))) (ret stored)) s = (Inr m, s')"
      unfolding create_candidate_def Let_def
      by (auto simp: bindM_Inr [where m = "op_list_memories ?ops (t 0) uid None False", OF l] split: if_splits sum.splits)
    then show ?thesis using that
      by (auto simp: bindM_def thenM_def pg_memory_ops_def pg_add_memory_event_def pg_live_def
          split: sum.splits prod.splits if_splits)
  qed
  let ?new = "new_memory svc t fresh uid ?clean a emb"
  have up: "upserted (t 4) ?new (pg_live s) (Inr m) (pg_live s')"
    using pg_memory.upsert_law [OF assms(1) u] live by simp
  have key: "same_key e ?new \<longleftrightarrow> same_key e old" for e
    using assms(3-5) by (simp add: same_key_def new_memory_def)
  have "same_key old ?new" by (simp add: key)
  then have "\<not> (\<forall>i e. pg_live s i = Some e \<longrightarrow> \<not> same_key e ?new)" using assms(2) by blast
  then obtain j e where e: "pg_live s j = Some e" "same_key e old" "m = e\<lparr>m_updated := t 4\<rparr>"
    "pg_live s' = (pg_live s)(j \<mapsto> m)"
    using up key by (auto simp: upserted_def)
  then have "j = i" using assms(6) by blast
  then have m: "m = old\<lparr>m_updated := t 4\<rparr>" "pg_live s' = (pg_live s)(i \<mapsto> m)" using e assms(2) by auto
  have "unexpired (t 0) old \<or> (\<forall>now u sts g. t 0 \<le> now \<longrightarrow> \<not> visible now u sts g m)"
    using m(1) by (auto simp: unexpired_def visible_def split: option.splits)
  then show ?thesis using m by blast
qed

lemma normal_sales: "sanitize_memory_content ''sales'' = ''sales''" "normalize_memory_content ''sales'' = ''sales''"
  by code_simp+

theorem recreated_memory_keeps_its_state_witness:
  "\<exists>m s'. create_candidate (pg_memory_ops plain_types (\<lambda>_. None)) default_service (\<lambda>_. 200) ''d'' ''u'' ''sales'' default_args
      sample_tables = (Inr m, s') \<and> m_id m = ''a'' \<and> m_status m = MemConfirmed \<and> \<not> visible 200 ''u'' None False m"
proof -
  let ?old = "sample_memory ''a'' ''u'' MemConfirmed ''sales''"
  obtain m s' where call: "create_candidate (pg_memory_ops plain_types (\<lambda>_. None)) default_service (\<lambda>_. 200) ''d'' ''u'' ''sales''
      default_args sample_tables = (Inr m, s')"
    unfolding create_candidate_def normal_sales
    by (simp add: pg_memory_ops_def pg_list_memories_def sample_tables_def sample_memory_def visible_def unexpired_def
        sort_desc_def bindM_def thenM_def default_service_def active_count_def embedding_of_def pg_upsert_memory_def
        new_memory_def same_key_def default_args_def normal_sales pg_add_memory_event_def memory_event_of_def Let_def)
  have live: "pg_live sample_tables ''a'' = Some ?old" by (simp add: pg_live_def sample_tables_def)
  have "m = ?old\<lparr>m_updated := 200\<rparr> \<and> pg_live s' = (pg_live sample_tables)(''a'' \<mapsto> m) \<and>
      (unexpired 200 ?old \<or> (\<forall>now u sts g. 200 \<le> now \<longrightarrow> \<not> visible now u sts g m))"
    by (rule recreated_memory_keeps_its_state [OF sample_tables_ok live _ _ _ _ call])
      (auto simp: sample_memory_def default_args_def normal_sales same_key_def pg_live_def sample_tables_def split: if_splits)
  moreover have "\<not> unexpired 200 ?old" by (simp add: sample_memory_def unexpired_def)
  ultimately show ?thesis using call by (auto simp: sample_memory_def)
qed

lemma update_new: "k \<notin> fst ` set d \<Longrightarrow> AList.update k v d = d @ [(k, v)]"
  by (induction d) auto

lemma length_filter_mono: "(\<And>x. x \<in> set xs \<Longrightarrow> P x \<Longrightarrow> Q x) \<Longrightarrow> length (filter P xs) \<le> length (filter Q xs)"
  by (induction xs) (auto simp: le_SucI)

lemma active_count_filter: "active_count (filter P ms) = length (filter (\<lambda>m. P m \<and> m_status m \<noteq> MemRejected) ms)"
  by (simp add: active_count_def conj_commute)

lemma count_after_insert:
  assumes "map_of d k = None" and "t \<le> now"
  shows "active_count (filter (visible now uid None False) (map snd (AList.update k m d))) \<le>
    Suc (active_count (filter (visible t uid None False) (map snd d)))"
proof -
  have "k \<notin> fst ` set d" using assms(1) by (simp add: map_of_eq_None_iff)
  moreover have "visible t uid None False x" if "visible now uid None False x" for x
    using that assms(2) by (auto simp: visible_def unexpired_def split: option.splits)
  then have "active_count (filter (visible now uid None False) (map snd d)) \<le>
      active_count (filter (visible t uid None False) (map snd d))"
    unfolding active_count_filter by (intro length_filter_mono) auto
  ultimately show ?thesis by (simp add: update_new) (simp add: active_count_def)
qed

text \<open>The limit on active memories bounds a creation: one that stores a new memory leaves the user at
most \<open>max_active_per_user\<close> unexpired memories that are not rejected. It does not bound a review:
\<open>review_passes_limit\<close>.\<close>

theorem creation_respects_limit:
  assumes "repo_ok s" and "repo_live s fresh = None" and "t 0 \<le> now"
    and "create_candidate in_memory_ops svc t fresh uid input a s = (r, s')" and "repo_live s' fresh \<noteq> None"
  shows "int (active_count (users_memories now uid s')) \<le> ms_max_active svc"
proof -
  let ?clean = "sanitize_memory_content input"
  let ?ms = "sort_desc m_updated (users_memories (t 0) uid s)"
  let ?new = "\<lambda>emb. new_memory svc t fresh uid ?clean a emb"
  have l: "op_list_memories in_memory_ops (t 0) uid None False s = (Inr ?ms, s)"
    by (simp add: in_memory_ops_def mem_list_memories_def users_memories_def)
  have "s' \<noteq> s" using assms(2,5) by auto
  then obtain emb where bound: "find (\<lambda>m. m_type m = ca_type a \<and> m_normalized m = normalize_memory_content ?clean) ?ms \<noteq> None \<or>
      int (active_count (users_memories (t 0) uid s)) < ms_max_active svc"
    and call: "bindM (op_upsert_memory in_memory_ops (t 4) (?new emb)) (\<lambda>stored.
        thenM (op_add_memory_event in_memory_ops (memory_event_of (m_id stored) uid ''created''
           (JDict [(''source'', JStr (ca_source a))]))) (ret stored)) s = (r, s')"
    using assms(4) unfolding create_candidate_def Let_def
    by (auto simp: bindM_Inr [where m = "op_list_memories in_memory_ops (t 0) uid None False", OF l] split: if_splits sum.splits)
  obtain r1 s1 where u: "op_upsert_memory in_memory_ops (t 4) (?new emb) s = (r1, s1)"
    by (cases "op_upsert_memory in_memory_ops (t 4) (?new emb) s")
  have mem: "memories s' = memories s1"
    using call by (cases r1) (auto simp: bindM_def u thenM_def in_memory_event_effect)
  have nf: "find (\<lambda>(_, e). same_key e (?new emb)) (memories s) = None"
  proof (rule ccontr)
    assume "\<not> ?thesis"
    then obtain k e where f: "find (\<lambda>(_, e). same_key e (?new emb)) (memories s) = Some (k, e)" by auto
    then have "memories s1 = AList.update k (e\<lparr>m_updated := t 4\<rparr>) (memories s)"
      using u by (auto simp: in_memory_ops_def mem_upsert_memory_def Let_def)
    moreover have "map_of (memories s) k = Some e"
      using find_key_Some(1) [OF f] assms(1) by (simp add: repo_ok_def)
    ultimately have "repo_live s' fresh = None" using assms(2) by (auto simp: repo_live_def mem)
    then show False using assms(5) by simp
  qed
  then have s1: "memories s1 = AList.update fresh (?new emb) (memories s)"
    using u by (auto simp: in_memory_ops_def mem_upsert_memory_def new_memory_def)
  have "find (\<lambda>m. m_type m = ca_type a \<and> m_normalized m = normalize_memory_content ?clean) ?ms = None"
    using nf by (force simp: find_None_iff users_memories_def visible_def same_key_def new_memory_def)
  then have "int (active_count (users_memories (t 0) uid s)) < ms_max_active svc" using bound by simp
  then show ?thesis
    using count_after_insert [of "memories s" fresh "t 0" now uid "?new emb"] assms(2,3)
    by (simp add: users_memories_def mem s1 repo_live_def)
qed

theorem creation_respects_limit_witness:
  "int (active_count (users_memories 0 ''u'' one_stored)) \<le> 500"
proof -
  have "int (active_count (users_memories 0 ''u'' one_stored)) \<le> ms_max_active default_service"
    by (rule creation_respects_limit [of empty_repo "''a''" "\<lambda>_. 0" 0 default_service "''u''" "''ask 13812345678''" keyed_args
        "fst (create_candidate in_memory_ops default_service (\<lambda>_. 0) ''a'' ''u'' ''ask 13812345678'' keyed_args empty_repo)"])
      (simp_all add: repo_ok_def repo_live_def empty_repo_def [unfolded repo_live_def] one_stored_live [unfolded repo_live_def]
        one_stored_def [symmetric, unfolded empty_repo_def] prod_eq_iff)
  then show ?thesis by (simp add: default_service_def)
qed

text \<open>A review can pass the limit: with room for one memory, a user stores a text, rejects it, stores
another, and confirms the first one.\<close>

definition one_place :: memory_service where
  "one_place = default_service\<lparr>ms_max_active := 1\<rparr>"

definition first_memory :: memory_record where
  "first_memory = new_memory one_place (\<lambda>_. 0) ''a'' ''u'' ''ask [REDACTED_PHONE]'' keyed_args None"

definition second_memory :: memory_record where
  "second_memory = new_memory one_place (\<lambda>_. 0) ''b'' ''u'' ''sales'' keyed_args None"

lemma texts_differ: "normalize_memory_content ''ask [REDACTED_PHONE]'' \<noteq> normalize_memory_content ''sales''"
  by code_simp

lemma review_passes_limit:
  "\<exists>s1 s2 s3 s4. create_candidate in_memory_ops one_place (\<lambda>_. 0) ''a'' ''u'' ''ask 13812345678'' keyed_args empty_repo = (Inr first_memory, s1) \<and>
     reject in_memory_ops (\<lambda>_. 0) ''u'' ''a'' s1 = (Inr (Some (first_memory\<lparr>m_status := MemRejected\<rparr>)), s2) \<and>
     create_candidate in_memory_ops one_place (\<lambda>_. 0) ''b'' ''u'' ''sales'' keyed_args s2 = (Inr second_memory, s3) \<and>
     confirm in_memory_ops (\<lambda>_. 0) ''u'' ''a'' s3 = (Inr (Some (first_memory\<lparr>m_status := MemConfirmed\<rparr>)), s4) \<and>
     ms_max_active one_place < int (active_count (users_memories 0 ''u'' s4))"
proof -
  have one: "ms_max_active one_place = 1" "ms_embedder one_place = None" by (simp_all add: one_place_def default_service_def)
  have first: "m_id first_memory = ''a''" "m_user first_memory = ''u''" "m_status first_memory = MemCandidate"
    "m_expires first_memory = Some (90 * day)" "m_validity first_memory = MemActive" "m_conflict_key first_memory = Some ''k''"
    "m_updated first_memory = 0" "m_normalized first_memory = normalize_memory_content ''ask [REDACTED_PHONE]''"
    and second: "m_id second_memory = ''b''" "m_user second_memory = ''u''" "m_status second_memory = MemCandidate"
    "m_expires second_memory = Some (90 * day)" "m_normalized second_memory = normalize_memory_content ''sales''"
    by (simp_all add: first_memory_def second_memory_def new_memory_def keyed_args_def default_args_def one_place_def
        default_service_def)
  have d: "0 < day" by (simp add: day_def)
  let ?s1 = "stored_new first_memory ''u'' keyed_args empty_repo"
  have c1: "create_candidate in_memory_ops one_place (\<lambda>_. 0) ''a'' ''u'' ''ask 13812345678'' keyed_args empty_repo = (Inr first_memory, ?s1)"
    unfolding first_memory_def
    by (rule create_stores_new [OF sanitize_sample])
      (simp_all add: one empty_repo_def users_memories_def active_count_def)
  have m1: "memories ?s1 = [(''a'', first_memory)]" by (simp add: stored_new_def empty_repo_def first)
  obtain s2 where c2: "reject in_memory_ops (\<lambda>_. 0) ''u'' ''a'' ?s1 = (Inr (Some (first_memory\<lparr>m_status := MemRejected\<rparr>)), s2)"
    and m2: "memories s2 = [(''a'', first_memory\<lparr>m_status := MemRejected\<rparr>)]"
    by (simp add: reject_def in_memory_ops_def mem_set_memory_status_def mem_set_def m1 first Let_def bindM_def thenM_def
        mem_add_memory_event_def)
  let ?s3 = "stored_new second_memory ''u'' keyed_args s2"
  have c3: "create_candidate in_memory_ops one_place (\<lambda>_. 0) ''b'' ''u'' ''sales'' keyed_args s2 = (Inr second_memory, ?s3)"
    unfolding second_memory_def
  proof (rule create_stores_new [OF normal_sales(1)])
    fix k e assume "(k, e) \<in> set (memories s2)"
    then show "\<not> same_key e (new_memory one_place (\<lambda>_. 0) ''b'' ''u'' ''sales'' keyed_args None)"
      using texts_differ by (simp add: m2 same_key_def first new_memory_def)
  qed (simp_all add: one users_memories_def m2 active_count_def)
  have m3: "memories ?s3 = [(''a'', first_memory\<lparr>m_status := MemRejected\<rparr>), (''b'', second_memory)]"
    by (simp add: stored_new_def m2 second)
  have ok3: "repo_ok ?s3" by (simp add: repo_ok_def m3 first second)
  obtain s4 where c4: "confirm in_memory_ops (\<lambda>_. 0) ''u'' ''a'' ?s3 = (Inr (Some (first_memory\<lparr>m_status := MemConfirmed\<rparr>)), s4)"
    and m4: "memories s4 = [(''a'', first_memory\<lparr>m_status := MemConfirmed\<rparr>), (''b'', second_memory)]"
    by (simp add: confirm_def in_memory_ops_def mem_set_memory_status_def mem_set_def m3 first second Let_def bindM_def
        thenM_def whenM_def mem_add_memory_event_def mem_list_memories_def visible_def unexpired_def sort_desc_def truthy_def day_def)
  have "active_count (users_memories 0 ''u'' s4) = 2"
    using d by (simp add: users_memories_def m4 active_count_def visible_def unexpired_def first second)
  then show ?thesis using c1 c2 c3 c4 one by (intro exI conjI) auto
qed

subsection \<open>The two repositories hold the same conversations\<close>

text \<open>What PostgreSQL keeps of a payload that the in-memory repository keeps whole: user, time of update
and messages, with the messages as \<open>jsonb\<close> holds them.\<close>

type_synonym conversation_essence = "string \<times> string \<times> time \<times> message list"

definition essence :: "(message \<Rightarrow> message) \<Rightarrow> conversation \<Rightarrow> conversation_essence" where
  "essence f c = (conv_id c, conv_user c, moment (conv_updated c), map f (conv_messages c))"

definition as_jsonb :: "pg_types \<Rightarrow> message \<Rightarrow> message" where
  "as_jsonb ty m = m\<lparr>msg_rest := jsonb ty (msg_rest m)\<rparr>"

definition read_row :: "string \<Rightarrow> pg_state \<Rightarrow> conversation option" where
  "read_row cid s = map_option (\<lambda>row. row\<lparr>conv_messages := pg_messages cid s\<rparr>) (map_of (conversation_rows s) cid)"

definition same_conversations :: "pg_types \<Rightarrow> pg_state \<Rightarrow> state_repo \<Rightarrow> bool" where
  "same_conversations ty s r \<longleftrightarrow>
     distinct (map fst (conversation_rows s)) \<and> distinct (map fst (conversations r)) \<and>
     (\<forall>cid. map_option (essence id) (read_row cid s) = map_option (essence (as_jsonb ty)) (map_of (conversations r) cid)) \<and>
     (\<forall>cid c. map_of (conversations r) cid = Some c \<longrightarrow> conv_id c = cid) \<and>
     (\<forall>cid. map_of (conversation_rows s) cid = None \<longrightarrow> pg_messages cid s = [])"

definition rows_for :: "string \<Rightarrow> (string \<times> nat \<times> message) list \<Rightarrow> message list" where
  "rows_for cid rows = map (\<lambda>row. snd (snd row)) (sort_key (\<lambda>row. fst (snd row)) (filter (\<lambda>row. fst row = cid) rows))"

lemma pg_messages_rows: "pg_messages cid s = rows_for cid (message_rows s)"
  by (simp add: pg_messages_def rows_for_def)

lemma rows_for_numbered: "rows_for cid (number_messages ty c) =
    (if cid = conv_id c then map (as_jsonb ty) (conv_messages c) else [])"
proof (cases "cid = conv_id c")
  case True
  let ?rows = "number_messages ty c"
  have "filter (\<lambda>row. fst row = cid) ?rows = ?rows"
    unfolding number_messages_def using True by (intro filter_True) auto
  moreover have "map (\<lambda>row. fst (snd row)) ?rows = map fst (enumerate 0 (conv_messages c))"
    by (simp add: number_messages_def case_prod_unfold comp_def del: map_fst_enumerate)
  then have "sort_key (\<lambda>row. fst (snd row)) ?rows = ?rows"
    by (intro sort_key_id_if_sorted) simp
  moreover have "map (\<lambda>row. snd (snd row)) ?rows = map (as_jsonb ty) (map snd (enumerate 0 (conv_messages c)))"
    by (simp add: number_messages_def as_jsonb_def case_prod_unfold comp_def del: map_snd_enumerate)
  ultimately show ?thesis using True by (simp add: rows_for_def)
next
  case False
  then have "filter (\<lambda>row. fst row = cid) (number_messages ty c) = []"
    by (auto simp: number_messages_def filter_empty_conv)
  then show ?thesis using False by (simp add: rows_for_def)
qed

lemma rows_for_Nil: "rows_for cid rows = [] \<longleftrightarrow> filter (\<lambda>row. fst row = cid) rows = []"
proof -
  have "length (rows_for cid rows) = length (filter (\<lambda>row. fst row = cid) rows)" by (simp add: rows_for_def)
  then show ?thesis by (metis length_0_conv)
qed

lemma rows_for_append: "rows_for cid xs = [] \<or> rows_for cid ys = [] \<Longrightarrow> rows_for cid (xs @ ys) = rows_for cid xs @ rows_for cid ys"
  unfolding rows_for_Nil by (auto simp: rows_for_def)

lemma rows_for_filter: "rows_for cid (filter (\<lambda>row. P (fst row)) rows) = (if P cid then rows_for cid rows else [])"
proof -
  have "(\<lambda>row. P (fst row) \<and> fst row = cid) = (\<lambda>row :: string \<times> nat \<times> message. P cid \<and> fst row = cid)"
    by (rule ext) auto
  then have "filter (\<lambda>row. fst row = cid) (filter (\<lambda>row. P (fst row)) rows) = filter (\<lambda>row. P cid \<and> fst row = cid) rows"
    by (simp add: filter_filter)
  then show ?thesis by (simp add: rows_for_def)
qed

lemma same_conversationsD:
  assumes "same_conversations ty s r"
  shows "map_of (conversation_rows s) cid = None \<longleftrightarrow> map_of (conversations r) cid = None"
    and "map_of (conversation_rows s) cid = Some row \<Longrightarrow> map_of (conversations r) cid = Some c \<Longrightarrow>
      conv_id row = cid \<and> conv_user row = conv_user c \<and> moment (conv_updated row) = moment (conv_updated c)"
proof -
  have e: "map_option (essence id) (read_row cid s) = map_option (essence (as_jsonb ty)) (map_of (conversations r) cid)"
    using assms by (simp add: same_conversations_def)
  show "map_of (conversation_rows s) cid = None \<longleftrightarrow> map_of (conversations r) cid = None"
    using e by (auto simp: read_row_def map_option_case split: option.splits)
  show "map_of (conversation_rows s) cid = Some row \<Longrightarrow> map_of (conversations r) cid = Some c \<Longrightarrow>
      conv_id row = cid \<and> conv_user row = conv_user c \<and> moment (conv_updated row) = moment (conv_updated c)"
    using e assms by (simp add: read_row_def essence_def same_conversations_def)
qed

text \<open>Writing the row and the messages of a conversation on one side and the payload on the other keeps
the two in step.\<close>

lemma same_after_write:
  assumes same: "same_conversations ty s r"
    and row: "conv_id row = conv_id c" "conv_user row = conv_user c" "moment (conv_updated row) = moment (conv_updated c)"
    and msgs: "\<And>cid. rows_for cid (message_rows s') =
      (if cid = conv_id c then map (as_jsonb ty) (conv_messages c) else rows_for cid (message_rows s))"
    and rows: "conversation_rows s' = AList.update (conv_id c) row (conversation_rows s)"
    and conv: "conversations r' = AList.update (conv_id c) c (conversations r)"
  shows "same_conversations ty s' r'"
proof -
  have "map_option (essence id) (read_row cid s') = map_option (essence (as_jsonb ty)) (map_of (conversations r') cid)" for cid
  proof (cases "cid = conv_id c")
    case True
    then show ?thesis using row by (simp add: read_row_def rows conv essence_def pg_messages_rows msgs)
  next
    case False
    then have "read_row cid s' = read_row cid s" by (simp add: read_row_def rows pg_messages_rows msgs)
    then show ?thesis using same False by (simp add: same_conversations_def conv)
  qed
  moreover have "map_of (conversation_rows s') cid = None \<longrightarrow> pg_messages cid s' = []" for cid
    using same by (simp add: same_conversations_def rows pg_messages_rows msgs)
  ultimately show ?thesis using same by (simp add: same_conversations_def rows conv distinct_update)
qed

text \<open>Removing a set of conversations on both sides.\<close>

lemma same_after_removal:
  assumes same: "same_conversations ty s r"
    and rows: "\<And>cid. map_of (conversation_rows s') cid = (if cid \<in> gone then None else map_of (conversation_rows s) cid)"
    and msgs: "\<And>cid. rows_for cid (message_rows s') = (if cid \<in> gone then [] else rows_for cid (message_rows s))"
    and conv: "\<And>cid. map_of (conversations r') cid = (if cid \<in> gone then None else map_of (conversations r) cid)"
    and d: "distinct (map fst (conversation_rows s'))" "distinct (map fst (conversations r'))"
  shows "same_conversations ty s' r'"
proof -
  have "read_row cid s' = (if cid \<in> gone then None else read_row cid s)" for cid
    by (simp add: read_row_def rows pg_messages_rows msgs)
  then have "map_option (essence id) (read_row cid s') = map_option (essence (as_jsonb ty)) (map_of (conversations r') cid)" for cid
    using same by (simp add: same_conversations_def conv)
  moreover have "map_of (conversation_rows s') cid = None \<longrightarrow> pg_messages cid s' = []" for cid
    using same by (simp add: same_conversations_def rows pg_messages_rows msgs)
  moreover have "conv_id c = cid" if "map_of (conversations r') cid = Some c" for cid c
    using same that by (simp add: same_conversations_def conv split: if_splits)
  ultimately show ?thesis using d unfolding same_conversations_def by blast
qed

lemma map_of_delete_all:
  "map_of (foldl (\<lambda>d k. AList.delete k d) d ks) k = (if k \<in> set ks then None else map_of d k)"
  by (induction ks arbitrary: d) auto

lemma distinct_delete_all: "distinct (map fst d) \<Longrightarrow> distinct (map fst (foldl (\<lambda>d k. AList.delete k d) d ks))"
  by (induction ks arbitrary: d) (simp_all add: distinct_delete)

definition where_value :: "('v \<Rightarrow> bool) \<Rightarrow> (string, 'v) dict \<Rightarrow> string list" where
  "where_value P d = map fst (filter (\<lambda>e. P (snd e)) d)"

lemma where_value_set:
  "distinct (map fst d) \<Longrightarrow> k \<in> set (where_value P d) \<longleftrightarrow> (\<exists>v. map_of d k = Some v \<and> P v)"
  by (auto simp: where_value_def intro!: image_eqI dest: map_of_SomeD)

lemma where_value_distinct: "distinct (map fst d) \<Longrightarrow> distinct (where_value P d)"
  by (simp add: where_value_def distinct_map_filter)

lemma map_of_filter_value:
  "distinct (map fst d) \<Longrightarrow> map_of (filter (\<lambda>e. P (snd e)) d) k = (case map_of d k of None \<Rightarrow> None | Some v \<Rightarrow> if P v then Some v else None)"
proof (induction d)
  case (Cons e d)
  have "k = fst e \<Longrightarrow> map_of d k = None" using Cons.prems by (auto simp: map_of_eq_None_iff)
  then show ?case using Cons by (cases e) (auto split: option.splits)
qed simp

lemma get_agrees:
  assumes "same_conversations ty s r"
  shows "\<exists>x y. pg_get_conversation cid uid s = (Inr x, s) \<and> mem_get_conversation cid uid r = (Inr y, r) \<and>
    map_option (essence id) x = map_option (essence (as_jsonb ty)) y"
proof (cases "map_of (conversation_rows s) cid")
  case None
  then have "map_of (conversations r) cid = None" using same_conversationsD(1) [OF assms] by blast
  then show ?thesis using None by (simp add: pg_get_conversation_def mem_get_conversation_def)
next
  case (Some a)
  then obtain b where b: "map_of (conversations r) cid = Some b" using same_conversationsD(1) [OF assms, of cid] by fastforce
  have "map_option (essence id) (read_row cid s) = map_option (essence (as_jsonb ty)) (map_of (conversations r) cid)"
    using assms by (simp add: same_conversations_def)
  then show ?thesis using same_conversationsD(2) [OF assms Some b] Some b
    by (auto simp: pg_get_conversation_def mem_get_conversation_def read_row_def)
qed

lemma same_after_save:
  assumes "same_conversations ty s r"
    and "conv_id row = conv_id c" "conv_user row = conv_user c" "moment (conv_updated row) = moment (conv_updated c)"
  shows "same_conversations ty
     (s\<lparr>conversation_rows := AList.update (conv_id c) row (conversation_rows s),
        message_rows := filter (\<lambda>x. fst x \<noteq> conv_id c) (message_rows s) @ number_messages ty c\<rparr>)
     (r\<lparr>conversations := AList.update (conv_id c) c (conversations r)\<rparr>)"
proof (rule same_after_write [OF assms])
  fix k
  have "rows_for k (filter (\<lambda>x. fst x \<noteq> conv_id c) (message_rows s)) = (if k \<noteq> conv_id c then rows_for k (message_rows s) else [])"
    by (rule rows_for_filter)
  then show "rows_for k (message_rows (s\<lparr>conversation_rows := AList.update (conv_id c) row (conversation_rows s),
        message_rows := filter (\<lambda>x. fst x \<noteq> conv_id c) (message_rows s) @ number_messages ty c\<rparr>)) =
      (if k = conv_id c then map (as_jsonb ty) (conv_messages c) else rows_for k (message_rows s))"
    by (simp add: rows_for_append rows_for_numbered)
qed simp_all

lemma save_agrees:
  assumes "same_conversations ty s r" and "ce c = None"
  shows "fst (pg_save_conversation ty ce c s) = fst (mem_save_conversation c r) \<and>
     same_conversations ty (snd (pg_save_conversation ty ce c s)) (snd (mem_save_conversation c r))"
proof (cases "map_of (conversation_rows s) (conv_id c)")
  case None
  then have "map_of (conversations r) (conv_id c) = None" using same_conversationsD(1) [OF assms(1)] by blast
  moreover have "same_conversations ty
     (s\<lparr>conversation_rows := AList.update (conv_id c) (conversation_row ty c) (conversation_rows s),
        message_rows := filter (\<lambda>x. fst x \<noteq> conv_id c) (message_rows s) @ number_messages ty c\<rparr>)
     (r\<lparr>conversations := AList.update (conv_id c) c (conversations r)\<rparr>)"
    by (rule same_after_save [OF assms(1)]) (simp_all add: conversation_row_def column_stamp_def)
  ultimately show ?thesis using None assms(2)
    by (simp add: pg_save_conversation_def mem_save_conversation_def Let_def)
next
  case (Some a)
  then obtain b where b: "map_of (conversations r) (conv_id c) = Some b"
    using same_conversationsD(1) [OF assms(1), of "conv_id c"] by fastforce
  note ab = same_conversationsD(2) [OF assms(1) Some b]
  let ?row = "a\<lparr>conv_snapshot := conv_snapshot (conversation_row ty c), conv_metadata := conv_metadata (conversation_row ty c),
     conv_updated := conv_updated (conversation_row ty c)\<rparr>"
  show ?thesis
  proof (cases "conv_user b = conv_user c")
    case True
    have "same_conversations ty
       (s\<lparr>conversation_rows := AList.update (conv_id c) ?row (conversation_rows s),
          message_rows := filter (\<lambda>x. fst x \<noteq> conv_id c) (message_rows s) @ number_messages ty c\<rparr>)
       (r\<lparr>conversations := AList.update (conv_id c) c (conversations r)\<rparr>)"
      by (rule same_after_save [OF assms(1)]) (use ab True in \<open>simp_all add: conversation_row_def column_stamp_def\<close>)
    then show ?thesis using Some b ab True assms(2)
      by (simp add: pg_save_conversation_def mem_save_conversation_def Let_def)
  next
    case False
    then show ?thesis using Some b ab assms(1)
      by (simp add: pg_save_conversation_def mem_save_conversation_def Let_def)
  qed
qed

lemma create_agrees:
  assumes "same_conversations ty s r" and "ce c = None"
  shows "((\<exists>e. fst (pg_create_conversation ty ce c s) = Inl e) = (\<exists>e. fst (mem_create_conversation c r) = Inl e)) \<and>
     same_conversations ty (snd (pg_create_conversation ty ce c s)) (snd (mem_create_conversation c r))"
proof (cases "map_of (conversation_rows s) (conv_id c)")
  case None
  then have m: "map_of (conversations r) (conv_id c) = None" using same_conversationsD(1) [OF assms(1)] by blast
  have "rows_for (conv_id c) (message_rows s) = []"
    using assms(1) None by (simp add: same_conversations_def pg_messages_rows)
  then have "filter (\<lambda>x. fst x \<noteq> conv_id c) (message_rows s) = message_rows s"
    unfolding rows_for_Nil by (auto simp: filter_empty_conv filter_id_conv)
  then have "same_conversations ty
     (s\<lparr>conversation_rows := AList.update (conv_id c) (conversation_row ty c) (conversation_rows s),
        message_rows := message_rows s @ number_messages ty c\<rparr>)
     (r\<lparr>conversations := AList.update (conv_id c) c (conversations r)\<rparr>)"
    using same_after_save [OF assms(1), of "conversation_row ty c" c] by (simp add: conversation_row_def column_stamp_def)
  then show ?thesis using None m assms(2) by (simp add: pg_create_conversation_def mem_create_conversation_def)
next
  case (Some a)
  then have "map_of (conversations r) (conv_id c) \<noteq> None" using same_conversationsD(1) [OF assms(1), of "conv_id c"] by simp
  then show ?thesis using Some assms by (auto simp: pg_create_conversation_def mem_create_conversation_def)
qed

lemma delete_agrees:
  assumes "same_conversations ty s r"
  shows "fst (pg_delete_conversation cid uid s) = fst (mem_delete_conversation cid uid r) \<and>
     same_conversations ty (snd (pg_delete_conversation cid uid s)) (snd (mem_delete_conversation cid uid r))"
proof (cases "map_of (conversation_rows s) cid")
  case None
  then have "map_of (conversations r) cid = None" using same_conversationsD(1) [OF assms] by blast
  then show ?thesis using None assms
    by (simp add: pg_delete_conversation_def mem_delete_conversation_def mem_get_conversation_def bindM_def)
next
  case (Some a)
  then obtain b where b: "map_of (conversations r) cid = Some b" using same_conversationsD(1) [OF assms, of cid] by fastforce
  note ab = same_conversationsD(2) [OF assms Some b]
  have dist: "distinct (map fst (conversation_rows s))" "distinct (map fst (conversations r))"
    using assms by (simp_all add: same_conversations_def)
  have "same_conversations ty (s\<lparr>conversation_rows := AList.delete cid (conversation_rows s),
        message_rows := filter (\<lambda>row. fst row \<noteq> cid) (message_rows s)\<rparr>) (r\<lparr>conversations := AList.delete cid (conversations r)\<rparr>)"
    using dist by (intro same_after_removal [OF assms, where gone = "{cid}"])
      (auto simp: distinct_delete rows_for_filter [where P = "\<lambda>k. k \<noteq> cid"])
  then show ?thesis using Some b ab assms
    by (auto simp: pg_delete_conversation_def mem_delete_conversation_def mem_get_conversation_def bindM_def)
qed

lemma retention_agrees:
  assumes "same_conversations ty s r"
  shows "fst (pg_delete_expired now days s) = fst (mem_delete_expired now days r) \<and>
     same_conversations ty (snd (pg_delete_expired now days s)) (snd (mem_delete_expired now days r))"
proof (cases "days < 1")
  case True
  then show ?thesis using assms by (simp add: pg_delete_expired_def mem_delete_expired_def)
next
  case False
  let ?old = "\<lambda>c. moment (conv_updated c) < now - days * day"
  let ?gone = "where_value ?old (conversation_rows s)" and ?gone' = "where_value ?old (conversations r)"
  have dist: "distinct (map fst (conversation_rows s))" "distinct (map fst (conversations r))"
    using assms by (simp_all add: same_conversations_def)
  have "k \<in> set ?gone \<longleftrightarrow> k \<in> set ?gone'" for k
  proof (cases "map_of (conversation_rows s) k")
    case None
    then have "map_of (conversations r) k = None" using same_conversationsD(1) [OF assms] by blast
    then show ?thesis using None by (simp add: where_value_set dist)
  next
    case (Some a)
    then obtain b where b: "map_of (conversations r) k = Some b" using same_conversationsD(1) [OF assms, of k] by fastforce
    then show ?thesis using Some same_conversationsD(2) [OF assms Some b] by (simp add: where_value_set dist)
  qed
  then have gone: "set ?gone = set ?gone'" by blast
  have "length ?gone = length ?gone'"
    using gone distinct_card [OF where_value_distinct [OF dist(1)], of ?old] distinct_card [OF where_value_distinct [OF dist(2)], of ?old]
    by simp
  moreover have "same_conversations ty
     (s\<lparr>conversation_rows := filter (\<lambda>e. \<not> ?old (snd e)) (conversation_rows s),
        message_rows := filter (\<lambda>row. fst row \<notin> set ?gone) (message_rows s)\<rparr>)
     (r\<lparr>conversations := foldl (\<lambda>d k. AList.delete k d) (conversations r) ?gone'\<rparr>)"
  proof (rule same_after_removal [OF assms, where gone = "set ?gone"])
    fix k
    show "map_of (conversation_rows (s\<lparr>conversation_rows := filter (\<lambda>e. \<not> ?old (snd e)) (conversation_rows s),
        message_rows := filter (\<lambda>row. fst row \<notin> set ?gone) (message_rows s)\<rparr>)) k =
        (if k \<in> set ?gone then None else map_of (conversation_rows s) k)"
      using map_of_filter_value [OF dist(1), of "\<lambda>v. \<not> ?old v" k] where_value_set [OF dist(1), of k ?old]
      by (auto split: option.splits)
  next
    fix k
    show "rows_for k (message_rows (s\<lparr>conversation_rows := filter (\<lambda>e. \<not> ?old (snd e)) (conversation_rows s),
        message_rows := filter (\<lambda>row. fst row \<notin> set ?gone) (message_rows s)\<rparr>)) =
        (if k \<in> set ?gone then [] else rows_for k (message_rows s))"
      using rows_for_filter [of k "\<lambda>k. k \<notin> set ?gone" "message_rows s"] by simp
  next
    fix k
    show "map_of (conversations (r\<lparr>conversations := foldl (\<lambda>d k. AList.delete k d) (conversations r) ?gone'\<rparr>)) k =
        (if k \<in> set ?gone then None else map_of (conversations r) k)"
      by (simp add: map_of_delete_all gone)
  qed (simp_all add: dist distinct_delete_all distinct_map_filter)
  ultimately show ?thesis using False
    by (simp add: pg_delete_expired_def mem_delete_expired_def Let_def where_value_def case_prod_unfold)
qed

text \<open>Over the two repositories the operations on conversations do the same: from states that hold the
same conversations, \<open>get\<close> reads the same user and messages, \<open>save\<close>, \<open>delete\<close> and the retention job return
the same (refusing another user's conversation alike), \<open>create\<close> succeeds on both or fails on both, and
after each of them the states hold the same conversations.\<close>

theorem conversation_stores_agree:
  assumes "same_conversations ty s r" and "ce c = None"
  shows "(\<exists>x y. pg_get_conversation cid uid s = (Inr x, s) \<and> mem_get_conversation cid uid r = (Inr y, r) \<and>
        map_option (essence id) x = map_option (essence (as_jsonb ty)) y) \<and>
     (fst (pg_save_conversation ty ce c s) = fst (mem_save_conversation c r) \<and>
     same_conversations ty (snd (pg_save_conversation ty ce c s)) (snd (mem_save_conversation c r))) \<and>
     (((\<exists>e. fst (pg_create_conversation ty ce c s) = Inl e) = (\<exists>e. fst (mem_create_conversation c r) = Inl e)) \<and>
     same_conversations ty (snd (pg_create_conversation ty ce c s)) (snd (mem_create_conversation c r))) \<and>
     (fst (pg_delete_conversation cid uid s) = fst (mem_delete_conversation cid uid r) \<and>
     same_conversations ty (snd (pg_delete_conversation cid uid s)) (snd (mem_delete_conversation cid uid r))) \<and>
     (fst (pg_delete_expired now days s) = fst (mem_delete_expired now days r) \<and>
     same_conversations ty (snd (pg_delete_expired now days s)) (snd (mem_delete_expired now days r)))"
  using assms by (intro conjI get_agrees save_agrees create_agrees delete_agrees retention_agrees)

definition sample_conversation :: conversation where
  "sample_conversation = \<lparr>conv_id = ''x'', conv_user = ''u'', conv_snapshot = JDict [], conv_metadata = JDict [],
     conv_messages = [\<lparr>msg_role = ''user'', msg_content = ''sales'', msg_rest = JDict []\<rparr>],
     conv_created = \<lparr>moment = 0, stamp_text = ''t''\<rparr>, conv_updated = \<lparr>moment = 0, stamp_text = ''t''\<rparr>\<rparr>"

theorem conversation_stores_agree_witness:
  "same_conversations plain_types (snd (pg_save_conversation plain_types (\<lambda>_. None) sample_conversation empty_pg_state))
     (snd (mem_save_conversation sample_conversation empty_repo))"
proof -
  have "same_conversations plain_types empty_pg_state empty_repo"
    by (simp add: same_conversations_def empty_pg_state_def empty_repo_def read_row_def pg_messages_def)
  from conversation_stores_agree [OF this, of "\<lambda>_. None" sample_conversation] show ?thesis by blast
qed

end
