(* ===== verification/Plan_Store.thy ===== *)
theory Plan_Store
  imports Plan_Guard Json Numbered_Rows Run_Store_Pg
begin

section \<open>The stores of validated plans\<close>

text \<open>
  \<open>agent-service/app/grounding/plan_store.py\<close> and \<open>GroundingSnapshot.to_safe_dict\<close>: what is persisted of a
  validation, and the two stores. A plan is stored once for each run and hash. The ISO text of a time is an
  argument; a \<open>jsonb\<close> column gives back the value that was written.
\<close>

subsection \<open>The JSON of a plan\<close>

definition metric_json :: "metric_ref \<Rightarrow> json" where
  "metric_json m = JDict [(''id'', JStr (metric_id m)), (''alias'', JStr (metric_alias m))]"

definition dimension_json :: "dimension_ref \<Rightarrow> json" where
  "dimension_json d = JDict [(''asset_id'', JStr (dim_asset_id d)), (''alias'', JStr (dim_alias d))]"

fun literal_json :: "literal \<Rightarrow> json" where
  "literal_json (LInt i) = JInt i"
| "literal_json (LFloat q) = JFloat q"

definition filter_json :: "filter_clause \<Rightarrow> json" where
  "filter_json f = JDict [(''asset_id'', JStr (fc_asset_id f)), (''op'', JStr (operator_value (fc_op f))),
     (''value_ids'', jstrs (value_ids f)), (''literal_values'', JList (map literal_json (literal_values f)))]"

definition optional_text :: "string \<Rightarrow> string option \<Rightarrow> jdict" where
  "optional_text k v = (case v of None \<Rightarrow> [] | Some x \<Rightarrow> [(k, JStr x)])"

definition range_json :: "(time \<Rightarrow> string) \<Rightarrow> time_range \<Rightarrow> json" where
  "range_json isot r = JDict ([(''field_id'', JStr (field_id r)), (''preset'', JStr (preset_value (preset r)))] @
     optional_text ''start'' (map_option isot (tr_start r)) @ optional_text ''end'' (map_option isot (tr_end r)))"

definition direction_value :: "sort_direction \<Rightarrow> string" where
  "direction_value d = (case d of ASC \<Rightarrow> ''ASC'' | DESC \<Rightarrow> ''DESC'')"

definition sort_json :: "sort_clause \<Rightarrow> json" where
  "sort_json c = JDict [(''field'', JStr (sort_field c)), (''direction'', JStr (direction_value (direction c)))]"

definition ambiguity_json :: "plan_ambiguity \<Rightarrow> json" where
  "ambiguity_json a = JDict [(''code'', JStr (pa_code a)), (''message'', JStr (pa_message a)),
     (''option_ids'', jstrs (option_ids a))]"

text \<open>\<open>plan.model_dump(mode="json", exclude_none=True)\<close>.\<close>

definition draft_json :: "(time \<Rightarrow> string) \<Rightarrow> query_plan_draft \<Rightarrow> jdict" where
  "draft_json isot d =
     [(''metrics'', JList (map metric_json (metrics d))), (''dimensions'', JList (map dimension_json (dimensions d))),
      (''filters'', JList (map filter_json (filters d)))] @
     (case plan_time_range d of None \<Rightarrow> [] | Some r \<Rightarrow> [(''time_range'', range_json isot r)]) @
     [(''grain'', jstrs (grain d)), (''sort'', JList (map sort_json (plan_sort d))), (''limit'', JInt (plan_limit d)),
      (''join_path_ids'', jstrs (join_path_ids d)), (''evidence_ids'', jstrs (evidence_ids d)),
      (''ambiguities'', JList (map ambiguity_json (ambiguities d)))]"

subsection \<open>What is stored of it\<close>

text \<open>\<open>for item in payload.get(k, [])\<close>, changing each item.\<close>

definition on_items :: "string \<Rightarrow> (jdict \<Rightarrow> jdict) \<Rightarrow> jdict \<Rightarrow> jdict" where
  "on_items k f d = (case map_of d k of
     Some (JList xs) \<Rightarrow> AList.update k (JList (map (\<lambda>x. case x of JDict c \<Rightarrow> JDict (f c) | _ \<Rightarrow> x) xs)) d
   | _ \<Rightarrow> d)"

definition safe_clause :: "jdict \<Rightarrow> jdict" where
  "safe_clause c =
     (let literals = jitems (map_of c ''literal_values''); c' = AList.delete ''literal_values'' c
      in if literals = [] then c'
         else AList.update ''literal_value_count'' (JInt (int (length literals)))
                (AList.update ''literal_values_redacted'' (JBool True) c'))"

definition date_only :: "string \<Rightarrow> jdict \<Rightarrow> jdict" where
  "date_only k r = (case map_of r k of
     Some (JStr v) \<Rightarrow> AList.update (k @ ''_date'') (JStr (take 10 v)) (AList.delete k r)
   | _ \<Rightarrow> AList.delete k r)"

definition safe_range :: "jdict \<Rightarrow> jdict" where
  "safe_range r = (if map_of r ''preset'' = Some (JStr ''CUSTOM'') then date_only ''end'' (date_only ''start'' r) else r)"

definition safe_plan_json :: "(time \<Rightarrow> string) \<Rightarrow> query_plan_draft \<Rightarrow> jdict" where
  "safe_plan_json isot d =
     (let p = on_items ''filters'' safe_clause (on_items ''ambiguities'' (AList.delete ''message'') (draft_json isot d))
      in (case map_of p ''time_range'' of
            Some (JDict r) \<Rightarrow> AList.update ''time_range'' (JDict (safe_range r)) p
          | _ \<Rightarrow> p))"

definition candidate_json :: "grounding_candidate \<Rightarrow> json" where
  "candidate_json c = JDict [(''asset_id'', JStr (gc_asset_id c)), (''score'', JFloat (gc_score c)),
     (''source_hash'', JStr (gc_source_hash c)), (''reasons'', jstrs (gc_reasons c))]"

definition value_json :: "value_candidate \<Rightarrow> json" where
  "value_json v = JDict [(''value_id'', JStr (vc_value_id v)), (''column_asset_id'', JStr (vc_column_asset_id v)),
     (''canonical_value'', JStr (vc_canonical_value v)), (''score'', JFloat (vc_score v)),
     (''source_hash'', JStr (vc_source_hash v))]"

definition path_json :: "join_path \<Rightarrow> json" where
  "path_json p = JDict [(''path_id'', JStr (path_id p)), (''relation_ids'', jstrs (relation_ids p)),
     (''table_asset_ids'', jstrs (table_asset_ids p)), (''score'', JFloat (path_score p))]"

definition to_safe_dict :: "grounding_snapshot \<Rightarrow> jdict" where
  "to_safe_dict s =
     [(''query_hash'', JStr (query_hash s)), (''tenant_id'', JStr (snap_tenant_id s)),
      (''table_candidates'', JList (map candidate_json (table_candidates s))),
      (''column_candidates'', JList (map candidate_json (column_candidates s))),
      (''knowledge_candidates'', JList (map candidate_json (knowledge_candidates s))),
      (''value_candidates'', JList (map value_json (value_candidates s))),
      (''join_paths'', JList (map path_json (join_paths s))), (''evidence_ids'', jstrs (snap_evidence_ids s)),
      (''confidence'', JFloat (snap_confidence s)), (''ambiguities'', jstrs (snap_ambiguities s))]"


subsection \<open>The stores\<close>

text \<open>A stored row; \<open>list_for_run\<close> of the PostgreSQL store adds the creation time, nothing else returns it.\<close>

record stored_plan =
  sp_sequence :: int
  sp_plan_hash :: string
  sp_plan_version :: int
  sp_status :: string
  sp_plan :: jdict
  sp_snapshot :: jdict
  sp_evidence_ids :: "string list"
  sp_errors :: "string list"
  sp_created_at :: "time option"

definition stored_of :: "(time \<Rightarrow> string) \<Rightarrow> int \<Rightarrow> validated_plan \<Rightarrow> grounding_snapshot \<Rightarrow> stored_plan" where
  "stored_of isot n p snap = \<lparr>sp_sequence = n, sp_plan_hash = plan_hash p, sp_plan_version = plan_version p,
     sp_status = status_text (vp_status p), sp_plan = safe_plan_json isot (plan p), sp_snapshot = to_safe_dict snap,
     sp_evidence_ids = vp_evidence_ids p, sp_errors = vp_errors p, sp_created_at = None\<rparr>"

definition undated :: "stored_plan \<Rightarrow> stored_plan" where
  "undated x = x\<lparr>sp_created_at := None\<rparr>"

record 's plan_ops =
  op_save_plan :: "time \<Rightarrow> string \<Rightarrow> validated_plan \<Rightarrow> grounding_snapshot \<Rightarrow> ('s, stored_plan) py"
  op_list_plans :: "string \<Rightarrow> ('s, stored_plan list) py"

text \<open>The protocol \<open>QueryPlanStore\<close> as its clients rely on it: a save finds the plan of that hash or adds the
next row of its run, or fails and writes nothing; it fails only for a run the store does not know.\<close>

definition with_hash :: "string \<Rightarrow> stored_plan list \<Rightarrow> stored_plan option" where
  "with_hash h xs = find (\<lambda>x. sp_plan_hash x = h) xs"

definition save_result :: "(time \<Rightarrow> string) \<Rightarrow> validated_plan \<Rightarrow> grounding_snapshot \<Rightarrow> stored_plan list \<Rightarrow>
    stored_plan \<times> stored_plan list" where
  "save_result isot p snap xs =
     (case with_hash (plan_hash p) xs of
        Some x \<Rightarrow> (x, xs)
      | None \<Rightarrow> let x = stored_of isot (int (length xs)) p snap in (x, xs @ [x]))"

locale plan_store_contract =
  fixes ops :: "'s plan_ops"
    and isot :: "time \<Rightarrow> string"
    and plans :: "'s \<Rightarrow> string \<Rightarrow> stored_plan list"
    and known :: "'s \<Rightarrow> string \<Rightarrow> bool"
    and pinvar :: "'s \<Rightarrow> bool"
  assumes save_known: "pinvar s \<Longrightarrow> known s rid \<Longrightarrow>
      \<exists>s'. op_save_plan ops now rid p snap s = (Inr (fst (save_result isot p snap (plans s rid))), s') \<and> pinvar s' \<and>
        known s' = known s \<and> plans s' = (plans s)(rid := snd (save_result isot p snap (plans s rid)))"
    and save_unknown: "pinvar s \<Longrightarrow> \<not> known s rid \<Longrightarrow> \<exists>e. op_save_plan ops now rid p snap s = (Inl e, s)"
    and list_plans: "pinvar s \<Longrightarrow> \<exists>xs. op_list_plans ops rid s = (Inr xs, s) \<and> map undated xs = plans s rid"
begin

lemma save_cases:
  assumes "pinvar s" and "op_save_plan ops now rid p snap s = (r, s')"
  obtains (failed) e where "r = Inl e" and "s' = s"
  | (saved) x where "r = Inr x" and "known s rid" and "pinvar s'" and "known s' = known s"
      and "x = fst (save_result isot p snap (plans s rid))"
      and "plans s' = (plans s)(rid := snd (save_result isot p snap (plans s rid)))"
  using save_known [OF assms(1), of rid now p snap] save_unknown [OF assms(1), of rid now p snap] assms(2)
  by (cases "known s rid") auto

lemma saved_hash:
  assumes "pinvar s" and "op_save_plan ops now rid p snap s = (Inr x, s')"
  shows "pinvar s' \<and> x \<in> set (plans s' rid) \<and> sp_plan_hash x = plan_hash p"
  using assms
  by (cases rule: save_cases)
    (auto simp: save_result_def with_hash_def stored_of_def Let_def find_Some_iff split: option.splits)

lemma saves_grow:
  assumes "pinvar s" and "op_save_plan ops now rid p snap s = (r, s')"
  shows "\<exists>new. plans s' k = plans s k @ new"
  using assms by (cases rule: save_cases) (auto simp: save_result_def Let_def split: option.splits)

end

subsection \<open>The in-memory store\<close>

type_synonym memory_plans = "(string, stored_plan list) dict"

definition plans_in :: "memory_plans \<Rightarrow> string \<Rightarrow> stored_plan list" where
  "plans_in s rid = (case map_of s rid of None \<Rightarrow> [] | Some xs \<Rightarrow> xs)"

text \<open>\<open>setdefault\<close> enters the run first, also when nothing is added.\<close>

definition memory_save_plan :: "(time \<Rightarrow> string) \<Rightarrow> time \<Rightarrow> string \<Rightarrow> validated_plan \<Rightarrow> grounding_snapshot \<Rightarrow>
    (memory_plans, stored_plan) py" where
  "memory_save_plan isot now rid p snap s =
     (let existing = plans_in s rid in
      case find (\<lambda>item. sp_plan_hash item = plan_hash p) existing of
        Some item \<Rightarrow> (Inr item, AList.update rid existing s)
      | None \<Rightarrow>
          (let rec = \<lparr>sp_sequence = int (length existing), sp_plan_hash = plan_hash p, sp_plan_version = plan_version p,
                 sp_status = status_text (vp_status p), sp_plan = safe_plan_json isot (plan p),
                 sp_snapshot = to_safe_dict snap, sp_evidence_ids = vp_evidence_ids p, sp_errors = vp_errors p,
                 sp_created_at = None\<rparr>
           in (Inr rec, AList.update rid (existing @ [rec]) s)))"

definition memory_list_plans :: "string \<Rightarrow> (memory_plans, stored_plan list) py" where
  "memory_list_plans rid s = (Inr (plans_in s rid), s)"

definition memory_plan_ops :: "(time \<Rightarrow> string) \<Rightarrow> memory_plans plan_ops" where
  "memory_plan_ops isot = \<lparr>op_save_plan = memory_save_plan isot, op_list_plans = memory_list_plans\<rparr>"

definition plans_ok :: "memory_plans \<Rightarrow> bool" where
  "plans_ok s \<longleftrightarrow> (\<forall>rid. \<forall>x \<in> set (plans_in s rid). sp_created_at x = None)"

lemma plans_in_update: "plans_in (AList.update rid xs s) = (plans_in s)(rid := xs)"
  by (rule ext) (simp add: plans_in_def)

lemma undated_id: "sp_created_at x = None \<Longrightarrow> undated x = x"
  by (simp add: undated_def)

interpretation mem_plans: plan_store_contract "memory_plan_ops isot" isot plans_in "\<lambda>_ _. True" plans_ok
proof (unfold_locales, goal_cases)
  case (1 s rid now p snap)
  then show ?case
    by (auto simp: memory_plan_ops_def memory_save_plan_def save_result_def with_hash_def Let_def plans_in_update
        stored_of_def plans_ok_def split: option.split)
next
  case (3 s rid)
  then have "map undated (plans_in s rid) = plans_in s rid" by (auto simp: plans_ok_def undated_id intro!: map_idI)
  then show ?case by (simp add: memory_plan_ops_def memory_list_plans_def)
qed simp


subsection \<open>The PostgreSQL store\<close>

text \<open>
  The table \<open>agent_state.query_plans\<close> and the runs its foreign key knows. A save is one transaction under the
  advisory lock of its run. Its rows pass the checks of the columns: the hash of a validated plan is a digest, its
  version is 1.
\<close>

record plan_table =
  plan_rows :: "stored_plan numbered"
  plan_runs :: "string list"

definition pg_save_plan :: "(time \<Rightarrow> string) \<Rightarrow> time \<Rightarrow> string \<Rightarrow> validated_plan \<Rightarrow> grounding_snapshot \<Rightarrow>
    (plan_table, stored_plan) py" where
  "pg_save_plan isot now rid p snap s =
     (let rows = rows_of (plan_rows s) rid in
      case find (\<lambda>row. sp_plan_hash (snd row) = plan_hash p) rows of
        Some row \<Rightarrow> (Inr (undated (snd row)), s)
      | None \<Rightarrow>
          if rid \<notin> set (plan_runs s) then (Inl foreign_key_violation, s)
          else (let n = next_no rows; x = (stored_of isot n p snap)\<lparr>sp_created_at := Some now\<rparr>
                in (Inr (undated x), s\<lparr>plan_rows := plan_rows s @ [(rid, n, x)]\<rparr>)))"

definition pg_list_plans :: "string \<Rightarrow> (plan_table, stored_plan list) py" where
  "pg_list_plans rid s = (Inr (map snd (sort_key fst (rows_of (plan_rows s) rid))), s)"

definition pg_plan_ops :: "(time \<Rightarrow> string) \<Rightarrow> plan_table plan_ops" where
  "pg_plan_ops isot = \<lparr>op_save_plan = pg_save_plan isot, op_list_plans = pg_list_plans\<rparr>"

definition table_plans :: "plan_table \<Rightarrow> string \<Rightarrow> stored_plan list" where
  "table_plans s rid = map (\<lambda>row. undated (snd row)) (rows_of (plan_rows s) rid)"

definition plan_table_ok :: "plan_table \<Rightarrow> bool" where
  "plan_table_ok s \<longleftrightarrow> numbered_ok (plan_rows s) \<and>
     (\<forall>rid. rid \<notin> set (plan_runs s) \<longrightarrow> rows_of (plan_rows s) rid = [])"

lemma find_map: "find P (map f xs) = map_option f (find (\<lambda>x. P (f x)) xs)"
  by (induction xs) auto

lemma undated_hash [simp]: "sp_plan_hash (undated x) = sp_plan_hash x"
  by (simp add: undated_def)

lemma table_with_hash:
  "with_hash h (table_plans s rid) =
    map_option (\<lambda>row. undated (snd row)) (find (\<lambda>row. sp_plan_hash (snd row) = h) (rows_of (plan_rows s) rid))"
  by (simp add: with_hash_def table_plans_def find_map)

interpretation pg_plans: plan_store_contract "pg_plan_ops isot" isot table_plans "\<lambda>s rid. rid \<in> set (plan_runs s)" plan_table_ok
proof (unfold_locales, goal_cases)
  case (1 s rid now p snap)
  let ?rows = "rows_of (plan_rows s) rid"
  show ?case
  proof (cases "find (\<lambda>row. sp_plan_hash (snd row) = plan_hash p) ?rows")
    case (Some row)
    then have r: "save_result isot p snap (table_plans s rid) = (undated (snd row), table_plans s rid)"
      by (simp add: save_result_def table_with_hash)
    show ?thesis unfolding r using Some 1 by (simp add: pg_plan_ops_def pg_save_plan_def)
  next
    case None
    note ok = 1(1) [unfolded plan_table_ok_def]
    let ?x = "stored_of isot (int (length ?rows)) p snap"
    have n: "next_no ?rows = int (length ?rows)" using ok next_no_length by blast
    have r: "save_result isot p snap (table_plans s rid) = (?x, table_plans s rid @ [?x])"
      using None by (simp add: save_result_def table_with_hash Let_def) (simp add: table_plans_def)
    let ?s = "s\<lparr>plan_rows := plan_rows s @ [(rid, int (length ?rows), ?x\<lparr>sp_created_at := Some now\<rparr>)]\<rparr>"
    have "undated (?x\<lparr>sp_created_at := Some now\<rparr>) = ?x" by (simp add: undated_def stored_of_def)
    then have "op_save_plan (pg_plan_ops isot) now rid p snap s = (Inr ?x, ?s)"
      and "table_plans ?s = (table_plans s)(rid := table_plans s rid @ [?x])"
      using None 1(2) by (simp_all add: pg_plan_ops_def pg_save_plan_def n Let_def table_plans_def rows_of_append fun_eq_iff)
    moreover have "plan_table_ok ?s"
      using ok 1(2) numbered_ok_append [of "plan_rows s" rid] by (auto simp: plan_table_ok_def rows_of_append)
    ultimately show ?thesis unfolding r by auto
  qed
next
  case (2 s rid now p snap)
  then have "rows_of (plan_rows s) rid = []" by (simp add: plan_table_ok_def)
  with 2 show ?case by (simp add: pg_plan_ops_def pg_save_plan_def)
next
  case (3 s rid)
  then have "sort_key fst (rows_of (plan_rows s) rid) = rows_of (plan_rows s) rid"
    by (simp add: plan_table_ok_def rows_sorted)
  then show ?case by (simp add: pg_plan_ops_def pg_list_plans_def table_plans_def)
qed

subsection \<open>Nothing private is stored\<close>

text \<open>Two drafts that differ only in the numbers of their filters, in the messages of their ambiguities and in
the time of day of a custom range.\<close>

definition same_clause :: "filter_clause \<Rightarrow> filter_clause \<Rightarrow> bool" where
  "same_clause f f' \<longleftrightarrow> f' = f\<lparr>literal_values := literal_values f'\<rparr> \<and>
     length (literal_values f') = length (literal_values f)"

definition same_range :: "(time \<Rightarrow> string) \<Rightarrow> time_range \<Rightarrow> time_range \<Rightarrow> bool" where
  "same_range isot r r' \<longleftrightarrow> r' = r\<lparr>tr_start := tr_start r', tr_end := tr_end r'\<rparr> \<and>
     (if preset r = CUSTOM then map_option (take 10 \<circ> isot) (tr_start r') = map_option (take 10 \<circ> isot) (tr_start r) \<and>
        map_option (take 10 \<circ> isot) (tr_end r') = map_option (take 10 \<circ> isot) (tr_end r)
      else r' = r)"

definition same_public :: "(time \<Rightarrow> string) \<Rightarrow> query_plan_draft \<Rightarrow> query_plan_draft \<Rightarrow> bool" where
  "same_public isot d d' \<longleftrightarrow>
     d' = d\<lparr>filters := filters d', plan_time_range := plan_time_range d', ambiguities := ambiguities d'\<rparr> \<and>
     list_all2 same_clause (filters d) (filters d') \<and>
     rel_option (same_range isot) (plan_time_range d) (plan_time_range d') \<and>
     list_all2 (\<lambda>a a'. a' = a\<lparr>pa_message := pa_message a'\<rparr>) (ambiguities d) (ambiguities d')"

definition public_filter :: "filter_clause \<Rightarrow> json" where
  "public_filter f = JDict ([(''asset_id'', JStr (fc_asset_id f)), (''op'', JStr (operator_value (fc_op f))),
     (''value_ids'', jstrs (value_ids f))] @ (if literal_values f = [] then []
       else [(''literal_values_redacted'', JBool True), (''literal_value_count'', JInt (int (length (literal_values f))))]))"

definition public_range :: "(time \<Rightarrow> string) \<Rightarrow> time_range \<Rightarrow> json" where
  "public_range isot r = (if preset r = CUSTOM then
     JDict ([(''field_id'', JStr (field_id r)), (''preset'', JStr ''CUSTOM'')] @
       optional_text ''start_date'' (map_option (take 10 \<circ> isot) (tr_start r)) @
       optional_text ''end_date'' (map_option (take 10 \<circ> isot) (tr_end r)))
     else range_json isot r)"

definition public_ambiguity :: "plan_ambiguity \<Rightarrow> json" where
  "public_ambiguity a = JDict [(''code'', JStr (pa_code a)), (''option_ids'', jstrs (option_ids a))]"

definition public_json :: "(time \<Rightarrow> string) \<Rightarrow> query_plan_draft \<Rightarrow> jdict" where
  "public_json isot d =
     [(''metrics'', JList (map metric_json (metrics d))), (''dimensions'', JList (map dimension_json (dimensions d))),
      (''filters'', JList (map public_filter (filters d)))] @
     (case plan_time_range d of None \<Rightarrow> [] | Some r \<Rightarrow> [(''time_range'', public_range isot r)]) @
     [(''grain'', jstrs (grain d)), (''sort'', JList (map sort_json (plan_sort d))), (''limit'', JInt (plan_limit d)),
      (''join_path_ids'', jstrs (join_path_ids d)), (''evidence_ids'', jstrs (evidence_ids d)),
      (''ambiguities'', JList (map public_ambiguity (ambiguities d)))]"

lemma preset_custom: "preset_value p = ''CUSTOM'' \<longleftrightarrow> p = CUSTOM"
  by (cases p) simp_all


lemma safe_filter: "(case filter_json f of JDict c \<Rightarrow> JDict (safe_clause c) | _ \<Rightarrow> filter_json f) = public_filter f"
  by (simp add: filter_json_def safe_clause_def public_filter_def)

lemma safe_ambiguity:
  "(case ambiguity_json a of JDict c \<Rightarrow> JDict (AList.delete ''message'' c) | _ \<Rightarrow> ambiguity_json a) = public_ambiguity a"
  by (simp add: ambiguity_json_def public_ambiguity_def)

lemma safe_range_public: "\<exists>r'. range_json isot r = JDict r' \<and> JDict (safe_range r') = public_range isot r"
  by (cases "tr_start r"; cases "tr_end r")
    (simp_all add: range_json_def safe_range_def date_only_def public_range_def optional_text_def preset_custom)

lemma safe_plan_public: "safe_plan_json isot d = public_json isot d"
proof (cases "plan_time_range d")
  case None
  then show ?thesis
    by (simp add: safe_plan_json_def draft_json_def on_items_def public_json_def safe_filter safe_ambiguity comp_def)
next
  case (Some r)
  obtain r' where "range_json isot r = JDict r'" "JDict (safe_range r') = public_range isot r"
    using safe_range_public by blast
  with Some show ?thesis
    by (simp add: safe_plan_json_def draft_json_def on_items_def public_json_def safe_filter safe_ambiguity comp_def)
qed

lemma public_same:
  assumes "same_public isot d d'"
  shows "public_json isot d' = public_json isot d"
proof -
  have f: "map public_filter (filters d') = map public_filter (filters d)"
  proof -
    have "public_filter f' = public_filter f" if "same_clause f f'" for f f'
    proof -
      have "fc_asset_id f' = fc_asset_id f" "fc_op f' = fc_op f" "value_ids f' = value_ids f"
        "length (literal_values f') = length (literal_values f)"
        using that by (cases f; cases f'; auto simp: same_clause_def)+
      moreover from this(4) have "literal_values f' = [] \<longleftrightarrow> literal_values f = []" by auto
      ultimately show ?thesis by (simp add: public_filter_def)
    qed
    moreover have "list_all2 same_clause (filters d) (filters d')" using assms by (simp add: same_public_def)
    ultimately show ?thesis by (intro nth_equalityI) (auto simp: list_all2_conv_all_nth)
  qed
  have a: "map public_ambiguity (ambiguities d') = map public_ambiguity (ambiguities d)"
  proof -
    have "public_ambiguity a' = public_ambiguity a" if "a' = a\<lparr>pa_message := pa_message a'\<rparr>" for a a'
      using that by (cases a; cases a') (simp add: public_ambiguity_def)
    moreover have "list_all2 (\<lambda>a a'. a' = a\<lparr>pa_message := pa_message a'\<rparr>) (ambiguities d) (ambiguities d')"
      using assms by (simp add: same_public_def)
    ultimately show ?thesis by (intro nth_equalityI) (auto simp: list_all2_conv_all_nth)
  qed
  have r: "(case plan_time_range d' of None \<Rightarrow> [] | Some r \<Rightarrow> [(''time_range'', public_range isot r)]) =
      (case plan_time_range d of None \<Rightarrow> [] | Some r \<Rightarrow> [(''time_range'', public_range isot r)])"
  proof -
    have "public_range isot r' = public_range isot r" if same: "same_range isot r r'" for r r'
    proof (cases "preset r = CUSTOM")
      case True
      have "field_id r' = field_id r" "preset r' = preset r"
        using same [unfolded same_range_def, THEN conjunct1] by (cases r; cases r'; simp)+
      moreover have "map_option (take 10 \<circ> isot) (tr_start r') = map_option (take 10 \<circ> isot) (tr_start r)"
        "map_option (take 10 \<circ> isot) (tr_end r') = map_option (take 10 \<circ> isot) (tr_end r)"
        using same [unfolded same_range_def, THEN conjunct2] True by simp_all
      ultimately show ?thesis using True by (simp add: public_range_def)
    next
      case False
      with same show ?thesis by (simp add: same_range_def)
    qed
    moreover have "rel_option (same_range isot) (plan_time_range d) (plan_time_range d')"
      using assms by (simp add: same_public_def)
    ultimately show ?thesis by (cases "plan_time_range d"; cases "plan_time_range d'") auto
  qed
  have "metrics d' = metrics d \<and> dimensions d' = dimensions d \<and> grain d' = grain d \<and> plan_sort d' = plan_sort d \<and>
      plan_limit d' = plan_limit d \<and> join_path_ids d' = join_path_ids d \<and> evidence_ids d' = evidence_ids d"
    using assms [unfolded same_public_def, THEN conjunct1] by (cases d; cases d') simp
  then show ?thesis unfolding public_json_def f a r by simp
qed

text \<open>The stored record of a plan carries no private literal: plans whose drafts differ only in the numbers
of their filters (not in how many), in the messages of their ambiguities and in the time of day of a custom range
are stored as the same record, and a filter in it has no literal values.\<close>

theorem stored_plans_are_private:
  assumes "same_public isot (plan p) (plan p')" and "p' = p\<lparr>plan := plan p'\<rparr>"
  shows "stored_of isot n p' snap = stored_of isot n p snap \<and>
    (\<forall>c \<in> set (jitems (map_of (sp_plan (stored_of isot n p snap)) ''filters'')).
       \<exists>ks. c = JDict ks \<and> map_of ks ''literal_values'' = None)"
proof
  have "public_json isot (plan p') = public_json isot (plan p)" by (rule public_same [OF assms(1)])
  moreover obtain q where "p' = p\<lparr>plan := q\<rparr>" using assms(2) by blast
  ultimately show "stored_of isot n p' snap = stored_of isot n p snap"
    by (simp add: stored_of_def safe_plan_public)
  show "\<forall>c \<in> set (jitems (map_of (sp_plan (stored_of isot n p snap)) ''filters'')).
       \<exists>ks. c = JDict ks \<and> map_of ks ''literal_values'' = None"
    by (simp add: stored_of_def safe_plan_public public_json_def public_filter_def)
qed

text \<open>The states of the two stores after the same saves.\<close>

definition after_saves :: "'s plan_ops \<Rightarrow> (time \<times> string \<times> validated_plan \<times> grounding_snapshot) list \<Rightarrow> 's \<Rightarrow> 's" where
  "after_saves ops saves s = fold (\<lambda>(now, rid, p, snap) s. snd (op_save_plan ops now rid p snap s)) saves s"

lemma pg_save_runs: "plan_runs (snd (op_save_plan (pg_plan_ops isot) now rid p snap b)) = plan_runs b"
  by (simp add: pg_plan_ops_def pg_save_plan_def Let_def split: option.split)

lemma saves_agree:
  assumes "plans_ok a" and "plan_table_ok b" and "plans_in a = table_plans b" and "plan_runs b = runs"
    and "\<forall>c \<in> set saves. fst (snd c) \<in> set runs"
  shows "plans_ok (after_saves (memory_plan_ops isot) saves a) \<and>
    plan_table_ok (after_saves (pg_plan_ops isot) saves b) \<and>
    plans_in (after_saves (memory_plan_ops isot) saves a) = table_plans (after_saves (pg_plan_ops isot) saves b)"
  using assms
proof (induction saves arbitrary: a b)
  case Nil
  then show ?case by (simp add: after_saves_def)
next
  case (Cons c saves)
  obtain now rid p snap where c: "c = (now, rid, p, snap)" by (cases c)
  let ?a = "snd (op_save_plan (memory_plan_ops isot) now rid p snap a)"
    and ?b = "snd (op_save_plan (pg_plan_ops isot) now rid p snap b)"
  have r: "rid \<in> set (plan_runs b)" using Cons.prems(4,5) c by simp
  have a: "plans_ok ?a" "plans_in ?a = (plans_in a)(rid := snd (save_result isot p snap (plans_in a rid)))"
    using mem_plans.save_known [OF Cons.prems(1) TrueI, of isot now rid p snap] by auto
  have b: "plan_table_ok ?b" "table_plans ?b = (table_plans b)(rid := snd (save_result isot p snap (table_plans b rid)))"
    using pg_plans.save_known [OF Cons.prems(2) r, of isot now p snap] by auto
  have "plans_in ?a = table_plans ?b" by (simp only: a(2) b(2) Cons.prems(3))
  moreover have "plan_runs ?b = runs" by (simp only: pg_save_runs Cons.prems(4))
  moreover have "\<forall>c \<in> set saves. fst (snd c) \<in> set runs" using Cons.prems(5) by simp
  ultimately show ?case using Cons.IH [OF a(1) b(1)] by (simp add: c after_saves_def)
qed

text \<open>The two stores of plans agree: after the same saves for known runs both return the same plans for
every run, up to the creation times that only the table has.\<close>

theorem plan_stores_agree:
  assumes "\<forall>c \<in> set saves. fst (snd c) \<in> set runs"
    and "a = after_saves (memory_plan_ops isot) saves []"
    and "b = after_saves (pg_plan_ops isot) saves \<lparr>plan_rows = [], plan_runs = runs\<rparr>"
  shows "\<exists>xs ys. op_list_plans (memory_plan_ops isot) k a = (Inr xs, a) \<and>
     op_list_plans (pg_plan_ops isot) k b = (Inr ys, b) \<and> map undated xs = map undated ys"
proof -
  have "plans_ok a \<and> plan_table_ok b \<and> plans_in a = table_plans b"
    unfolding assms(2,3)
    by (rule saves_agree [OF _ _ _ _ assms(1)])
      (simp_all add: plans_ok_def plans_in_def plan_table_ok_def table_plans_def fun_eq_iff)
  moreover from this obtain xs where "op_list_plans (memory_plan_ops isot) k a = (Inr xs, a)" "map undated xs = plans_in a k"
    using mem_plans.list_plans by blast
  moreover from calculation(1) obtain ys where "op_list_plans (pg_plan_ops isot) k b = (Inr ys, b)"
      "map undated ys = table_plans b k"
    using pg_plans.list_plans by blast
  ultimately show ?thesis by (intro exI [of _ xs] exI [of _ ys]) simp
qed


subsection \<open>Examples\<close>

definition amount_plan :: "int \<Rightarrow> validated_plan" where
  "amount_plan n = \<lparr>vp_status = VALID, plan_hash = ''h'', plan_version = 1, confidence = 1, vp_evidence_ids = [],
     vp_errors = [], plan = empty_draft\<lparr>filters := [\<lparr>fc_asset_id = ''column:amount'', fc_op = GT, value_ids = [],
       literal_values = [LInt n]\<rparr>]\<rparr>\<rparr>"

theorem stored_plans_are_private_witness:
  "stored_of (\<lambda>_. '''') 0 (amount_plan 7) sample_snapshot = stored_of (\<lambda>_. '''') 0 (amount_plan 5) sample_snapshot"
proof -
  have "same_public (\<lambda>_. '''') (plan (amount_plan 5)) (plan (amount_plan 7))"
    by (simp add: same_public_def same_clause_def amount_plan_def empty_draft_def)
  moreover have "amount_plan 7 = (amount_plan 5)\<lparr>plan := plan (amount_plan 7)\<rparr>" by (simp add: amount_plan_def)
  ultimately show ?thesis using stored_plans_are_private by blast
qed

theorem plan_stores_agree_witness:
  "\<exists>xs ys. op_list_plans (memory_plan_ops (\<lambda>_. '''')) ''r''
      (after_saves (memory_plan_ops (\<lambda>_. '''')) [(0, ''r'', amount_plan 5, sample_snapshot)] []) =
        (Inr xs, after_saves (memory_plan_ops (\<lambda>_. '''')) [(0, ''r'', amount_plan 5, sample_snapshot)] []) \<and>
     op_list_plans (pg_plan_ops (\<lambda>_. '''')) ''r''
      (after_saves (pg_plan_ops (\<lambda>_. '''')) [(0, ''r'', amount_plan 5, sample_snapshot)] \<lparr>plan_rows = [], plan_runs = [''r'']\<rparr>) =
        (Inr ys, after_saves (pg_plan_ops (\<lambda>_. '''')) [(0, ''r'', amount_plan 5, sample_snapshot)] \<lparr>plan_rows = [], plan_runs = [''r'']\<rparr>) \<and>
     map undated xs = map undated ys"
  by (rule plan_stores_agree [of _ "[''r'']"]) simp_all

end
