(* ===== verification/Request_Context.thy ===== *)
theory Request_Context
  imports Query_Plan Unicode_Text
begin

section \<open>The context of a request\<close>

text \<open>
  \<open>agent-service/app/harness/context.py\<close> and \<open>grounding/context.py\<close>: the correlation data of a request lives
  in context variables. A task has its own variables; a task it starts gets a copy of them. What is copied
  of the grounding state is the reference, so the tools of one request, in whichever task they run, read and
  write one object. The model keeps the variables apart from the objects, which all tasks share. The token
  of a \<open>ContextVar.set\<close> is the value the variable had.
\<close>

subsection \<open>Variables and objects\<close>

record grounding_bundle =
  gb_snapshot :: grounding_snapshot
  gb_catalog :: catalog

record request_grounding =
  rg_bundle :: "grounding_bundle option"
  rg_plan :: "validated_plan option"

record context_vars =
  cv_run_id :: "string option"
  cv_instruction_hash :: "string option"
  cv_instruction_text :: "utext option"
  cv_conversation :: "string option"
  cv_grounding :: "nat option"
  cv_resume :: "(string, string) dict option"

definition no_vars :: context_vars where
  "no_vars = \<lparr>cv_run_id = None, cv_instruction_hash = None, cv_instruction_text = None, cv_conversation = None,
     cv_grounding = None, cv_resume = None\<rparr>"

record request_ctx =
  rc_vars :: context_vars
  rc_objects :: "request_grounding list"

definition new_grounding :: request_grounding where
  "new_grounding = \<lparr>rg_bundle = None, rg_plan = None\<rparr>"

definition set_vars :: "(context_vars \<Rightarrow> context_vars) \<Rightarrow> request_ctx \<Rightarrow> request_ctx" where
  "set_vars f s = s\<lparr>rc_vars := f (rc_vars s)\<rparr>"

subsection \<open>\<open>grounding/context.py\<close>\<close>

definition bind_grounding_context :: "(request_ctx, nat option) py" where
  "bind_grounding_context s = (Inr (cv_grounding (rc_vars s)),
     set_vars (cv_grounding_update (\<lambda>_. Some (length (rc_objects s)))) s\<lparr>rc_objects := rc_objects s @ [new_grounding]\<rparr>)"

definition reset_grounding_context :: "nat option \<Rightarrow> (request_ctx, unit) py" where
  "reset_grounding_context token s = (Inr (), set_vars (cv_grounding_update (\<lambda>_. token)) s)"

definition get_grounding_state :: "request_ctx \<Rightarrow> request_grounding option" where
  "get_grounding_state s = (case cv_grounding (rc_vars s) of None \<Rightarrow> None | Some k \<Rightarrow> Some (rc_objects s ! k))"

text \<open>Write to the bound object; with none bound, to a new one that becomes bound.\<close>

definition change_grounding :: "(request_grounding \<Rightarrow> request_grounding) \<Rightarrow> (request_ctx, unit) py" where
  "change_grounding f s =
     (case cv_grounding (rc_vars s) of
        None \<Rightarrow> (Inr (), set_vars (cv_grounding_update (\<lambda>_. Some (length (rc_objects s)))) s
                   \<lparr>rc_objects := rc_objects s @ [f new_grounding]\<rparr>)
      | Some k \<Rightarrow> (Inr (), s\<lparr>rc_objects := (rc_objects s)[k := f (rc_objects s ! k)]\<rparr>))"

definition record_grounding :: "grounding_bundle \<Rightarrow> (request_ctx, unit) py" where
  "record_grounding b = change_grounding (\<lambda>g. g\<lparr>rg_bundle := Some b, rg_plan := None\<rparr>)"

definition record_validated_plan :: "validated_plan option \<Rightarrow> (request_ctx, unit) py" where
  "record_validated_plan p = change_grounding (\<lambda>g. g\<lparr>rg_plan := p\<rparr>)"

subsection \<open>\<open>harness/context.py\<close>\<close>

record request_tokens =
  rt_run_id :: "string option"
  rt_instruction_hash :: "string option"
  rt_instruction_text :: "utext option"
  rt_grounding_state :: "nat option"
  rt_conversation_id :: "string option"

definition bind_request_context :: "string \<Rightarrow> utext \<Rightarrow> string option \<Rightarrow> (request_ctx, request_tokens) py" where
  "bind_request_context run_id instruction conversation s =
     (let v = rc_vars s;
          s1 = set_vars (\<lambda>v. v\<lparr>cv_run_id := Some run_id, cv_instruction_hash := Some (text_sha256 instruction),
                 cv_instruction_text := Some instruction\<rparr>) s
      in bindM bind_grounding_context (\<lambda>token s2.
           (Inr \<lparr>rt_run_id = cv_run_id v, rt_instruction_hash = cv_instruction_hash v,
                rt_instruction_text = cv_instruction_text v, rt_grounding_state = token,
                rt_conversation_id = cv_conversation v\<rparr>,
            set_vars (cv_conversation_update (\<lambda>_. conversation)) s2)) s1)"

definition reset_request_context :: "request_tokens \<Rightarrow> (request_ctx, unit) py" where
  "reset_request_context t s =
     thenM (reset_grounding_context (rt_grounding_state t))
       (\<lambda>s. (Inr (), set_vars (\<lambda>v. v\<lparr>cv_instruction_text := rt_instruction_text t,
          cv_instruction_hash := rt_instruction_hash t, cv_run_id := rt_run_id t\<rparr>) s))
       (set_vars (cv_conversation_update (\<lambda>_. rt_conversation_id t)) s)"

definition get_run_id :: "request_ctx \<Rightarrow> string option" where
  "get_run_id s = cv_run_id (rc_vars s)"

definition get_instruction_hash :: "request_ctx \<Rightarrow> string option" where
  "get_instruction_hash s = cv_instruction_hash (rc_vars s)"

definition get_instruction_text :: "request_ctx \<Rightarrow> utext option" where
  "get_instruction_text s = cv_instruction_text (rc_vars s)"

definition get_conversation_id :: "request_ctx \<Rightarrow> string option" where
  "get_conversation_id s = cv_conversation (rc_vars s)"

definition set_instruction_hash :: "string \<Rightarrow> (request_ctx, string option) py" where
  "set_instruction_hash x s = (Inr (cv_instruction_hash (rc_vars s)),
     set_vars (cv_instruction_hash_update (\<lambda>_. Some x)) s)"

definition reset_instruction_hash :: "string option \<Rightarrow> (request_ctx, unit) py" where
  "reset_instruction_hash token s = (Inr (), set_vars (cv_instruction_hash_update (\<lambda>_. token)) s)"

definition set_resume_evidence :: "(string, string) dict \<Rightarrow> (request_ctx, (string, string) dict option) py" where
  "set_resume_evidence x s = (Inr (cv_resume (rc_vars s)), set_vars (cv_resume_update (\<lambda>_. Some x)) s)"

definition reset_resume_evidence :: "(string, string) dict option \<Rightarrow> (request_ctx, unit) py" where
  "reset_resume_evidence token s = (Inr (), set_vars (cv_resume_update (\<lambda>_. token)) s)"

text \<open>An empty dictionary is false.\<close>

definition get_resume_evidence :: "request_ctx \<Rightarrow> (string, string) dict option" where
  "get_resume_evidence s = (case cv_resume (rc_vars s) of Some x \<Rightarrow> if x = [] then None else Some x | None \<Rightarrow> None)"

lemmas context_defs = bind_request_context_def reset_request_context_def bind_grounding_context_def
  reset_grounding_context_def change_grounding_def set_vars_def get_grounding_state_def bindM_def thenM_def


subsection \<open>Reset undoes bind\<close>

text \<open>Whatever happened in between, the reset gives the variables the values they had before the bind; the
resume evidence is bound and reset on its own.\<close>

lemma reset_restores:
  assumes "bind_request_context run_id instruction conversation s0 = (Inr tok, s1)"
  shows "reset_request_context tok s =
    (Inr (), s\<lparr>rc_vars := (rc_vars s0)\<lparr>cv_resume := cv_resume (rc_vars s)\<rparr>\<rparr>)"
  using assms by (cases s) (auto simp: context_defs Let_def)

subsection \<open>Tasks\<close>

text \<open>
  The tasks of the service with their own variables and the tokens they still have to reset, and the objects
  they share. A step is one call of one task, so an execution is any interleaving.
\<close>

record task =
  t_vars :: context_vars
  t_tokens :: "request_tokens list"

record tasks_world =
  w_tasks :: "nat \<Rightarrow> task option"
  w_objects :: "request_grounding list"

definition as_task :: "tasks_world \<Rightarrow> task \<Rightarrow> request_ctx" where
  "as_task w t = \<lparr>rc_vars = t_vars t, rc_objects = w_objects w\<rparr>"

definition put_task :: "nat \<Rightarrow> request_ctx \<Rightarrow> request_tokens list \<Rightarrow> tasks_world \<Rightarrow> tasks_world" where
  "put_task i s toks w = \<lparr>w_tasks = (w_tasks w)(i \<mapsto> \<lparr>t_vars = rc_vars s, t_tokens = toks\<rparr>), w_objects = rc_objects s\<rparr>"

inductive task_step :: "nat \<Rightarrow> tasks_world \<Rightarrow> tasks_world \<Rightarrow> bool" where
  bind: "w_tasks w i = Some t \<Longrightarrow> bind_request_context run_id instruction conversation (as_task w t) = (Inr tok, s) \<Longrightarrow>
    task_step i w (put_task i s (tok # t_tokens t) w)"
| reset: "w_tasks w i = Some t \<Longrightarrow> t_tokens t = tok # toks \<Longrightarrow> reset_request_context tok (as_task w t) = (Inr (), s) \<Longrightarrow>
    task_step i w (put_task i s toks w)"
| ground: "w_tasks w i = Some t \<Longrightarrow> record_grounding b (as_task w t) = (Inr (), s) \<Longrightarrow>
    task_step i w (put_task i s (t_tokens t) w)"
| plan: "w_tasks w i = Some t \<Longrightarrow> record_validated_plan p (as_task w t) = (Inr (), s) \<Longrightarrow>
    task_step i w (put_task i s (t_tokens t) w)"
| spawn: "w_tasks w i = Some t \<Longrightarrow> w_tasks w j = None \<Longrightarrow>
    task_step i w (w\<lparr>w_tasks := (w_tasks w)(j \<mapsto> \<lparr>t_vars = t_vars t, t_tokens = []\<rparr>)\<rparr>)"

definition first_world :: tasks_world where
  "first_world = \<lparr>w_tasks = [0 \<mapsto> \<lparr>t_vars = no_vars, t_tokens = []\<rparr>], w_objects = []\<rparr>"

inductive tasks_reachable :: "tasks_world \<Rightarrow> bool" where
  start: "tasks_reachable first_world"
| step: "tasks_reachable w \<Longrightarrow> task_step i w w' \<Longrightarrow> tasks_reachable w'"

text \<open>Every reference that a task holds, or will get back with a token, points to an object of the run it
comes with.\<close>

definition frames :: "task \<Rightarrow> (string option \<times> nat option) set" where
  "frames t = insert (cv_run_id (t_vars t), cv_grounding (t_vars t))
     ((\<lambda>k. (rt_run_id k, rt_grounding_state k)) ` set (t_tokens t))"

definition owned_by :: "(nat \<Rightarrow> string option) \<Rightarrow> tasks_world \<Rightarrow> bool" where
  "owned_by own w \<longleftrightarrow> (\<forall>i t r k. w_tasks w i = Some t \<longrightarrow> (r, Some k) \<in> frames t \<longrightarrow>
     k < length (w_objects w) \<and> own k = r)"

lemma owned_byD:
  "owned_by own w \<Longrightarrow> w_tasks w i = Some t \<Longrightarrow> (r, Some k) \<in> frames t \<Longrightarrow> k < length (w_objects w) \<and> own k = r"
  unfolding owned_by_def by blast

lemma change_effect:
  assumes "change_grounding f (as_task w t) = (Inr (), s)"
  obtains (old) k where "cv_grounding (t_vars t) = Some k" and "rc_vars s = t_vars t"
      and "rc_objects s = (w_objects w)[k := f (w_objects w ! k)]"
  | (new) "cv_grounding (t_vars t) = None" and "rc_vars s = (t_vars t)\<lparr>cv_grounding := Some (length (w_objects w))\<rparr>"
      and "rc_objects s = w_objects w @ [f new_grounding]"
  using assms by (cases "cv_grounding (t_vars t)") (auto simp: change_grounding_def as_task_def set_vars_def)

text \<open>A step that puts a task back keeps ownership when the frames it adds point to objects of their run.\<close>

lemma owned_put:
  assumes "owned_by own w" and "length (w_objects w) \<le> length (rc_objects s)"
    and "\<And>r k. (r, Some k) \<in> frames \<lparr>t_vars = rc_vars s, t_tokens = toks\<rparr> \<Longrightarrow>
      k < length (rc_objects s) \<and> own' k = r"
    and "\<And>k. k < length (w_objects w) \<Longrightarrow> own' k = own k"
  shows "owned_by own' (put_task i s toks w)"
  unfolding owned_by_def put_task_def tasks_world.simps
proof (intro allI impI)
  fix j u r k
  assume u: "((w_tasks w)(i \<mapsto> \<lparr>t_vars = rc_vars s, t_tokens = toks\<rparr>)) j = Some u" and f: "(r, Some k) \<in> frames u"
  show "k < length (rc_objects s) \<and> own' k = r"
  proof (cases "j = i")
    case True
    then have "u = \<lparr>t_vars = rc_vars s, t_tokens = toks\<rparr>" using u by simp
    then show ?thesis using assms(3) f by blast
  next
    case False
    then have "k < length (w_objects w) \<and> own k = r" using owned_byD [OF assms(1) _ f] u by simp
    then show ?thesis using assms(2,4) by simp
  qed
qed

lemma change_owned:
  assumes "change_grounding f (as_task w t) = (Inr (), s)" and "owned_by own w" and "w_tasks w i = Some t"
  shows "\<exists>own'. owned_by own' (put_task i s (t_tokens t) w)"
  using assms(1)
proof (cases rule: change_effect)
  case (old k)
  have "owned_by own (put_task i s (t_tokens t) w)"
    by (rule owned_put [OF assms(2)]) (use old owned_byD [OF assms(2,3)] in \<open>auto simp: frames_def\<close>)
  then show ?thesis by blast
next
  case new
  let ?o = "own(length (w_objects w) := cv_run_id (t_vars t))"
  have "owned_by ?o (put_task i s (t_tokens t) w)"
  proof (rule owned_put [OF assms(2)])
    fix r k assume "(r, Some k) \<in> frames \<lparr>t_vars = rc_vars s, t_tokens = t_tokens t\<rparr>"
    then consider "k = length (w_objects w)" "r = cv_run_id (t_vars t)" | "(r, Some k) \<in> frames t"
      using new by (auto simp: frames_def)
    then show "k < length (rc_objects s) \<and> ?o k = r"
    proof cases
      case 2
      then show ?thesis using owned_byD [OF assms(2,3) 2] new by simp
    qed (simp add: new)
  qed (simp_all add: new)
  then show ?thesis by blast
qed

lemma bind_effect:
  assumes "bind_request_context run_id instruction conversation (as_task w t) = (Inr tok, s)"
  shows "rc_objects s = w_objects w @ [new_grounding]" "cv_run_id (rc_vars s) = Some run_id"
    "cv_grounding (rc_vars s) = Some (length (w_objects w))"
    "rt_run_id tok = cv_run_id (t_vars t)" "rt_grounding_state tok = cv_grounding (t_vars t)"
  using assms by (auto simp: context_defs Let_def as_task_def)

lemma reset_effect:
  assumes "reset_request_context tok (as_task w t) = (Inr (), s)"
  shows "rc_objects s = w_objects w" "cv_run_id (rc_vars s) = rt_run_id tok"
    "cv_grounding (rc_vars s) = rt_grounding_state tok"
  using assms by (auto simp: context_defs as_task_def)

lemma step_owned:
  assumes "task_step i w w'" and "owned_by own w"
  shows "\<exists>own'. owned_by own' w'"
  using assms
proof (cases rule: task_step.cases)
  case (bind t run_id instruction conversation tok s)
  note e = bind_effect [OF bind(3)]
  let ?o = "own(length (w_objects w) := Some run_id)"
  have "owned_by ?o (put_task i s (tok # t_tokens t) w)"
  proof (rule owned_put [OF assms(2)])
    fix r k assume "(r, Some k) \<in> frames \<lparr>t_vars = rc_vars s, t_tokens = tok # t_tokens t\<rparr>"
    then consider "k = length (w_objects w)" "r = Some run_id" | "(r, Some k) \<in> frames t"
      using e by (auto simp: frames_def)
    then show "k < length (rc_objects s) \<and> ?o k = r"
    proof cases
      case 2
      then show ?thesis using owned_byD [OF assms(2) bind(2) 2] e(1) by simp
    qed (simp add: e)
  qed (simp_all add: e)
  then show ?thesis using bind(1) by blast
next
  case (reset t tok toks s)
  note e = reset_effect [OF reset(4)]
  have "owned_by own (put_task i s toks w)"
    by (rule owned_put [OF assms(2)]) (use e reset(3) owned_byD [OF assms(2) reset(2)] in \<open>auto simp: frames_def\<close>)
  then show ?thesis using reset(1) by blast
next
  case (ground t b s)
  then show ?thesis using change_owned assms(2) by (simp add: record_grounding_def)
next
  case (plan t p s)
  then show ?thesis using change_owned assms(2) by (simp add: record_validated_plan_def)
next
  case (spawn t j)
  have "owned_by own w'"
    unfolding owned_by_def
  proof (intro allI impI)
    fix l u r k assume u: "w_tasks w' l = Some u" and f: "(r, Some k) \<in> frames u"
    have "\<exists>l' u'. w_tasks w l' = Some u' \<and> (r, Some k) \<in> frames u'"
    proof (cases "l = j")
      case True
      then have "(r, Some k) \<in> frames t" using u f spawn(1) by (auto simp: frames_def)
      then show ?thesis using spawn(2) by blast
    next
      case False
      then show ?thesis using u f spawn(1) by auto
    qed
    then show "k < length (w_objects w') \<and> own k = r"
      using owned_byD [OF assms(2)] spawn(1) by fastforce
  qed
  then show ?thesis by blast
qed

lemma reachable_owned: "tasks_reachable w \<Longrightarrow> \<exists>own. owned_by own w"
proof (induction rule: tasks_reachable.induct)
  case start
  have "owned_by (\<lambda>_. None) first_world"
    by (auto simp: owned_by_def first_world_def frames_def no_vars_def split: if_splits)
  then show ?case by blast
next
  case (step w i w')
  then show ?case using step_owned by blast
qed

text \<open>A step writes to no object but the one of its task.\<close>

lemma step_objects:
  assumes "task_step j w w'" and "w_tasks w j = Some u" and "k < length (w_objects w)"
    and "cv_grounding (t_vars u) \<noteq> Some k"
  shows "w_objects w' ! k = w_objects w ! k"
  using assms(1)
proof (cases rule: task_step.cases)
  case (bind t run_id instruction conversation tok s)
  then show ?thesis using assms(3) by (simp add: put_task_def bind_effect nth_append)
next
  case (reset t tok toks s)
  then show ?thesis by (simp add: put_task_def reset_effect)
next
  case (ground t b s)
  then have t: "t = u" using assms(2) by simp
  show ?thesis using ground(3) [unfolded record_grounding_def]
    by (cases rule: change_effect) (use assms(3,4) ground(1) t in \<open>auto simp: put_task_def nth_append\<close>)
next
  case (plan t p s)
  then have t: "t = u" using assms(2) by simp
  show ?thesis using plan(3) [unfolded record_validated_plan_def]
    by (cases rule: change_effect) (use assms(3,4) plan(1) t in \<open>auto simp: put_task_def nth_append\<close>)
next
  case (spawn t j)
  then show ?thesis by simp
qed

lemma step_tasks: "task_step j w w' \<Longrightarrow> i \<noteq> j \<Longrightarrow> w_tasks w i = Some t \<Longrightarrow> w_tasks w' i = Some t"
  by (auto elim!: task_step.cases simp: put_task_def)


text \<open>The tools of one request share its grounding: a task started by a bound task reads, at once, what its
parent records, and the parent reads what the child records; when the request is reset, the variables
are those from before the bind.\<close>

theorem request_shares_grounding:
  assumes "bind_request_context run_id instruction conversation (as_task w t) = (Inr tok, s)"
    and "parent = \<lparr>t_vars = rc_vars s, t_tokens = tok # t_tokens t\<rparr>"
    and "w1 = put_task i s (tok # t_tokens t) w"
    and "record_validated_plan p (as_task w1 child) = (Inr (), s2)" and "t_vars child = t_vars parent"
    and "w2 = put_task j s2 (t_tokens child) w1"
  shows "get_grounding_state (as_task w2 parent) = Some \<lparr>rg_bundle = None, rg_plan = p\<rparr> \<and>
    (cv_resume (rc_vars s3) = cv_resume (t_vars t) \<longrightarrow>
      (\<exists>s4. reset_request_context tok s3 = (Inr (), s4) \<and> rc_vars s4 = t_vars t))"
proof
  note e = bind_effect [OF assms(1)]
  have "rc_objects s2 = w_objects w @ [\<lparr>rg_bundle = None, rg_plan = p\<rparr>]"
    using assms(4) [unfolded record_validated_plan_def]
    by (cases rule: change_effect) (use e assms(2,3,5) in \<open>auto simp: put_task_def new_grounding_def\<close>)
  then show "get_grounding_state (as_task w2 parent) = Some \<lparr>rg_bundle = None, rg_plan = p\<rparr>"
    using e(3) by (simp add: get_grounding_state_def as_task_def assms(2,6) put_task_def)
  show "cv_resume (rc_vars s3) = cv_resume (t_vars t) \<longrightarrow>
      (\<exists>s4. reset_request_context tok s3 = (Inr (), s4) \<and> rc_vars s4 = t_vars t)"
    using reset_restores [OF assms(1), of s3] by (simp add: as_task_def)
qed


subsection \<open>Two requests at work\<close>

definition idle_task :: task where
  "idle_task = \<lparr>t_vars = no_vars, t_tokens = []\<rparr>"

definition bound_vars :: "string \<Rightarrow> nat \<Rightarrow> context_vars" where
  "bound_vars run k = \<lparr>cv_run_id = Some run, cv_instruction_hash = Some (text_sha256 [20]),
     cv_instruction_text = Some [20], cv_conversation = None, cv_grounding = Some k, cv_resume = None\<rparr>"

definition no_tokens :: request_tokens where
  "no_tokens = \<lparr>rt_run_id = None, rt_instruction_hash = None, rt_instruction_text = None,
     rt_grounding_state = None, rt_conversation_id = None\<rparr>"

definition bound_task :: "string \<Rightarrow> nat \<Rightarrow> task" where
  "bound_task run k = \<lparr>t_vars = bound_vars run k, t_tokens = [no_tokens]\<rparr>"

definition two_requests :: tasks_world where
  "two_requests = \<lparr>w_tasks = [0 \<mapsto> bound_task ''a'' 0, 1 \<mapsto> bound_task ''b'' 1],
     w_objects = [new_grounding, new_grounding]\<rparr>"

lemma bind_idle:
  "bind_request_context run [20] None \<lparr>rc_vars = no_vars, rc_objects = objs\<rparr> =
    (Inr no_tokens, \<lparr>rc_vars = bound_vars run (length objs), rc_objects = objs @ [new_grounding]\<rparr>)"
  by (simp add: context_defs Let_def no_vars_def no_tokens_def bound_vars_def)

lemma two_requests_reachable: "tasks_reachable two_requests"
proof -
  let ?w1 = "\<lparr>w_tasks = [0 \<mapsto> idle_task, 1 \<mapsto> idle_task], w_objects = []\<rparr>"
  let ?w2 = "\<lparr>w_tasks = [0 \<mapsto> bound_task ''a'' 0, 1 \<mapsto> idle_task], w_objects = [new_grounding]\<rparr>"
  have "task_step 0 first_world ?w1"
    using task_step.spawn [of first_world 0 idle_task 1] by (simp add: first_world_def idle_task_def)
  moreover have "task_step 0 ?w1 ?w2"
    using task_step.bind [of ?w1 0 idle_task "''a''" "[20]" None] bind_idle [of "''a''" "[]"]
    by (simp add: as_task_def idle_task_def put_task_def bound_task_def fun_upd_twist)
  moreover have "task_step 1 ?w2 two_requests"
    using task_step.bind [of ?w2 1 idle_task "''b''" "[20]" None] bind_idle [of "''b''" "[new_grounding]"]
    by (simp add: as_task_def idle_task_def put_task_def bound_task_def two_requests_def)
  ultimately show ?thesis using tasks_reachable.intros by meson
qed


theorem request_shares_grounding_witness:
  "get_grounding_state (as_task (put_task 1 \<lparr>rc_vars = bound_vars ''a'' 0, rc_objects = [new_grounding]\<rparr> []
      (put_task 0 \<lparr>rc_vars = bound_vars ''a'' 0, rc_objects = [new_grounding]\<rparr> [no_tokens] first_world))
      (bound_task ''a'' 0)) = Some \<lparr>rg_bundle = None, rg_plan = None\<rparr>"
proof -
  let ?s = "\<lparr>rc_vars = bound_vars ''a'' 0, rc_objects = [new_grounding]\<rparr>"
  have b: "bind_request_context ''a'' [20] None (as_task first_world idle_task) = (Inr no_tokens, ?s)"
    using bind_idle [of "''a''" "[]"] by (simp add: as_task_def first_world_def idle_task_def)
  have p: "record_validated_plan None (as_task (put_task 0 ?s [no_tokens] first_world)
      \<lparr>t_vars = bound_vars ''a'' 0, t_tokens = []\<rparr>) = (Inr (), ?s)"
    by (simp add: record_validated_plan_def change_grounding_def as_task_def put_task_def bound_vars_def new_grounding_def)
  have "bound_task ''a'' 0 = \<lparr>t_vars = rc_vars ?s, t_tokens = no_tokens # t_tokens idle_task\<rparr>"
    by (simp add: bound_task_def idle_task_def)
  then show ?thesis
    using request_shares_grounding [OF b, of "bound_task ''a'' 0" _ 0 None "\<lparr>t_vars = bound_vars ''a'' 0, t_tokens = []\<rparr>" ?s _ 1] p
    by (simp add: idle_task_def bound_task_def)
qed

end
