(* ===== verification/Intent_Guard.thy ===== *)
theory Intent_Guard
  imports Sql_Tree Py_Float Unicode_Text
begin

section \<open>The intent and result checks\<close>

text \<open>
  \<open>agent-service/app/security/intent_guard.py\<close> and \<open>result_guard.py\<close>: a query has to show the dimension that
  the question groups by, and its result must not hold empty groups where the question asks about events
  that happened. The question is a \<open>utext\<close>; the phrases are given by their code points. The messages of the
  errors are Chinese text, so there is one constructor for each message.
\<close>

subsection \<open>Explicit dimensions of the question\<close>

datatype intent_error = Region_Not_Grouped | Customer_Not_Shown | Category_Not_Grouped | Customer_Name_Alias
  | Intent_Parser_Raised exn

record dimension_rule =
  rule_left :: "utext list"
  rule_right :: "utext list"
  required_column :: string
  required_table :: "string option"
  rule_message :: intent_error

text \<open>The words: by, every, each; region, area, greater region; customer, user; product; category, class.\<close>

definition W_BY :: utext where "W_BY = [25353]"
definition W_EVERY :: utext where "W_EVERY = [27599, 20010]"
definition W_EACH :: utext where "W_EACH = [21508]"
definition W_REGION :: utext where "W_REGION = [21306, 22495]"
definition W_AREA :: utext where "W_AREA = [22320, 21306]"
definition W_GREATER_REGION :: utext where "W_GREATER_REGION = [22823, 21306]"
definition W_CUSTOMER :: utext where "W_CUSTOMER = [23458, 25143]"
definition W_USER :: utext where "W_USER = [29992, 25143]"
definition W_PRODUCT :: utext where "W_PRODUCT = [21830, 21697]"
definition W_CATEGORY :: utext where "W_CATEGORY = [21697, 31867]"
definition W_CLASS :: utext where "W_CLASS = [31867, 21035]"

definition DIMENSION_RULES :: "dimension_rule list" where
  "DIMENSION_RULES =
     [\<lparr>rule_left = [W_BY, W_EVERY, W_EACH], rule_right = [W_REGION, W_AREA, W_GREATER_REGION],
       required_column = ''region'', required_table = None, rule_message = Region_Not_Grouped\<rparr>,
      \<lparr>rule_left = [W_BY, W_EVERY, W_EACH], rule_right = [W_CUSTOMER, W_USER],
       required_column = ''name'', required_table = Some ''customers'', rule_message = Customer_Not_Shown\<rparr>,
      \<lparr>rule_left = [W_BY, W_EVERY, W_EACH, W_PRODUCT], rule_right = [W_CATEGORY, W_CLASS],
       required_column = ''category'', required_table = Some ''products'', rule_message = Category_Not_Grouped\<rparr>]"

definition rule_applies :: "utext \<Rightarrow> dimension_rule \<Rightarrow> bool" where
  "rule_applies question r = found_pair (rule_left r) (rule_right r) question"

text \<open>What the query shows: the grouped columns, the columns of its outputs, their names, and its tables.\<close>

definition names_of :: "sqlglot \<Rightarrow> sql_class \<Rightarrow> sql \<Rightarrow> string list" where
  "names_of g c n = map (\<lambda>p. lower (node_name g (snd p))) (find_all c (at_root n))"

definition grouped_columns :: "sqlglot \<Rightarrow> sql \<Rightarrow> string list" where
  "grouped_columns g e = (case arg ''group'' e of None \<Rightarrow> [] | Some x \<Rightarrow> names_of g X_Column x)"

definition selected_columns :: "sqlglot \<Rightarrow> sql \<Rightarrow> string list" where
  "selected_columns g e = concat (map (names_of g X_Column) (node_selects g e))"

definition output_names :: "sqlglot \<Rightarrow> sql \<Rightarrow> string list" where
  "output_names g e = map (\<lambda>x. lower (alias_or_name g x)) (node_selects g e)"

definition check_rule :: "sqlglot \<Rightarrow> sql \<Rightarrow> utext \<Rightarrow> dimension_rule \<Rightarrow> intent_error option" where
  "check_rule g e question r =
     (if \<not> rule_applies question r then None
      else if (case required_table r of None \<Rightarrow> False | Some t \<Rightarrow> t \<notin> set (names_of g X_Table e)) then Some (rule_message r)
      else if required_column r \<notin> set (grouped_columns g e) \<or> required_column r \<notin> set (selected_columns g e)
        then Some (rule_message r)
      else if required_table r = Some ''customers'' \<and> ''name'' \<notin> set (output_names g e)
        then Some Customer_Name_Alias
      else None)"

text \<open>The first rule that fails raises.\<close>

definition validate_query_intent :: "sqlglot \<Rightarrow> string \<Rightarrow> utext option \<Rightarrow> intent_error + unit" where
  "validate_query_intent g sql question =
     (case question of None \<Rightarrow> Inr () | Some q \<Rightarrow>
        if q = [] then Inr ()
        else (case parse_one g sql of
            Inl x \<Rightarrow> Inl (Intent_Parser_Raised x)
          | Inr e \<Rightarrow>
              (case List.map_filter (check_rule g e q) DIMENSION_RULES of
                 [] \<Rightarrow> Inr () | m # _ \<Rightarrow> Inl m)))"

subsection \<open>Empty groups of the result\<close>

text \<open>
  A value of a row. \<open>C_Other\<close> is any value that is not \<open>None\<close>, a Boolean or a number of Python, by the text
  \<open>str(value)\<close>: a \<open>Decimal\<close>, a string, a date.
\<close>

datatype cell = C_None | C_Bool bool | C_Int int | C_Float pyfloat | C_Other string

definition is_digit :: "char \<Rightarrow> bool" where
  "is_digit c = (let n = of_char c :: nat in 48 \<le> n \<and> n \<le> 57)"

text \<open>\<open>Decimal(text) == 0\<close>: strip, drop underscores, an optional sign, digits with at most one point, an
optional exponent; the value is zero when every digit before the exponent is.\<close>

definition drop_sign :: "string \<Rightarrow> string" where
  "drop_sign s = (case s of [] \<Rightarrow> [] | c # cs \<Rightarrow> if c = CHR ''+'' \<or> c = CHR ''-'' then cs else s)"

definition exponent_ok :: "string \<Rightarrow> bool" where
  "exponent_ok s = (case s of [] \<Rightarrow> True | c # cs \<Rightarrow>
     (c = CHR ''e'' \<or> c = CHR ''E'') \<and> drop_sign cs \<noteq> [] \<and> list_all is_digit (drop_sign cs))"

definition decimal_zero :: "string \<Rightarrow> bool" where
  "decimal_zero text =
     (let s = drop_sign (filter (\<lambda>c. c \<noteq> CHR ''_'') (strip text));
          whole = takeWhile is_digit s; rest = dropWhile is_digit s;
          frac = (case rest of [] \<Rightarrow> [] | c # cs \<Rightarrow> if c = CHR ''.'' then takeWhile is_digit cs else []);
          tail = (case rest of [] \<Rightarrow> [] | c # cs \<Rightarrow> if c = CHR ''.'' then dropWhile is_digit cs else rest)
      in whole @ frac \<noteq> [] \<and> exponent_ok tail \<and> list_all (\<lambda>c. c = CHR ''0'') (whole @ frac))"

fun is_empty_metric :: "cell \<Rightarrow> bool" where
  "is_empty_metric C_None = True"
| "is_empty_metric (C_Bool b) = False"
| "is_empty_metric (C_Int i) = (i = 0)"
| "is_empty_metric (C_Float q) = (q = 0)"
| "is_empty_metric (C_Other s) = decimal_zero s"

datatype result_intent_error = Empty_Customer_Groups | Empty_Region_Groups

type_synonym query_row = "(utext, cell) dict"

text \<open>The phrases: including zero, including none, even if none, all customers; paid orders, successful
refund amount; quantity, amount.\<close>

definition INCLUDE_EMPTY :: "utext list" where
  "INCLUDE_EMPTY = [[21253, 25324, 38646], [21253, 25324, 27809, 26377], [21363, 20351, 27809, 26377],
     [25152, 26377, 23458, 25143]]"

definition PAID_ORDERS :: utext where "PAID_ORDERS = [24050, 25903, 20184, 35746, 21333]"
definition REFUNDED_AMOUNT :: utext where "REFUNDED_AMOUNT = [36864, 27454, 25104, 21151, 37329, 39069]"
definition W_QUANTITY :: utext where "W_QUANTITY = [25968, 37327]"
definition W_AMOUNT :: utext where "W_AMOUNT = [37329, 39069]"

definition per_customer :: "utext list" where
  "per_customer = [W_EVERY @ W_CUSTOMER, W_EACH @ W_CUSTOMER, W_BY @ W_CUSTOMER]"

definition per_region :: "utext list" where
  "per_region = [W_EVERY @ W_REGION, W_EACH @ W_REGION, W_BY @ W_REGION]"

definition counted_values :: "string \<Rightarrow> utext \<Rightarrow> query_row list \<Rightarrow> cell list" where
  "counted_values english chinese records =
     concat (map (\<lambda>row. map snd (filter (\<lambda>(column, _).
        occurs (text_of_string english) (ascii_lower column) \<or> occurs chinese column) row)) records)"

definition validate_result_intent :: "query_row list \<Rightarrow> utext option \<Rightarrow> result_intent_error + unit" where
  "validate_result_intent records question =
     (case question of None \<Rightarrow> Inr () | Some q \<Rightarrow>
        if q = [] \<or> any_of INCLUDE_EMPTY q then Inr ()
        else if occurs PAID_ORDERS q \<and> any_of per_customer q \<and>
            list_ex is_empty_metric (counted_values ''count'' W_QUANTITY records)
          then Inl Empty_Customer_Groups
        else if occurs REFUNDED_AMOUNT q \<and> any_of per_region q \<and>
            list_ex is_empty_metric (counted_values ''amount'' W_AMOUNT records)
          then Inl Empty_Region_Groups
        else Inr ())"

subsection \<open>What a query that passes shows\<close>

lemma first_found: "List.map_filter f xs = [] \<longleftrightarrow> (\<forall>x \<in> set xs. f x = None)"
  by (induction xs) (auto simp: List.map_filter_simps split: option.splits)

lemma intent_passed:
  assumes "validate_query_intent g sql (Some q) = Inr ()" and "q \<noteq> []"
  obtains e where "parse_one g sql = Inr e" and "\<forall>r \<in> set DIMENSION_RULES. check_rule g e q r = None"
  using assms that by (auto simp: validate_query_intent_def first_found [symmetric] split: sum.splits list.splits)

lemma rule_passed:
  assumes "check_rule g e q r = None" and "rule_applies q r"
  shows "required_column r \<in> set (grouped_columns g e)" "required_column r \<in> set (selected_columns g e)"
    "required_table r = Some t \<Longrightarrow> t \<in> set (names_of g X_Table e)"
    "required_table r = Some ''customers'' \<Longrightarrow> ''name'' \<in> set (output_names g e)"
  using assms by (auto simp: check_rule_def split: if_splits)

lemma rule_not_empty: "r \<in> set DIMENSION_RULES \<Longrightarrow> \<not> rule_applies [] r"
  by (auto simp: DIMENSION_RULES_def rule_applies_def found_pair_def W_BY_def W_EVERY_def W_EACH_def W_PRODUCT_def)

end
