(* ===== verification/Retrieval.thy ===== *)
theory Retrieval
  imports Prelude Unicode_Text Py_Float
begin

section \<open>Hybrid retrieval of schema knowledge\<close>

text \<open>
  \<open>agent-service/app/retrieval.py\<close>: the read-only store of the knowledge corpus over three tables, and the
  retriever that fuses its keyword search with the similarity of embeddings and falls back to the keywords
  when the embeddings fail. The embedding model and its loader are arguments, as are the collation of the database
  and its \<open>lower\<close>. Texts are code points.
\<close>

subsection \<open>Documents\<close>

record knowledge_document =
  document_id :: utext
  doc_kind :: utext
  doc_title :: utext
  doc_body :: utext

definition document_text :: "knowledge_document \<Rightarrow> utext" where
  "document_text d = doc_kind d @ [10] @ doc_title d @ [10] @ doc_body d"

definition document_render :: "knowledge_document \<Rightarrow> utext" where
  "document_render d = text_of_string ''**'' @ doc_kind d @ text_of_string '' / '' @ doc_title d @ text_of_string ''**'' @
     [10] @ doc_body d"

record retrieval_outcome =
  ro_documents :: "knowledge_document list"
  ro_mode :: string
  ro_warning :: "utext option"
  ro_keyword_hits :: nat
  ro_vector_hits :: nat

subsection \<open>The corpus in PostgreSQL\<close>

record schema_row =
  sr_table :: utext
  sr_column :: "utext option"
  sr_description :: utext
  sr_aliases :: "utext list"

record metric_row =
  mr_name :: utext
  mr_description :: utext
  mr_formula :: utext
  mr_example :: utext

record example_row =
  er_id :: utext
  er_question :: utext
  er_sql :: utext
  er_tags :: "utext list"

record knowledge_tables =
  schema_catalog :: "schema_row list"
  metric_definitions :: "metric_row list"
  query_examples :: "example_row list"

text \<open>What the database decides: the collation key of a text, and the lower case of a character.\<close>

record database_text =
  collation :: "utext \<Rightarrow> utext"
  lower_point :: "nat \<Rightarrow> nat"

definition db_lower :: "database_text \<Rightarrow> utext \<Rightarrow> utext" where
  "db_lower db s = map (lower_point db) s"

text \<open>\<open>text LIKE pattern\<close>: \<open>%\<close> is any text, \<open>_\<close> any character, a backslash takes the next character as it is.\<close>

fun like :: "utext \<Rightarrow> utext \<Rightarrow> bool" where
  "like [] s \<longleftrightarrow> s = []"
| "like (p # ps) [] \<longleftrightarrow> p = 37 \<and> like ps []"
| "like (p # ps) (c # cs) \<longleftrightarrow>
     (if p = 37 then like ps (c # cs) \<or> like (p # ps) cs
      else if p = 95 then like ps cs
      else if p = 92 then (case ps of [] \<Rightarrow> False | q # qs \<Rightarrow> q = c \<and> like qs cs)
      else p = c \<and> like ps cs)"

definition ilike :: "database_text \<Rightarrow> utext \<Rightarrow> utext \<Rightarrow> bool" where
  "ilike db s pattern \<longleftrightarrow> like (db_lower db pattern) (db_lower db s)"

fun joined_by_commas :: "utext list \<Rightarrow> utext" where
  "joined_by_commas [] = []"
| "joined_by_commas [x] = x"
| "joined_by_commas (x # y # ys) = x @ [44] @ joined_by_commas (y # ys)"

definition schema_document :: "schema_row \<Rightarrow> knowledge_document" where
  "schema_document r = \<lparr>
     document_id = text_of_string ''schema:'' @ sr_table r @ text_of_string ''.'' @
       (case sr_column r of None \<Rightarrow> text_of_string ''_table'' | Some c \<Rightarrow> c),
     doc_kind = text_of_string ''schema'',
     doc_title = sr_table r @ (case sr_column r of None \<Rightarrow> [] | Some c \<Rightarrow> text_of_string ''.'' @ c),
     doc_body = sr_description r @ text_of_string '' aliases='' @ joined_by_commas (sr_aliases r)\<rparr>"

definition metric_document :: "database_text \<Rightarrow> metric_row \<Rightarrow> knowledge_document" where
  "metric_document db r = \<lparr>
     document_id = text_of_string ''metric:'' @ db_lower db (mr_name r),
     doc_kind = text_of_string ''metric'',
     doc_title = mr_name r,
     doc_body = mr_description r @ text_of_string '' formula='' @ mr_formula r @ text_of_string '' example='' @ mr_example r\<rparr>"

definition example_document :: "example_row \<Rightarrow> knowledge_document" where
  "example_document r = \<lparr>document_id = text_of_string ''example:'' @ er_id r, doc_kind = text_of_string ''example'',
     doc_title = er_question r, doc_body = er_sql r\<rparr>"

definition load_documents :: "database_text \<Rightarrow> knowledge_tables \<Rightarrow> knowledge_document list" where
  "load_documents db t = sort_key (\<lambda>d. collation db (document_id d))
     (map schema_document (schema_catalog t) @ map (metric_document db) (metric_definitions t) @
      map example_document (query_examples t))"

text \<open>Rows whose kind and title sort the same may come in any order; the model keeps theirs.\<close>

definition search_keyword :: "database_text \<Rightarrow> knowledge_tables \<Rightarrow> utext \<Rightarrow> nat \<Rightarrow> knowledge_document list" where
  "search_keyword db t query limit =
     (let pattern = [37] @ query @ [37];
          column = (\<lambda>r. case sr_column r of None \<Rightarrow> [] | Some c \<Rightarrow> c)
      in take limit (sort_key (\<lambda>d. (collation db (doc_kind d), collation db (doc_title d)))
        (map schema_document (filter (\<lambda>r. ilike db (sr_description r) pattern \<or> ilike db (sr_table r) pattern \<or>
             ilike db (column r) pattern \<or> ilike db (joined_by_commas (sr_aliases r)) pattern) (schema_catalog t)) @
         map (metric_document db) (filter (\<lambda>r. ilike db (mr_name r) pattern \<or> ilike db (mr_description r) pattern)
             (metric_definitions t)) @
         map example_document (filter (\<lambda>r. ilike db (er_question r) pattern \<or>
             ilike db (joined_by_commas (er_tags r)) pattern) (query_examples t)))))"

subsection \<open>The retriever\<close>

text \<open>An embedding model: a vector for each text, or an exception.\<close>

type_synonym text_embedder = "utext list \<Rightarrow> exn + pyfloat list list"

record retriever =
  rt_mode :: string
  rt_candidate_limit :: nat
  rt_rrf_k :: nat
  rt_loader :: "exn + text_embedder"

definition check_retriever :: "retriever \<Rightarrow> exn + unit" where
  "check_retriever c = (if rt_mode c \<in> set [''hybrid'', ''keyword''] then Inr ()
     else Inl (ValueError (''RETRIEVAL_MODE must be 'hybrid' or 'keyword'' @ [CHR 0x27])))"

text \<open>What the retriever asks of its store; each call may fail.\<close>

record 's knowledge_ops =
  op_load_documents :: "('s, knowledge_document list) py"
  op_search_keyword :: "utext \<Rightarrow> nat \<Rightarrow> ('s, knowledge_document list) py"

text \<open>The state: the store and the index, which is built once; its three fields are set together.\<close>

record 's retrieval_state =
  rs_store :: 's
  rs_index :: "(knowledge_document list \<times> pyfloat list list \<times> text_embedder) option"

definition on_store :: "('s, 'a) py \<Rightarrow> ('s retrieval_state, 'a) py" where
  "on_store m w = (case m (rs_store w) of (r, s) \<Rightarrow> (r, w\<lparr>rs_store := s\<rparr>))"

definition build_index :: "'s knowledge_ops \<Rightarrow> retriever \<Rightarrow>
    ('s retrieval_state, knowledge_document list \<times> pyfloat list list \<times> text_embedder) py" where
  "build_index ops c = bindM (on_store (op_load_documents ops)) (\<lambda>documents.
     if documents = [] then raise (RuntimeError ''Knowledge corpus is empty'')
     else (case rt_loader c of
         Inl e \<Rightarrow> raise e
       | Inr embedder \<Rightarrow>
           (case embedder (map document_text documents) of
              Inl e \<Rightarrow> raise e
            | Inr vectors \<Rightarrow> ret (documents, vectors, embedder))))"

definition ensure_index :: "'s knowledge_ops \<Rightarrow> retriever \<Rightarrow>
    ('s retrieval_state, knowledge_document list \<times> pyfloat list list \<times> text_embedder) py" where
  "ensure_index ops c w =
     (case rs_index w of
        Some i \<Rightarrow> (Inr i, w)
      | None \<Rightarrow> bindM (build_index ops c) (\<lambda>i w. (Inr i, w\<lparr>rs_index := Some i\<rparr>)) w)"

text \<open>\<open>sum(a * b for a, b in zip(left, right, strict=True))\<close> from left to right.\<close>

definition dot :: "pyfloat list \<Rightarrow> pyfloat list \<Rightarrow> exn + pyfloat" where
  "dot left right =
     (if length left = length right then Inr (foldl fadd 0 (map2 fmul left right))
      else Inl (ValueError ''zip() argument 2 is shorter or longer than argument 1''))"

fun scored_documents :: "pyfloat list \<Rightarrow> knowledge_document list \<Rightarrow> pyfloat list list \<Rightarrow>
    exn + (pyfloat \<times> knowledge_document) list" where
  "scored_documents q [] [] = Inr []"
| "scored_documents q (d # ds) (v # vs) =
     (case dot q v of Inl e \<Rightarrow> Inl e | Inr x \<Rightarrow>
        (case scored_documents q ds vs of Inl e \<Rightarrow> Inl e | Inr xs \<Rightarrow> Inr ((x, d) # xs)))"
| "scored_documents q _ _ = Inl (ValueError ''zip() argument 2 is shorter or longer than argument 1'')"

definition vector_search :: "utext \<Rightarrow> text_embedder \<Rightarrow> knowledge_document list \<Rightarrow> pyfloat list list \<Rightarrow> nat \<Rightarrow>
    exn + knowledge_document list" where
  "vector_search query embedder documents vectors limit =
     (case embedder [query] of
        Inl e \<Rightarrow> Inl e
      | Inr [] \<Rightarrow> Inl (External ''IndexError'')
      | Inr (q # _) \<Rightarrow>
          (case scored_documents q documents vectors of
             Inl e \<Rightarrow> Inl e
           | Inr scored \<Rightarrow>
               Inr (map snd (take limit (sort_key (\<lambda>(x, d). (- x, document_id d)) scored)))))"

text \<open>One pass over a ranking; \<open>rank\<close> counts from one.\<close>

type_synonym fusion = "(utext, pyfloat) dict \<times> (utext, knowledge_document) dict"

fun fuse_ranking :: "nat \<Rightarrow> nat \<Rightarrow> knowledge_document list \<Rightarrow> fusion \<Rightarrow> fusion" where
  "fuse_ranking k rank [] f = f"
| "fuse_ranking k rank (d # ds) (scores, documents) =
     (let old = (case map_of scores (document_id d) of None \<Rightarrow> 0 | Some x \<Rightarrow> x)
      in fuse_ranking k (Suc rank) ds
           (AList.update (document_id d) (fadd old (fdiv 1 (of_nat (k + rank)))) scores,
            AList.update (document_id d) d documents))"

definition reciprocal_rank_fusion :: "nat \<Rightarrow> knowledge_document list \<Rightarrow> knowledge_document list \<Rightarrow> nat \<Rightarrow>
    knowledge_document list" where
  "reciprocal_rank_fusion k keyword vector limit =
     (case fuse_ranking k 1 vector (fuse_ranking k 1 keyword ([], [])) of
        (scores, documents) \<Rightarrow>
          map (\<lambda>i. the (map_of documents i))
            (take limit (map fst (sort_key (\<lambda>(i, x). (- x, i)) scores))))"

definition FALLBACK_WARNING :: utext where
  "FALLBACK_WARNING = [21521, 37327, 26816, 32034, 26242, 19981, 21487, 29992, 65292, 24050, 22238, 36864, 21040, 20851,
     38190, 35789, 26816, 32034, 12290]"

definition hybrid_search :: "'s knowledge_ops \<Rightarrow> retriever \<Rightarrow> utext \<Rightarrow> nat \<Rightarrow> knowledge_document list \<Rightarrow>
    ('s retrieval_state, retrieval_outcome) py" where
  "hybrid_search ops c query limit keyword = bindM (ensure_index ops c) (\<lambda>(documents, vectors, embedder).
     case vector_search query embedder documents vectors (rt_candidate_limit c) of
       Inl e \<Rightarrow> raise e
     | Inr vector \<Rightarrow> ret \<lparr>ro_documents = reciprocal_rank_fusion (rt_rrf_k c) keyword vector limit, ro_mode = ''hybrid'',
         ro_warning = None, ro_keyword_hits = length keyword, ro_vector_hits = length vector\<rparr>)"

definition retrieve :: "'s knowledge_ops \<Rightarrow> retriever \<Rightarrow> utext \<Rightarrow> nat \<Rightarrow> ('s retrieval_state, retrieval_outcome) py" where
  "retrieve ops c query limit = bindM (on_store (op_search_keyword ops query (rt_candidate_limit c))) (\<lambda>keyword.
     if rt_mode c = ''keyword''
     then ret \<lparr>ro_documents = take limit keyword, ro_mode = ''keyword'', ro_warning = None,
       ro_keyword_hits = length keyword, ro_vector_hits = 0\<rparr>
     else catchM (hybrid_search ops c query limit keyword) (\<lambda>e.
       if is_exception e
       then ret \<lparr>ro_documents = take limit keyword, ro_mode = ''keyword_fallback'', ro_warning = Some FALLBACK_WARNING,
         ro_keyword_hits = length keyword, ro_vector_hits = 0\<rparr>
       else raise e))"

subsection \<open>The store as the retriever sees it\<close>

text \<open>The tables behind a connection that may be down.\<close>

record knowledge_db =
  kd_tables :: knowledge_tables
  kd_down :: "exn option"

definition pg_knowledge_ops :: "database_text \<Rightarrow> knowledge_db knowledge_ops" where
  "pg_knowledge_ops db = \<lparr>
     op_load_documents = (\<lambda>s. (case kd_down s of Some e \<Rightarrow> Inl e | None \<Rightarrow> Inr (load_documents db (kd_tables s)), s)),
     op_search_keyword = (\<lambda>query limit s. (case kd_down s of Some e \<Rightarrow> Inl e
       | None \<Rightarrow> Inr (search_keyword db (kd_tables s) query limit), s))\<rparr>"

text \<open>Every call leaves the store as it is and gives documents of its corpus; a search respects its limit.\<close>

locale knowledge_store =
  fixes ops :: "'s knowledge_ops"
    and corpus :: "'s \<Rightarrow> knowledge_document set"
  assumes load_reads: "snd (op_load_documents ops s) = s"
    and keyword_reads: "snd (op_search_keyword ops query limit s) = s"
    and load_corpus: "fst (op_load_documents ops s) = Inr ds \<Longrightarrow> set ds \<subseteq> corpus s"
    and keyword_corpus: "fst (op_search_keyword ops query limit s) = Inr ds \<Longrightarrow> set ds \<subseteq> corpus s \<and> length ds \<le> limit"

definition table_corpus :: "database_text \<Rightarrow> knowledge_db \<Rightarrow> knowledge_document set" where
  "table_corpus db s = set (load_documents db (kd_tables s))"

lemma search_keyword_corpus: "set (search_keyword db t query limit) \<subseteq> set (load_documents db t)"
  by (auto simp: search_keyword_def load_documents_def Let_def dest!: in_set_takeD)

lemma search_keyword_length: "length (search_keyword db t query limit) \<le> limit"
  by (simp add: search_keyword_def Let_def)

interpretation pg_knowledge: knowledge_store "pg_knowledge_ops db" "table_corpus db"
  using search_keyword_corpus [THEN subsetD] search_keyword_length
  by unfold_locales (auto simp: pg_knowledge_ops_def table_corpus_def split: option.splits dest: subsetD)

subsection \<open>Fusion\<close>

text \<open>The contributions of a ranking to the score of a document, and the score.\<close>

definition rank_terms :: "nat \<Rightarrow> nat \<Rightarrow> knowledge_document list \<Rightarrow> utext \<Rightarrow> pyfloat list" where
  "rank_terms k r ds i = map (\<lambda>(n, d). fdiv 1 (of_nat (k + n))) (filter (\<lambda>(n, d). document_id d = i) (zip [r..<r + length ds] ds))"

definition fused_score :: "nat \<Rightarrow> knowledge_document list \<Rightarrow> knowledge_document list \<Rightarrow> utext \<Rightarrow> pyfloat" where
  "fused_score k keyword vector i = foldl fadd 0 (rank_terms k 1 keyword i @ rank_terms k 1 vector i)"

definition known_score :: "(utext, pyfloat) dict \<Rightarrow> utext \<Rightarrow> pyfloat" where
  "known_score d i = (case map_of d i of None \<Rightarrow> 0 | Some x \<Rightarrow> x)"

lemma rank_terms_Cons:
  "rank_terms k r (d # ds) i = (if document_id d = i then [fdiv 1 (of_nat (k + r))] else []) @ rank_terms k (Suc r) ds i"
proof -
  have "[r..<r + length (d # ds)] = r # [Suc r..<Suc r + length ds]"
    by (metis add_Suc_right add_Suc_shift length_Cons less_add_Suc1 upt_conv_Cons)
  then show ?thesis by (simp add: rank_terms_def del: upt_Suc)
qed

lemma fuse_ranking_step:
  "fuse_ranking k r (d # ds) (s, m) = fuse_ranking k (Suc r) ds
     (AList.update (document_id d) (fadd (known_score s (document_id d)) (fdiv 1 (of_nat (k + r)))) s,
      AList.update (document_id d) d m)"
  by (simp add: known_score_def Let_def)

lemma known_score_update: "known_score (AList.update i x s) j = (if j = i then x else known_score s j)"
  by (simp add: known_score_def update_conv')

declare fuse_ranking.simps(2) [simp del]

lemma fuse_ranking_facts:
  assumes "fuse_ranking k r ds (s, m) = (s', m')"
  shows "known_score s' i = foldl fadd (known_score s i) (rank_terms k r ds i)"
    and "fst ` set s' = fst ` set s \<union> document_id ` set ds"
    and "distinct (map fst s) \<Longrightarrow> distinct (map fst s')"
    and "map_of m' i = None \<longleftrightarrow> map_of m i = None \<and> i \<notin> document_id ` set ds"
    and "map_of m' i = Some d \<Longrightarrow> map_of m i = Some d \<or> d \<in> set ds \<and> document_id d = i"
  using assms
proof (induction ds arbitrary: r s m)
  case (Cons e ds)
  {
    case 1
    then show ?case
      using Cons.IH(1) [OF 1 [unfolded fuse_ranking_step]] by (auto simp: rank_terms_Cons known_score_update)
  next
    case 2
    then show ?case
      using Cons.IH(2) [OF 2 [unfolded fuse_ranking_step]] by (simp add: insert_commute)
  next
    case 3
    then show ?case
      using Cons.IH(3) [OF _ 3(2) [unfolded fuse_ranking_step]] by (simp add: distinct_update)
  next
    case 4
    then show ?case
      using Cons.IH(4) [OF 4 [unfolded fuse_ranking_step]] by (auto simp: update_conv')
  next
    case 5
    then show ?case
      using Cons.IH(5) [OF _ 5(2) [unfolded fuse_ranking_step]] by (auto simp: update_conv' split: if_splits)
  }
qed (simp_all add: rank_terms_def)


lemma fused_facts:
  assumes "fuse_ranking k 1 vector (fuse_ranking k 1 keyword ([], [])) = (s, m)"
  shows "known_score s i = fused_score k keyword vector i"
    and "fst ` set s = document_id ` (set keyword \<union> set vector)"
    and "distinct (map fst s)"
    and "i \<in> document_id ` (set keyword \<union> set vector) \<Longrightarrow>
      the (map_of m i) \<in> set keyword \<union> set vector \<and> document_id (the (map_of m i)) = i"
proof -
  obtain s1 m1 where one: "fuse_ranking k 1 keyword ([], []) = (s1, m1)" by fastforce
  note two = assms [unfolded one]
  note f1 = fuse_ranking_facts [OF one] and f2 = fuse_ranking_facts [OF two]
  show "known_score s i = fused_score k keyword vector i"
    by (simp add: f2(1) f1(1) fused_score_def) (simp add: known_score_def)
  show "fst ` set s = document_id ` (set keyword \<union> set vector)" using f1(2) f2(2) by auto
  show "distinct (map fst s)" using f1(3) f2(3) by simp
  assume i: "i \<in> document_id ` (set keyword \<union> set vector)"
  then have "map_of m i \<noteq> None" using f1(4) [of i] f2(4) [of i] by auto
  then obtain d where d: "map_of m i = Some d" by blast
  then show "the (map_of m i) \<in> set keyword \<union> set vector \<and> document_id (the (map_of m i)) = i"
    using f2(5) [OF d] f1(5) [of i d] by auto
qed

lemma sorted_keys:
  assumes "distinct (map fst s)"
  shows "sorted (map (\<lambda>i. (- known_score s i, i)) (map fst (sort_key (\<lambda>(i, x). (- x, i)) s)))"
proof -
  have "known_score s (fst p) = snd p" if "p \<in> set s" for p
    using assms that by (cases p) (simp add: known_score_def map_of_is_SomeI)
  then have eq: "map (\<lambda>p. (- known_score s (fst p), fst p)) (sort_key (\<lambda>(i, x). (- x, i)) s) =
      map (\<lambda>(i, x). (- x, i)) (sort_key (\<lambda>(i, x). (- x, i)) s)"
    by (auto simp: case_prod_unfold)
  show ?thesis by (simp only: eq list.map_comp comp_def sorted_sort_key)
qed

lemma fusion_ids:
  assumes "fuse_ranking k 1 vector (fuse_ranking k 1 keyword ([], [])) = (s, m)"
  shows "map document_id (reciprocal_rank_fusion k keyword vector limit) =
      take limit (map fst (sort_key (\<lambda>(i, x). (- x, i)) s))"
    and "set (reciprocal_rank_fusion k keyword vector limit) \<subseteq> set keyword \<union> set vector"
proof -
  have "i \<in> document_id ` (set keyword \<union> set vector)" if "i \<in> set (take limit (map fst (sort_key (\<lambda>(i, x). (- x, i)) s)))" for i
    using in_set_takeD [OF that] fused_facts(2) [OF assms] by auto
  then show "map document_id (reciprocal_rank_fusion k keyword vector limit) =
      take limit (map fst (sort_key (\<lambda>(i, x). (- x, i)) s))"
    "set (reciprocal_rank_fusion k keyword vector limit) \<subseteq> set keyword \<union> set vector"
    using fused_facts(4) [OF assms] unfolding reciprocal_rank_fusion_def
    by (auto simp: assms [simplified] comp_def intro!: map_idI)
qed

text \<open>C29. Fusion returns the best documents: each document once, as many as the limit and the rankings allow, in the
order of their fused scores with ties broken by id, and a document that is left out is not better than any that is
returned. The score of a document is the sum of \<open>1 / (k + rank)\<close> over its places in the two rankings.\<close>

theorem fusion_takes_the_best:
  assumes "out = reciprocal_rank_fusion k keyword vector limit"
    and "ids = document_id ` (set keyword \<union> set vector)"
    and "better = (\<lambda>i j. fused_score k keyword vector j < fused_score k keyword vector i \<or>
      fused_score k keyword vector i = fused_score k keyword vector j \<and> i < j)"
  shows "set out \<subseteq> set keyword \<union> set vector \<and> length out = min limit (card ids) \<and>
    sorted_wrt better (map document_id out) \<and>
    (\<forall>i \<in> ids - document_id ` set out. \<forall>d \<in> set out. better (document_id d) i)"
proof -
  obtain s m where sm: "fuse_ranking k 1 vector (fuse_ranking k 1 keyword ([], [])) = (s, m)" by fastforce
  note f = fused_facts [OF sm]
  let ?l = "map fst (sort_key (\<lambda>(i, x). (- x, i)) s)"
  have l: "distinct ?l" "set ?l = ids"
    using f(2,3) assms(2) by (auto simp: distinct_map distinct_sort)
  have ids: "map document_id out = take limit ?l" using fusion_ids(1) [OF sm] assms(1) by simp
  have "sorted_wrt (\<lambda>i j. (- fused_score k keyword vector i, i) \<le> (- fused_score k keyword vector j, j)) ?l"
    using sorted_keys [OF f(3)] unfolding f(1) by (subst (asm) sorted_map)
  then have "sorted_wrt (\<lambda>i j. i \<noteq> j \<longrightarrow> better i j) ?l"
    by (rule sorted_wrt_mono_rel [rotated]) (auto simp: assms(3))
  then have sorted: "sorted_wrt better ?l"
    using l(1) by (auto simp: sorted_wrt_iff_nth_less distinct_conv_nth)
  then have s2: "sorted_wrt better (take limit ?l @ drop limit ?l)" by simp
  have "length out = length (take limit ?l)" using ids by (metis length_map)
  also have "\<dots> = min limit (card ids)" using distinct_card [OF l(1)] l(2) by (simp add: min.commute)
  finally have "length out = min limit (card ids)" .
  moreover have "better (document_id d) i" if "i \<in> ids - document_id ` set out" "d \<in> set out" for i d
  proof -
    have "document_id ` set out = set (take limit ?l)" using ids by (metis set_map)
    then have "i \<in> set (drop limit ?l)" "document_id d \<in> set (take limit ?l)"
      using that l(2) by (metis Diff_iff UnE append_take_drop_id set_append) (use that \<open>document_id ` set out = _\<close> in blast)
    then show ?thesis using s2 unfolding sorted_wrt_append by blast
  qed
  ultimately show ?thesis
    using fusion_ids(2) [OF sm, of limit] ids s2 by (simp add: sorted_wrt_append assms(1))
qed


subsection \<open>A search always answers\<close>

lemma scored_documents_set: "scored_documents q ds vs = Inr xs \<Longrightarrow> map snd xs = ds"
proof (induction q ds vs arbitrary: xs rule: scored_documents.induct)
  case (2 q d ds v vs)
  then show ?case by (auto split: sum.splits)
qed auto

lemma vector_search_set: "vector_search query embedder ds vs n = Inr out \<Longrightarrow> set out \<subseteq> set ds"
  by (auto simp: vector_search_def split: sum.splits list.splits dest!: in_set_takeD) (force dest: scored_documents_set)

context knowledge_store
begin

lemma store_load: "on_store (op_load_documents ops) w = (fst (op_load_documents ops (rs_store w)), w)"
  using load_reads [of "rs_store w"] by (simp add: on_store_def case_prod_unfold)

lemma store_keyword:
  "on_store (op_search_keyword ops query n) w = (fst (op_search_keyword ops query n (rs_store w)), w)"
  using keyword_reads [of query n "rs_store w"] by (simp add: on_store_def case_prod_unfold)

lemma ensure_index_cases:
  assumes "ensure_index ops c w = (r, w')"
  obtains (known) i where "rs_index w = Some i" "r = Inr i" "w' = w"
  | (failed) e where "rs_index w = None" "r = Inl e" "w' = w"
  | (built) ds vs emb where "rs_index w = None" "r = Inr (ds, vs, emb)" "w' = w\<lparr>rs_index := Some (ds, vs, emb)\<rparr>"
      "set ds \<subseteq> corpus (rs_store w)"
proof (cases "rs_index w")
  case None
  have b: "build_index ops c w = (fst (build_index ops c w), w)"
    by (auto simp: build_index_def bindM_def store_load split: sum.splits)
  show thesis
  proof (cases "fst (build_index ops c w)")
    case (Inl e)
    then have "r = Inl e" "w' = w" using assms None b by (auto simp: ensure_index_def bindM_def split: prod.splits)
    then show thesis using failed None by blast
  next
    case (Inr i)
    obtain ds vs emb where i: "i = (ds, vs, emb)" by (cases i)
    have "fst (op_load_documents ops (rs_store w)) = Inr ds"
      using Inr i by (auto simp: build_index_def bindM_def store_load split: sum.splits if_splits)
    from load_corpus [OF this] have "set ds \<subseteq> corpus (rs_store w)" .
    moreover have "r = Inr i" "w' = w\<lparr>rs_index := Some i\<rparr>"
      using assms None b Inr by (auto simp: ensure_index_def bindM_def split: prod.splits)
    ultimately show thesis using built None i by blast
  qed
next
  case (Some i)
  then show thesis using known assms by (auto simp: ensure_index_def)
qed

lemma hybrid_answers:
  assumes "hybrid_search ops c query limit keyword w = (r, w')" and "set keyword \<subseteq> corpus (rs_store w)"
  shows "rs_store w' = rs_store w \<and> (\<forall>i. rs_index w = Some i \<longrightarrow> rs_index w' = Some i) \<and>
    (\<forall>out. r = Inr out \<longrightarrow> ro_mode out = ''hybrid'' \<and> ro_warning out = None \<and> length (ro_documents out) \<le> limit \<and>
       set (ro_documents out) \<subseteq> corpus (rs_store w) \<union> (case rs_index w of None \<Rightarrow> {} | Some (ds, _) \<Rightarrow> set ds))"
proof -
  obtain r1 w1 where one: "ensure_index ops c w = (r1, w1)" by fastforce
  have store: "rs_store w1 = rs_store w" "\<forall>i. rs_index w = Some i \<longrightarrow> rs_index w1 = Some i"
    using one by (cases rule: ensure_index_cases; simp)+
  have docs: "set ds \<subseteq> corpus (rs_store w) \<union> (case rs_index w of None \<Rightarrow> {} | Some (ds, _) \<Rightarrow> set ds)"
    if "r1 = Inr (ds, vs, emb)" for ds vs emb
    using one by (cases rule: ensure_index_cases) (use that in auto)
  have w': "w' = w1"
    using assms(1) one by (auto simp: hybrid_search_def bindM_def split: sum.splits prod.splits)
  show ?thesis
  proof (cases "\<exists>out. r = Inr out")
    case False
    then show ?thesis using store w' by blast
  next
    case True
    then obtain out ds vs emb vector where out: "r = Inr out" "r1 = Inr (ds, vs, emb)"
        "vector_search query emb ds vs (rt_candidate_limit c) = Inr vector"
        "ro_documents out = reciprocal_rank_fusion (rt_rrf_k c) keyword vector limit" "ro_mode out = ''hybrid''"
        "ro_warning out = None"
      using assms(1) one by (auto simp: hybrid_search_def bindM_def split: sum.splits prod.splits)
    obtain s m where sm: "fuse_ranking (rt_rrf_k c) 1 vector (fuse_ranking (rt_rrf_k c) 1 keyword ([], [])) = (s, m)"
      by fastforce
    have "length (ro_documents out) \<le> limit" by (simp add: out(4) reciprocal_rank_fusion_def case_prod_unfold)
    moreover have "set (ro_documents out) \<subseteq> set keyword \<union> set ds"
      using fusion_ids(2) [OF sm] vector_search_set [OF out(3)] unfolding out(4) by blast
    ultimately show ?thesis using store w' out docs [OF out(2)] assms(2) by auto
  qed
qed

lemma retrieve_answers:
  assumes "fst (op_search_keyword ops query (rt_candidate_limit c) (rs_store w)) = Inr keyword"
    and "retrieve ops c query limit w = (r, w')"
  shows "rs_store w' = rs_store w \<and> (\<forall>i. rs_index w = Some i \<longrightarrow> rs_index w' = Some i) \<and>
    (case r of
       Inl e \<Rightarrow> \<not> is_exception e
     | Inr out \<Rightarrow> length (ro_documents out) \<le> limit \<and>
         set (ro_documents out) \<subseteq> corpus (rs_store w) \<union> (case rs_index w of None \<Rightarrow> {} | Some (ds, _) \<Rightarrow> set ds) \<and>
         (ro_mode out = ''hybrid'' \<or> ro_documents out = take limit keyword) \<and>
         (ro_warning out = None \<longleftrightarrow> ro_mode out \<noteq> ''keyword_fallback''))"
proof (cases "rt_mode c = ''keyword''")
  case True
  then show ?thesis
    using assms keyword_corpus [OF assms(1)]
    by (auto simp: retrieve_def bindM_def store_keyword dest!: in_set_takeD)
next
  case False
  obtain r1 w1 where one: "hybrid_search ops c query limit keyword w = (r1, w1)" by fastforce
  have kw: "set keyword \<subseteq> corpus (rs_store w)" using keyword_corpus [OF assms(1)] by blast
  note h = hybrid_answers [OF one kw]
  have take: "set (take limit keyword) \<subseteq> corpus (rs_store w)" using kw by (auto dest: in_set_takeD)
  show ?thesis
  proof (cases r1)
    case (Inl e)
    then show ?thesis
      using assms(2) False one h take by (auto simp: retrieve_def bindM_def store_keyword assms(1) catchM_def split: if_splits)
  next
    case (Inr out)
    then show ?thesis
      using assms(2) False one h by (auto simp: retrieve_def bindM_def store_keyword assms(1) catchM_def)
  qed
qed

end


subsection \<open>The keyword search\<close>

lemma like_literal:
  assumes "37 \<notin> set p" and "92 \<notin> set p" and "95 \<notin> set p"
  shows "like (p @ [37]) s \<longleftrightarrow> take (length p) s = p"
  using assms
proof (induction p arbitrary: s)
  case Nil
  have "like [37] s" by (induction s) auto
  then show ?case by simp
next
  case (Cons c p)
  then show ?case by (cases s) auto
qed

lemma like_substring:
  assumes "37 \<notin> set p" and "92 \<notin> set p" and "95 \<notin> set p"
  shows "like (37 # p @ [37]) s \<longleftrightarrow> occurs p s"
proof (induction s)
  case Nil
  have "like (p @ [37]) [] \<longleftrightarrow> p = []" using like_literal [OF assms, of "[]"] by (cases p) auto
  then show ?case by simp
next
  case (Cons c s)
  then show ?case using like_literal [OF assms, of "c # s"] by simp
qed

text \<open>The lower case of a character is a wildcard or the escape only if the character is that one.\<close>

definition folds_letters :: "database_text \<Rightarrow> bool" where
  "folds_letters db \<longleftrightarrow> (\<forall>p \<in> {37, 92, 95}. \<forall>c. lower_point db c = p \<longleftrightarrow> c = p)"

text \<open>A query without wildcards and escapes matches the texts that contain it, whatever the case. The service does not
escape the query, so a query that holds one matches more, or less.\<close>

lemma plain_query_matches:
  assumes "folds_letters db" and "37 \<notin> set query" and "92 \<notin> set query" and "95 \<notin> set query"
  shows "ilike db s ([37] @ query @ [37]) \<longleftrightarrow> occurs (db_lower db query) (db_lower db s)"
proof -
  have l: "lower_point db 37 = 37" "\<And>c. lower_point db c = 37 \<Longrightarrow> c = 37" "\<And>c. lower_point db c = 92 \<Longrightarrow> c = 92"
      "\<And>c. lower_point db c = 95 \<Longrightarrow> c = 95"
    using assms(1) by (auto simp: folds_letters_def)
  have "37 \<notin> set (db_lower db query)" "92 \<notin> set (db_lower db query)" "95 \<notin> set (db_lower db query)"
    using assms(2-4) l(2-4) unfolding db_lower_def by (metis (no_types, lifting) imageE set_map)+
  from like_substring [OF this] show ?thesis by (simp add: ilike_def db_lower_def l(1))
qed

lemma wildcard_query_matches_all:
  assumes "folds_letters db"
  shows "ilike db s ([37] @ [37] @ [37])" and "s \<noteq> [] \<Longrightarrow> ilike db s ([37] @ [95] @ [37])"
proof -
  have l: "lower_point db 37 = 37" "lower_point db 95 = 95" using assms by (auto simp: folds_letters_def)
  have all: "like [37] t" "like [37, 37] t" "like [37, 37, 37] t" for t by (induction t) auto
  then show "ilike db s ([37] @ [37] @ [37])" by (simp add: ilike_def db_lower_def l)
  assume "s \<noteq> []"
  then show "ilike db s ([37] @ [95] @ [37])" using all by (cases s) (simp_all add: ilike_def db_lower_def l)
qed


subsection \<open>Examples\<close>

definition tiny_document :: "nat \<Rightarrow> knowledge_document" where
  "tiny_document n = \<lparr>document_id = [n], doc_kind = [], doc_title = [], doc_body = []\<rparr>"

definition plain_text :: database_text where
  "plain_text = \<lparr>collation = id, lower_point = id\<rparr>"

text \<open>A hybrid retriever whose model cannot be loaded, over one metric.\<close>

definition broken_retriever :: retriever where
  "broken_retriever = \<lparr>rt_mode = ''hybrid'', rt_candidate_limit = 12, rt_rrf_k = 60, rt_loader = Inl (External ''OSError'')\<rparr>"

definition metric_state :: "knowledge_db retrieval_state" where
  "metric_state = \<lparr>rs_store = \<lparr>kd_tables = \<lparr>schema_catalog = [], metric_definitions = [\<lparr>mr_name = [97], mr_description = [98],
     mr_formula = [], mr_example = []\<rparr>], query_examples = []\<rparr>, kd_down = None\<rparr>, rs_index = None\<rparr>"

theorem fusion_takes_the_best_witness:
  "length (reciprocal_rank_fusion 60 [tiny_document 1, tiny_document 2] [tiny_document 2] 1) = 1 \<and>
   set (reciprocal_rank_fusion 60 [tiny_document 1, tiny_document 2] [tiny_document 2] 1) \<subseteq> {tiny_document 1, tiny_document 2}"
  using fusion_takes_the_best [of _ 60 "[tiny_document 1, tiny_document 2]" "[tiny_document 2]" 1, OF refl refl refl]
  by (auto simp: tiny_document_def card_insert_if)


end
