(* ===== verification/Grounding_Text.thy ===== *)
theory Grounding_Text
  imports Linker Retrieval Clarification
begin

section \<open>What the model is told of a search\<close>

text \<open>
  The texts that \<open>tools/knowledge.py\<close> makes of a grounding, of a clarification and of a retrieval. Texts are code
  points; what the catalog holds is turned into them.
\<close>

subsection \<open>Numbers\<close>

fun digits :: "nat \<Rightarrow> utext" where
  "digits n = (if n < 10 then [48 + n] else digits (n div 10) @ [48 + n mod 10])"

declare digits.simps [simp del]

text \<open>\<open>f"{q:.nf}"\<close>: the exact value, rounded to \<open>n\<close> places with ties to even.\<close>

definition fixed_text :: "nat \<Rightarrow> pyfloat \<Rightarrow> utext" where
  "fixed_text n q =
     (let k = nat (round_half_even (\<bar>q\<bar> * 10 ^ n)); frac = digits (k mod 10 ^ n)
      in (if q < 0 then [45] else []) @ digits (k div 10 ^ n) @ [46] @ replicate (n - length frac) 48 @ frac)"

subsection \<open>Join hints\<close>

definition JOIN_HINTS :: "(utext list \<times> utext) list" where
  "JOIN_HINTS =
     [([[23458, 25143], [29992, 25143]],
       [23458, 25143, 32500, 24230, 65306] @ text_of_string ''orders.customer_id = customers.id'' @ [65307, 23458, 25143, 21517, 31216, 20351, 29992] @ text_of_string '' customers.name'' @ [12290]),
      ([[21830, 21697], [20135, 21697], [21697, 31867], [38144, 37327]],
       [21830, 21697, 32500, 24230, 65306] @ text_of_string ''order_items.product_id = products.id'' @ [65292, 24182, 36890, 36807] @ text_of_string '' order_items.order_id = orders.id '' @ [36807, 28388] @ text_of_string '' orders.deleted_at'' @ [12290]),
      ([[36864, 27454], [36864, 36135]],
       [36864, 27454, 32500, 24230, 65306] @ text_of_string ''refunds.order_id = orders.id'' @ [65307, 25353, 21306, 22495, 20998, 26512, 26102, 20351, 29992] @ text_of_string '' orders.region'' @ [12290])]"

definition join_hints_for_query :: "utext \<Rightarrow> utext list" where
  "join_hints_for_query query = map snd (filter (\<lambda>(terms, hint). any_of terms query) JOIN_HINTS)"

text \<open>The text of the legacy path.\<close>

definition JOIN_HINT_TITLE :: utext where
  "JOIN_HINT_TITLE = text_of_string ''**Schema Graph / '' @ [25512, 33616] @ text_of_string '' Join Path**''"

definition retrieval_text :: "retrieval_outcome \<Rightarrow> utext list \<Rightarrow> utext" where
  "retrieval_text outcome hints =
     (let content = joined [10, 10] (map document_render (ro_documents outcome));
          content = (if content = [] then text_of_string ''No matching schema knowledge found.'' else content);
          content = (case ro_warning outcome of None \<Rightarrow> content
            | Some w \<Rightarrow> if w = [] then content else content @ [10, 10] @ text_of_string ''> '' @ w)
      in if hints = [] then content
         else content @ [10, 10] @ JOIN_HINT_TITLE @ [10] @ joined [10] (map (\<lambda>h. text_of_string ''- '' @ h) hints))"

subsection \<open>The grounding\<close>

definition quoted :: "string \<Rightarrow> utext" where
  "quoted s = [96] @ text_of_string s @ [96]"

text \<open>A list whose items are rendered in order; the first missing key raises.\<close>

fun rendered :: "('a \<Rightarrow> exn + utext) \<Rightarrow> 'a list \<Rightarrow> exn + utext list" where
  "rendered f [] = Inr []"
| "rendered f (x # xs) =
     (case f x of Inl e \<Rightarrow> Inl e | Inr y \<Rightarrow>
        (case rendered f xs of Inl e \<Rightarrow> Inl e | Inr ys \<Rightarrow> Inr (y # ys)))"

definition asset_line :: "catalog \<Rightarrow> bool \<Rightarrow> grounding_candidate \<Rightarrow> exn + utext" where
  "asset_line cat scored c =
     (case last_with asset_id (cat_assets cat) (gc_asset_id c) of
        None \<Rightarrow> Inl (KeyError (gc_asset_id c))
      | Some a \<Rightarrow> Inr (text_of_string ''- '' @ quoted (gc_asset_id c) @
          (if scored then text_of_string '' score='' @ fixed_text 3 (gc_score c) else []) @ [65306] @
          text_of_string (description a)))"

definition value_line :: "value_candidate \<Rightarrow> utext" where
  "value_line v = text_of_string ''- '' @ quoted (vc_value_id v) @ [32, 8594, 32] @ quoted (vc_canonical_value v) @
     text_of_string '' ('' @ text_of_string (vc_column_asset_id v) @ text_of_string '', score='' @ fixed_text 3 (vc_score v) @
     text_of_string '')''"

definition path_line :: "catalog \<Rightarrow> join_path \<Rightarrow> utext" where
  "path_line cat p =
     text_of_string ''- '' @ quoted (path_id p) @ [65306] @ joined [65307] (map text_of_string (filter (\<lambda>e. e \<noteq> [])
       (List.map_filter (\<lambda>i. case last_with relation_id (cat_relations cat) i of None \<Rightarrow> None | Some r \<Rightarrow> join_expression r)
         (relation_ids p))))"

text \<open>A section with its title, when it has lines.\<close>

definition section_of :: "utext \<Rightarrow> utext list \<Rightarrow> utext list" where
  "section_of heading lines = (if lines = [] then [] else [heading @ [10] @ joined [10] lines])"

definition T_GROUNDING :: utext where "T_GROUNDING = text_of_string ''**Grounding v2 / '' @ [24050, 25209, 20934, 35821, 20041, 35777, 25454] @ text_of_string ''**''"
definition T_TABLES :: utext where "T_TABLES = text_of_string ''**'' @ [20505, 36873, 34920] @ text_of_string ''**''"
definition T_COLUMNS :: utext where "T_COLUMNS = text_of_string ''**'' @ [20505, 36873, 23383, 27573] @ text_of_string ''**''"
definition T_KNOWLEDGE :: utext where "T_KNOWLEDGE = text_of_string ''**'' @ [25351, 26631, 19982, 31034, 20363] @ text_of_string ''**''"
definition T_VALUES :: utext where "T_VALUES = text_of_string ''**'' @ [21463, 25511, 20540] @ text_of_string ''**''"
definition T_PATHS :: utext where "T_PATHS = text_of_string ''**Confirmed Join Paths**''"
definition T_AMBIGUITIES :: utext where "T_AMBIGUITIES = text_of_string ''**'' @ [24517, 39035, 35299, 20915, 30340, 27495, 20041] @ text_of_string ''**''"

definition render_grounding :: "grounding_snapshot \<Rightarrow> catalog \<Rightarrow> exn + utext" where
  "render_grounding snap cat =
     (case rendered (asset_line cat True) (filter (\<lambda>c. 0 < gc_score c) (table_candidates snap)) of Inl e \<Rightarrow> Inl e | Inr tables \<Rightarrow>
       (case rendered (asset_line cat True) (filter (\<lambda>c. 0 < gc_score c) (column_candidates snap)) of Inl e \<Rightarrow> Inl e | Inr columns \<Rightarrow>
         (case rendered (asset_line cat False) (knowledge_candidates snap) of Inl e \<Rightarrow> Inl e | Inr knowledge \<Rightarrow>
           Inr (joined [10, 10] ([T_GROUNDING] @ section_of T_TABLES tables @ section_of T_COLUMNS columns @
             section_of T_KNOWLEDGE knowledge @ section_of T_VALUES (map value_line (value_candidates snap)) @
             section_of T_PATHS (map (path_line cat) (join_paths snap)) @
             section_of T_AMBIGUITIES (map (\<lambda>a. text_of_string ''- '' @ quoted a) (snap_ambiguities snap)) @
             [text_of_string ''Grounding confidence: '' @ fixed_text 4 (snap_confidence snap)])))))"

text \<open>The question of the card, and what a card adds to the answer.\<close>

definition CARD_QUESTION :: utext where
  "CARD_QUESTION = [35831, 36873, 25321, 26412, 27425, 26597, 35810, 24212, 20351, 29992, 30340, 23383, 27573, 25110, 21463, 25511, 20540, 65306]"

definition clarification_text :: "clarification_card option \<Rightarrow> utext" where
  "clarification_text asked = (case asked of None \<Rightarrow> [] | Some c \<Rightarrow>
     [10, 10] @ text_of_string ''**'' @ [38656, 35201, 28548, 28165] @ text_of_string ''**'' @ [10] @ joined [10] (map (\<lambda>e. text_of_string ''- '' @ quoted (option_id e) @
       text_of_string '': '' @ text_of_string (option_label e)) (card_options c)))"

subsection \<open>A grounding of the linker can be rendered\<close>

lemma rendered_Inr: "\<forall>x \<in> set xs. \<exists>y. f x = Inr y \<Longrightarrow> \<exists>ys. rendered f xs = Inr ys"
  by (induction xs) auto

lemma asset_line_Inr: "gc_asset_id c \<in> asset_id ` set (cat_assets cat) \<Longrightarrow> \<exists>y. asset_line cat scored c = Inr y"
  using last_with_None [of asset_id "cat_assets cat" "gc_asset_id c"]
  by (auto simp: asset_line_def split: option.split)

lemma linked_grounding_renders:
  assumes "link parse emb cfg now query cat tenant = Inr snap"
  shows "\<exists>content. render_grounding snap cat = Inr content"
proof -
  have c: "gc_asset_id c \<in> asset_id ` set (cat_assets cat)"
    if "c \<in> set (table_candidates snap) \<union> set (column_candidates snap) \<union> set (knowledge_candidates snap)" for c
    using that link_Inr [OF assms]
    by (auto dest!: pick_tables_set pick_columns_set pick_knowledge_set) (metis image_eqI)+
  obtain ts where "rendered (asset_line cat True) (filter (\<lambda>c. 0 < gc_score c) (table_candidates snap)) = Inr ts"
    using rendered_Inr [of _ "asset_line cat True"] asset_line_Inr c by (metis (no_types, lifting) UnCI filter_is_subset subsetD)
  moreover obtain cs where "rendered (asset_line cat True) (filter (\<lambda>c. 0 < gc_score c) (column_candidates snap)) = Inr cs"
    using rendered_Inr [of _ "asset_line cat True"] asset_line_Inr c by (metis (no_types, lifting) UnCI filter_is_subset subsetD)
  moreover obtain ks where "rendered (asset_line cat False) (knowledge_candidates snap) = Inr ks"
    using rendered_Inr [of _ "asset_line cat False"] asset_line_Inr c by (metis (no_types, lifting) UnCI)
  ultimately show ?thesis by (simp add: render_grounding_def)
qed

end
