(* ===== verification/Query_Tools.thy ===== *)
theory Query_Tools
  imports Plan_Store Request_Context Sql_Guard Intent_Guard Grounding_Text Rollout Trace Clarification
begin

section \<open>The tools of a query\<close>

text \<open>
  \<open>agent-service/app/tools/knowledge.py\<close>, \<open>query_plan.py\<close> and \<open>safe_read_sql.py\<close>, and the runner of
  \<open>db/safe_postgres.py\<close>: the model calls them in any order. They share the context of the request, the run
  store, the plan store and the trace; what reaches the database is the list \<open>tw_sent\<close>. Each tool is one
  function from the state to its result and the new state, with every early return and every handler of the code.

  Arguments are the retrieval of the legacy path, the database, the texts that are rendered for the model (of exceptions,
  of grounding cards, of the JSON of a plan), and the Chinese question of a clarification. The cards for the user interface
  are left out.
\<close>

subsection \<open>State and configuration\<close>

record ('r, 'p, 't) tool_world =
  tw_ctx :: request_ctx
  tw_runs :: 'r
  tw_plans :: 'p
  tw_trace :: "'t traced"
  tw_sent :: "string list"

record query_frame =
  fr_records :: "query_row list"
  fr_columns :: "utext list"
  fr_csv :: utext

datatype sql_failure = Policy sql_policy_error | Intent intent_error | Result result_intent_error | Raised exn

record plan_payload =
  pp_status :: string
  pp_plan_hash :: string
  pp_confidence :: pyfloat
  pp_evidence_ids :: "string list"
  pp_errors :: "string list"
  pp_warning :: "string option"

record ('r, 't) tools_env =
  te_grounding_mode :: string
  te_context_mode :: string
  te_decision :: "rollout_decision option"
  te_run_ops :: "'r run_ops option"
  te_clarify :: "('r run_ops \<times> 'r card_ops \<times> clarification_config) option"
  te_trace :: "('t trace_ops \<times> float_text \<times> trace_config) option"
  te_ground :: "(utext \<Rightarrow> exn + grounding_snapshot \<times> catalog) option"
  te_retrieve :: "utext \<Rightarrow> nat \<Rightarrow> exn + retrieval_outcome"
  te_parse :: sql_parser
  te_pick :: "string list \<Rightarrow> string"
  te_dump :: "query_plan_draft \<Rightarrow> string"
  te_glot :: sqlglot
  te_number_text :: "literal \<Rightarrow> string"
  te_iso_date :: "time \<Rightarrow> string"
  te_max_rows :: int
  te_database :: "string \<Rightarrow> exn + query_frame"
  te_exc_text :: "sql_failure \<Rightarrow> utext"
  te_payload_text :: "plan_payload \<Rightarrow> utext"
  te_question :: string

record search_info =
  si_count :: nat
  si_mode :: string
  si_keyword_hits :: nat
  si_vector_hits :: nat
  si_ids :: "utext list"
  si_hints :: "utext list"
  si_grounding_mode :: string
  si_grounding :: "jdict option"
  si_warning :: "string option"
  si_card :: "clarification_card option"

datatype tool_meta =
    Error_Type string
  | Sql_Meta string "string list" nat "utext list" string "string option" "string list"
  | Shadow_Warning "string option" "string option"
  | Plan_Meta plan_payload "string option"
  | Search_Meta search_info
  | No_Meta

record tool_result =
  rs_success :: bool
  rs_llm :: utext
  rs_error :: "utext option"
  rs_meta :: tool_meta

text \<open>A call on one part of the state.\<close>

definition on_ctx :: "(request_ctx, 'a) py \<Rightarrow> (('r, 'p, 't) tool_world, 'a) py" where
  "on_ctx m w = (case m (tw_ctx w) of (r, s) \<Rightarrow> (r, w\<lparr>tw_ctx := s\<rparr>))"

definition on_runs :: "('r, 'a) py \<Rightarrow> (('r, 'p, 't) tool_world, 'a) py" where
  "on_runs m w = (case m (tw_runs w) of (r, s) \<Rightarrow> (r, w\<lparr>tw_runs := s\<rparr>))"

definition on_plans :: "('p, 'a) py \<Rightarrow> (('r, 'p, 't) tool_world, 'a) py" where
  "on_plans m w = (case m (tw_plans w) of (r, s) \<Rightarrow> (r, w\<lparr>tw_plans := s\<rparr>))"

definition on_trace :: "('t traced, 'a) py \<Rightarrow> (('r, 'p, 't) tool_world, 'a) py" where
  "on_trace m w = (case m (tw_trace w) of (r, s) \<Rightarrow> (r, w\<lparr>tw_trace := s\<rparr>))"

lemma on_ctx_eq: "on_ctx m w = (fst (m (tw_ctx w)), w\<lparr>tw_ctx := snd (m (tw_ctx w))\<rparr>)"
  by (simp add: on_ctx_def case_prod_unfold)

definition ask_ctx :: "(request_ctx \<Rightarrow> 'a) \<Rightarrow> (('r, 'p, 't) tool_world, 'a) py" where
  "ask_ctx f w = (Inr (f (tw_ctx w)), w)"

definition tool_mode :: "('r, 't) tools_env \<Rightarrow> string" where
  "tool_mode env = effective_mode (te_decision env) ''grounding'' (te_grounding_mode env)"

text \<open>\<open>if run_id is not None and self.trace_service is not None: await self.trace_service.append(...)\<close>.\<close>

definition note_event :: "('r, 't) tools_env \<Rightarrow> time \<Rightarrow> string \<Rightarrow> (string, attr) dict \<Rightarrow> (('r, 'p, 't) tool_world, unit) py" where
  "note_event env now ev attrs = bindM (ask_ctx get_run_id) (\<lambda>rid.
     case (rid, te_trace env) of
       (Some r, Some (ops, ft, c)) \<Rightarrow>
         thenM (on_trace (trace_append ops ft c (te_decision env) now r ev attrs)) (ret ())
     | _ \<Rightarrow> ret ())"

text \<open>The two constructors that check their mode.\<close>

definition check_grounding_mode :: "string \<Rightarrow> exn + unit" where
  "check_grounding_mode m = (if m \<in> set [''off'', ''shadow'', ''enforce''] then Inr ()
     else Inl (ValueError ''GROUNDING_V2_MODE must be off, shadow or enforce''))"

subsection \<open>\<open>validate_query_plan\<close>\<close>

definition plan_refused :: "string \<Rightarrow> string \<Rightarrow> tool_result" where
  "plan_refused llm why = \<lparr>rs_success = False, rs_llm = text_of_string llm, rs_error = Some (text_of_string why),
     rs_meta = Error_Type ''semantic_validation''\<rparr>"

definition ungrounded_plan :: "bool \<Rightarrow> tool_result" where
  "ungrounded_plan blocking = \<lparr>rs_success = \<not> blocking,
     rs_llm = text_of_string (if blocking then ''QueryPlan validation requires search_schema_knowledge first.''
       else ''Shadow QueryPlan observation skipped because grounding evidence is missing; continue the legacy SQL path.''),
     rs_error = (if blocking then Some (text_of_string ''grounding evidence is missing'') else None),
     rs_meta = Shadow_Warning (if blocking then Some ''semantic_validation'' else None)
       (if blocking then None else Some ''GROUNDING_EVIDENCE_MISSING'')\<rparr>"

definition plan_answer :: "('r, 't) tools_env \<Rightarrow> validated_plan \<Rightarrow> string option \<Rightarrow> tool_result" where
  "plan_answer env v warning =
     (let enforce = (tool_mode env = ''enforce''); plan_valid = (vp_status v = VALID);
          payload = \<lparr>pp_status = status_text (vp_status v), pp_plan_hash = plan_hash v, pp_confidence = confidence v,
            pp_evidence_ids = vp_evidence_ids v, pp_errors = vp_errors v, pp_warning = warning\<rparr>;
          intro = (if plan_valid then ''QueryPlan is valid and may be used to generate SQL.''
            else if enforce then ''QueryPlan cannot be executed. Resolve the listed issues.''
            else ''Shadow QueryPlan recorded differences; continue the legacy SQL path.'')
      in \<lparr>rs_success = (plan_valid \<or> \<not> enforce), rs_llm = text_of_string intro @ 10 # te_payload_text env payload,
          rs_error = (if enforce \<and> \<not> plan_valid then Some (text_of_string (join_with ''; '' (vp_errors v))) else None),
          rs_meta = Plan_Meta payload (if enforce \<and> \<not> plan_valid then Some ''semantic_validation'' else None)\<rparr>)"

text \<open>Persist, authorise, report. An error of the store blocks in enforce mode and is a warning otherwise.\<close>

definition authorise_plan :: "('r, 't) tools_env \<Rightarrow> time \<Rightarrow> validated_plan \<Rightarrow> string option \<Rightarrow> (('r, 'p, 't) tool_world, tool_result) py" where
  "authorise_plan env now v warning =
     thenM (on_ctx (record_validated_plan (Some v)))
       (thenM (note_event env now ''plan_validated'' [(''grounding_mode'', AStr (tool_mode env)),
            (''status'', AStr (status_text (vp_status v))), (''db_copilot.grounding_coverage'', AFloat (confidence v))])
         (ret (plan_answer env v warning)))"

definition persist_plan :: "('r, 't) tools_env \<Rightarrow> 'p plan_ops option \<Rightarrow> (nat \<Rightarrow> time) \<Rightarrow> string option \<Rightarrow> validated_plan \<Rightarrow>
    grounding_snapshot \<Rightarrow> (('r, 'p, 't) tool_world, tool_result) py" where
  "persist_plan env store t rid v snap =
     (case (store, rid) of
        (Some ops, Some r) \<Rightarrow> (\<lambda>w.
          case on_plans (op_save_plan ops (t 1) r v snap) w of
            (Inr _, w') \<Rightarrow> authorise_plan env (t 2) v None w'
          | (Inl e, w') \<Rightarrow>
              if \<not> is_exception e then (Inl e, w')
              else if tool_mode env = ''enforce''
              then (Inr (plan_refused ''QueryPlan evidence could not be persisted; execution is blocked.'' (exn_name e)), w')
              else authorise_plan env (t 2) v (Some (exn_name e)) w')
      | _ \<Rightarrow>
          if tool_mode env = ''enforce''
          then ret (plan_refused ''QueryPlan evidence persistence is unavailable; execution is blocked.''
            ''query plan persistence is unavailable'')
          else authorise_plan env (t 2) v None)"

definition plan_execute :: "('r, 't) tools_env \<Rightarrow> 'p plan_ops option \<Rightarrow> (nat \<Rightarrow> time) \<Rightarrow> query_plan_draft \<Rightarrow>
    (('r, 'p, 't) tool_world, tool_result) py" where
  "plan_execute env store t d = bindM (ask_ctx get_grounding_state) (\<lambda>state.
     case (case state of None \<Rightarrow> None | Some s \<Rightarrow> rg_bundle s) of
       None \<Rightarrow> ret (ungrounded_plan (tool_mode env = ''enforce''))
     | Some b \<Rightarrow>
         (let v = validate_plan (te_parse env) (te_pick env) (te_dump env) (t 0) d (gb_snapshot b) (gb_catalog b)
          in thenM (on_ctx (record_validated_plan None))
               (bindM (ask_ctx get_run_id) (\<lambda>rid. persist_plan env store t rid v (gb_snapshot b)))))"


subsection \<open>\<open>safe_read_sql\<close>\<close>

text \<open>Inside the \<open>try\<close> a failure is one of the two policy errors, the intent error, or any other exception.\<close>

definition attempt :: "('s \<Rightarrow> ('e + 'a) \<times> 's) \<Rightarrow> ('a \<Rightarrow> 's \<Rightarrow> ('e + 'b) \<times> 's) \<Rightarrow> 's \<Rightarrow> ('e + 'b) \<times> 's" where
  "attempt m f s = (case m s of (Inl e, s') \<Rightarrow> (Inl e, s') | (Inr x, s') \<Rightarrow> f x s')"

definition pure :: "'e + 'a \<Rightarrow> 's \<Rightarrow> ('e + 'a) \<times> 's" where
  "pure x s = (x, s)"

definition tried :: "('s, 'a) py \<Rightarrow> 's \<Rightarrow> (sql_failure + 'a) \<times> 's" where
  "tried m s = (case m s of (Inl e, s') \<Rightarrow> (Inl (Raised e), s') | (Inr x, s') \<Rightarrow> (Inr x, s'))"

definition policy_check :: "sql_policy_error + 'a \<Rightarrow> sql_failure + 'a" where
  "policy_check x = (case x of Inr y \<Rightarrow> Inr y | Inl (Parser_Raised e) \<Rightarrow> Inl (Raised e) | Inl p \<Rightarrow> Inl (Policy p))"

definition intent_check :: "intent_error + 'a \<Rightarrow> sql_failure + 'a" where
  "intent_check x = (case x of Inr y \<Rightarrow> Inr y | Inl (Intent_Parser_Raised e) \<Rightarrow> Inl (Raised e) | Inl p \<Rightarrow> Inl (Intent p))"

definition result_check :: "result_intent_error + 'a \<Rightarrow> sql_failure + 'a" where
  "result_check x = (case x of Inr y \<Rightarrow> Inr y | Inl p \<Rightarrow> Inl (Result p))"

text \<open>A run that is over: the reason for refusing.\<close>

definition run_refusal :: "('r, 't) tools_env \<Rightarrow> (('r, 'p, 't) tool_world, string option) py" where
  "run_refusal env = bindM (ask_ctx get_run_id) (\<lambda>rid.
     case (rid, te_run_ops env) of
       (Some r, Some ops) \<Rightarrow> bindM (on_runs (op_get ops r)) (\<lambda>found. ret
         (case found of None \<Rightarrow> None | Some run \<Rightarrow>
            if terminal (status run) then
              Some (if status run = NEEDS_CLARIFICATION then ''clarification is required before SQL execution''
                    else ''run is already terminal: '' @ status_value (status run))
            else None))
     | _ \<Rightarrow> ret None)"

text \<open>The check of the query against the plan: enforced, observed, or skipped.\<close>

definition plan_check :: "('r, 't) tools_env \<Rightarrow> string \<Rightarrow> request_grounding option \<Rightarrow> exn + string list" where
  "plan_check env sql state =
     (let v = (case state of None \<Rightarrow> None | Some s \<Rightarrow> rg_plan s);
          b = (case state of None \<Rightarrow> None | Some s \<Rightarrow> rg_bundle s);
          g = te_glot env
      in if tool_mode env = ''enforce'' then
           (case validate_sql_against_query_plan g (te_number_text env) (te_iso_date env) sql v
               (map_option gb_snapshot b) (map_option gb_catalog b) of
              Inl e \<Rightarrow> Inl e | Inr _ \<Rightarrow> Inr [])
         else if tool_mode env = ''shadow'' \<and> b \<noteq> None then
           query_plan_alignment_errors g (te_number_text env) (te_iso_date env) sql v
             (map_option gb_snapshot b) (map_option gb_catalog b)
         else Inr [])"

text \<open>\<open>SafePostgresRunner.run\<close>: the statement goes to the database in a read-only transaction with a timeout.\<close>

definition run_statement :: "('r, 't) tools_env \<Rightarrow> string \<Rightarrow> (('r, 'p, 't) tool_world, query_frame) py" where
  "run_statement env sql w = (te_database env sql, w\<lparr>tw_sent := tw_sent w @ [sql]\<rparr>)"

definition sql_answer :: "('r, 't) tools_env \<Rightarrow> guarded_sql \<Rightarrow> validated_plan option \<Rightarrow> string list \<Rightarrow> query_frame \<Rightarrow> tool_result" where
  "sql_answer env q v shadow frame = \<lparr>rs_success = True,
     rs_llm = (if fr_csv frame = [] then text_of_string ''Query returned no rows.'' else take 4000 (fr_csv frame)),
     rs_error = None,
     rs_meta = Sql_Meta (guarded_text q) (sort (remdups (guarded_tables q))) (length (fr_records frame)) (fr_columns frame)
       (tool_mode env) (map_option plan_hash v) shadow\<rparr>"

text \<open>The body of the \<open>try\<close> after the check of the run: the checks of the text, which change nothing, and what
follows them.\<close>

definition sql_checks :: "('r, 't) tools_env \<Rightarrow> string \<Rightarrow> request_ctx \<Rightarrow> sql_failure + guarded_sql \<times> string list" where
  "sql_checks env sql c =
     (case policy_check (validate_read_query (te_glot env) DEFAULT_ALLOWED_TABLES DEFAULT_SENSITIVE_COLUMNS
         (te_max_rows env) sql) of
        Inl f \<Rightarrow> Inl f
      | Inr q \<Rightarrow>
          (case intent_check (validate_query_intent (te_glot env) (guarded_text q) (get_instruction_text c)) of
             Inl f \<Rightarrow> Inl f
           | Inr _ \<Rightarrow>
               (case plan_check env (guarded_text q) (get_grounding_state c) of
                  Inl e \<Rightarrow> Inl (Raised e)
                | Inr shadow \<Rightarrow> Inr (q, shadow))))"

definition sql_run :: "('r, 't) tools_env \<Rightarrow> (nat \<Rightarrow> time) \<Rightarrow> guarded_sql \<Rightarrow> string list \<Rightarrow> request_ctx \<Rightarrow>
    ('r, 'p, 't) tool_world \<Rightarrow> (sql_failure + tool_result) \<times> ('r, 'p, 't) tool_world" where
  "sql_run env t q shadow c =
     attempt (tried (note_event env (t 0) ''guard_decided'' [(''grounding_mode'', AStr (tool_mode env)),
         (''db_copilot.guard_decision'', AStr ''allow'')])) (\<lambda>_.
     attempt (tried (run_statement env (guarded_text q))) (\<lambda>frame.
     attempt (pure (result_check (validate_result_intent (fr_records frame) (get_instruction_text c)))) (\<lambda>_.
     attempt (tried (note_event env (t 1) ''sql_executed'' [(''status'', AStr ''success''),
         (''count'', AInt (int (length (fr_records frame))))])) (\<lambda>_.
     pure (Inr (sql_answer env q (case get_grounding_state c of None \<Rightarrow> None | Some s \<Rightarrow> rg_plan s) shadow frame))))))"

definition sql_body :: "('r, 't) tools_env \<Rightarrow> (nat \<Rightarrow> time) \<Rightarrow> string \<Rightarrow> ('r, 'p, 't) tool_world \<Rightarrow>
    (sql_failure + tool_result) \<times> ('r, 'p, 't) tool_world" where
  "sql_body env t sql w =
     (case sql_checks env sql (tw_ctx w) of
        Inl f \<Rightarrow> (Inl f, w)
      | Inr (q, shadow) \<Rightarrow> sql_run env t q shadow (tw_ctx w) w)"

definition sql_try :: "('r, 't) tools_env \<Rightarrow> (nat \<Rightarrow> time) \<Rightarrow> string \<Rightarrow> ('r, 'p, 't) tool_world \<Rightarrow>
    (sql_failure + tool_result) \<times> ('r, 'p, 't) tool_world" where
  "sql_try env t sql = attempt (tried (run_refusal env)) (\<lambda>refused.
     case refused of
       Some why \<Rightarrow> pure (Inr \<lparr>rs_success = False, rs_llm = text_of_string why, rs_error = Some (text_of_string why),
         rs_meta = Error_Type ''harness_state''\<rparr>)
     | None \<Rightarrow> sql_body env t sql)"

definition failed_sql :: "('r, 't) tools_env \<Rightarrow> string \<Rightarrow> string \<Rightarrow> sql_failure \<Rightarrow> tool_result" where
  "failed_sql env intro kind f = \<lparr>rs_success = False, rs_llm = text_of_string intro @ te_exc_text env f,
     rs_error = Some (te_exc_text env f), rs_meta = Error_Type kind\<rparr>"

definition rejected :: "('r, 't) tools_env \<Rightarrow> time \<Rightarrow> string \<Rightarrow> tool_result \<Rightarrow> (('r, 'p, 't) tool_world, tool_result) py" where
  "rejected env now why r = thenM (note_event env now ''guard_decided''
     [(''db_copilot.guard_decision'', AStr ''reject''), (''db_copilot.failure_stage'', AStr why)]) (ret r)"

text \<open>The handlers.\<close>

definition sql_handler :: "('r, 't) tools_env \<Rightarrow> (nat \<Rightarrow> time) \<Rightarrow> sql_failure \<Rightarrow> (('r, 'p, 't) tool_world, tool_result) py" where
  "sql_handler env t f =
     (let semantic = rejected env (t 2) ''semantic_validation''
            (failed_sql env ''Execution-guided semantic validation rejected the result: '' ''semantic_validation'' f)
      in case f of
        Intent _ \<Rightarrow> semantic
      | Result _ \<Rightarrow> semantic
      | Policy _ \<Rightarrow> rejected env (t 2) ''sql_policy'' (failed_sql env ''SQL policy rejected the query: '' ''sql_policy'' f)
      | Raised e \<Rightarrow>
          (case e of
             QueryPlanAlignmentError _ \<Rightarrow> semantic
           | _ \<Rightarrow> if is_exception e then ret (failed_sql env ''Read query failed: '' ''database'' f) else raise e))"

definition sql_execute :: "('r, 't) tools_env \<Rightarrow> (nat \<Rightarrow> time) \<Rightarrow> string \<Rightarrow> (('r, 'p, 't) tool_world, tool_result) py" where
  "sql_execute env t sql w =
     (case sql_try env t sql w of (Inr r, w') \<Rightarrow> (Inr r, w') | (Inl f, w') \<Rightarrow> sql_handler env t f w')"

subsection \<open>\<open>search_schema_knowledge\<close>\<close>

definition value_option :: "value_candidate \<Rightarrow> clarification_option" where
  "value_option v = \<lparr>option_id = vc_value_id v, option_label = vc_canonical_value v @ '' ('' @ vc_column_asset_id v @ '')'',
     clarification_option.value_id = vc_value_id v, evidence_id = vc_value_id v, clarification_option.source_hash = vc_source_hash v\<rparr>"

definition column_option :: "grounding_candidate \<Rightarrow> clarification_option" where
  "column_option c = \<lparr>option_id = gc_asset_id c, option_label = gc_asset_id c, clarification_option.value_id = gc_asset_id c,
     evidence_id = gc_asset_id c, clarification_option.source_hash = gc_source_hash c\<rparr>"

definition clarification_options :: "grounding_snapshot \<Rightarrow> clarification_option list" where
  "clarification_options snap =
     (let options = map value_option (value_candidates snap) in
      if 2 \<le> length options then options
      else map column_option (filter (\<lambda>c. 0 < gc_score c) (column_candidates snap)))"

definition grounding_ambiguity :: "('r, 't) tools_env \<Rightarrow> grounding_snapshot \<Rightarrow> clarification_option list \<Rightarrow> material_ambiguity" where
  "grounding_ambiguity env snap options = \<lparr>amb_id = ''grounding:'' @ take 16 (query_hash snap), amb_question = te_question env,
     amb_options = take 3 options, amb_reason = join_with ''; '' (snap_ambiguities snap)\<rparr>"

text \<open>Ask when the snapshot is ambiguous and there are two options; \<open>fresh\<close> is the identifier of the card.\<close>

definition ask_user :: "('r, 't) tools_env \<Rightarrow> (nat \<Rightarrow> time) \<Rightarrow> string \<Rightarrow> string \<Rightarrow> grounding_snapshot \<Rightarrow>
    (('r, 'p, 't) tool_world, clarification_card option) py" where
  "ask_user env t fresh user snap = bindM (ask_ctx get_run_id) (\<lambda>rid.
     case (rid, te_clarify env) of
       (Some r, Some (ops, cops, c)) \<Rightarrow>
         if snap_ambiguities snap \<noteq> [] \<and> te_context_mode env = ''enforce'' \<and> 2 \<le> length (clarification_options snap)
         then bindM (on_runs (clar_create ops cops c t fresh r user (grounding_ambiguity env snap (clarification_options snap))))
                (\<lambda>card. ret (Some card))
         else ret None
     | _ \<Rightarrow> ret None)"

definition search_meta :: "('r, 't) tools_env \<Rightarrow> utext list \<Rightarrow> retrieval_outcome option \<Rightarrow> utext list \<Rightarrow>
    (grounding_snapshot \<times> catalog) option \<Rightarrow> string option \<Rightarrow> clarification_card option \<Rightarrow> tool_meta" where
  "search_meta env ids outcome hints found warning asked = Search_Meta \<lparr>si_count = length ids,
     si_mode = (case outcome of None \<Rightarrow> ''grounding_v2'' | Some r \<Rightarrow> ro_mode r),
     si_keyword_hits = (case outcome of None \<Rightarrow> 0 | Some r \<Rightarrow> ro_keyword_hits r),
     si_vector_hits = (case outcome of None \<Rightarrow> 0 | Some r \<Rightarrow> ro_vector_hits r),
     si_ids = ids, si_hints = hints, si_grounding_mode = tool_mode env,
     si_grounding = map_option (\<lambda>b. to_safe_dict (fst b)) found, si_warning = warning, si_card = asked\<rparr>"

definition search_events :: "('r, 't) tools_env \<Rightarrow> (nat \<Rightarrow> time) \<Rightarrow> grounding_snapshot \<Rightarrow> (('r, 'p, 't) tool_world, unit) py" where
  "search_events env t snap =
     (let attrs = [(''grounding_mode'', AStr (tool_mode env)), (''db_copilot.grounding_coverage'', AFloat (snap_confidence snap))]
      in thenM (note_event env (t 3) ''schema_linked'' attrs)
           (note_event env (t 4) ''value_linked'' (AList.update ''count'' (AInt (int (length (value_candidates snap)))) attrs)))"

definition search_enforced :: "('r, 't) tools_env \<Rightarrow> (nat \<Rightarrow> time) \<Rightarrow> string \<Rightarrow> string \<Rightarrow> utext \<Rightarrow>
    (('r, 'p, 't) tool_world, tool_result) py" where
  "search_enforced env t fresh user query =
     (case te_ground env of
        None \<Rightarrow> raise (RuntimeError ''Grounding v2 service is not configured'')
      | Some search \<Rightarrow>
          (case search query of
             Inl e \<Rightarrow> raise e
           | Inr (snap, cat) \<Rightarrow>
               thenM (on_ctx (record_grounding \<lparr>gb_snapshot = snap, gb_catalog = cat\<rparr>))
                 (case render_grounding snap cat of
                    Inl e \<Rightarrow> raise e
                  | Inr content \<Rightarrow>
                      bindM (ask_user env t fresh user snap) (\<lambda>card.
                        thenM (search_events env t snap)
                          (ret \<lparr>rs_success = True, rs_llm = content @ clarification_text card, rs_error = None,
                             rs_meta = search_meta env (map text_of_string (snap_evidence_ids snap)) None []
                               (Some (snap, cat)) None card\<rparr>)))))"

text \<open>The legacy path; in shadow mode the grounding is recorded, and its errors become a warning.\<close>

definition shadow_grounding :: "('r, 't) tools_env \<Rightarrow> utext \<Rightarrow>
    (('r, 'p, 't) tool_world, (grounding_snapshot \<times> catalog) option \<times> string option) py" where
  "shadow_grounding env query =
     (case te_ground env of
        Some search \<Rightarrow>
          if tool_mode env \<noteq> ''shadow'' then ret (None, None)
          else (case search query of
             Inl e \<Rightarrow> if is_exception e then ret (None, Some (exn_name e)) else raise e
           | Inr (snap, cat) \<Rightarrow> thenM (on_ctx (record_grounding \<lparr>gb_snapshot = snap, gb_catalog = cat\<rparr>))
               (ret (Some (snap, cat), None)))
      | None \<Rightarrow> ret (None, None))"

definition search_legacy :: "('r, 't) tools_env \<Rightarrow> (nat \<Rightarrow> time) \<Rightarrow> utext \<Rightarrow> nat \<Rightarrow> (('r, 'p, 't) tool_world, tool_result) py" where
  "search_legacy env t query limit =
     (case te_retrieve env query limit of
        Inl e \<Rightarrow> raise e
      | Inr outcome \<Rightarrow>
          bindM (shadow_grounding env query) (\<lambda>(found, warning).
            thenM (case found of None \<Rightarrow> ret () | Some b \<Rightarrow> search_events env t (fst b))
              (ret \<lparr>rs_success = True, rs_llm = retrieval_text outcome (join_hints_for_query query), rs_error = None,
                 rs_meta = search_meta env (map document_id (ro_documents outcome)) (Some outcome)
                   (join_hints_for_query query) found warning None\<rparr>)))"

definition search_execute :: "('r, 't) tools_env \<Rightarrow> (nat \<Rightarrow> time) \<Rightarrow> string \<Rightarrow> string \<Rightarrow> utext \<Rightarrow> nat \<Rightarrow>
    (('r, 'p, 't) tool_world, tool_result) py" where
  "search_execute env t fresh user query limit =
     catchM (if tool_mode env = ''enforce'' then search_enforced env t fresh user query
             else search_legacy env t query limit)
       (\<lambda>e. if is_exception e
            then ret \<lparr>rs_success = False, rs_llm = text_of_string ''Knowledge search failed: '' @ te_exc_text env (Raised e),
              rs_error = Some (te_exc_text env (Raised e)), rs_meta = No_Meta\<rparr>
            else raise e)"


subsection \<open>A request and its tool calls\<close>

text \<open>The calls of one request in any order, with any arguments and clock readings, while the harness and other
requests change the runs.\<close>

inductive tools_reachable ::
  "('r, 't) tools_env \<Rightarrow> 'p plan_ops option \<Rightarrow> ('r, 'p, 't) tool_world \<Rightarrow> ('r, 'p, 't) tool_world \<Rightarrow> bool"
  for env store w0 where
  start: "tools_reachable env store w0 w0"
| search: "tools_reachable env store w0 w \<Longrightarrow> search_execute env t fresh user query limit w = (r, w') \<Longrightarrow>
    tools_reachable env store w0 w'"
| planned: "tools_reachable env store w0 w \<Longrightarrow> plan_execute env store t d w = (r, w') \<Longrightarrow> tools_reachable env store w0 w'"
| sql: "tools_reachable env store w0 w \<Longrightarrow> sql_execute env t given w = (r, w') \<Longrightarrow> tools_reachable env store w0 w'"
| runs: "tools_reachable env store w0 w \<Longrightarrow> tools_reachable env store w0 (w\<lparr>tw_runs := s\<rparr>)"

definition fresh_request :: "string \<Rightarrow> ('r, 'p, 't) tool_world \<Rightarrow> bool" where
  "fresh_request rid w \<longleftrightarrow> get_run_id (tw_ctx w) = Some rid \<and>
     (\<exists>k < length (rc_objects (tw_ctx w)). cv_grounding (rc_vars (tw_ctx w)) = Some k \<and>
        rc_objects (tw_ctx w) ! k = new_grounding) \<and> tw_sent w = []"

text \<open>A plan that the validator returned for the snapshot and catalog of the bundle, and whose hash is stored for
the run; a statement that such a plan justifies.\<close>

definition plan_recorded :: "('r, 't) tools_env \<Rightarrow> (string \<Rightarrow> stored_plan list) \<Rightarrow> string \<Rightarrow> grounding_bundle \<Rightarrow>
    validated_plan \<Rightarrow> bool" where
  "plan_recorded env kept rid b p \<longleftrightarrow>
     (\<exists>now d. p = validate_plan (te_parse env) (te_pick env) (te_dump env) now d (gb_snapshot b) (gb_catalog b)) \<and>
     (\<exists>x \<in> set (kept rid). sp_plan_hash x = plan_hash p)"

definition sent_ok :: "('r, 't) tools_env \<Rightarrow> (string \<Rightarrow> stored_plan list) \<Rightarrow> string \<Rightarrow> utext option \<Rightarrow> string \<Rightarrow> bool" where
  "sent_ok env kept rid question stmt \<longleftrightarrow> (\<exists>text q b p.
     validate_read_query (te_glot env) DEFAULT_ALLOWED_TABLES DEFAULT_SENSITIVE_COLUMNS (te_max_rows env) text = Inr q \<and>
     guarded_text q = stmt \<and> validate_query_intent (te_glot env) stmt question = Inr () \<and> plan_recorded env kept rid b p \<and>
     validate_sql_against_query_plan (te_glot env) (te_number_text env) (te_iso_date env) stmt (Some p)
       (Some (gb_snapshot b)) (Some (gb_catalog b)) = Inr ())"

definition tools_ok :: "('r, 't) tools_env \<Rightarrow> (string \<Rightarrow> stored_plan list) \<Rightarrow> string \<Rightarrow> request_ctx \<Rightarrow> string list \<Rightarrow> bool" where
  "tools_ok env kept rid c sent \<longleftrightarrow> get_run_id c = Some rid \<and>
     (\<exists>k < length (rc_objects c). cv_grounding (rc_vars c) = Some k \<and>
        (\<forall>p. rg_plan (rc_objects c ! k) = Some p \<longrightarrow>
          (\<exists>b. rg_bundle (rc_objects c ! k) = Some b \<and> plan_recorded env kept rid b p))) \<and>
     (\<forall>stmt \<in> set sent. sent_ok env kept rid (get_instruction_text c) stmt)"

lemma plan_recorded_mono:
  "plan_recorded env kept rid b p \<Longrightarrow> set (kept rid) \<subseteq> set (kept' rid) \<Longrightarrow> plan_recorded env kept' rid b p"
  unfolding plan_recorded_def by blast

lemma tools_ok_mono:
  assumes "tools_ok env kept rid c sent" and "set (kept rid) \<subseteq> set (kept' rid)"
  shows "tools_ok env kept' rid c sent"
proof -
  have p: "plan_recorded env kept rid b p \<Longrightarrow> plan_recorded env kept' rid b p" for b p
    using plan_recorded_mono assms(2) by blast
  then have "sent_ok env kept rid question x \<Longrightarrow> sent_ok env kept' rid question x" for question x
    unfolding sent_ok_def by blast
  with p assms(1) show ?thesis unfolding tools_ok_def by blast
qed

lemma tools_ok_state:
  assumes "tools_ok env kept rid c sent"
  obtains gs where "get_grounding_state c = Some gs"
    and "\<And>p. rg_plan gs = Some p \<Longrightarrow> \<exists>b. rg_bundle gs = Some b \<and> plan_recorded env kept rid b p"
  using assms that by (auto simp: tools_ok_def get_grounding_state_def)

text \<open>What writing the grounding of a bound request does.\<close>

lemma tools_ok_change:
  assumes "tools_ok env kept rid c sent" and "get_grounding_state c = Some gs"
    and "\<And>p. rg_plan (f gs) = Some p \<Longrightarrow> \<exists>b. rg_bundle (f gs) = Some b \<and> plan_recorded env kept rid b p"
  shows "tools_ok env kept rid (snd (change_grounding f c)) sent \<and>
    get_grounding_state (snd (change_grounding f c)) = Some (f gs) \<and> fst (change_grounding f c) = Inr () \<and>
    get_run_id (snd (change_grounding f c)) = get_run_id c"
  using assms by (auto simp: tools_ok_def get_grounding_state_def change_grounding_def get_run_id_def get_instruction_text_def)

subsection \<open>Quiet calls\<close>

text \<open>Calls that write neither the context, nor the plans, nor to the database.\<close>

definition frozen :: "request_ctx \<Rightarrow> 'p \<Rightarrow> string list \<Rightarrow> ('r, 'p, 't) tool_world \<Rightarrow> bool" where
  "frozen c p sent w \<longleftrightarrow> tw_ctx w = c \<and> tw_plans w = p \<and> tw_sent w = sent"

lemma frozen_on_runs [keeps_rules]: "keeps (frozen c p sent) (on_runs m)"
  by (auto simp: keeps_def on_runs_def frozen_def split: prod.split)

lemma frozen_on_trace [keeps_rules]: "keeps (frozen c p sent) (on_trace m)"
  by (auto simp: keeps_def on_trace_def frozen_def split: prod.split)

lemma frozen_ask [keeps_rules]: "keeps (frozen c p sent) (ask_ctx f)"
  by (simp add: keeps_def ask_ctx_def)

lemma frozen_note [keeps_rules]: "keeps (frozen c p sent) (note_event env now ev attrs)"
  unfolding note_event_def by (intro keeps_rules) (auto split: option.splits intro!: keeps_rules)

lemma frozen_refusal [keeps_rules]: "keeps (frozen c p sent) (run_refusal env)"
  unfolding run_refusal_def by (intro keeps_rules) (auto split: option.splits intro!: keeps_rules)

lemma frozen_ask_user [keeps_rules]: "keeps (frozen c p sent) (ask_user env t fresh user snap)"
  unfolding ask_user_def by (intro keeps_rules) (auto split: option.splits intro!: keeps_rules)

lemma frozen_search_events [keeps_rules]: "keeps (frozen c p sent) (search_events env t snap)"
  unfolding search_events_def Let_def by (intro keeps_rules)

lemma frozen_rejected [keeps_rules]: "keeps (frozen c p sent) (rejected env now why r)"
  unfolding rejected_def by (intro keeps_rules)

lemma frozen_handler [keeps_rules]: "keeps (frozen c p sent) (sql_handler env t f)"
  by (cases f) (auto simp: sql_handler_def Let_def split: exn.split intro!: keeps_rules)

text \<open>A predicate on what quiet calls leave alone is kept by them.\<close>

lemma quiet_keeps:
  assumes "\<And>c p sent. keeps (frozen c p sent) m" and "\<And>w w'. frozen (tw_ctx w) (tw_plans w) (tw_sent w) w' \<Longrightarrow> P w \<Longrightarrow> P w'"
  shows "keeps P m"
proof
  fix w assume "P w"
  moreover have "frozen (tw_ctx w) (tw_plans w) (tw_sent w) (snd (m w))"
    by (rule keepsD [OF assms(1)]) (simp add: frozen_def)
  ultimately show "P (snd (m w))" using assms(2) by blast
qed

text \<open>The same for the steps of a \<open>try\<close> body, whose errors have another type.\<close>

definition stable :: "('s \<Rightarrow> bool) \<Rightarrow> ('s \<Rightarrow> 'x \<times> 's) \<Rightarrow> bool" where
  "stable P m \<longleftrightarrow> (\<forall>s. P s \<longrightarrow> P (snd (m s)))"

lemma stableD: "stable P m \<Longrightarrow> P s \<Longrightarrow> P (snd (m s))"
  by (simp add: stable_def)

lemma stable_attempt [keeps_rules]: "stable P m \<Longrightarrow> (\<And>x. stable P (f x)) \<Longrightarrow> stable P (attempt m f)"
  by (fastforce simp: stable_def attempt_def split: prod.split sum.split)

lemma stable_tried [keeps_rules]: "keeps P m \<Longrightarrow> stable P (tried m)"
  by (fastforce simp: stable_def keeps_def tried_def split: prod.split sum.split)

lemma stable_pure [keeps_rules]: "stable P (pure x)"
  by (simp add: stable_def pure_def)

lemma stable_option [keeps_rules]:
  "(v = None \<Longrightarrow> stable P m) \<Longrightarrow> (\<And>x. v = Some x \<Longrightarrow> stable P (f x)) \<Longrightarrow> stable P (case v of None \<Rightarrow> m | Some x \<Rightarrow> f x)"
  by (cases v) auto

subsection \<open>Every tool keeps the request in order\<close>

context plan_store_contract
begin

definition in_order :: "('r, 't) tools_env \<Rightarrow> string \<Rightarrow> ('r, 's, 't) tool_world \<Rightarrow> bool" where
  "in_order env rid w \<longleftrightarrow> pinvar (tw_plans w) \<and> tools_ok env (plans (tw_plans w)) rid (tw_ctx w) (tw_sent w)"

lemma frozen_in_order: "frozen (tw_ctx w) (tw_plans w) (tw_sent w) w' \<Longrightarrow> in_order env rid w \<Longrightarrow> in_order env rid w'"
  by (simp add: frozen_def in_order_def)

lemma quiet_in_order: "(\<And>c p sent. keeps (frozen c p sent) m) \<Longrightarrow> keeps (in_order env rid) m"
  by (rule quiet_keeps) (use frozen_in_order in blast)+

lemmas ordered_calls = quiet_in_order [OF frozen_ask_user] quiet_in_order [OF frozen_search_events]

lemma record_grounding_in_order: "keeps (in_order env rid) (on_ctx (record_grounding b))"
proof
  fix w assume "in_order env rid w"
  then have ok: "pinvar (tw_plans w)" "tools_ok env (plans (tw_plans w)) rid (tw_ctx w) (tw_sent w)"
    by (simp_all add: in_order_def)
  obtain gs where g: "get_grounding_state (tw_ctx w) = Some gs" using tools_ok_state [OF ok(2)] by blast
  show "in_order env rid (snd (on_ctx (record_grounding b) w))"
    using tools_ok_change [OF ok(2) g, of "\<lambda>g. g\<lparr>rg_bundle := Some b, rg_plan := None\<rparr>"] ok(1)
    by (simp add: in_order_def on_ctx_eq record_grounding_def)
qed

lemma clear_plan_in_order:
  assumes "in_order env rid w" and "get_grounding_state (tw_ctx w) = Some gs"
  shows "\<exists>w'. on_ctx (record_validated_plan None) w = (Inr (), w') \<and> in_order env rid w' \<and>
    get_grounding_state (tw_ctx w') = Some (gs\<lparr>rg_plan := None\<rparr>) \<and> get_run_id (tw_ctx w') = Some rid"
proof -
  have ok: "pinvar (tw_plans w)" "tools_ok env (plans (tw_plans w)) rid (tw_ctx w) (tw_sent w)"
    using assms(1) by (simp_all add: in_order_def)
  then have "get_run_id (tw_ctx w) = Some rid" by (simp add: tools_ok_def)
  then show ?thesis
    using tools_ok_change [OF ok(2) assms(2), of "\<lambda>g. g\<lparr>rg_plan := None\<rparr>"] ok(1)
    by (simp add: in_order_def on_ctx_eq record_validated_plan_def)
qed

lemma authorise_in_order:
  assumes "in_order env rid w" and "get_grounding_state (tw_ctx w) = Some gs" and "rg_bundle gs = Some b"
    and "plan_recorded env (plans (tw_plans w)) rid b v"
  shows "in_order env rid (snd (authorise_plan env now v warning w))"
proof -
  have ok: "pinvar (tw_plans w)" "tools_ok env (plans (tw_plans w)) rid (tw_ctx w) (tw_sent w)"
    using assms(1) by (simp_all add: in_order_def)
  have "\<exists>w'. on_ctx (record_validated_plan (Some v)) w = (Inr (), w') \<and> in_order env rid w'"
    using tools_ok_change [OF ok(2) assms(2), of "\<lambda>g. g\<lparr>rg_plan := Some v\<rparr>"] ok(1) assms(3,4)
    by (simp add: in_order_def on_ctx_eq record_validated_plan_def)
  then obtain w' where w': "on_ctx (record_validated_plan (Some v)) w = (Inr (), w')" "in_order env rid w'" by blast
  have "keeps (in_order env rid) (thenM (note_event env now ''plan_validated''
      [(''grounding_mode'', AStr (tool_mode env)), (''status'', AStr (status_text (vp_status v))),
       (''db_copilot.grounding_coverage'', AFloat (confidence v))]) (ret (plan_answer env v warning)))"
    by (rule quiet_in_order) (intro keeps_rules)
  from keepsD [OF this w'(2)] show ?thesis
    by (simp add: authorise_plan_def thenM_def [of "on_ctx (record_validated_plan (Some v))"]
        bindM_Inr [where m = "on_ctx (record_validated_plan (Some v))", OF w'(1)])
qed

lemma persist_in_order:
  assumes "tool_mode env = ''enforce''" and "in_order env rid w" and "store = None \<or> store = Some ops"
    and "get_grounding_state (tw_ctx w) = Some gs" and "rg_bundle gs = Some b"
    and v: "v = validate_plan (te_parse env) (te_pick env) (te_dump env) now d (gb_snapshot b) (gb_catalog b)"
  shows "in_order env rid (snd (persist_plan env store t (Some rid) v (gb_snapshot b) w))"
  using assms(3)
proof
  assume "store = None"
  then show ?thesis using assms(1,2) by (simp add: persist_plan_def)
next
  assume s: "store = Some ops"
  obtain r s' where save: "op_save_plan ops (t 1) rid v (gb_snapshot b) (tw_plans w) = (r, s')" by fastforce
  let ?w = "w\<lparr>tw_plans := s'\<rparr>"
  have call: "on_plans (op_save_plan ops (t 1) rid v (gb_snapshot b)) w = (r, ?w)" unfolding on_plans_def save by simp
  have ok: "pinvar (tw_plans w)" "tools_ok env (plans (tw_plans w)) rid (tw_ctx w) (tw_sent w)"
    using assms(2) by (simp_all add: in_order_def)
  show ?thesis
  proof (cases r)
    case (Inl e)
    have "s' = tw_plans w" using save_cases [OF ok(1) save] Inl by auto
    then show ?thesis using assms(1,2) Inl call s by (simp add: persist_plan_def)
  next
    case (Inr x)
    have h: "pinvar s'" "x \<in> set (plans s' rid)" "sp_plan_hash x = plan_hash v"
      using saved_hash [OF ok(1)] save Inr by blast+
    have grow: "set (plans (tw_plans w) rid) \<subseteq> set (plans s' rid)"
      using saves_grow [OF ok(1) save, of rid] by auto
    have "in_order env rid ?w"
      using tools_ok_mono [where kept = "plans (tw_plans w)" and kept' = "plans s'", OF ok(2) grow] h(1) by (simp add: in_order_def)
    moreover have "plan_recorded env (plans (tw_plans ?w)) rid b v"
      using h(2,3) v by (auto simp: plan_recorded_def)
    ultimately have "in_order env rid (snd (authorise_plan env (t 2) v None ?w))"
      using assms(4,5) by (intro authorise_in_order [where gs = gs and b = b]) simp_all
    then show ?thesis using Inr call s by (simp add: persist_plan_def)
  qed
qed

lemma plan_in_order:
  assumes "tool_mode env = ''enforce''" and "store = None \<or> store = Some ops"
  shows "keeps (in_order env rid) (plan_execute env store t d)"
proof
  fix w assume w: "in_order env rid w"
  then obtain gs where g: "get_grounding_state (tw_ctx w) = Some gs"
    using tools_ok_state unfolding in_order_def by blast
  show "in_order env rid (snd (plan_execute env store t d w))"
  proof (cases "rg_bundle gs")
    case None
    then show ?thesis using w g by (simp add: plan_execute_def bindM_def ask_ctx_def)
  next
    case (Some b)
    obtain w' where w': "on_ctx (record_validated_plan None) w = (Inr (), w')" "in_order env rid w'"
      "get_grounding_state (tw_ctx w') = Some (gs\<lparr>rg_plan := None\<rparr>)" "get_run_id (tw_ctx w') = Some rid"
      using clear_plan_in_order [OF w g] by blast
    have "rg_bundle (gs\<lparr>rg_plan := None\<rparr>) = Some b" using Some by simp
    from persist_in_order [OF assms(1) w'(2) assms(2) w'(3) this refl, of t "t 0" d] show ?thesis
      using g Some w'(1,4) by (simp add: plan_execute_def bindM_def thenM_def ask_ctx_def Let_def)
  qed
qed

lemma search_in_order: "keeps (in_order env rid) (search_execute env t fresh user query limit)"
proof -
  have "keeps (in_order env rid) (search_enforced env t fresh user query)"
    unfolding search_enforced_def
    by (intro keeps_rules) (auto split: prod.split intro!: keeps_rules record_grounding_in_order ordered_calls)
  moreover have "keeps (in_order env rid) (shadow_grounding env query)"
    unfolding shadow_grounding_def
    by (intro keeps_rules) (auto split: prod.split intro!: keeps_rules record_grounding_in_order)
  then have "keeps (in_order env rid) (search_legacy env t query limit)"
    unfolding search_legacy_def
    by (intro keeps_rules) (auto split: prod.split intro!: keeps_rules ordered_calls)
  ultimately show ?thesis unfolding search_execute_def by (intro keeps_rules) auto
qed

end


context plan_store_contract
begin

text \<open>A query that passed every check before it is sent is justified by the plan of the request.\<close>

lemma sent_justified:
  assumes "tool_mode env = ''enforce''" and "in_order env rid w" and checked: "sql_checks env text (tw_ctx w) = Inr (q, shadow)"
  shows "sent_ok env (plans (tw_plans w)) rid (get_instruction_text (tw_ctx w)) (guarded_text q)"
proof -
  obtain gs where g: "get_grounding_state (tw_ctx w) = Some gs"
    and p: "\<And>p. rg_plan gs = Some p \<Longrightarrow> \<exists>b. rg_bundle gs = Some b \<and> plan_recorded env (plans (tw_plans w)) rid b p"
    using assms(2) tools_ok_state unfolding in_order_def by metis
  have read: "validate_read_query (te_glot env) DEFAULT_ALLOWED_TABLES DEFAULT_SENSITIVE_COLUMNS (te_max_rows env) text = Inr q"
    using checked by (auto simp: sql_checks_def policy_check_def split: sum.splits sql_policy_error.splits)
  have "plan_check env (guarded_text q) (Some gs) = Inr shadow"
    using checked g by (auto simp: sql_checks_def split: sum.splits)
  then have ok: "validate_sql_against_query_plan (te_glot env) (te_number_text env) (te_iso_date env) (guarded_text q) (rg_plan gs)
      (map_option gb_snapshot (rg_bundle gs)) (map_option gb_catalog (rg_bundle gs)) = Inr ()"
    using assms(1) by (simp add: plan_check_def Let_def split: sum.splits)
  then obtain v s c where v: "rg_plan gs = Some v" "map_option gb_snapshot (rg_bundle gs) = Some s"
      "map_option gb_catalog (rg_bundle gs) = Some c"
    using validated_passed by metis
  then obtain b where b: "rg_bundle gs = Some b" "plan_recorded env (plans (tw_plans w)) rid b v" using p by blast
  have "validate_sql_against_query_plan (te_glot env) (te_number_text env) (te_iso_date env) (guarded_text q) (Some v)
      (Some (gb_snapshot b)) (Some (gb_catalog b)) = Inr ()"
    using ok v(1) b(1) by simp
  moreover have "validate_query_intent (te_glot env) (guarded_text q) (get_instruction_text (tw_ctx w)) = Inr ()"
    using checked by (auto simp: sql_checks_def intent_check_def split: sum.splits intent_error.splits)
  ultimately show ?thesis using read b(2) unfolding sent_ok_def by blast
qed

definition cleared :: "('r, 't) tools_env \<Rightarrow> string \<Rightarrow> string \<Rightarrow> ('r, 's, 't) tool_world \<Rightarrow> bool" where
  "cleared env rid sql w \<longleftrightarrow> in_order env rid w \<and> sent_ok env (plans (tw_plans w)) rid (get_instruction_text (tw_ctx w)) sql"

lemma note_cleared: "keeps (cleared env rid sql) (note_event env now ev attrs)"
  by (rule quiet_keeps [OF frozen_note]) (use frozen_in_order in \<open>auto simp: frozen_def cleared_def\<close>)

lemma run_cleared: "keeps (cleared env rid sql) (run_statement env sql)"
  by (auto simp: keeps_def cleared_def in_order_def tools_ok_def run_statement_def)

lemma sql_run_cleared: "stable (cleared env rid (guarded_text q)) (sql_run env t q shadow c)"
  unfolding sql_run_def by (intro keeps_rules note_cleared run_cleared)

lemma sql_in_order:
  assumes "tool_mode env = ''enforce''"
  shows "keeps (in_order env rid) (sql_execute env t given)"
proof
  fix w assume w: "in_order env rid w"
  have body: "stable (in_order env rid) (sql_body env t given)"
    unfolding stable_def
  proof (intro allI impI)
    fix w' assume w': "in_order env rid w'"
    show "in_order env rid (snd (sql_body env t given w'))"
    proof (cases "sql_checks env given (tw_ctx w')")
      case (Inr qs)
      obtain q shadow where qs: "qs = (q, shadow)" by fastforce
      have "cleared env rid (guarded_text q) w'"
        using w' sent_justified [OF assms w'] Inr qs by (simp add: cleared_def)
      from stableD [OF sql_run_cleared this] show ?thesis using Inr qs by (simp add: sql_body_def cleared_def)
    qed (simp add: sql_body_def w')
  qed
  have "stable (in_order env rid) (sql_try env t given)"
    unfolding sql_try_def by (intro keeps_rules body quiet_in_order [OF frozen_refusal])
  from stableD [OF this w] have tried: "in_order env rid (snd (sql_try env t given w))" .
  have handler: "keeps (in_order env rid) (sql_handler env t f)" for f
    by (rule quiet_in_order) (rule frozen_handler)
  show "in_order env rid (snd (sql_execute env t given w))"
    using tried keepsD [OF handler] by (cases "sql_try env t given w") (auto simp: sql_execute_def split: sum.split)
qed

lemma reachable_in_order:
  assumes "tools_reachable env store w0 w" and "tool_mode env = ''enforce''" and "store = None \<or> store = Some ops"
    and "fresh_request rid w0" and "pinvar (tw_plans w0)"
  shows "in_order env rid w"
  using assms(1)
proof (induction rule: tools_reachable.induct)
  case start
  then show ?case using assms(4,5) by (auto simp: fresh_request_def in_order_def tools_ok_def new_grounding_def)
next
  case (search w t fresh user query limit r w')
  then show ?case using keepsD' [OF search_in_order] by blast
next
  case (planned w t d r w')
  then show ?case using keepsD' [OF plan_in_order [OF assms(2,3)]] by blast
next
  case (sql w t given r w')
  then show ?case using keepsD' [OF sql_in_order [OF assms(2)]] by blast
next
  case (runs w s)
  then show ?case by (simp add: in_order_def)
qed

end



subsection \<open>Asking stops the query\<close>

lemma over_run_refused:
  assumes "te_run_ops env = Some ops" and "get_run_id (tw_ctx w) = Some rid"
    and "op_get ops rid (tw_runs w) = (Inr (Some run), s)" and "terminal (status run)"
  shows "\<exists>r. sql_execute env t sql w = (Inr r, w\<lparr>tw_runs := s\<rparr>) \<and> \<not> rs_success r \<and> rs_meta r = Error_Type ''harness_state''"
  using assms by (simp add: sql_execute_def sql_try_def attempt_def tried_def run_refusal_def bindM_def ask_ctx_def
      on_runs_def pure_def)

context card_contract
begin

lemma asked_run_is_over:
  assumes "clar_ok (tw_runs w)" and "te_clarify env = Some (ops, cops, c)" and "get_run_id (tw_ctx w) = Some rid"
    and "ask_user env t fresh user snap w = (Inr (Some asked), w')"
  shows "\<exists>run. view (tw_runs w') rid = Some run \<and> status run = NEEDS_CLARIFICATION \<and> tw_ctx w' = tw_ctx w \<and>
    card (tw_runs w') rid = Some asked \<and> user_id run = user"
proof -
  let ?a = "grounding_ambiguity env snap (clarification_options snap)"
  obtain s' where cr: "clar_create ops cops c t fresh rid user ?a (tw_runs w) = (Inr asked, s')" and w': "w' = w\<lparr>tw_runs := s'\<rparr>"
    using assms(2-4) by (auto simp: ask_user_def bindM_def ask_ctx_def on_runs_def split: if_splits prod.splits sum.splits)
  have none: "create_refusal rid user ?a (view (tw_runs w) rid) = None"
    using clar_create_refused cr by (metis Inl_Inr_False option.exhaust prod.inject)
  from clar_create_done [OF assms(1) none, of c t fresh] cr show ?thesis
    by (auto simp: w')
qed

end


subsection \<open>A plan that is submitted twice\<close>



subsection \<open>A request that runs a query\<close>

definition region_column :: semantic_asset where
  "region_column = city_column\<lparr>asset_id := ''column:public.orders.region'',
     payload := [(''table_name'', PStr ''orders''), (''column_name'', PStr ''region'')]\<rparr>"

definition region_bundle :: grounding_bundle where
  "region_bundle = \<lparr>gb_snapshot = sample_snapshot\<lparr>join_paths := [], snap_evidence_ids := [''column:public.orders.region'']\<rparr>,
     gb_catalog = \<lparr>cat_assets = [region_column], cat_values = [], cat_relations = []\<rparr>\<rparr>"

definition region_draft :: query_plan_draft where
  "region_draft = empty_draft\<lparr>dimensions := [\<lparr>dim_asset_id = ''column:public.orders.region'', dim_alias = ''region''\<rparr>],
     evidence_ids := [''column:public.orders.region'']\<rparr>"

definition region_query :: sql where
  "region_query = Sql [X_Query, X_Select] [(''this'', Text ''q'')]
     [(''expressions'', Sql [X_Column] [(''name'', Text ''region''), (''table'', Text ''orders'')] []),
      (''from'', table_node ''orders''),
      (''limit'', Sql [] [] [(''expression'', Sql [X_Literal] [(''int'', Text ''10'')] [])])]"

definition demo_env :: "(unit, unit) tools_env" where
  "demo_env = \<lparr>te_grounding_mode = ''enforce'', te_context_mode = ''enforce'', te_decision = None, te_run_ops = None,
     te_clarify = None, te_trace = None, te_ground = Some (\<lambda>_. Inr (gb_snapshot region_bundle, gb_catalog region_bundle)),
     te_retrieve = (\<lambda>_ _. Inl (RuntimeError ''no retrieval'')), te_parse = (\<lambda>_. None), te_pick = hd, te_dump = (\<lambda>_. ''''),
     te_glot = tree_glot region_query, te_number_text = (\<lambda>_. ''''), te_iso_date = (\<lambda>_. ''''), te_max_rows = 200,
     te_database = (\<lambda>_. Inr \<lparr>fr_records = [], fr_columns = [], fr_csv = []\<rparr>), te_exc_text = (\<lambda>_. []),
     te_payload_text = (\<lambda>_. []), te_question = ''''\<rparr>"

definition demo_world :: "request_grounding \<Rightarrow> stored_plan numbered \<Rightarrow> string list \<Rightarrow> (unit, plan_table, unit) tool_world" where
  "demo_world gs rows sent = \<lparr>tw_ctx = \<lparr>rc_vars = no_vars\<lparr>cv_run_id := Some ''r'', cv_grounding := Some 0\<rparr>, rc_objects = [gs]\<rparr>,
     tw_runs = (), tw_plans = \<lparr>plan_rows = rows, plan_runs = [''r'']\<rparr>,
     tw_trace = \<lparr>trace_db = (), trace_metrics = []\<rparr>, tw_sent = sent\<rparr>"

definition region_plan :: validated_plan where
  "region_plan = validate_plan (\<lambda>_. None) hd (\<lambda>_. '''') 0 region_draft (gb_snapshot region_bundle) (gb_catalog region_bundle)"

definition region_rows :: "stored_plan numbered" where
  "region_rows = [(''r'', 0, (stored_of (\<lambda>_. '''') 0 region_plan (gb_snapshot region_bundle))\<lparr>sp_created_at := Some 0\<rparr>)]"

definition grounded_state :: "validated_plan option \<Rightarrow> request_grounding" where
  "grounded_state p = \<lparr>rg_bundle = Some region_bundle, rg_plan = p\<rparr>"

lemma demo_mode [simp]: "tool_mode demo_env = ''enforce''"
  by (simp add: tool_mode_def demo_env_def effective_mode_def)

lemma demo_fields [simp]:
  "te_trace demo_env = None" "te_run_ops demo_env = None" "te_clarify demo_env = None" "te_max_rows demo_env = 200"
  "te_glot demo_env = tree_glot region_query" "te_number_text demo_env = (\<lambda>_. '''')" "te_iso_date demo_env = (\<lambda>_. '''')"
  "te_ground demo_env = Some (\<lambda>_. Inr (gb_snapshot region_bundle, gb_catalog region_bundle))"
  "te_database demo_env x = Inr \<lparr>fr_records = [], fr_columns = [], fr_csv = []\<rparr>"
  "te_question demo_env = ''''"
  by (simp_all add: demo_env_def)

lemma region_plan_valid: "vp_status region_plan = VALID" "plan region_plan = region_draft"
  by (simp_all add: region_plan_def validate_plan_def plan_errors_def region_draft_def empty_draft_def region_bundle_def
      sample_snapshot_def region_column_def city_column_def require_asset_def asset_current_def current_at_def
      join_required_errors_def referenced_tables_def asset_table_def selected_paths_def
      connection_errors_def evidence_errors_def required_evidence_def map_filter_simps)

lemma region_accepted:
  "validate_read_query (tree_glot region_query) DEFAULT_ALLOWED_TABLES DEFAULT_SENSITIVE_COLUMNS 200 ''q'' =
     Inr \<lparr>guarded_text = ''q'', guarded_tables = [''orders''], guarded_columns = [''region''], guarded_limit = 10\<rparr>"
  by code_simp

lemma region_aligned:
  "tree_errors (tree_glot region_query) (\<lambda>_. '''') (\<lambda>_. '''') (gb_catalog region_bundle) (gb_snapshot region_bundle)
     region_draft region_query = Inr []"
  by code_simp

lemma demo_search:
  "\<exists>r. search_execute demo_env t ''c'' ''u'' [103] 8 (demo_world new_grounding [] []) =
     (Inr r, demo_world (grounded_state None) [] [])"
proof -
  obtain content where "render_grounding (gb_snapshot region_bundle) (gb_catalog region_bundle) = Inr content"
    by (simp add: render_grounding_def region_bundle_def sample_snapshot_def)
  then show ?thesis
    by (simp add: search_execute_def catchM_def search_enforced_def thenM_def bindM_def ask_user_def ask_ctx_def
        on_ctx_eq record_grounding_def change_grounding_def demo_world_def no_vars_def search_events_def note_event_def
        grounded_state_def new_grounding_def get_run_id_def)
qed

lemma demo_plan:
  "\<exists>r. plan_execute demo_env (Some (pg_plan_ops (\<lambda>_. ''''))) (\<lambda>_. 0) region_draft (demo_world (grounded_state None) [] []) =
     (Inr r, demo_world (grounded_state (Some region_plan)) region_rows [])"
proof -
  have v: "validate_plan (te_parse demo_env) (te_pick demo_env) (te_dump demo_env) 0 region_draft
      (gb_snapshot region_bundle) (gb_catalog region_bundle) = region_plan"
    by (simp add: demo_env_def region_plan_def)
  have g: "get_grounding_state (tw_ctx (demo_world (grounded_state None) [] [])) = Some (grounded_state None)"
      "rg_bundle (grounded_state None) = Some region_bundle"
    by (simp_all add: demo_world_def get_grounding_state_def no_vars_def grounded_state_def)
  have t: "te_trace demo_env = None" by (simp add: demo_env_def)
  show ?thesis
    by (simp add: plan_execute_def bindM_def thenM_def ask_ctx_def g Let_def v)
      (simp add: on_ctx_eq record_validated_plan_def change_grounding_def demo_world_def no_vars_def get_run_id_def
        persist_plan_def on_plans_def pg_plan_ops_def pg_save_plan_def rows_of_def next_no_def Let_def authorise_plan_def
        thenM_def bindM_def note_event_def ask_ctx_def t grounded_state_def region_rows_def)
qed

lemma demo_sql:
  "\<exists>r. sql_execute demo_env t ''q'' (demo_world (grounded_state (Some region_plan)) region_rows []) =
     (Inr r, demo_world (grounded_state (Some region_plan)) region_rows [''q''])"
proof -
  let ?w = "demo_world (grounded_state (Some region_plan)) region_rows []"
  let ?c = "tw_ctx ?w"
  have state: "get_grounding_state ?c = Some (grounded_state (Some region_plan))" "get_instruction_text ?c = None"
    by (simp_all add: demo_world_def get_grounding_state_def no_vars_def get_instruction_text_def)
  have "query_plan_alignment_errors (tree_glot region_query) (\<lambda>_. '''') (\<lambda>_. '''') ''q'' (Some region_plan)
      (Some (gb_snapshot region_bundle)) (Some (gb_catalog region_bundle)) = Inr []"
    using region_aligned by (simp add: query_plan_alignment_errors_def region_plan_valid tree_glot_def)
  then have "plan_check demo_env ''q'' (Some (grounded_state (Some region_plan))) = Inr []"
    by (simp add: plan_check_def grounded_state_def validate_sql_against_query_plan_def demo_env_def Let_def
        tool_mode_def effective_mode_def)
  then have checks: "sql_checks demo_env ''q'' ?c = Inr (\<lparr>guarded_text = ''q'', guarded_tables = [''orders''],
      guarded_columns = [''region''], guarded_limit = 10\<rparr>, [])"
    using region_accepted state
    by (simp add: sql_checks_def policy_check_def intent_check_def validate_query_intent_def demo_env_def)
  have d: "te_database demo_env ''q'' = Inr \<lparr>fr_records = [], fr_columns = [], fr_csv = []\<rparr>" by simp
  have quiet: "note_event demo_env now e a w = (Inr (), w)" for now e a and w :: "(unit, plan_table, unit) tool_world"
    by (simp add: note_event_def bindM_def ask_ctx_def ret_def split: option.split)
  have "run_refusal demo_env w = (Inr None, w)" for w :: "(unit, plan_table, unit) tool_world"
    by (simp add: run_refusal_def bindM_def ask_ctx_def ret_def split: option.split)
  then have "sql_try demo_env t ''q'' w = sql_body demo_env t ''q'' w" for w :: "(unit, plan_table, unit) tool_world"
    by (simp add: sql_try_def attempt_def tried_def)
  moreover have "\<exists>r. sql_run demo_env t \<lparr>guarded_text = ''q'', guarded_tables = [''orders''],
      guarded_columns = [''region''], guarded_limit = 10\<rparr> [] ?c w = (Inr r, w\<lparr>tw_sent := tw_sent w @ [''q'']\<rparr>)"
    for w :: "(unit, plan_table, unit) tool_world"
    by (simp add: sql_run_def attempt_def tried_def pure_def quiet run_statement_def result_check_def
        validate_result_intent_def state)
  then obtain r where "sql_run demo_env t \<lparr>guarded_text = ''q'', guarded_tables = [''orders''],
      guarded_columns = [''region''], guarded_limit = 10\<rparr> [] ?c ?w = (Inr r, ?w\<lparr>tw_sent := tw_sent ?w @ [''q'']\<rparr>)"
    by metis
  moreover have "?w\<lparr>tw_sent := tw_sent ?w @ [''q'']\<rparr> = demo_world (grounded_state (Some region_plan)) region_rows [''q'']"
    by (simp add: demo_world_def)
  ultimately show ?thesis
    by (simp add: sql_execute_def sql_body_def checks)
qed

lemma demo_reachable:
  "tools_reachable demo_env (Some (pg_plan_ops (\<lambda>_. ''''))) (demo_world new_grounding [] [])
     (demo_world (grounded_state (Some region_plan)) region_rows [''q''])"
  using demo_search [of "\<lambda>_. 0"] demo_plan demo_sql [of "\<lambda>_. 0"]
  by (metis tools_reachable.start tools_reachable.search tools_reachable.planned tools_reachable.sql)



definition near_value :: "string \<Rightarrow> value_candidate" where
  "near_value v = \<lparr>vc_value_id = v, vc_column_asset_id = ''column:public.orders.region'', vc_canonical_value = v,
     vc_score = 1, vc_source_hash = ''h''\<rparr>"

definition asking_snapshot :: grounding_snapshot where
  "asking_snapshot = sample_snapshot\<lparr>value_candidates := [near_value ''v1'', near_value ''v2''], snap_ambiguities := [''two regions'']\<rparr>"

text \<open>The services of a request over the clarification desk, and the request for the run \<open>r1\<close> of \<open>u1\<close>.\<close>

definition desk_env :: "(clar_state, unit) tools_env" where
  "desk_env = \<lparr>te_grounding_mode = ''enforce'', te_context_mode = ''enforce'', te_decision = None,
     te_run_ops = Some clar_run_ops, te_clarify = Some (clar_run_ops, clar_card_ops, sample_clar_config), te_trace = None,
     te_ground = None, te_retrieve = (\<lambda>_ _. Inl (RuntimeError ''no retrieval'')), te_parse = (\<lambda>_. None), te_pick = hd,
     te_dump = (\<lambda>_. ''''), te_glot = tree_glot region_query, te_number_text = (\<lambda>_. ''''), te_iso_date = (\<lambda>_. ''''),
     te_max_rows = 200, te_database = (\<lambda>_. Inr \<lparr>fr_records = [], fr_columns = [], fr_csv = []\<rparr>), te_exc_text = (\<lambda>_. []),
     te_payload_text = (\<lambda>_. []), te_question = ''which?''\<rparr>"

definition desk_world :: "clar_state \<Rightarrow> (clar_state, plan_table, unit) tool_world" where
  "desk_world s = \<lparr>tw_ctx = \<lparr>rc_vars = no_vars\<lparr>cv_run_id := Some ''r1''\<rparr>, rc_objects = []\<rparr>, tw_runs = s,
     tw_plans = \<lparr>plan_rows = [], plan_runs = []\<rparr>, tw_trace = \<lparr>trace_db = (), trace_metrics = []\<rparr>, tw_sent = []\<rparr>"

lemma desk_asks:
  "\<exists>asked s1. ask_user desk_env (\<lambda>i. int i) ''c1'' ''u1'' asking_snapshot (desk_world sample_desk) = (Inr (Some asked), desk_world s1)"
proof -
  let ?a = "grounding_ambiguity desk_env asking_snapshot (clarification_options asking_snapshot)"
  have o: "clarification_options asking_snapshot = [value_option (near_value ''v1''), value_option (near_value ''v2'')]"
    by (simp add: clarification_options_def asking_snapshot_def Let_def)
  have "clar_view sample_desk ''r1'' = Some (moved 2 LINKING None (moved 1 CONTEXT_BUILDING None sample_run))"
    using linking_record by (simp add: clar_view_def memory_view_def sample_desk_def)
  then have "create_refusal ''r1'' ''u1'' ?a (clar_view sample_desk ''r1'') = None"
    by (simp add: create_refusal_def sample_run_def grounding_ambiguity_def o value_option_def near_value_def option_unbacked_def)
  from desk_cards.clar_create_done [OF clar_reachable_ok [OF sample_desk_reachable] this, of sample_clar_config "\<lambda>i. int i" "''c1''"]
  obtain asked s1 where "clar_create clar_run_ops clar_card_ops sample_clar_config (\<lambda>i. int i) ''c1'' ''r1'' ''u1'' ?a sample_desk =
      (Inr asked, s1)"
    by blast
  then have "ask_user desk_env (\<lambda>i. int i) ''c1'' ''u1'' asking_snapshot (desk_world sample_desk) = (Inr (Some asked), desk_world s1)"
    by (simp add: ask_user_def bindM_def ask_ctx_def on_runs_def desk_env_def desk_world_def get_run_id_def o)
      (simp add: asking_snapshot_def)
  then show ?thesis by blast
qed



text \<open>The region plan against a grounding that has only linked other columns is blocked; it was stored so.\<close>

definition early_snapshot :: grounding_snapshot where
  "early_snapshot = (gb_snapshot region_bundle)\<lparr>snap_evidence_ids := []\<rparr>"

definition early_plan :: validated_plan where
  "early_plan = validate_plan (\<lambda>_. None) hd (\<lambda>_. '''') 0 region_draft early_snapshot \<lparr>cat_assets = [], cat_values = [], cat_relations = []\<rparr>"

definition early_rows :: "stored_plan numbered" where
  "early_rows = [(''r'', 0, (stored_of (\<lambda>_. '''') 0 early_plan early_snapshot)\<lparr>sp_created_at := Some 0\<rparr>)]"

lemma early_plan_blocked: "vp_status early_plan = BLOCKED" "plan_hash early_plan = plan_hash region_plan"
  by (simp_all add: early_plan_def region_plan_def validate_plan_def plan_errors_def region_draft_def empty_draft_def
      require_asset_def Let_def)


end
