(* ===== verification/Uncertainty.thy ===== *)
theory Uncertainty
  imports Py_Float
begin

section \<open>The uncertainty gate\<close>

text \<open>\<open>agent-service/app/harness/uncertainty.py\<close>: the decision over the signals of a question.\<close>

datatype risk_level = LOW_RISK | MEDIUM_RISK | HIGH_RISK | BLOCKED_RISK

record uncertainty_signals =
  unresolved_ambiguities :: int
  candidate_margin :: "pyfloat option"
  source_backed_option_count :: int
  unconfirmed_join :: bool
  evidence_conflicts :: int
  memory_conflicts :: int
  join_hops :: int
  sensitive_or_forbidden :: bool

record uncertainty_decision =
  ud_risk :: risk_level
  ud_reasons :: "string list"
  requires_clarification :: bool

definition narrow_margin :: "uncertainty_signals \<Rightarrow> bool" where
  "narrow_margin s \<longleftrightarrow> (case candidate_margin s of None \<Rightarrow> False | Some m \<Rightarrow> m < fl (10 / 100))"

definition unsure_reasons :: "uncertainty_signals \<Rightarrow> string list" where
  "unsure_reasons s =
     (if unconfirmed_join s then [''unconfirmed_join''] else []) @
     (if evidence_conflicts s + memory_conflicts s \<noteq> 0 then [''conflicting_evidence''] else []) @
     (if unresolved_ambiguities s \<noteq> 0 then [''unresolved_ambiguity''] else []) @
     (if narrow_margin s then [''narrow_candidate_margin''] else [])"

definition evaluate_gate :: "uncertainty_signals \<Rightarrow> uncertainty_decision" where
  "evaluate_gate s =
     (let decision = \<lambda>r why ask. \<lparr>ud_risk = r, ud_reasons = why, requires_clarification = ask\<rparr>;
          reasons = unsure_reasons s
      in if sensitive_or_forbidden s then decision BLOCKED_RISK [''sensitive_or_forbidden''] False
         else if unconfirmed_join s \<and> source_backed_option_count s < 2
           then decision BLOCKED_RISK [''unconfirmed_join''] False
         else if reasons \<noteq> [] then
           (if source_backed_option_count s \<ge> 2 then decision HIGH_RISK reasons True
            else decision BLOCKED_RISK reasons False)
         else if join_hops s \<ge> 4 then decision MEDIUM_RISK [''complex_join_path''] False
         else decision LOW_RISK [] False)"

text \<open>The gate asks only when there is something to choose from, and lets nothing unsure pass: it asks for a
clarification exactly when the question is not forbidden, some doubt remains and at least two options are backed by
a source; with a doubt and fewer options, or with a forbidden subject, it blocks; without either it does not block, and
every decision but the lowest names a reason.\<close>

theorem gate_asks_or_blocks:
  "(requires_clarification (evaluate_gate s) \<longleftrightarrow>
     \<not> sensitive_or_forbidden s \<and> unsure_reasons s \<noteq> [] \<and> 2 \<le> source_backed_option_count s) \<and>
   (ud_risk (evaluate_gate s) = BLOCKED_RISK \<longleftrightarrow>
     sensitive_or_forbidden s \<or> unsure_reasons s \<noteq> [] \<and> source_backed_option_count s < 2) \<and>
   (ud_reasons (evaluate_gate s) = [] \<longleftrightarrow> ud_risk (evaluate_gate s) = LOW_RISK)"
proof -
  have u: "unconfirmed_join s \<Longrightarrow> unsure_reasons s \<noteq> []" by (simp add: unsure_reasons_def)
  consider "sensitive_or_forbidden s" | "\<not> sensitive_or_forbidden s" "unsure_reasons s = []"
    | "\<not> sensitive_or_forbidden s" "unsure_reasons s \<noteq> []" by blast
  then show ?thesis
  proof cases
    case 2
    then show ?thesis using u by (auto simp: evaluate_gate_def Let_def)
  qed (simp_all add: evaluate_gate_def Let_def)
qed

end
