(* ===== verification/Semantic_Catalog.thy ===== *)
theory Semantic_Catalog
  imports Linker
begin

section \<open>The store of the semantic catalog\<close>

text \<open>
  \<open>agent-service/app/grounding/catalog.py\<close>: the three tables of the schema \<open>semantic_catalog\<close>, with the
  constraints of \<open>003_semantic_catalog.sql\<close>, and the load of a snapshot. A row is the record its columns make; the
  order of the database collation is an argument. The load runs one statement for each table in the default
  isolation level, where each statement sees the rows that are committed when it starts: the model gives the load
  three states of the tables.
\<close>

subsection \<open>Tables\<close>

record catalog_tables =
  semantic_assets :: "semantic_asset list"
  schema_relations :: "schema_relation list"
  value_dictionary :: "value_entry list"

definition asset_key :: "semantic_asset \<Rightarrow> string \<times> string" where
  "asset_key a = (tenant_id a, asset_id a)"

definition relation_key :: "schema_relation \<Rightarrow> string \<times> string" where
  "relation_key r = (rel_tenant_id r, relation_id r)"

definition value_key :: "value_entry \<Rightarrow> string \<times> string" where
  "value_key v = (val_tenant_id v, value_id v)"

text \<open>The primary and foreign keys.\<close>

definition tables_ok :: "catalog_tables \<Rightarrow> bool" where
  "tables_ok s \<longleftrightarrow> distinct (map asset_key (semantic_assets s)) \<and>
     distinct (map relation_key (schema_relations s)) \<and> distinct (map value_key (value_dictionary s)) \<and>
     (\<forall>r \<in> set (schema_relations s).
        (rel_tenant_id r, left_asset_id r) \<in> asset_key ` set (semantic_assets s) \<and>
        (rel_tenant_id r, right_asset_id r) \<in> asset_key ` set (semantic_assets s)) \<and>
     (\<forall>v \<in> set (value_dictionary s). (val_tenant_id v, column_asset_id v) \<in> asset_key ` set (semantic_assets s))"

subsection \<open>The load\<close>

text \<open>\<open>status = 'PUBLISHED' AND sensitivity <> 'RESTRICTED' AND\<close> the period holds at the time of the load.\<close>

definition asset_visible :: "time \<Rightarrow> semantic_asset \<Rightarrow> bool" where
  "asset_visible moment a \<longleftrightarrow> status a = PUBLISHED \<and> sensitivity a \<noteq> RESTRICTED \<and>
     (case effective_from a of None \<Rightarrow> True | Some x \<Rightarrow> x \<le> moment) \<and>
     (case effective_to a of None \<Rightarrow> True | Some y \<Rightarrow> moment < y)"

definition value_visible :: "time \<Rightarrow> value_entry \<Rightarrow> bool" where
  "value_visible moment v \<longleftrightarrow> val_status v = PUBLISHED \<and> val_sensitivity v \<noteq> RESTRICTED \<and>
     (case val_effective_from v of None \<Rightarrow> True | Some x \<Rightarrow> x \<le> moment) \<and>
     (case val_effective_to v of None \<Rightarrow> True | Some y \<Rightarrow> moment < y)"

text \<open>The constructors strip the hash and check the fields; the first row that fails raises.\<close>

fun built :: "('a \<Rightarrow> exn + unit) \<Rightarrow> 'a list \<Rightarrow> exn + 'a list" where
  "built check [] = Inr []"
| "built check (x # xs) =
     (case check x of Inl e \<Rightarrow> Inl e | Inr _ \<Rightarrow>
        (case built check xs of Inl e \<Rightarrow> Inl e | Inr ys \<Rightarrow> Inr (x # ys)))"

definition load_assets :: "(string \<Rightarrow> string) \<Rightarrow> string \<Rightarrow> time \<Rightarrow> catalog_tables \<Rightarrow> exn + semantic_asset list" where
  "load_assets coll tenant moment s =
     built check_asset (map (\<lambda>a. a\<lparr>source_hash := strip (source_hash a)\<rparr>)
       (sort_key (\<lambda>a. coll (asset_id a)) (filter (\<lambda>a. tenant_id a = tenant \<and> asset_visible moment a) (semantic_assets s))))"

text \<open>A join with the visible assets of that key; the primary key leaves at most one.\<close>

definition parents :: "time \<Rightarrow> catalog_tables \<Rightarrow> string \<Rightarrow> string \<Rightarrow> semantic_asset list" where
  "parents moment s tenant k = filter (\<lambda>a. tenant_id a = tenant \<and> asset_id a = k \<and> asset_visible moment a) (semantic_assets s)"

definition joined_relations :: "string \<Rightarrow> time \<Rightarrow> catalog_tables \<Rightarrow> schema_relation list" where
  "joined_relations tenant moment s =
     concat (map (\<lambda>r. concat (map (\<lambda>_. map (\<lambda>_. r) (parents moment s (rel_tenant_id r) (right_asset_id r)))
         (parents moment s (rel_tenant_id r) (left_asset_id r))))
       (filter (\<lambda>r. rel_tenant_id r = tenant \<and> rel_status r \<noteq> REJECTED \<and> rel_sensitivity r \<noteq> RESTRICTED) (schema_relations s)))"

definition load_relations :: "(string \<Rightarrow> string) \<Rightarrow> string \<Rightarrow> time \<Rightarrow> catalog_tables \<Rightarrow> exn + schema_relation list" where
  "load_relations coll tenant moment s =
     built check_relation (map (\<lambda>r. r\<lparr>rel_source_hash := strip (rel_source_hash r)\<rparr>)
       (sort_key (\<lambda>r. coll (relation_id r)) (joined_relations tenant moment s)))"

definition joined_values :: "string \<Rightarrow> time \<Rightarrow> catalog_tables \<Rightarrow> value_entry list" where
  "joined_values tenant moment s =
     concat (map (\<lambda>v. map (\<lambda>_. v) (parents moment s (val_tenant_id v) (column_asset_id v)))
       (filter (\<lambda>v. val_tenant_id v = tenant \<and> value_visible moment v) (value_dictionary s)))"

definition load_values :: "(string \<Rightarrow> string) \<Rightarrow> string \<Rightarrow> time \<Rightarrow> catalog_tables \<Rightarrow> exn + value_entry list" where
  "load_values coll tenant moment s =
     built check_value (map (\<lambda>v. v\<lparr>val_source_hash := strip (val_source_hash v)\<rparr>)
       (sort_key (\<lambda>v. coll (value_id v)) (joined_values tenant moment s)))"

text \<open>\<open>load_snapshot\<close>: assets, relations, values; \<open>at_time\<close> defaults to the clock.\<close>

definition load_snapshot :: "(string \<Rightarrow> string) \<Rightarrow> time \<Rightarrow> time option \<Rightarrow> string \<Rightarrow>
    catalog_tables \<times> catalog_tables \<times> catalog_tables \<Rightarrow> exn + catalog" where
  "load_snapshot coll now at_time tenant states =
     (case states of (s1, s2, s3) \<Rightarrow>
        let moment = (case at_time of None \<Rightarrow> now | Some x \<Rightarrow> x)
        in case load_assets coll tenant moment s1 of Inl e \<Rightarrow> Inl e | Inr as \<Rightarrow>
          (case load_relations coll tenant moment s2 of Inl e \<Rightarrow> Inl e | Inr rs \<Rightarrow>
            (case load_values coll tenant moment s3 of Inl e \<Rightarrow> Inl e | Inr vs \<Rightarrow>
               Inr \<lparr>cat_assets = as, cat_values = vs, cat_relations = rs\<rparr>)))"

subsection \<open>What a loaded catalog holds\<close>

lemma built_Inr: "built check xs = Inr ys \<longleftrightarrow> ys = xs \<and> (\<forall>x \<in> set xs. \<exists>u. check x = Inr u)"
proof (induction xs arbitrary: ys)
  case (Cons x xs)
  then show ?case by (cases "check x"; cases "built check xs") auto
qed auto

lemma visible_current: "asset_visible = asset_current" "value_visible = value_current"
  by (simp_all add: fun_eq_iff asset_visible_def asset_current_def value_visible_def value_current_def current_at_def)

lemma distinct_part:
  assumes "distinct (map (\<lambda>x. (g x, f x)) xs)"
  shows "distinct (map f (filter (\<lambda>x. g x = t \<and> P x) xs))"
  using assms
proof (induction xs)
  case (Cons a xs)
  then show ?case by (auto simp: image_iff)
qed simp

lemma keys_distinct:
  assumes "tables_ok s"
  shows "distinct (map (\<lambda>a. (tenant_id a, asset_id a)) (semantic_assets s))"
    "distinct (map (\<lambda>r. (rel_tenant_id r, relation_id r)) (schema_relations s))"
    "distinct (map (\<lambda>v. (val_tenant_id v, value_id v)) (value_dictionary s))"
proof -
  have "asset_key = (\<lambda>a. (tenant_id a, asset_id a))" "relation_key = (\<lambda>r. (rel_tenant_id r, relation_id r))"
      "value_key = (\<lambda>v. (val_tenant_id v, value_id v))"
    by (simp_all add: fun_eq_iff asset_key_def relation_key_def value_key_def)
  with assms show "distinct (map (\<lambda>a. (tenant_id a, asset_id a)) (semantic_assets s))"
    "distinct (map (\<lambda>r. (rel_tenant_id r, relation_id r)) (schema_relations s))"
    "distinct (map (\<lambda>v. (val_tenant_id v, value_id v)) (value_dictionary s))"
    unfolding tables_ok_def by metis+
qed

lemma distinct_sorted: "distinct (map f xs) \<Longrightarrow> distinct (map f (sort_key k xs))"
  by (metis distinct_map distinct_sort set_sort)

lemma loaded_assets:
  assumes "load_assets coll tenant moment s = Inr as"
  shows "set as = (\<lambda>a. a\<lparr>source_hash := strip (source_hash a)\<rparr>) `
      {a \<in> set (semantic_assets s). tenant_id a = tenant \<and> asset_visible moment a}" (is ?set)
    and "\<forall>a \<in> set as. check_asset a = Inr ()" (is ?checks)
    and "tables_ok s \<Longrightarrow> distinct (map asset_id as)"
proof -
  from assms show ?set ?checks by (auto simp: load_assets_def built_Inr)
  assume "tables_ok s"
  from distinct_sorted [OF distinct_part [OF keys_distinct(1) [OF this], of tenant "asset_visible moment"], of "\<lambda>a. coll (asset_id a)"]
  show "distinct (map asset_id as)" using assms by (auto simp: load_assets_def built_Inr comp_def)
qed

lemma parents_single:
  assumes "tables_ok s"
  shows "length (parents moment s tenant k) \<le> 1"
proof -
  have "distinct (map asset_key (parents moment s tenant k))"
    using assms by (auto simp: tables_ok_def parents_def intro: distinct_map_filter)
  moreover have "set (map asset_key (parents moment s tenant k)) \<subseteq> {(tenant, k)}"
    by (auto simp: parents_def asset_key_def)
  then have "card (set (map asset_key (parents moment s tenant k))) \<le> card {(tenant, k)}"
    by (intro card_mono) auto
  ultimately show ?thesis by (simp add: distinct_card del: set_map)
qed

lemma parents_loaded:
  assumes "load_assets coll tenant moment s = Inr as" and "parents moment s tenant k \<noteq> []"
  shows "k \<in> asset_id ` set as"
proof -
  obtain a where "a \<in> set (parents moment s tenant k)" using assms(2) by (cases "parents moment s tenant k") auto
  then show ?thesis using loaded_assets(1) [OF assms(1)] by (auto simp: parents_def image_iff)
qed

lemma at_most_one: "length xs \<le> 1 \<Longrightarrow> map (\<lambda>_. r) xs = (if xs = [] then [] else [r])"
  by (cases xs) auto

lemma concat_if: "concat (map (\<lambda>x. if P x then [x] else []) xs) = filter P xs"
  by (induction xs) auto

lemma joined_relations_eq:
  assumes "tables_ok s"
  shows "joined_relations tenant moment s = filter (\<lambda>r. rel_tenant_id r = tenant \<and> rel_status r \<noteq> REJECTED \<and>
     rel_sensitivity r \<noteq> RESTRICTED \<and> parents moment s tenant (left_asset_id r) \<noteq> [] \<and>
     parents moment s tenant (right_asset_id r) \<noteq> []) (schema_relations s)"
proof -
  note one = at_most_one [OF parents_single [OF assms]]
  have "concat (map (\<lambda>_. map (\<lambda>_. r) (parents moment s (rel_tenant_id r) (right_asset_id r)))
         (parents moment s (rel_tenant_id r) (left_asset_id r))) =
      (if parents moment s (rel_tenant_id r) (left_asset_id r) \<noteq> [] \<and> parents moment s (rel_tenant_id r) (right_asset_id r) \<noteq> []
       then [r] else [])" for r :: schema_relation
    by (simp add: one)
  then show ?thesis by (simp add: joined_relations_def concat_if conj_commute conj_left_commute cong: conj_cong)
qed

lemma joined_values_eq:
  assumes "tables_ok s"
  shows "joined_values tenant moment s = filter (\<lambda>v. val_tenant_id v = tenant \<and> value_visible moment v \<and>
     parents moment s tenant (column_asset_id v) \<noteq> []) (value_dictionary s)"
proof -
  note one = at_most_one [OF parents_single [OF assms]]
  have "map (\<lambda>_. v) (parents moment s (val_tenant_id v) (column_asset_id v)) =
      (if parents moment s (val_tenant_id v) (column_asset_id v) \<noteq> [] then [v] else [])" for v :: value_entry
    by (simp add: one)
  then show ?thesis by (simp add: joined_values_def concat_if conj_commute conj_left_commute cong: conj_cong)
qed

lemma loaded_relations:
  assumes "load_relations coll tenant moment s = Inr rs" and "tables_ok s"
  shows "set rs = (\<lambda>r. r\<lparr>rel_source_hash := strip (rel_source_hash r)\<rparr>) ` {r \<in> set (schema_relations s).
      rel_tenant_id r = tenant \<and> rel_status r \<noteq> REJECTED \<and> rel_sensitivity r \<noteq> RESTRICTED \<and>
      parents moment s tenant (left_asset_id r) \<noteq> [] \<and> parents moment s tenant (right_asset_id r) \<noteq> []}" (is ?set)
    and "distinct (map relation_id rs)" and "\<forall>r \<in> set rs. check_relation r = Inr ()" (is ?checks)
proof -
  from assms(1) show ?set ?checks by (auto simp: load_relations_def built_Inr joined_relations_eq [OF assms(2)])
  from distinct_sorted [OF distinct_part [OF keys_distinct(2) [OF assms(2)], of tenant], of "\<lambda>r. coll (relation_id r)"]
  show "distinct (map relation_id rs)"
    using assms(1) by (auto simp: load_relations_def built_Inr comp_def joined_relations_eq [OF assms(2)])
qed

lemma loaded_values:
  assumes "load_values coll tenant moment s = Inr vs" and "tables_ok s"
  shows "set vs = (\<lambda>v. v\<lparr>val_source_hash := strip (val_source_hash v)\<rparr>) ` {v \<in> set (value_dictionary s).
      val_tenant_id v = tenant \<and> value_visible moment v \<and> parents moment s tenant (column_asset_id v) \<noteq> []}" (is ?set)
    and "distinct (map value_id vs)" and "\<forall>v \<in> set vs. check_value v = Inr ()" (is ?checks)
proof -
  from assms(1) show ?set ?checks by (auto simp: load_values_def built_Inr joined_values_eq [OF assms(2)])
  from distinct_sorted [OF distinct_part [OF keys_distinct(3) [OF assms(2)], of tenant], of "\<lambda>v. coll (value_id v)"]
  show "distinct (map value_id vs)"
    using assms(1) by (auto simp: load_values_def built_Inr comp_def joined_values_eq [OF assms(2)])
qed

text \<open>The catalog is closed: ids are unique, everything is of the tenant and passes the checks of its constructor,
assets and values are current, and relations and values refer to assets of the catalog.\<close>

definition catalog_closed :: "string \<Rightarrow> time \<Rightarrow> catalog \<Rightarrow> bool" where
  "catalog_closed tenant moment cat \<longleftrightarrow>
     distinct (map asset_id (cat_assets cat)) \<and> distinct (map relation_id (cat_relations cat)) \<and>
     distinct (map value_id (cat_values cat)) \<and>
     (\<forall>a \<in> set (cat_assets cat). tenant_id a = tenant \<and> asset_current moment a \<and> check_asset a = Inr ()) \<and>
     (\<forall>r \<in> set (cat_relations cat). rel_tenant_id r = tenant \<and> rel_status r \<noteq> REJECTED \<and> check_relation r = Inr () \<and>
        left_asset_id r \<in> asset_id ` set (cat_assets cat) \<and> right_asset_id r \<in> asset_id ` set (cat_assets cat)) \<and>
     (\<forall>v \<in> set (cat_values cat). val_tenant_id v = tenant \<and> value_current moment v \<and> check_value v = Inr () \<and>
        column_asset_id v \<in> asset_id ` set (cat_assets cat))"

text \<open>C8. A catalog that is loaded while nobody writes the tables is closed, and it leaves nothing out: every row of the
tenant that is published, unrestricted and current at the time of the load is in it, a relation when both of its
assets are, a value when its column is.\<close>

theorem loaded_catalog_is_closed:
  assumes "tables_ok s" and "load_snapshot coll now at_time tenant (s, s, s) = Inr cat"
    and "moment = (case at_time of None \<Rightarrow> now | Some x \<Rightarrow> x)"
  shows "catalog_closed tenant moment cat \<and>
    asset_id ` set (cat_assets cat) = {asset_id a | a. a \<in> set (semantic_assets s) \<and> tenant_id a = tenant \<and> asset_current moment a} \<and>
    relation_id ` set (cat_relations cat) = {relation_id r | r. r \<in> set (schema_relations s) \<and> rel_tenant_id r = tenant \<and>
      rel_status r \<noteq> REJECTED \<and> rel_sensitivity r \<noteq> RESTRICTED \<and>
      {left_asset_id r, right_asset_id r} \<subseteq> asset_id ` set (cat_assets cat)} \<and>
    value_id ` set (cat_values cat) = {value_id v | v. v \<in> set (value_dictionary s) \<and> val_tenant_id v = tenant \<and>
      value_current moment v \<and> column_asset_id v \<in> asset_id ` set (cat_assets cat)}"
proof -
  obtain as rs vs where l: "load_assets coll tenant moment s = Inr as" "load_relations coll tenant moment s = Inr rs"
      "load_values coll tenant moment s = Inr vs" and cat: "cat = \<lparr>cat_assets = as, cat_values = vs, cat_relations = rs\<rparr>"
    using assms(2,3) by (auto simp: load_snapshot_def Let_def split: sum.splits)
  note a = loaded_assets [OF l(1)] and r = loaded_relations [OF l(2) assms(1)] and v = loaded_values [OF l(3) assms(1)]
  have ids: "asset_id ` set as = {asset_id a | a. a \<in> set (semantic_assets s) \<and> tenant_id a = tenant \<and> asset_current moment a}"
    by (auto simp: a(1) visible_current image_iff)
  have parent: "parents moment s tenant k \<noteq> [] \<longleftrightarrow> k \<in> asset_id ` set as" for k
    by (auto simp: ids parents_def filter_empty_conv visible_current)
  have as: "tenant_id a = tenant \<and> asset_current moment a" if "a \<in> set as" for a
    using that by (auto simp: a(1) visible_current asset_current_def)
  have rs: "rel_tenant_id r = tenant \<and> rel_status r \<noteq> REJECTED \<and> left_asset_id r \<in> asset_id ` set as \<and>
      right_asset_id r \<in> asset_id ` set as" if "r \<in> set rs" for r
    using that unfolding r(1) parent by auto
  have vs: "val_tenant_id v = tenant \<and> value_current moment v \<and> column_asset_id v \<in> asset_id ` set as" if "v \<in> set vs" for v
    using that unfolding v(1) parent visible_current by (auto simp: value_current_def)
  have "catalog_closed tenant moment cat"
    using a(2) a(3) [OF assms(1)] r(2,3) v(2,3) as rs vs by (simp add: catalog_closed_def cat)
  moreover have "relation_id ` set rs = {relation_id r | r. r \<in> set (schema_relations s) \<and> rel_tenant_id r = tenant \<and>
      rel_status r \<noteq> REJECTED \<and> rel_sensitivity r \<noteq> RESTRICTED \<and> {left_asset_id r, right_asset_id r} \<subseteq> asset_id ` set as}"
    unfolding r(1) parent image_image setcompr_eq_image by simp
  moreover have "value_id ` set vs = {value_id v | v. v \<in> set (value_dictionary s) \<and> val_tenant_id v = tenant \<and>
      value_current moment v \<and> column_asset_id v \<in> asset_id ` set as}"
    unfolding v(1) parent visible_current image_image setcompr_eq_image by simp
  ultimately show ?thesis using ids by (simp add: cat)
qed


text \<open>C40. A grounding search fails only when the load of the catalog does: whatever states of the tables the three
statements of the load see, also when rows are published or withdrawn between them, a loaded catalog is linked, since its
asset ids are unique, and the search returns the snapshot with this catalog.\<close>

theorem grounding_search_returns:
  assumes "tables_ok s1" and "load_snapshot coll now None tenant (s1, s2, s3) = Inr cat"
  shows "\<exists>snap. grounding_search parse emb cfg later (\<lambda>t. load_snapshot coll now None t (s1, s2, s3)) tenant query =
    Inr (snap, cat)"
proof -
  have "load_assets coll tenant now s1 = Inr (cat_assets cat)"
    using assms(2) by (auto simp: load_snapshot_def Let_def split: sum.splits)
  from loaded_assets(3) [OF this assms(1)] have "distinct (map asset_id (cat_assets cat))" .
  from link_returns [OF this] obtain snap where "link parse emb cfg later query cat tenant = Inr snap" by blast
  then show ?thesis using assms(2) by (simp add: grounding_search_def)
qed

subsection \<open>Examples\<close>

definition stored_table :: "string \<Rightarrow> semantic_asset" where
  "stored_table t = (linked_table t)\<lparr>source_uri := ''db'', source_hash := replicate 64 (CHR ''a'')\<rparr>"

definition stored_join :: schema_relation where
  "stored_join = \<lparr>relation_id = ''shop_sale'', left_asset_id = ''table:public.shop'', right_asset_id = ''table:public.sale'',
     relation_type = LOGICAL_JOIN, rel_status = CONFIRMED, rel_source_uri = ''db'', rel_source_hash = replicate 64 (CHR ''a''),
     rel_tenant_id = ''default'', rel_schema_version = 1, rel_trust_level = HIGH_TRUST, rel_sensitivity = INTERNAL,
     cardinality = None, join_expression = None, left_nullable = None, right_unique = None, historical_success_count = 0,
     historical_failure_count = 0, last_verified_at = None, rel_metadata = []\<rparr>"

text \<open>Two tables and their join; the second table is published, or still a draft.\<close>

definition shop_tables :: "asset_status \<Rightarrow> catalog_tables" where
  "shop_tables st = \<lparr>semantic_assets = [stored_table ''shop'', (stored_table ''sale'')\<lparr>status := st\<rparr>],
     schema_relations = [stored_join], value_dictionary = []\<rparr>"

lemma shop_tables_ok: "tables_ok (shop_tables st)"
  by (simp add: tables_ok_def shop_tables_def asset_key_def stored_table_def linked_table_def stored_join_def)



lemma shop_loads:
  "load_snapshot id 0 None ''default'' (shop_tables PUBLISHED, shop_tables PUBLISHED, shop_tables PUBLISHED) =
     Inr \<lparr>cat_assets = [stored_table ''sale'', stored_table ''shop''], cat_values = [], cat_relations = [stored_join]\<rparr>"
  by code_simp

text \<open>The hypothesis of one state is needed: a table published between the first and the second statement leaves a
relation without its asset.\<close>

lemma torn_load_is_open:
  "load_snapshot id 0 None ''default'' (shop_tables DRAFT, shop_tables PUBLISHED, shop_tables PUBLISHED) =
     Inr \<lparr>cat_assets = [stored_table ''shop''], cat_values = [], cat_relations = [stored_join]\<rparr>"
  by code_simp

theorem loaded_catalog_is_closed_witness:
  "catalog_closed ''default'' 0 \<lparr>cat_assets = [stored_table ''sale'', stored_table ''shop''], cat_values = [],
     cat_relations = [stored_join]\<rparr>"
  using loaded_catalog_is_closed [OF shop_tables_ok shop_loads refl] by simp

theorem grounding_search_returns_witness:
  "\<exists>snap. grounding_search (\<lambda>_. None) None default_linker 1 (\<lambda>t. load_snapshot id 0 None t
       (shop_tables DRAFT, shop_tables PUBLISHED, shop_tables PUBLISHED)) ''default'' ''shop'' =
     Inr (snap, \<lparr>cat_assets = [stored_table ''shop''], cat_values = [], cat_relations = [stored_join]\<rparr>)"
  by (rule grounding_search_returns [OF shop_tables_ok torn_load_is_open])

end
