(* ===== verification/Conversation_State.thy ===== *)
theory Conversation_State
  imports Context_Compiler Request_Context Rollout Json
begin

section \<open>Conversation state\<close>

text \<open>
  The default extractor of \<open>agent-service/app/context_v2/conversation.py\<close> and the two conversation filters of
  \<open>state/context.py\<close>: the messages before the last few user turns are replaced by one summary message. Contents are
  Chinese, so they are lists of code points; the metadata of a message is a JSON object. The text of a metadata value
  that is a number with a fraction, a list or an object is the argument \<open>tx\<close>.
\<close>

record chat_message =
  ch_role :: string
  ch_content :: utext
  ch_metadata :: jdict

subsection \<open>Metadata values\<close>

text \<open>\<open>bool(v)\<close>, \<open>str(v)\<close>, and \<open>tuple(map(str, v))\<close>, which raises when \<open>v\<close> has no elements to go over.\<close>

fun json_true :: "json \<Rightarrow> bool" where
  "json_true JNull = False"
| "json_true (JBool b) = b"
| "json_true (JInt n) = (n \<noteq> 0)"
| "json_true (JFloat q) = (q \<noteq> 0)"
| "json_true (JStr s) = (s \<noteq> [])"
| "json_true (JList xs) = (xs \<noteq> [])"
| "json_true (JDict d) = (d \<noteq> [])"

fun json_text :: "(json \<Rightarrow> string) \<Rightarrow> json \<Rightarrow> string" where
  "json_text tx JNull = ''None''"
| "json_text tx (JBool b) = (if b then ''True'' else ''False'')"
| "json_text tx (JInt n) = str_int n"
| "json_text tx (JStr s) = s"
| "json_text tx v = tx v"

fun json_texts :: "(json \<Rightarrow> string) \<Rightarrow> json \<Rightarrow> exn + string list" where
  "json_texts tx (JList xs) = Inr (map (json_text tx) xs)"
| "json_texts tx (JStr s) = Inr (map (\<lambda>c. [c]) s)"
| "json_texts tx (JDict d) = Inr (map fst d)"
| "json_texts tx v = Inl (External ''TypeError'')"

definition given_id :: "(json \<Rightarrow> string) \<Rightarrow> chat_message \<Rightarrow> string option" where
  "given_id tx m = (let v = jget (ch_metadata m) ''message_id'' in if json_true v then Some (json_text tx v) else None)"

subsection \<open>The words the extractor looks for\<close>

definition W_TIME :: utext where "W_TIME = [26102, 38388]"
definition W_ZONE :: utext where "W_ZONE = [21306, 22495]"
definition W_SORTING :: utext where "W_SORTING = [25490, 24207]"
definition W_FORMAT :: utext where "W_FORMAT = [26684, 24335]"
definition W_TABLE :: utext where "W_TABLE = [34920, 26684]"
definition W_OR :: utext where "W_OR = [36824, 26159]"
definition FULL_QUESTION :: nat where "FULL_QUESTION = 65311"

definition CONSTRAINT_WORDS :: "utext list" where
  "CONSTRAINT_WORDS = [[40664, 35748], [20351, 29992], [25913, 29992], [25353], [36873, 25321], [30830, 35748]]"

definition REJECT_WORDS :: "utext list" where
  "REJECT_WORDS = [[19981, 35201], [25490, 38500], [19981, 20351, 29992]]"

definition REJECT_ENDS :: "nat list" where
  "REJECT_ENDS = [44, 65292, 12290]"

definition constraint_key :: "utext \<Rightarrow> string" where
  "constraint_key content =
     (let lowered = ascii_lower content in
      if occurs (text_of_string ''paid_at'') lowered \<or> occurs (text_of_string ''created_at'') lowered \<or> occurs W_TIME content
      then ''time_field''
      else if occurs W_ZONE content \<or> occurs (text_of_string ''region'') lowered then ''region''
      else if occurs W_SORTING content \<or> occurs (text_of_string ''sort'') lowered then ''sort''
      else if occurs W_FORMAT content \<or> occurs W_TABLE content then ''format''
      else take 16 (text_sha256 content))"

text \<open>\<open>re.search(r"(?:..)\s*([^..]+)", content)\<close> for the three words and the three ends: the leftmost word
behind which the group matches. The spaces give one character back when nothing else is left for the group, which is then
blank.\<close>

fun after_word :: "utext list \<Rightarrow> utext \<Rightarrow> utext option" where
  "after_word [] s = None"
| "after_word (w # ws) s = (if take (length w) s = w then Some (drop (length w) s) else after_word ws s)"

definition rejected_here :: "utext \<Rightarrow> utext option" where
  "rejected_here r =
     (let group = takeWhile (\<lambda>c. c \<notin> set REJECT_ENDS) (dropWhile space_point r)
      in if group \<noteq> [] then Some (strip_text group)
         else if takeWhile space_point r \<noteq> [] then Some [] else None)"

fun rejected_in :: "utext \<Rightarrow> utext option" where
  "rejected_in [] = None"
| "rejected_in (c # cs) =
     (case after_word REJECT_WORDS (c # cs) of
        None \<Rightarrow> rejected_in cs
      | Some r \<Rightarrow> (case rejected_here r of None \<Rightarrow> rejected_in cs | Some v \<Rightarrow> Some v))"

subsection \<open>The extractor\<close>

text \<open>The lists the loop fills; the constraints are a dictionary.\<close>

record extraction =
  x_constraints :: "(string, state_value) dict"
  x_questions :: "state_value list"
  x_decisions :: "state_decision list"
  x_rejected :: "state_value list"
  x_results :: "result_reference list"

definition tool_output :: "chat_message \<Rightarrow> bool" where
  "tool_output m \<longleftrightarrow> ch_role m = ''tool'' \<or> jget (ch_metadata m) ''kind'' = JStr ''tool_output''"

definition tool_reference :: "(json \<Rightarrow> string) \<Rightarrow> string \<Rightarrow> chat_message \<Rightarrow> result_reference list" where
  "tool_reference tx mid m =
     (let artifact = jget (ch_metadata m) ''artifact_id''; summary = jget (ch_metadata m) ''result_summary''
      in if json_true artifact \<and> json_true summary
         then [\<lparr>rr_artifact = json_text tx artifact, rr_summary = json_text tx summary,
                rr_hash = text_sha256 (strip_text (ch_content m)), rr_sources = [mid]\<rparr>]
         else [])"

definition is_question :: "string \<Rightarrow> utext \<Rightarrow> bool" where
  "is_question role content \<longleftrightarrow> role = ''assistant'' \<and> (last content \<in> {63, FULL_QUESTION} \<or> occurs W_OR content)"

definition is_constraint :: "string \<Rightarrow> utext \<Rightarrow> bool" where
  "is_constraint role content \<longleftrightarrow> role = ''user'' \<and> any_of CONSTRAINT_WORDS content"

text \<open>\<open>metadata.get("evidence_ids", [])\<close> is the empty list only when the key is missing.\<close>

definition decision_of :: "(json \<Rightarrow> string) \<Rightarrow> string \<Rightarrow> chat_message \<Rightarrow> utext \<Rightarrow> exn + state_decision list" where
  "decision_of tx mid m content =
     (let d = jget (ch_metadata m) ''decision_id'' in
      if ch_role m = ''user'' \<and> json_true d
      then (case json_texts tx (case map_of (ch_metadata m) ''evidence_ids'' of None \<Rightarrow> JList [] | Some v \<Rightarrow> v) of
              Inl e \<Rightarrow> Inl e
            | Inr evidence \<Rightarrow> Inr [\<lparr>sd_asset = json_text tx d, sd_value = content, sd_evidence = evidence, sd_sources = [mid]\<rparr>])
      else Inr [])"

definition extract_message :: "(json \<Rightarrow> string) \<Rightarrow> nat \<Rightarrow> chat_message \<Rightarrow> extraction \<Rightarrow> exn + extraction" where
  "extract_message tx index m x =
     (let content = strip_text (ch_content m); mid = message_id (given_id tx m) index in
      if tool_output m then Inr (x\<lparr>x_results := x_results x @ tool_reference tx mid m\<rparr>)
      else if content = [] then Inr x
      else
        (let asked = (if is_question (ch_role m) content
               then x\<lparr>x_questions := x_questions x @ [\<lparr>sv_key = ''open_question'', sv_value = content, sv_sources = [mid]\<rparr>]\<rparr> else x);
             bound = (if is_constraint (ch_role m) content
               then asked\<lparr>x_constraints := AList.update (constraint_key content)
                      \<lparr>sv_key = constraint_key content, sv_value = content, sv_sources = [mid]\<rparr> (x_constraints asked)\<rparr> else asked)
         in case decision_of tx mid m content of
              Inl e \<Rightarrow> Inl e
            | Inr ds \<Rightarrow> (let decided = bound\<lparr>x_decisions := x_decisions bound @ ds\<rparr> in
                Inr (case rejected_in content of
                       None \<Rightarrow> decided
                     | Some v \<Rightarrow> decided\<lparr>x_rejected := x_rejected decided @
                         [\<lparr>sv_key = ''rejected_option'', sv_value = v, sv_sources = [mid]\<rparr>]\<rparr>))))"

fun extract_from :: "(json \<Rightarrow> string) \<Rightarrow> nat \<Rightarrow> chat_message list \<Rightarrow> extraction \<Rightarrow> exn + extraction" where
  "extract_from tx index [] x = Inr x"
| "extract_from tx index (m # ms) x =
     (case extract_message tx index m x of Inl e \<Rightarrow> Inl e | Inr x' \<Rightarrow> extract_from tx (Suc index) ms x')"

definition no_extraction :: extraction where
  "no_extraction = \<lparr>x_constraints = [], x_questions = [], x_decisions = [], x_rejected = [], x_results = []\<rparr>"

definition extract_state :: "(json \<Rightarrow> string) \<Rightarrow> chat_message list \<Rightarrow> exn + extracted" where
  "extract_state tx ms =
     (case extract_from tx 0 ms no_extraction of
        Inl e \<Rightarrow> Inl e
      | Inr x \<Rightarrow> Inr \<lparr>confirmed_constraints = map snd (x_constraints x),
          open_questions = (if x_decisions x \<noteq> [] then [] else x_questions x),
          state_decisions = x_decisions x, rejected_options = x_rejected x, result_refs = x_results x\<rparr>)"

subsection \<open>The stores of conversation states\<close>

text \<open>What a filter relies on: listing reads, and a save of the next version appends it.\<close>

record 'c state_ops =
  op_save_state :: "conversation_state \<Rightarrow> ('c, unit) py"
  op_list_states :: "string \<Rightarrow> ('c, conversation_state list) py"

definition numbered_states :: "conversation_state list \<Rightarrow> bool" where
  "numbered_states xs \<longleftrightarrow> map summary_version xs = map int [1..<Suc (length xs)]"

locale state_contract =
  fixes ops :: "'c state_ops"
    and states :: "'c \<Rightarrow> string \<Rightarrow> conversation_state list"
    and cinvar :: "'c \<Rightarrow> bool"
  assumes list_states: "cinvar s \<Longrightarrow> op_list_states ops cid s = (Inr (states s cid), s)"
    and save_next: "cinvar s \<Longrightarrow> summary_version x = int (length (states s (cs_conversation_id x))) + 1 \<Longrightarrow>
      \<exists>s'. op_save_state ops x s = (Inr (), s') \<and> cinvar s' \<and>
        states s' = (states s)(cs_conversation_id x := states s (cs_conversation_id x) @ [x])"
    and numbered: "cinvar s \<Longrightarrow> numbered_states (states s cid)"

lemma numbered_snoc:
  "numbered_states xs \<Longrightarrow> summary_version x = int (length xs) + 1 \<Longrightarrow> numbered_states (xs @ [x])"
  by (simp add: numbered_states_def)

definition memory_state_ops :: "conversation_states state_ops" where
  "memory_state_ops = \<lparr>op_save_state = memory_save_state, op_list_states = memory_list_states\<rparr>"

definition states_in :: "conversation_states \<Rightarrow> string \<Rightarrow> conversation_state list" where
  "states_in s cid = (case map_of s cid of None \<Rightarrow> [] | Some vs \<Rightarrow> vs)"

interpretation mem_states: state_contract memory_state_ops states_in "\<lambda>s. \<forall>cid. numbered_states (states_in s cid)"
proof
  show "op_list_states memory_state_ops cid s = (Inr (states_in s cid), s)" for s cid
    by (simp add: memory_state_ops_def memory_list_states_def states_in_def)
  fix s and x :: conversation_state
  assume ok: "\<forall>cid. numbered_states (states_in s cid)"
    and v: "summary_version x = int (length (states_in s (cs_conversation_id x))) + 1"
  let ?s = "AList.update (cs_conversation_id x) (states_in s (cs_conversation_id x) @ [x]) s"
  have "states_in ?s = (states_in s)(cs_conversation_id x := states_in s (cs_conversation_id x) @ [x])"
    by (rule ext) (simp add: states_in_def)
  moreover have "op_save_state memory_state_ops x s = (Inr (), ?s)"
    by (simp add: memory_state_ops_def memory_save_state_def states_in_def)
  ultimately show "\<exists>s'. op_save_state memory_state_ops x s = (Inr (), s') \<and> (\<forall>cid. numbered_states (states_in s' cid)) \<and>
      states_in s' = (states_in s)(cs_conversation_id x := states_in s (cs_conversation_id x) @ [x])"
    using ok numbered_snoc [OF _ v] by auto
qed simp

definition pg_state_ops :: "conversation_state list state_ops" where
  "pg_state_ops = \<lparr>op_save_state = pg_save_state, op_list_states = pg_list_states\<rparr>"

definition rows_in :: "conversation_state list \<Rightarrow> string \<Rightarrow> conversation_state list" where
  "rows_in s cid = sort_key summary_version (filter (\<lambda>y. cs_conversation_id y = cid) s)"

lemma numbered_last: "numbered_states xs \<Longrightarrow> y \<in> set xs \<Longrightarrow> summary_version y \<le> int (length xs)"
proof -
  assume n: "numbered_states xs" and "y \<in> set xs"
  then have "summary_version y \<in> set (map int [1..<Suc (length xs)])"
    unfolding numbered_states_def by (metis imageI list.set_map)
  then show ?thesis by auto
qed

lemma insort_before: "f y \<le> f x \<Longrightarrow> insort_key f y (zs @ [x]) = insort_key f y zs @ [x]"
  by (induction zs) auto

lemma sort_key_snoc_last: "\<forall>y \<in> set xs. f y \<le> f x \<Longrightarrow> sort_key f (xs @ [x]) = sort_key f xs @ [x]"
  by (induction xs) (simp_all add: insort_before)

lemma rows_in_snoc:
  fixes x :: conversation_state
  assumes "numbered_states (rows_in s (cs_conversation_id x))"
    and "summary_version x = int (length (rows_in s (cs_conversation_id x))) + 1"
  shows "rows_in (s @ [x]) = (rows_in s)(cs_conversation_id x := rows_in s (cs_conversation_id x) @ [x])"
    and "\<not> list_ex (\<lambda>y. cs_conversation_id y = cs_conversation_id x \<and> summary_version y = summary_version x) s"
proof -
  have less: "summary_version y < summary_version x" if "y \<in> set s" "cs_conversation_id y = cs_conversation_id x" for y
    using numbered_last [OF assms(1), of y] that assms(2) by (simp add: rows_in_def)
  then show "\<not> list_ex (\<lambda>y. cs_conversation_id y = cs_conversation_id x \<and> summary_version y = summary_version x) s"
    by (fastforce simp: list_ex_iff)
  show "rows_in (s @ [x]) = (rows_in s)(cs_conversation_id x := rows_in s (cs_conversation_id x) @ [x])"
    using less by (auto simp: rows_in_def fun_eq_iff intro!: sort_key_snoc_last less_imp_le)
qed

interpretation pg_states: state_contract pg_state_ops rows_in "\<lambda>s. \<forall>cid. numbered_states (rows_in s cid)"
proof
  show "op_list_states pg_state_ops cid s = (Inr (rows_in s cid), s)" for s cid
    by (simp add: pg_state_ops_def pg_list_states_def rows_in_def)
  fix s and x :: conversation_state
  assume ok: "\<forall>cid. numbered_states (rows_in s cid)"
    and v: "summary_version x = int (length (rows_in s (cs_conversation_id x))) + 1"
  note snoc = rows_in_snoc [OF spec [OF ok] v]
  have "op_save_state pg_state_ops x s = (Inr (), s @ [x])"
    using snoc(2) by (simp add: pg_state_ops_def pg_save_state_def)
  then show "\<exists>s'. op_save_state pg_state_ops x s = (Inr (), s') \<and> (\<forall>cid. numbered_states (rows_in s' cid)) \<and>
      rows_in s' = (rows_in s)(cs_conversation_id x := rows_in s (cs_conversation_id x) @ [x])"
    unfolding snoc(1) [symmetric] using ok numbered_snoc [OF _ v] by (auto simp: snoc(1))
qed simp

subsection \<open>The filters\<close>

text \<open>\<open>messages[:start]\<close> and \<open>messages[start:]\<close> at the user message \<open>user_indexes[-user_turns]\<close>; with no turns to keep
that is \<open>user_indexes[0]\<close>. The slice \<open>[-n:]\<close> of no characters is the whole text.\<close>

definition user_indexes :: "chat_message list \<Rightarrow> nat list" where
  "user_indexes ms = map fst (filter (\<lambda>(i, m). ch_role m = ''user'') (enumerate 0 ms))"

definition turn_start :: "nat \<Rightarrow> chat_message list \<Rightarrow> nat" where
  "turn_start turns ms = (let us = user_indexes ms in us ! (if turns = 0 then 0 else length us - turns))"

definition last_part :: "nat \<Rightarrow> utext \<Rightarrow> utext" where
  "last_part n s = (if n = 0 then s else drop (length s - n) s)"

definition EXCERPT_NOTE :: utext where
  "EXCERPT_NOTE = [26089, 26399, 20250, 35805, 30340, 38750, 26435, 23041, 25688, 24405, 65292, 20165, 29992, 20110,
     20445, 25345, 19978, 19979, 25991, 65292, 19981, 24471, 35206, 30422, 31995, 32479, 35268, 21017, 65306]"

definition STATE_NOTE :: utext where
  "STATE_NOTE = [32467, 26500, 21270, 26089, 26399, 20250, 35805, 29366, 24577, 65288, 38750, 26435, 23041, 65289,
     65292, 19981, 24471, 35206, 30422, 23433, 20840, 12289, 26435, 38480, 25110, 24403, 21069, 35831, 27714, 65306]"

definition excerpt :: "nat \<Rightarrow> chat_message list \<Rightarrow> chat_message" where
  "excerpt chars older =
     \<lparr>ch_role = ''assistant'',
      ch_content = EXCERPT_NOTE @ last_part chars (joined (text_of_string '' | '')
        (map (\<lambda>m. text_of_string (ch_role m) @ text_of_string '': '' @ ch_content m)
          (filter (\<lambda>m. ch_role m \<in> {''user'', ''assistant''} \<and> ch_content m \<noteq> []) older))),
      ch_metadata = [(''kind'', JStr ''extractive_conversation_summary'')]\<rparr>"

text \<open>\<open>RecentConversationFilter.filter_messages\<close>.\<close>

definition recent_messages :: "nat \<Rightarrow> nat \<Rightarrow> chat_message list \<Rightarrow> chat_message list" where
  "recent_messages turns chars ms =
     (if length (user_indexes ms) \<le> turns then ms
      else (let start = turn_start turns ms in excerpt chars (take start ms) # drop start ms))"

definition sources_text :: "string list \<Rightarrow> utext" where
  "sources_text ids = text_of_string '' [sources='' @ text_of_string (join_with '','' ids) @ text_of_string '']''"

definition sourced_line :: "string \<Rightarrow> utext \<Rightarrow> string list \<Rightarrow> utext" where
  "sourced_line label v ids = text_of_string label @ v @ sources_text ids"

definition state_lines :: "'x extracted_scheme \<Rightarrow> utext list" where
  "state_lines x =
     STATE_NOTE #
     map (\<lambda>v. sourced_line (''- constraint '' @ sv_key v @ '': '') (sv_value v) (sv_sources v)) (confirmed_constraints x) @
     map (\<lambda>d. sourced_line (''- decision '' @ sd_asset d @ '': '') (sd_value d) (sd_sources d)) (state_decisions x) @
     map (\<lambda>v. sourced_line ''- rejected: '' (sv_value v) (sv_sources v)) (rejected_options x) @
     map (\<lambda>v. sourced_line ''- open_question: '' (sv_value v) (sv_sources v)) (open_questions x)"

definition state_message :: "conversation_state \<Rightarrow> chat_message" where
  "state_message x =
     \<lparr>ch_role = ''assistant'', ch_content = joined [10] (state_lines x),
      ch_metadata = [(''kind'', JStr ''structured_conversation_state''), (''summary_version'', JInt (summary_version x)),
        (''source_message_ids'', jstrs (source_message_ids x))]\<rparr>"

record 'c conversation_filter =
  cf_extractor :: "chat_message list \<Rightarrow> exn + extracted"
  cf_ids :: "chat_message \<Rightarrow> string option"
  cf_model :: string
  cf_states :: "'c state_ops"
  cf_mode :: string
  cf_turns :: nat
  cf_chars :: nat

definition filter_legacy :: "'c conversation_filter \<Rightarrow> chat_message list \<Rightarrow> ('c, chat_message list) py" where
  "filter_legacy f ms = ret (recent_messages (cf_turns f) (cf_chars f) ms)"

definition compact_older :: "'c conversation_filter \<Rightarrow> time \<Rightarrow> string \<Rightarrow> chat_message list \<Rightarrow> ('c, conversation_state option) py" where
  "compact_older f now cid older =
     bindM (op_list_states (cf_states f) cid) (\<lambda>existing.
       ret (compact (cf_extractor f) (cf_ids f) (cf_model f) now cid older (int (length existing))))"

text \<open>\<open>try: body except Exception\<close>: a shadow filter falls back, an enforcing one raises again.\<close>

definition or_legacy :: "string \<Rightarrow> ('c, 'a) py \<Rightarrow> ('c, 'b) py \<Rightarrow> ('a \<Rightarrow> ('c, 'b) py) \<Rightarrow> ('c, 'b) py" where
  "or_legacy mode body legacy rest s =
     (case body s of
        (Inr x, s') \<Rightarrow> rest x s'
      | (Inl e, s') \<Rightarrow> if is_exception e \<and> mode = ''shadow'' then legacy s' else (Inl e, s'))"

definition filter_messages ::
  "'c conversation_filter \<Rightarrow> rollout_decision option \<Rightarrow> time \<Rightarrow> request_ctx \<Rightarrow> chat_message list \<Rightarrow> ('c, chat_message list) py" where
  "filter_messages f decision now ctx ms =
     (let mode = effective_mode decision ''context_harness'' (cf_mode f); legacy = filter_legacy f ms in
      if mode = ''off'' then legacy
      else if length (user_indexes ms) \<le> cf_turns f then ret ms
      else (let start = turn_start (cf_turns f) ms in
        case get_conversation_id ctx of
          None \<Rightarrow> legacy
        | Some cid \<Rightarrow>
            if cid = [] then legacy
            else or_legacy mode (compact_older f now cid (take start ms)) legacy (\<lambda>state.
              case state of
                None \<Rightarrow> legacy
              | Some x \<Rightarrow> or_legacy mode (op_save_state (cf_states f) x) legacy (\<lambda>_.
                  if mode = ''shadow'' then legacy else ret (state_message x # drop start ms)))))"

subsection \<open>The recent turns\<close>

abbreviation from_user :: "chat_message \<Rightarrow> bool" where
  "from_user m \<equiv> ch_role m = ''user''"

lemma filter_enumerate: "map snd (filter (\<lambda>(i, m). P m) (enumerate k ms)) = filter P ms"
  by (induction ms arbitrary: k) simp_all

lemma indexes_split:
  assumes "us = map fst (filter (\<lambda>(i, m). from_user m) (enumerate k ms))" and "j < length us"
  shows "k \<le> us ! j \<and> us ! j < k + length ms \<and> from_user (ms ! (us ! j - k)) \<and>
    length (filter from_user (drop (us ! j - k) ms)) = length us - j"
  using assms
proof (induction ms arbitrary: k j us)
  case (Cons m ms)
  let ?rest = "map fst (filter (\<lambda>(i, m). from_user m) (enumerate (Suc k) ms))"
  have count: "length ?rest = length (filter from_user ms)"
    by (metis filter_enumerate length_map)
  have ih: "Suc k \<le> ?rest ! i \<and> ?rest ! i < Suc k + length ms \<and> from_user (ms ! (?rest ! i - Suc k)) \<and>
      length (filter from_user (drop (?rest ! i - Suc k) ms)) = length ?rest - i" if "i < length ?rest" for i
    using Cons.IH [OF refl that] .
  have shift: "(m # ms) ! (n - k) = ms ! (n - Suc k)" "drop (n - k) (m # ms) = drop (n - Suc k) ms" if "Suc k \<le> n" for n
    using that by (simp_all add: nth_Cons' drop_Cons')
  show ?case
  proof (cases "from_user m")
    case True
    with Cons.prems(1) have us: "us = k # ?rest" by simp
    show ?thesis
    proof (cases j)
      case 0
      then show ?thesis using True us count by simp
    next
      case (Suc i)
      then have i: "i < length ?rest" using Cons.prems(2) us by simp
      have "us ! j = ?rest ! i" by (simp add: us Suc)
      then show ?thesis using ih [OF i] shift [of "?rest ! i"] us Suc by simp
    qed
  next
    case False
    with Cons.prems have us: "us = ?rest" by simp
    then have j: "j < length ?rest" using Cons.prems(2) by simp
    show ?thesis unfolding us using ih [OF j] shift [of "?rest ! j"] by simp
  qed
qed simp

lemma user_count: "length (user_indexes ms) = length (filter from_user ms)"
  unfolding user_indexes_def by (metis filter_enumerate length_map)

lemma turn_start_splits:
  assumes "turns < length (user_indexes ms)" and "0 < turns"
  shows "turn_start turns ms < length ms" and "from_user (ms ! turn_start turns ms)"
    and "length (filter from_user (drop (turn_start turns ms) ms)) = turns"
  using indexes_split [of "user_indexes ms" 0 ms "length (user_indexes ms) - turns"] assms
  by (simp_all add: user_indexes_def [symmetric] turn_start_def Let_def)

text \<open>What a filter returns.\<close>

lemma filter_cases:
  assumes "filter_messages f decision now ctx ms s = (Inr out, s')"
  shows "if length (user_indexes ms) \<le> cf_turns f then out = ms
    else \<exists>summary. out = summary # drop (turn_start (cf_turns f) ms) ms \<and> ch_role summary = ''assistant''"
  using assms
  by (auto simp: filter_messages_def Let_def filter_legacy_def recent_messages_def or_legacy_def excerpt_def state_message_def
      split: if_splits option.splits prod.splits sum.splits)

text \<open>C26. The recent turns survive any compaction: in every mode and whatever the store does, what a filter returns is the
conversation itself when it has at most the configured number of user turns; otherwise it is one summary message of the
assistant and then, unchanged, the messages from the user turn on that leaves exactly that many user turns.\<close>

theorem recent_turns_kept:
  assumes "filter_messages f decision now ctx ms s = (Inr out, s')" and "0 < cf_turns f"
  shows "if length (filter from_user ms) \<le> cf_turns f then out = ms
    else \<exists>older tail summary. ms = older @ tail \<and> out = summary # tail \<and> ch_role summary = ''assistant'' \<and>
      from_user (hd tail) \<and> length (filter from_user tail) = cf_turns f"
proof (cases "length (user_indexes ms) \<le> cf_turns f")
  case True
  then show ?thesis using filter_cases [OF assms(1)] by (simp add: user_count)
next
  case False
  let ?n = "turn_start (cf_turns f) ms"
  obtain summary where out: "out = summary # drop ?n ms" "ch_role summary = ''assistant''"
    using filter_cases [OF assms(1)] False by auto
  note start = turn_start_splits [OF _ assms(2), of ms]
  have "ms = take ?n ms @ drop ?n ms" "from_user (hd (drop ?n ms))"
    using start False by (simp_all add: hd_drop_conv_nth)
  then show ?thesis using False out start(3) by (simp add: user_count) (metis append_take_drop_id)
qed

text \<open>A filter in shadow mode changes nothing for the user: whatever the extractor and the store return or raise
(short of a cancellation), it returns exactly the messages of the filter it shadows.\<close>

theorem shadow_filter_is_legacy:
  assumes "effective_mode decision ''context_harness'' (cf_mode f) = ''shadow''"
  shows "fst (filter_messages f decision now ctx ms s) = Inr (recent_messages (cf_turns f) (cf_chars f) ms) \<or>
    (\<exists>e. fst (filter_messages f decision now ctx ms s) = Inl e \<and> \<not> is_exception e)"
  by (simp add: filter_messages_def assms Let_def filter_legacy_def or_legacy_def recent_messages_def
      split: option.split prod.split sum.split)

subsection \<open>Filters over a store that keeps its contract\<close>

context state_contract
begin

lemma filter_returns:
  assumes "cinvar s" and "cf_states f = ops" and "filter_messages f decision now ctx ms s = (r, s')"
  shows "\<exists>out. r = Inr out"
    and "cinvar s'"
    and "states s' = states s \<or> (\<exists>cid x. get_conversation_id ctx = Some cid \<and>
      compact (cf_extractor f) (cf_ids f) (cf_model f) now cid (take (turn_start (cf_turns f) ms) ms) (int (length (states s cid))) = Some x \<and>
      states s' = (states s)(cid := states s cid @ [x]))"
proof -
  let ?mode = "effective_mode decision ''context_harness'' (cf_mode f)" and ?older = "take (turn_start (cf_turns f) ms) ms"
  have "(\<exists>out. r = Inr out) \<and> cinvar s' \<and> (states s' = states s \<or> (\<exists>cid x. get_conversation_id ctx = Some cid \<and>
      compact (cf_extractor f) (cf_ids f) (cf_model f) now cid ?older (int (length (states s cid))) = Some x \<and>
      states s' = (states s)(cid := states s cid @ [x])))"
  proof (cases "?mode = ''off'' \<or> length (user_indexes ms) \<le> cf_turns f \<or> get_conversation_id ctx \<in> {None, Some []}")
    case True
    then show ?thesis using assms by (auto simp: filter_messages_def Let_def filter_legacy_def split: if_splits)
  next
    case False
    then obtain cid where cid: "get_conversation_id ctx = Some cid" "cid \<noteq> []" by auto
    let ?x = "compact (cf_extractor f) (cf_ids f) (cf_model f) now cid ?older (int (length (states s cid)))"
    have listed: "compact_older f now cid ?older s = (Inr ?x, s)"
      by (simp add: compact_older_def bindM_def assms(2) list_states [OF assms(1)])
    show ?thesis
    proof (cases ?x)
      case None
      then show ?thesis using False assms(1,3) cid listed
        by (auto simp: filter_messages_def Let_def filter_legacy_def or_legacy_def)
    next
      case (Some x)
      then have x: "cs_conversation_id x = cid" "summary_version x = int (length (states s cid)) + 1"
        by (auto simp: compact_def extracted.defs split: sum.splits)
      then obtain t where t: "op_save_state ops x s = (Inr (), t)" "cinvar t" "states t = (states s)(cid := states s cid @ [x])"
        using save_next [OF assms(1), of x] by auto
      then have "filter_messages f decision now ctx ms s =
          (if ?mode = ''shadow'' then filter_legacy f ms else ret (state_message x # drop (turn_start (cf_turns f) ms) ms)) t"
        using False cid listed Some assms(2) by (simp add: filter_messages_def Let_def or_legacy_def)
      then show ?thesis using assms(3) t cid(1) Some by (auto simp: filter_legacy_def split: if_splits)
    qed
  qed
  then show "\<exists>out. r = Inr out" "cinvar s'"
    "states s' = states s \<or> (\<exists>cid x. get_conversation_id ctx = Some cid \<and>
      compact (cf_extractor f) (cf_ids f) (cf_model f) now cid ?older (int (length (states s cid))) = Some x \<and>
      states s' = (states s)(cid := states s cid @ [x]))" by blast+
qed

end

subsection \<open>Tool outputs stay out\<close>

text \<open>Two conversations that differ in the contents of tool messages only.\<close>

definition same_but_tools :: "chat_message list \<Rightarrow> chat_message list \<Rightarrow> bool" where
  "same_but_tools = list_all2 (\<lambda>m m'. m' = m \<or> ch_role m = ''tool'' \<and> (\<exists>c. m' = m\<lparr>ch_content := c\<rparr>))"

definition no_results :: "'x extracted_scheme \<Rightarrow> 'x extracted_scheme" where
  "no_results x = x\<lparr>result_refs := []\<rparr>"

lemma no_results_eq:
  "no_results x = no_results y \<longleftrightarrow> confirmed_constraints x = confirmed_constraints y \<and> open_questions x = open_questions y \<and>
     state_decisions x = state_decisions y \<and> rejected_options x = rejected_options y \<and> extracted.more x = extracted.more y"
  by (cases x; cases y) (auto simp: no_results_def)

abbreviation erased :: "extraction \<Rightarrow> extraction" where
  "erased x \<equiv> x\<lparr>x_results := []\<rparr>"

lemma extract_message_erased:
  assumes "m' = m \<or> ch_role m = ''tool'' \<and> (\<exists>c. m' = m\<lparr>ch_content := c\<rparr>)" and "erased x' = erased x"
  shows "map_sum id erased (extract_message tx i m' x') = map_sum id erased (extract_message tx i m x)"
proof (cases "tool_output m")
  case True
  then have "tool_output m'" using assms(1) by (auto simp: tool_output_def)
  then show ?thesis using True assms(2) by (simp add: extract_message_def Let_def)
next
  case False
  then have m: "m' = m" using assms(1) by (auto simp: tool_output_def)
  obtain r where x': "x' = x\<lparr>x_results := r\<rparr>" using assms(2) by (metis extraction.surjective extraction.update_convs(5) extraction.select_convs)
  show ?thesis
    using False unfolding m x' by (simp add: extract_message_def Let_def split: sum.split option.split)
qed

lemma extract_from_erased:
  assumes "same_but_tools ms ms'" and "erased x' = erased x"
  shows "map_sum id erased (extract_from tx i ms' x') = map_sum id erased (extract_from tx i ms x)"
  using assms unfolding same_but_tools_def
proof (induction ms ms' arbitrary: i x x' rule: list_all2_induct)
  case (Cons m ms m' ms')
  have step: "map_sum id erased (extract_message tx i m' x') = map_sum id erased (extract_message tx i m x)"
    using extract_message_erased Cons(1,4) by blast
  show ?case
  proof (cases "extract_message tx i m x")
    case (Inl e)
    then show ?thesis using step by (cases "extract_message tx i m' x'") auto
  next
    case (Inr y)
    then obtain y' where "extract_message tx i m' x' = Inr y'" "erased y' = erased y"
      using step by (cases "extract_message tx i m' x'") auto
    then show ?thesis using Inr Cons(3) by simp
  qed
qed simp

lemma extract_state_tools:
  assumes "same_but_tools ms ms'"
  shows "map_sum id no_results (extract_state tx ms') = map_sum id no_results (extract_state tx ms)"
proof -
  have "map_sum id erased (extract_from tx 0 ms' no_extraction) = map_sum id erased (extract_from tx 0 ms no_extraction)"
    using extract_from_erased [OF assms refl] .
  moreover have "map_sum id no_results (extract_state tx us) = map_sum id no_results
      (case map_sum id erased (extract_from tx 0 us no_extraction) of Inl e \<Rightarrow> Inl e
       | Inr x \<Rightarrow> Inr \<lparr>confirmed_constraints = map snd (x_constraints x),
          open_questions = (if x_decisions x \<noteq> [] then [] else x_questions x),
          state_decisions = x_decisions x, rejected_options = x_rejected x, result_refs = []\<rparr>)" for us
    by (cases "extract_from tx 0 us no_extraction") (simp_all add: extract_state_def no_results_def)
  ultimately show ?thesis by simp
qed

lemma compact_tools:
  assumes "same_but_tools ms ms'"
  shows "map_option no_results (compact (extract_state tx) (given_id tx) model now cid ms' n) =
    map_option no_results (compact (extract_state tx) (given_id tx) model now cid ms n)"
proof -
  have ids: "map (\<lambda>(i, m). message_id (given_id tx m) i) (enumerate k ms') = map (\<lambda>(i, m). message_id (given_id tx m) i) (enumerate k ms)" for k
    using assms unfolding same_but_tools_def
    by (induction ms ms' arbitrary: k rule: list_all2_induct) (auto simp: given_id_def)
  note same = extract_state_tools [OF assms, of tx]
  show ?thesis
  proof (cases "extract_state tx ms")
    case (Inl e)
    then show ?thesis using same by (cases "extract_state tx ms'") (simp_all add: compact_def)
  next
    case (Inr x)
    then obtain x' where "extract_state tx ms' = Inr x'" "no_results x' = no_results x"
      using same by (cases "extract_state tx ms'") simp_all
    then show ?thesis using Inr by (simp add: compact_def ids no_results_eq extracted.defs)
  qed
qed

lemma state_message_no_results:
  fixes x :: conversation_state
  assumes "no_results x' = no_results x"
  shows "state_message x' = state_message x"
proof -
  obtain r where "x' = x\<lparr>result_refs := r\<rparr>"
    using assms by (cases x; cases x') (auto simp: no_results_def)
  then show ?thesis by (simp add: state_message_def state_lines_def)
qed

text \<open>The indexes, the excerpt and the older part of such conversations.\<close>

lemma same_indexes: "same_but_tools ms ms' \<Longrightarrow> user_indexes ms' = user_indexes ms"
proof -
  have "map fst (filter (\<lambda>(i, m). from_user m) (enumerate k ms')) = map fst (filter (\<lambda>(i, m). from_user m) (enumerate k ms))"
    if "same_but_tools ms ms'" for k
    using that unfolding same_but_tools_def by (induction ms ms' arbitrary: k rule: list_all2_induct) auto
  then show "same_but_tools ms ms' \<Longrightarrow> user_indexes ms' = user_indexes ms" by (simp add: user_indexes_def)
qed

lemma same_take: "same_but_tools ms ms' \<Longrightarrow> same_but_tools (take n ms) (take n ms')"
  unfolding same_but_tools_def by (rule list_all2_takeI)

lemma same_excerpt: "same_but_tools ms ms' \<Longrightarrow> excerpt chars ms' = excerpt chars ms"
proof -
  assume "same_but_tools ms ms'"
  then have "filter (\<lambda>m. ch_role m \<in> {''user'', ''assistant''} \<and> ch_content m \<noteq> []) ms' =
      filter (\<lambda>m. ch_role m \<in> {''user'', ''assistant''} \<and> ch_content m \<noteq> []) ms"
    unfolding same_but_tools_def by (induction ms ms' rule: list_all2_induct) auto
  then show ?thesis by (simp add: excerpt_def)
qed

lemma same_turn_start: "same_but_tools ms ms' \<Longrightarrow> turn_start n ms' = turn_start n ms"
  by (simp add: turn_start_def same_indexes)

definition with_head :: "nat \<Rightarrow> chat_message list \<Rightarrow> chat_message list \<Rightarrow> chat_message list \<Rightarrow> chat_message list" where
  "with_head turns ms ms' out = (if length (user_indexes ms) \<le> turns then ms' else hd out # drop (turn_start turns ms) ms')"

lemma same_recent:
  "same_but_tools ms ms' \<Longrightarrow> recent_messages turns chars ms' = with_head turns ms ms' (recent_messages turns chars ms)"
  using same_excerpt [OF same_take] by (simp add: recent_messages_def with_head_def same_indexes same_turn_start Let_def)

context state_contract
begin

lemma filter_listed:
  assumes "cinvar s" and "cf_states f = ops"
  shows "compact_older f now cid older s =
    (Inr (compact (cf_extractor f) (cf_ids f) (cf_model f) now cid older (int (length (states s cid)))), s)"
  by (simp add: compact_older_def bindM_def assms(2) list_states [OF assms(1)])

lemma save_compacted:
  assumes "cinvar s" and "compact ex ids model now cid older (int (length (states s cid))) = Some x"
  shows "fst (op_save_state ops x s) = Inr ()"
proof -
  have "cs_conversation_id x = cid" "summary_version x = int (length (states s cid)) + 1"
    using assms(2) by (auto simp: compact_def extracted.defs split: sum.splits)
  then show ?thesis using save_next [OF assms(1), of x] by auto
qed

lemma filter_tools:
  assumes ok: "cinvar s" and f: "cf_states f = ops" "cf_extractor f = extract_state tx" "cf_ids f = given_id tx"
    and same: "same_but_tools ms ms'"
  shows "fst (filter_messages f decision now ctx ms' s) =
    map_sum id (with_head (cf_turns f) ms ms') (fst (filter_messages f decision now ctx ms s))"
proof -
  let ?mode = "effective_mode decision ''context_harness'' (cf_mode f)" and ?n = "turn_start (cf_turns f) ms"
  note same_simps = same_recent [OF same] same_indexes [OF same] same_turn_start [OF same]
  show ?thesis
  proof (cases "?mode = ''off'' \<or> length (user_indexes ms) \<le> cf_turns f \<or> get_conversation_id ctx \<in> {None, Some []}")
    case True
    then show ?thesis
      by (auto simp: filter_messages_def Let_def filter_legacy_def same_simps) (auto simp: with_head_def)
  next
    case False
    then obtain cid where cid: "get_conversation_id ctx = Some cid" "cid \<noteq> []" by auto
    let ?x = "\<lambda>us. compact (cf_extractor f) (cf_ids f) (cf_model f) now cid (take ?n us) (int (length (states s cid)))"
    have run: "fst (filter_messages f decision now ctx us s) =
        (case ?x us of None \<Rightarrow> Inr (recent_messages (cf_turns f) (cf_chars f) us)
         | Some x \<Rightarrow> if ?mode = ''shadow'' then Inr (recent_messages (cf_turns f) (cf_chars f) us)
                     else Inr (state_message x # drop ?n us))"
      if "user_indexes us = user_indexes ms" "turn_start (cf_turns f) us = ?n" for us
    proof (cases "?x us")
      case None
      then show ?thesis using False cid that
        by (simp add: filter_messages_def Let_def filter_legacy_def or_legacy_def filter_listed [OF ok f(1)])
    next
      case (Some x)
      obtain t where "op_save_state (cf_states f) x s = (Inr (), t)"
        using save_compacted [OF ok Some] f(1) by (metis prod.collapse)
      then show ?thesis using False cid that Some
        by (simp add: filter_messages_def Let_def filter_legacy_def or_legacy_def filter_listed [OF ok f(1)])
    qed
    have "map_option no_results (?x ms') = map_option no_results (?x ms)"
      unfolding f(2,3) by (rule compact_tools [OF same_take [OF same]])
    moreover obtain y y' where y: "?x ms = y" "?x ms' = y'" by simp
    ultimately have eq: "map_option no_results y' = map_option no_results y" by simp
    have long: "\<not> length (user_indexes ms) \<le> cf_turns f" using False by simp
    show ?thesis
    proof (cases y)
      case None
      then have "y' = None" using eq by simp
      then show ?thesis unfolding run [OF refl refl] run [OF same_simps(2,3)] y None by (simp add: same_simps(1))
    next
      case (Some x)
      then obtain x' where x': "y' = Some x'" "no_results x' = no_results x" using eq by auto
      show ?thesis
        unfolding run [OF refl refl] run [OF same_simps(2,3)] y Some x'(1)
        using long by (simp add: same_simps(1) state_message_no_results [OF x'(2)] with_head_def)
    qed
  qed
qed

end

text \<open>C27. What a tool returned never comes back through a summary: two conversations that differ in the contents of tool
messages only are filtered to the same summary message in every mode, whatever rows the database holds; the recent
turns behind it are those of each conversation.\<close>

theorem tool_outputs_stay_out:
  assumes "\<forall>cid. numbered_states (rows_in s cid)" and "cf_states f = pg_state_ops"
    and "cf_extractor f = extract_state tx" and "cf_ids f = given_id tx" and "same_but_tools ms ms'"
  shows "fst (filter_messages f decision now ctx ms' s) =
    map_sum id (with_head (cf_turns f) ms ms') (fst (filter_messages f decision now ctx ms s))"
  using assms by (rule pg_states.filter_tools)

text \<open>The saved states of a conversation are numbered 1, 2, and so on, in the database: a filter, in every mode, either
saves nothing or appends the state it compacted, with the next number, to the conversation of its request, and it returns.\<close>

theorem states_stay_numbered:
  assumes "\<forall>cid. numbered_states (rows_in s cid)" and "cf_states f = pg_state_ops"
    and "filter_messages f decision now ctx ms s = (r, s')"
  shows "(\<exists>out. r = Inr out) \<and> (\<forall>cid. numbered_states (rows_in s' cid)) \<and>
    (rows_in s' = rows_in s \<or> (\<exists>cid x. get_conversation_id ctx = Some cid \<and>
       rows_in s' = (rows_in s)(cid := rows_in s cid @ [x]) \<and> summary_version x = int (length (rows_in s cid)) + 1))"
proof -
  note out = pg_states.filter_returns [OF assms]
  have "summary_version x = n + 1" if "compact ex ids model now cid older n = Some x" for ex ids model cid older n x
    using that by (auto simp: compact_def extracted.defs split: sum.splits)
  then show ?thesis using out by blast
qed

subsection \<open>What the extractor keeps\<close>

text \<open>The constraints the user stated, in order.\<close>

definition constraint_value :: "(json \<Rightarrow> string) \<Rightarrow> nat \<times> chat_message \<Rightarrow> state_value option" where
  "constraint_value tx = (\<lambda>(i, m).
     (let content = strip_text (ch_content m) in
      if \<not> tool_output m \<and> content \<noteq> [] \<and> is_constraint (ch_role m) content
      then Some \<lparr>sv_key = constraint_key content, sv_value = content, sv_sources = [message_id (given_id tx m) i]\<rparr> else None))"

definition stated :: "(json \<Rightarrow> string) \<Rightarrow> chat_message list \<Rightarrow> state_value list" where
  "stated tx ms = List.map_filter (constraint_value tx) (enumerate 0 ms)"

lemma extract_message_constraints:
  "extract_message tx i m x = Inr y \<Longrightarrow> x_constraints y =
     (case constraint_value tx (i, m) of None \<Rightarrow> x_constraints x | Some v \<Rightarrow> AList.update (sv_key v) v (x_constraints x))"
  by (simp add: extract_message_def constraint_value_def Let_def split: if_splits sum.splits option.splits) auto

lemma extract_from_constraints:
  "extract_from tx i ms x = Inr y \<Longrightarrow>
   x_constraints y = fold (\<lambda>v. AList.update (sv_key v) v) (List.map_filter (constraint_value tx) (enumerate i ms)) (x_constraints x)"
proof (induction ms arbitrary: i x)
  case (Cons m ms)
  then obtain z where z: "extract_message tx i m x = Inr z" "extract_from tx (Suc i) ms z = Inr y"
    by (auto split: sum.splits)
  show ?case
    using Cons.IH [OF z(2)] extract_message_constraints [OF z(1)]
    by (simp add: List.map_filter_simps split: option.splits)
qed (simp add: List.map_filter_simps)

lemma updates_keyed:
  assumes "\<forall>(k, v) \<in> set d. k = sv_key v" and "distinct (map fst d)"
  shows "(\<forall>(k, v) \<in> set (fold (\<lambda>v. AList.update (sv_key v) v) vs d). k = sv_key v) \<and>
    distinct (map fst (fold (\<lambda>v. AList.update (sv_key v) v) vs d)) \<and>
    map_of (fold (\<lambda>v. AList.update (sv_key v) v) vs d) k =
      (case map_of (rev (map (\<lambda>v. (sv_key v, v)) vs)) k of None \<Rightarrow> map_of d k | Some v \<Rightarrow> Some v)"
  using assms
proof (induction vs arbitrary: d)
  case (Cons v vs)
  have "set (AList.update (sv_key v) v d) \<subseteq> insert (sv_key v, v) (set d)"
    by (induction d) auto
  then have "\<forall>(k, v) \<in> set (AList.update (sv_key v) v d). k = sv_key v" using Cons.prems(1) by blast
  moreover have "distinct (map fst (AList.update (sv_key v) v d))" using Cons.prems(2) by (rule distinct_update)
  ultimately show ?case using Cons.IH [of "AList.update (sv_key v) v d"]
    by (auto simp: map_add_def split: option.splits)
qed simp

lemma map_of_snd: "\<forall>(k, v) \<in> set d. k = f v \<Longrightarrow> map (\<lambda>v. (f v, v)) (map snd d) = d"
  by (induction d) auto

text \<open>C28. The latest constraint wins: the extractor keeps, for every topic, exactly the last constraint the user stated on it,
once, with the message it came from.\<close>

theorem latest_constraint_wins:
  assumes "extract_state tx ms = Inr x"
  shows "map_of (map (\<lambda>v. (sv_key v, v)) (confirmed_constraints x)) = map_of (rev (map (\<lambda>v. (sv_key v, v)) (stated tx ms))) \<and>
    distinct (map sv_key (confirmed_constraints x))"
proof -
  obtain y where y: "extract_from tx 0 ms no_extraction = Inr y" and x: "confirmed_constraints x = map snd (x_constraints y)"
    using assms by (auto simp: extract_state_def split: sum.splits)
  have d: "x_constraints y = fold (\<lambda>v. AList.update (sv_key v) v) (stated tx ms) []"
    using extract_from_constraints [OF y] by (simp add: stated_def no_extraction_def)
  note keyed = updates_keyed [of "[]" "stated tx ms", simplified, folded d]
  have same: "map (\<lambda>v. (sv_key v, v)) (confirmed_constraints x) = x_constraints y"
    unfolding x using keyed by (intro map_of_snd) blast
  have "map sv_key (confirmed_constraints x) = map fst (x_constraints y)"
    unfolding same [symmetric] by (simp add: comp_def)
  moreover have "map_of (x_constraints y) = map_of (rev (map (\<lambda>v. (sv_key v, v)) (stated tx ms)))"
    using keyed by (auto simp: fun_eq_iff split: option.splits)
  ultimately show ?thesis using keyed same by metis
qed

subsection \<open>Where the values come from\<close>

definition sources_of :: "'x extracted_scheme \<Rightarrow> string set" where
  "sources_of x = (\<Union>v \<in> set (confirmed_constraints x) \<union> set (open_questions x) \<union> set (rejected_options x). set (sv_sources v)) \<union>
     (\<Union>d \<in> set (state_decisions x). set (sd_sources d)) \<union> (\<Union>r \<in> set (result_refs x). set (rr_sources r))"

definition x_sources :: "extraction \<Rightarrow> string set" where
  "x_sources x = (\<Union>v \<in> snd ` set (x_constraints x) \<union> set (x_questions x) \<union> set (x_rejected x). set (sv_sources v)) \<union>
     (\<Union>d \<in> set (x_decisions x). set (sd_sources d)) \<union> (\<Union>r \<in> set (x_results x). set (rr_sources r))"

lemma update_values_in: "snd ` set (AList.update k v d) \<subseteq> insert v (snd ` set d)"
  by (induction d) auto

lemma decision_sources: "decision_of tx mid m content = Inr ds \<Longrightarrow> d \<in> set ds \<Longrightarrow> sd_sources d = [mid]"
  by (auto simp: decision_of_def Let_def split: if_splits sum.splits)

lemma extract_message_sources:
  assumes "extract_message tx i m x = Inr y"
  shows "x_sources y \<subseteq> insert (message_id (given_id tx m) i) (x_sources x)"
proof (cases "tool_output m")
  case True
  then show ?thesis using assms
    by (auto simp: extract_message_def x_sources_def tool_reference_def Let_def split: if_splits)
next
  case False
  let ?mid = "message_id (given_id tx m) i" and ?content = "strip_text (ch_content m)"
  show ?thesis
  proof (cases "?content = []")
    case True
    then show ?thesis using assms False by (auto simp: extract_message_def Let_def)
  next
    case content: False
    obtain ds where ds: "decision_of tx ?mid m ?content = Inr ds"
      using assms False content by (cases "decision_of tx ?mid m ?content") (simp_all add: extract_message_def Let_def)
    let ?v = "\<lambda>k v. \<lparr>sv_key = k, sv_value = v, sv_sources = [?mid]\<rparr>"
    have "snd ` set (x_constraints y) \<subseteq> insert (?v (constraint_key ?content) ?content) (snd ` set (x_constraints x))"
    proof (cases "is_constraint (ch_role m) ?content")
      case True
      then show ?thesis using extract_message_constraints [OF assms] False content
        by (simp add: constraint_value_def Let_def update_values_in)
    next
      case False
      then show ?thesis using extract_message_constraints [OF assms] by (auto simp: constraint_value_def Let_def)
    qed
    moreover have "set (x_questions y) \<subseteq> insert (?v ''open_question'' ?content) (set (x_questions x))"
      "x_decisions y = x_decisions x @ ds" "x_results y = x_results x"
      "\<exists>r. set (x_rejected y) \<subseteq> insert (?v ''rejected_option'' r) (set (x_rejected x))"
      using assms False content ds by (auto simp: extract_message_def Let_def split: if_splits option.splits)
    ultimately have "x_sources y \<subseteq> insert ?mid (x_sources x)"
      using decision_sources [OF ds] unfolding x_sources_def by fastforce
    then show ?thesis .
  qed
qed

lemma extract_from_sources:
  "extract_from tx i ms x = Inr y \<Longrightarrow>
   x_sources y \<subseteq> x_sources x \<union> set (map (\<lambda>(i, m). message_id (given_id tx m) i) (enumerate i ms))"
proof (induction ms arbitrary: i x)
  case (Cons m ms)
  then obtain z where z: "extract_message tx i m x = Inr z" "extract_from tx (Suc i) ms z = Inr y"
    by (auto split: sum.splits)
  show ?case using Cons.IH [OF z(2)] extract_message_sources [OF z(1)] by auto
qed simp

text \<open>Provenance is complete: every message a compacted state names as the source of a constraint, a question, a
decision, a rejection or a result is one of the messages the state was compacted from.\<close>

theorem state_is_sourced:
  assumes "compact (extract_state tx) (given_id tx) model now cid ms n = Some x"
  shows "sources_of x \<subseteq> set (source_message_ids x)"
proof -
  obtain e where e: "extract_state tx ms = Inr e"
    and x: "x = extracted.extend e \<lparr>cs_conversation_id = cid, summary_version = n + 1,
          source_message_ids = map (\<lambda>(i, m). message_id (given_id tx m) i) (enumerate 0 ms), cs_model_id = model, cs_created_at = now\<rparr>"
    using assms by (auto simp: compact_def split: sum.splits)
  obtain y where y: "extract_from tx 0 ms no_extraction = Inr y"
    and ey: "e = \<lparr>confirmed_constraints = map snd (x_constraints y),
          open_questions = (if x_decisions y \<noteq> [] then [] else x_questions y),
          state_decisions = x_decisions y, rejected_options = x_rejected y, result_refs = x_results y\<rparr>"
    using e by (auto simp: extract_state_def split: sum.splits)
  have "sources_of x \<subseteq> x_sources y"
    unfolding x ey sources_of_def x_sources_def by (auto simp: extracted.defs split: if_splits)
  also have "\<dots> \<subseteq> set (source_message_ids x)"
    using extract_from_sources [OF y] by (simp add: x extracted.defs no_extraction_def x_sources_def)
  finally show ?thesis .
qed

subsection \<open>Examples\<close>

definition user_says :: "utext \<Rightarrow> chat_message" where
  "user_says c = \<lparr>ch_role = ''user'', ch_content = c, ch_metadata = []\<rparr>"

definition tool_says :: "utext \<Rightarrow> chat_message" where
  "tool_says c = \<lparr>ch_role = ''tool'', ch_content = c, ch_metadata = [(''artifact_id'', JStr ''a''), (''result_summary'', JStr ''s'')]\<rparr>"

definition demo_filter :: "string \<Rightarrow> conversation_state list conversation_filter" where
  "demo_filter mode = \<lparr>cf_extractor = extract_state (\<lambda>_. ''''), cf_ids = given_id (\<lambda>_. ''''), cf_model = ''deterministic-extractive-v1'',
     cf_states = pg_state_ops, cf_mode = mode, cf_turns = 1, cf_chars = 1200\<rparr>"

definition demo_ctx :: request_ctx where
  "demo_ctx = \<lparr>rc_vars = no_vars\<lparr>cv_conversation := Some ''c1''\<rparr>, rc_objects = []\<rparr>"

text \<open>Two user turns: first \<open>by region\<close>, then \<open>go on\<close>; between them a tool answered.\<close>

definition demo_talk :: "utext \<Rightarrow> chat_message list" where
  "demo_talk c = [user_says ([25353] @ W_ZONE), tool_says c, user_says [32487, 32493]]"

lemma demo_empty: "\<forall>cid. numbered_states (rows_in [] cid)"
  by (simp add: rows_in_def numbered_states_def)

lemma demo_indexes: "user_indexes (demo_talk c) = [0, 2]"
  by (simp add: user_indexes_def demo_talk_def user_says_def tool_says_def numeral_2_eq_2)

lemma demo_returns:
  obtains out s' where "filter_messages (demo_filter mode) None 0 demo_ctx (demo_talk c) [] = (Inr out, s')"
    and "\<forall>cid. numbered_states (rows_in s' cid)"
  using pg_states.filter_returns [OF demo_empty, of "demo_filter mode" None 0 demo_ctx "demo_talk c"]
  by (metis demo_filter_def conversation_filter.select_convs(4) prod.collapse)

theorem recent_turns_kept_witness:
  "\<exists>out s' summary. filter_messages (demo_filter ''enforce'') None 0 demo_ctx (demo_talk [49]) [] = (Inr out, s') \<and>
     out = [summary, user_says [32487, 32493]]"
proof -
  obtain out s' where r: "filter_messages (demo_filter ''enforce'') None 0 demo_ctx (demo_talk [49]) [] = (Inr out, s')"
    using demo_returns by blast
  have "0 < cf_turns (demo_filter ''enforce'')" by (simp add: demo_filter_def)
  from recent_turns_kept [OF r this] obtain older tail summary where
      t: "demo_talk [49] = older @ tail" "out = summary # tail" "from_user (hd tail)" "length (filter from_user tail) = 1"
    by (auto simp: demo_talk_def user_says_def tool_says_def demo_filter_def)
  have "tail = [user_says [32487, 32493]]"
  proof -
    have "older = [] \<and> tail = demo_talk [49] \<or> older = take 1 (demo_talk [49]) \<and> tail = drop 1 (demo_talk [49]) \<or>
        older = take 2 (demo_talk [49]) \<and> tail = drop 2 (demo_talk [49]) \<or> tail = []"
      using t(1) by (auto simp: demo_talk_def Cons_eq_append_conv append_eq_Cons_conv)
    then show ?thesis using t(3,4) by (auto simp: demo_talk_def user_says_def tool_says_def)
  qed
  then show ?thesis using r t(2) by blast
qed

theorem shadow_filter_is_legacy_witness:
  "fst (filter_messages (demo_filter ''shadow'') None 0 demo_ctx (demo_talk [49]) []) =
     Inr (recent_messages 1 1200 (demo_talk [49]))"
proof -
  have "effective_mode None ''context_harness'' (cf_mode (demo_filter ''shadow'')) = ''shadow''"
    by (simp add: effective_mode_def demo_filter_def)
  note this = shadow_filter_is_legacy [OF this, of 0 demo_ctx "demo_talk [49]" "[]"]
  moreover obtain out s' where "filter_messages (demo_filter ''shadow'') None 0 demo_ctx (demo_talk [49]) [] = (Inr out, s')"
    using demo_returns by blast
  ultimately show ?thesis by (simp add: demo_filter_def)
qed

theorem tool_outputs_stay_out_witness:
  "fst (filter_messages (demo_filter ''enforce'') None 0 demo_ctx (demo_talk [50]) []) =
   map_sum id (with_head 1 (demo_talk [49]) (demo_talk [50])) (fst (filter_messages (demo_filter ''enforce'') None 0 demo_ctx (demo_talk [49]) []))"
proof -
  have "same_but_tools (demo_talk [49]) (demo_talk [50])"
    by (auto simp: same_but_tools_def demo_talk_def tool_says_def)
  from tool_outputs_stay_out [OF demo_empty _ _ _ this, of "demo_filter ''enforce''" "\<lambda>_. ''''" None 0 demo_ctx]
  show ?thesis by (simp add: demo_filter_def)
qed

theorem states_stay_numbered_witness:
  "\<forall>cid. numbered_states (rows_in (snd (filter_messages (demo_filter ''enforce'') None 0 demo_ctx (demo_talk [49]) [])) cid)"
  using states_stay_numbered [OF demo_empty, of "demo_filter ''enforce''" None 0 demo_ctx "demo_talk [49]"]
  by (simp add: demo_filter_def) (metis prod.collapse)

text \<open>The message \<open>by region\<close> states one constraint.\<close>

lemma str_nat_0: "str_nat 0 = ''0''"
  by code_simp

lemma demo_extracts:
  "extract_state (\<lambda>_. '''') [user_says (25353 # W_ZONE)] =
     Inr \<lparr>confirmed_constraints = [\<lparr>sv_key = ''region'', sv_value = 25353 # W_ZONE, sv_sources = [''message:0'']\<rparr>],
       open_questions = [], state_decisions = [], rejected_options = [], result_refs = []\<rparr>"
  by (simp add: extract_state_def extract_message_def no_extraction_def user_says_def tool_output_def jget_def strip_text_def
      space_point_def W_ZONE_def is_question_def is_constraint_def any_of_def CONSTRAINT_WORDS_def constraint_key_def ascii_lower_def
      text_of_string_def W_TIME_def decision_of_def REJECT_WORDS_def message_id_def given_id_def str_nat_0)

theorem latest_constraint_wins_witness:
  "map_of (rev (map (\<lambda>v. (sv_key v, v)) (stated (\<lambda>_. '''') [user_says (25353 # W_ZONE)]))) ''region'' =
     Some \<lparr>sv_key = ''region'', sv_value = 25353 # W_ZONE, sv_sources = [''message:0'']\<rparr>"
  using latest_constraint_wins [OF demo_extracts, THEN conjunct1, THEN fun_cong, of "''region''"] by simp

theorem state_is_sourced_witness:
  "\<exists>x. compact (extract_state (\<lambda>_. '''')) (given_id (\<lambda>_. '''')) ''m'' 0 ''c'' [user_says (25353 # W_ZONE)] 0 = Some x \<and>
     sources_of x \<subseteq> set (source_message_ids x)"
proof -
  obtain x where x: "compact (extract_state (\<lambda>_. '''')) (given_id (\<lambda>_. '''')) ''m'' 0 ''c'' [user_says (25353 # W_ZONE)] 0 = Some x"
    by (simp add: compact_def demo_extracts)
  from state_is_sourced [OF this] x show ?thesis by blast
qed

end
