(* ===== verification/Evidence.thy ===== *)
theory Evidence
  imports Plan_Store Context_Compiler
begin

section \<open>The evidence view\<close>

text \<open>
  \<open>agent-service/app/evidence/service.py\<close>: the projection of a run, its latest stored plan and its latest context
  manifest that the browser gets. The two stores are those of \<open>Plan_Store\<close> and \<open>Context_Compiler\<close>; the audit
  of the business service is an argument, and the state counts the runs it was asked for. A manifest that is read back is the
  dictionary of \<open>ContextManifest.to_redacted_dict\<close> with its sequence number.
\<close>

subsection \<open>The dictionary of a manifest\<close>

definition included_json :: "manifest_item \<Rightarrow> json" where
  "included_json e = JDict [(''item_id'', JStr (mi_id e)), (''partition'', JStr (partition_value (mi_part e))),
     (''source_id'', JStr (mi_source_id e)), (''source_hash'', JStr (mi_source_hash e)),
     (''trust_level'', JStr (mi_trust_level e)), (''token_count'', JInt (token_count e)),
     (''mandatory'', JBool (mi_mandatory e))]"

definition pruned_json :: "pruned_item \<Rightarrow> json" where
  "pruned_json e = JDict [(''item_id'', JStr (pr_id e)), (''partition'', JStr (partition_value (pr_part e))),
     (''reason'', JStr (pr_reason e)), (''estimated_tokens'', JInt (estimated_tokens e))]"

definition budget_json :: "(string, int) dict \<Rightarrow> json" where
  "budget_json d = JDict (map (\<lambda>(k, n). (k, JInt n)) d)"

definition redacted_json :: "(time \<Rightarrow> string) \<Rightarrow> context_manifest \<Rightarrow> pyfloat option \<Rightarrow> jdict" where
  "redacted_json isot m coverage =
     [(''run_id'', JStr (man_run_id m)), (''policy_version'', JStr (policy_version m)), (''mode'', JStr (man_mode m)),
      (''total_token_budget'', JInt (total_token_budget m)), (''actual_tokens'', JInt (actual_tokens m)),
      (''partition_budgets'', budget_json (partition_budgets m)), (''partition_usage'', budget_json (partition_usage m)),
      (''provenance_coverage'', (case coverage of None \<Rightarrow> JNull | Some q \<Rightarrow> JFloat q)),
      (''included_items'', JList (map included_json (included_items m))),
      (''pruned_items'', JList (map pruned_json (pruned_items m))), (''created_at'', JStr (isot (man_created_at m)))]"

definition manifest_json :: "(time \<Rightarrow> string) \<Rightarrow> redacted_manifest \<Rightarrow> jdict" where
  "manifest_json isot r = redacted_json isot (rm_manifest r) (rm_coverage r) @ [(''sequence_no'', JInt (rm_sequence r))]"

subsection \<open>The projection\<close>

definition CANDIDATE_KEYS :: "string list" where
  "CANDIDATE_KEYS = [''asset_id'', ''value_id'', ''column_asset_id'', ''canonical_value'', ''source_hash'', ''score'', ''reasons'']"

definition JOIN_KEYS :: "string list" where
  "JOIN_KEYS = [''path_id'', ''relation_ids'', ''table_asset_ids'', ''score'']"

definition PLAN_KEYS :: "string list" where
  "PLAN_KEYS = [''metrics'', ''dimensions'', ''filters'', ''time_range'', ''grain'', ''sort'', ''limit'', ''join_path_ids'']"

definition CONTEXT_KEYS :: "string list" where
  "CONTEXT_KEYS = [''policy_version'', ''mode'', ''total_token_budget'', ''actual_tokens'', ''provenance_coverage'',
     ''included_items'', ''pruned_items'']"

text \<open>The items of a stored snapshot are objects.\<close>

fun object_of :: "json \<Rightarrow> jdict" where
  "object_of (JDict d) = d"
| "object_of _ = []"

definition viewed :: "string list \<Rightarrow> jdict \<Rightarrow> string \<Rightarrow> json" where
  "viewed keys snapshot k = JList (map (\<lambda>item. JDict (jpick keys (object_of item))) (jitems (map_of snapshot k)))"

definition query_plan_view :: "stored_plan \<Rightarrow> jdict" where
  "query_plan_view x =
     AList.update ''evidence_ids'' (jstrs (sp_evidence_ids x))
       (AList.update ''plan_version'' (JInt (sp_plan_version x))
         (AList.update ''plan_hash'' (JStr (sp_plan_hash x)) (jpick PLAN_KEYS (sp_plan x))))"

definition validation_view :: "stored_plan \<Rightarrow> jdict" where
  "validation_view x = [(''status'', JStr (sp_status x)), (''errors'', jstrs (sp_errors x)),
     (''confidence'', jget (sp_snapshot x) ''confidence''),
     (''ambiguities'', JList (jitems (map_of (sp_snapshot x) ''ambiguities'')))]"

definition opt_str :: "string option \<Rightarrow> json" where
  "opt_str v = (case v of None \<Rightarrow> JNull | Some x \<Rightarrow> JStr x)"

definition run_view :: "(time \<Rightarrow> string) \<Rightarrow> run_record \<Rightarrow> jdict" where
  "run_view isot r = [(''id'', JStr (run_id r)), (''status'', JStr (status_value (status r))),
     (''parent_run_id'', opt_str (parent_run_id r)), (''correlation_id'', JStr (correlation_id r)),
     (''operation_kind'', JStr (kind_value (operation_kind r))), (''created_at'', JStr (isot (created_at r))),
     (''completed_at'', opt_str (map_option isot (completed_at r)))]"

text \<open>What an admin sees of the statement; an empty answer counts as none.\<close>

definition admin_view :: "jdict option \<Rightarrow> jdict" where
  "admin_view audit =
     (let a = (case audit of None \<Rightarrow> [] | Some d \<Rightarrow> d)
      in if a = [] then [(''visible'', JBool True), (''statement'', JNull), (''audit'', JNull)]
         else [(''visible'', JBool True), (''statement'', jget a ''generatedSql''),
           (''audit'', JDict [(''event_type'', jget a ''eventType''), (''success'', jget a ''success'')])])"

definition evidence_view :: "(time \<Rightarrow> string) \<Rightarrow> string \<Rightarrow> run_record \<Rightarrow> stored_plan option \<Rightarrow> redacted_manifest option \<Rightarrow>
    jdict \<Rightarrow> jdict" where
  "evidence_view isot mode run latest packed sql =
     (let snapshot = (case latest of None \<Rightarrow> [] | Some x \<Rightarrow> sp_snapshot x);
          available = (latest \<noteq> None \<or> packed \<noteq> None)
      in [(''available'', JBool available),
          (''reason'', if available then JNull else JStr ''v2_evidence_not_available''),
          (''mode'', JStr mode), (''run'', JDict (run_view isot run)),
          (''query_plan'', case latest of None \<Rightarrow> JNull | Some x \<Rightarrow> JDict (query_plan_view x)),
          (''assets'', JDict [(''tables'', viewed CANDIDATE_KEYS snapshot ''table_candidates''),
             (''columns'', viewed CANDIDATE_KEYS snapshot ''column_candidates''),
             (''values'', viewed CANDIDATE_KEYS snapshot ''value_candidates''),
             (''confirmed_joins'', viewed JOIN_KEYS snapshot ''join_paths'')]),
          (''context'', case packed of None \<Rightarrow> JNull | Some m \<Rightarrow> JDict (jpick CONTEXT_KEYS (manifest_json isot m))),
          (''validation'', case latest of None \<Rightarrow> JNull | Some x \<Rightarrow> JDict (validation_view x)),
          (''sql'', JDict sql)])"

subsection \<open>The service\<close>

record ('p, 'm) evidence_world =
  ev_plans :: 'p
  ev_contexts :: 'm
  ev_audited :: "string list"

record ('p, 'm) evidence_service =
  es_plan_store :: "'p plan_ops option"
  es_context_store :: "'m manifest_ops option"
  es_client :: "(string \<Rightarrow> exn + jdict option) option"
  es_mode :: string
  es_iso :: "time \<Rightarrow> string"

definition stored_plans :: "('p, 'm) evidence_service \<Rightarrow> string \<Rightarrow> (('p, 'm) evidence_world, stored_plan list) py" where
  "stored_plans svc rid w =
     (case es_plan_store svc of
        None \<Rightarrow> (Inr [], w)
      | Some ops \<Rightarrow> (case op_list_plans ops rid (ev_plans w) of (r, s) \<Rightarrow> (r, w\<lparr>ev_plans := s\<rparr>)))"

definition stored_manifest :: "('p, 'm) evidence_service \<Rightarrow> string \<Rightarrow> (('p, 'm) evidence_world, redacted_manifest option) py" where
  "stored_manifest svc rid w =
     (case es_context_store svc of
        None \<Rightarrow> (Inr None, w)
      | Some ops \<Rightarrow> (case op_get_manifest ops rid (ev_contexts w) of (r, s) \<Rightarrow> (r, w\<lparr>ev_contexts := s\<rparr>)))"

definition ask_audit :: "('p, 'm) evidence_service \<Rightarrow> string \<Rightarrow> (('p, 'm) evidence_world, jdict option) py" where
  "ask_audit svc rid w =
     (case es_client svc of
        None \<Rightarrow> (Inr None, w)
      | Some client \<Rightarrow> (client rid, w\<lparr>ev_audited := ev_audited w @ [rid]\<rparr>))"

definition sql_view :: "('p, 'm) evidence_service \<Rightarrow> string \<Rightarrow> bool \<Rightarrow> (('p, 'm) evidence_world, jdict) py" where
  "sql_view svc rid is_admin =
     (if is_admin then bindM (ask_audit svc rid) (\<lambda>a. ret (admin_view a)) else ret [(''visible'', JBool False)])"

definition build_evidence :: "('p, 'm) evidence_service \<Rightarrow> run_record \<Rightarrow> bool \<Rightarrow> (('p, 'm) evidence_world, jdict) py" where
  "build_evidence svc run is_admin =
     bindM (stored_plans svc (run_id run)) (\<lambda>plans.
     bindM (stored_manifest svc (run_id run)) (\<lambda>packed.
     bindM (sql_view svc (run_id run) is_admin) (\<lambda>sql.
       ret (evidence_view (es_iso svc) (es_mode svc) run (if plans = [] then None else Some (last plans)) packed sql))))"


subsection \<open>What the browser can see\<close>

text \<open>Only the listed keys.\<close>

definition only_keys :: "string list \<Rightarrow> json \<Rightarrow> bool" where
  "only_keys keys x \<longleftrightarrow> (\<exists>d. x = JDict d \<and> fst ` set d \<subseteq> set keys)"

lemma jpick_keys: "fst ` set (jpick keys d) \<subseteq> set keys"
  by (induction keys) (auto simp: jpick_def List.map_filter_simps split: option.splits)

lemma viewed_keys: "x \<in> set (jitems (Some (viewed keys snap k))) \<Longrightarrow> only_keys keys x"
  using jpick_keys by (auto simp: viewed_def only_keys_def)

text \<open>The four lists of the assets.\<close>

definition asset_items :: "jdict \<Rightarrow> string \<Rightarrow> json list" where
  "asset_items v k = jitems (map_of (object_of (jget v ''assets'')) k)"

lemma assets_keys:
  assumes "x \<in> set (asset_items (evidence_view isot mode run latest packed sql) k)"
  shows "only_keys (if k = ''confirmed_joins'' then JOIN_KEYS else CANDIDATE_KEYS) x"
proof -
  let ?snap = "case latest of None \<Rightarrow> [] | Some x \<Rightarrow> sp_snapshot x"
  have a: "object_of (jget (evidence_view isot mode run latest packed sql) ''assets'') =
      [(''tables'', viewed CANDIDATE_KEYS ?snap ''table_candidates''), (''columns'', viewed CANDIDATE_KEYS ?snap ''column_candidates''),
       (''values'', viewed CANDIDATE_KEYS ?snap ''value_candidates''), (''confirmed_joins'', viewed JOIN_KEYS ?snap ''join_paths'')]"
    by (simp add: evidence_view_def jget_def Let_def)
  show ?thesis
    using assms unfolding asset_items_def a by (auto dest!: viewed_keys split: if_splits)
qed

lemma plan_view_keys: "fst ` set (query_plan_view x) \<subseteq> set PLAN_KEYS \<union> {''plan_hash'', ''plan_version'', ''evidence_ids''}"
  using jpick_keys [of PLAN_KEYS "sp_plan x"] by (auto simp: query_plan_view_def)

text \<open>A build is the view of the latest plan and manifest of the stores, and of the audit for an admin.\<close>

lemma build_evidence_Inr:
  assumes "build_evidence svc run is_admin w = (Inr v, w')"
  shows "\<exists>plans packed sql w1 w2 w3. stored_plans svc (run_id run) w = (Inr plans, w1) \<and>
    stored_manifest svc (run_id run) w1 = (Inr packed, w2) \<and> sql_view svc (run_id run) is_admin w2 = (Inr sql, w3) \<and> w' = w3 \<and>
    v = evidence_view (es_iso svc) (es_mode svc) run (if plans = [] then None else Some (last plans)) packed sql"
proof -
  obtain r1 w1 where one: "stored_plans svc (run_id run) w = (r1, w1)" by fastforce
  obtain plans where r1: "r1 = Inr plans"
    using assms one by (cases r1) (simp_all add: build_evidence_def bindM_def)
  obtain r2 w2 where two: "stored_manifest svc (run_id run) w1 = (r2, w2)" by fastforce
  obtain packed where r2: "r2 = Inr packed"
    using assms one two r1 by (cases r2) (simp_all add: build_evidence_def bindM_def)
  obtain r3 w3 where three: "sql_view svc (run_id run) is_admin w2 = (r3, w3)" by fastforce
  obtain sql where r3: "r3 = Inr sql"
    using assms one two three r1 r2 by (cases r3) (simp_all add: build_evidence_def bindM_def)
  show ?thesis
    using assms one two three unfolding r1 r2 r3 by (intro exI conjI) (auto simp: build_evidence_def bindM_def)
qed

lemma stores_not_audited:
  "stored_plans svc rid w = (r, w') \<Longrightarrow> ev_audited w' = ev_audited w"
  "stored_manifest svc rid w = (r', w') \<Longrightarrow> ev_audited w' = ev_audited w"
  by (auto simp: stored_plans_def stored_manifest_def split: option.splits prod.splits)

text \<open>C35. The browser gets a projection: whatever the stores hold, the assets, the query plan and the context of the
answer have only the listed keys, and for a user who is not an admin the statement is not visible and the business
service is not asked.\<close>

theorem evidence_is_projected:
  assumes "build_evidence svc run is_admin w = (Inr v, w')"
  shows "(\<forall>k. \<forall>x \<in> set (asset_items v k). only_keys (if k = ''confirmed_joins'' then JOIN_KEYS else CANDIDATE_KEYS) x) \<and>
    (jget v ''query_plan'' = JNull \<or> only_keys (PLAN_KEYS @ [''plan_hash'', ''plan_version'', ''evidence_ids'']) (jget v ''query_plan'')) \<and>
    (jget v ''context'' = JNull \<or> only_keys CONTEXT_KEYS (jget v ''context'')) \<and>
    (if is_admin then set (ev_audited w') \<subseteq> insert (run_id run) (set (ev_audited w))
     else jget v ''sql'' = JDict [(''visible'', JBool False)] \<and> ev_audited w' = ev_audited w)"
proof -
  obtain plans packed sql w1 w2 w3 where b: "stored_plans svc (run_id run) w = (Inr plans, w1)"
      "stored_manifest svc (run_id run) w1 = (Inr packed, w2)" "sql_view svc (run_id run) is_admin w2 = (Inr sql, w3)" "w' = w3"
      "v = evidence_view (es_iso svc) (es_mode svc) run (if plans = [] then None else Some (last plans)) packed sql"
    using build_evidence_Inr [OF assms] by blast
  have audited: "ev_audited w2 = ev_audited w" using stores_not_audited b(1,2) by metis
  have "jget v ''query_plan'' = JNull \<or> only_keys (PLAN_KEYS @ [''plan_hash'', ''plan_version'', ''evidence_ids'']) (jget v ''query_plan'')"
    using plan_view_keys [of "last plans"] by (auto simp: b(5) evidence_view_def jget_def Let_def only_keys_def)
  moreover have "jget v ''context'' = JNull \<or> only_keys CONTEXT_KEYS (jget v ''context'')"
    using jpick_keys by (auto simp: b(5) evidence_view_def jget_def Let_def only_keys_def split: option.splits)
  moreover have "jget v ''sql'' = JDict sql" by (simp add: b(5) evidence_view_def jget_def Let_def)
  then have "if is_admin then set (ev_audited w') \<subseteq> insert (run_id run) (set (ev_audited w))
     else jget v ''sql'' = JDict [(''visible'', JBool False)] \<and> ev_audited w' = ev_audited w"
    using b(3,4) audited by (auto simp: sql_view_def bindM_def ask_audit_def split: if_splits option.splits prod.splits sum.splits)
  ultimately show ?thesis using assets_keys unfolding b(5) by blast
qed



subsection \<open>Examples\<close>

definition demo_service :: "(memory_plans, memory_manifests) evidence_service" where
  "demo_service = \<lparr>es_plan_store = Some (memory_plan_ops (\<lambda>_. '''')), es_context_store = Some memory_manifest_ops,
     es_client = Some (\<lambda>_. Inl (External ''HTTPError'')), es_mode = ''enforce'', es_iso = (\<lambda>_. '''')\<rparr>"

definition demo_evidence :: "memory_plans \<Rightarrow> (memory_plans, memory_manifests) evidence_world" where
  "demo_evidence p = \<lparr>ev_plans = p, ev_contexts = [], ev_audited = []\<rparr>"

definition saved_amount :: "int \<Rightarrow> memory_plans" where
  "saved_amount n = after_saves (memory_plan_ops (\<lambda>_. '''')) [(0, ''r1'', amount_plan n, sample_snapshot)] []"

lemma demo_builds: "\<exists>v. build_evidence demo_service run False (demo_evidence p) = (Inr v, demo_evidence p)"
  by (simp add: build_evidence_def bindM_def stored_plans_def stored_manifest_def sql_view_def demo_service_def memory_plan_ops_def
      memory_list_plans_def memory_manifest_ops_def memory_get_manifest_def memory_versions_def demo_evidence_def)

theorem evidence_is_projected_witness:
  "\<exists>v. build_evidence demo_service sample_run False (demo_evidence (saved_amount 5)) = (Inr v, demo_evidence (saved_amount 5)) \<and>
     jget v ''sql'' = JDict [(''visible'', JBool False)]"
proof -
  obtain v where v: "build_evidence demo_service sample_run False (demo_evidence (saved_amount 5)) = (Inr v, demo_evidence (saved_amount 5))"
    using demo_builds by blast
  from evidence_is_projected [OF this] v show ?thesis by auto
qed


end
