(* ===== verification/Rollout_Pg.thy ===== *)
theory Rollout_Pg
  imports Rollout Run_Store_Pg
begin

section \<open>Rollout policies in PostgreSQL\<close>

text \<open>
  \<open>PostgresRolloutStore\<close> of \<open>agent-service/app/rollout/policy.py\<close>: the policy table, the decisions, the claim of the
  monitor, and the query that turns the traces of the last half hour into the signals of the monitor. Every call is one
  transaction. The columns' length limits are the argument \<open>column_error\<close>; rows of one version are read in
  the order of their inserts. The service and the monitor are those of \<open>Rollout\<close>, over these operations.
\<close>

subsection \<open>Tables\<close>

text \<open>What the signal query reads of a trace event and of a run. An attribute is the text that \<open>->>\<close> gives, \<open>None\<close> for a JSON null.\<close>

record event_row =
  er_type :: string
  er_created :: time
  er_attributes :: "(string, string option) dict"

record run_window =
  rw_started :: time
  rw_status :: string

record rollout_tables =
  policy_rows :: "rollout_policy list"
  decision_rows :: "(string \<times> rollout_decision) list"
  rollout_runs :: "string list"

subsection \<open>Policies and decisions\<close>

text \<open>\<open>[self._policy(row) for row in rows]\<close>: the constructor checks every row again.\<close>

fun checked_policies :: "rollout_policy list \<Rightarrow> exn + rollout_policy list" where
  "checked_policies [] = Inr []"
| "checked_policies (p # ps) =
     (case check_policy p of
        Inl e \<Rightarrow> Inl e
      | Inr q \<Rightarrow> (case checked_policies ps of Inl e \<Rightarrow> Inl e | Inr qs \<Rightarrow> Inr (q # qs)))"

definition pg_list_policies :: "bool \<Rightarrow> (rollout_tables, rollout_policy list) py" where
  "pg_list_policies active_only s =
     (checked_policies (sort_key (\<lambda>p. - version p) (filter (\<lambda>p. active p \<or> \<not> active_only) (policy_rows s))), s)"

definition policy_checks :: "rollout_policy \<Rightarrow> bool" where
  "policy_checks p \<longleftrightarrow> 0 < version p \<and> scope_type p \<in> set [''user'', ''tenant'', ''role'', ''route_risk'', ''global''] \<and>
     0 \<le> cohort_percent p \<and> cohort_percent p \<le> 100"

definition pg_add_policy :: "(rollout_policy \<Rightarrow> exn option) \<Rightarrow> rollout_policy \<Rightarrow> (rollout_tables, rollout_policy) py" where
  "pg_add_policy column_error p s =
     (case column_error p of
        Some e \<Rightarrow> (Inl e, s)
      | None \<Rightarrow>
          if \<not> policy_checks p then (Inl (External ''CheckViolation''), s)
          else if policy_id p \<in> policy_id ` set (policy_rows s) \<or>
            (policy_key p, version p) \<in> (\<lambda>q. (policy_key q, version q)) ` set (policy_rows s)
          then (Inl unique_violation, s)
          else (case check_policy p of
              Inl e \<Rightarrow> (Inl e, s)
            | Inr q \<Rightarrow> (Inr q, s\<lparr>policy_rows := policy_rows s @ [p]\<rparr>)))"

text \<open>A decision of a run that has one is dropped.\<close>

definition pg_persist_decision :: "string \<Rightarrow> rollout_decision \<Rightarrow> (rollout_tables, unit) py" where
  "pg_persist_decision rid d s =
     (if rid \<in> fst ` set (decision_rows s) then (Inr (), s)
      else if rid \<notin> set (rollout_runs s) \<or> dec_policy_id d \<notin> policy_id ` set (policy_rows s)
      then (Inl foreign_key_violation, s)
      else if \<not> (0 \<le> bucket d \<and> bucket d \<le> 99) then (Inl (External ''CheckViolation''), s)
      else (Inr (), s\<lparr>decision_rows := decision_rows s @ [(rid, d)]\<rparr>))"

text \<open>The advisory lock is held until the transaction ends, which is when the call returns; \<open>free\<close> says whether no other session
holds it at that moment. Nothing is written.\<close>

definition pg_claim_monitor_version :: "bool \<Rightarrow> string \<Rightarrow> int \<Rightarrow> (rollout_tables, bool) py" where
  "pg_claim_monitor_version free key v s = (Inr free, s)"

definition pg_rollout_ops :: "(rollout_policy \<Rightarrow> exn option) \<Rightarrow> bool \<Rightarrow> rollout_tables rollout_ops" where
  "pg_rollout_ops column_error free = \<lparr>op_policies = pg_list_policies, op_add_policy = pg_add_policy column_error,
     op_persist = pg_persist_decision, op_claim = pg_claim_monitor_version free\<rparr>"

subsection \<open>The signals\<close>

definition minutes :: "int \<Rightarrow> time" where
  "minutes n = n * 60000000"

definition er_text :: "event_row \<Rightarrow> string \<Rightarrow> string option" where
  "er_text e k = (case map_of (er_attributes e) k of None \<Rightarrow> None | Some v \<Rightarrow> v)"

definition closing :: "event_row \<Rightarrow> bool" where
  "closing e \<longleftrightarrow> er_type e \<in> set [''run_completed'', ''run_failed'', ''run_cancelled'']"

definition since :: "time \<Rightarrow> int \<Rightarrow> event_row \<Rightarrow> bool" where
  "since now n e \<longleftrightarrow> now - minutes n \<le> er_created e"

definition count_rows :: "('a \<Rightarrow> bool) \<Rightarrow> 'a list \<Rightarrow> int" where
  "count_rows P xs = int (length (filter P xs))"

text \<open>\<open>NULLIF(attributes->>'duration_ms','')::double precision\<close>; the cast \<open>dbl\<close> raises on a text that is no number.\<close>

definition duration_of :: "(string \<Rightarrow> exn + pyfloat) \<Rightarrow> event_row \<Rightarrow> exn + pyfloat option" where
  "duration_of dbl e =
     (case er_text e ''duration_ms'' of
        None \<Rightarrow> Inr None
      | Some x \<Rightarrow> if x = [] then Inr None else (case dbl x of Inl err \<Rightarrow> Inl err | Inr q \<Rightarrow> Inr (Some q)))"

text \<open>The durations that are there, of the rows a filter lets through.\<close>

fun durations :: "(string \<Rightarrow> exn + pyfloat) \<Rightarrow> event_row list \<Rightarrow> exn + pyfloat list" where
  "durations dbl [] = Inr []"
| "durations dbl (e # es) =
     (case duration_of dbl e of
        Inl err \<Rightarrow> Inl err
      | Inr d \<Rightarrow> (case durations dbl es of
            Inl err \<Rightarrow> Inl err
          | Inr ds \<Rightarrow> Inr (case d of None \<Rightarrow> ds | Some q \<Rightarrow> q # ds)))"

text \<open>\<open>float(row["simple_p95"] or 0)\<close>: the 95th percentile \<open>percentile\<close> of the seconds, null without rows.\<close>

definition seconds_p95 ::
  "(pyfloat list \<Rightarrow> pyfloat) \<Rightarrow> (string \<Rightarrow> exn + pyfloat) \<Rightarrow> event_row list \<Rightarrow> exn + pyfloat" where
  "seconds_p95 percentile dbl es =
     (case durations dbl es of
        Inl err \<Rightarrow> Inl err
      | Inr ds \<Rightarrow> Inr (if ds = [] then 0 else percentile (map (\<lambda>d. fdiv d 1000) ds)))"

definition route_class :: "event_row \<Rightarrow> string option" where
  "route_class e = er_text e ''db_copilot.route_class''"

definition flag_rows :: "time \<Rightarrow> string \<Rightarrow> event_row list \<Rightarrow> int" where
  "flag_rows now k es = count_rows (\<lambda>e. er_text e k = Some ''true'' \<and> since now 15 e) es"

text \<open>\<open>GROUP BY policy_key ORDER BY failures DESC,policy_key LIMIT 1\<close>: the key of most failures, of these the first by
the collation \<open>collate\<close>, null last. \<open>attributes ? k\<close> asks for the key, whatever its value.\<close>

definition affected_policy :: "(string \<Rightarrow> nat) \<Rightarrow> time \<Rightarrow> event_row list \<Rightarrow> string option" where
  "affected_policy collate now es =
     (let rows = filter (\<lambda>e. er_type e = ''run_failed'' \<and> since now 15 e \<and>
            map_of (er_attributes e) ''db_copilot.rollout_policy_key'' \<noteq> None) es;
          keys = map (\<lambda>e. er_text e ''db_copilot.rollout_policy_key'') rows
      in case remdups keys of
           [] \<Rightarrow> None
         | k # ks \<Rightarrow> min_by (\<lambda>k. (- count_rows (\<lambda>x. x = k) keys, case k of None \<Rightarrow> (1, 0) | Some x \<Rightarrow> (0 :: int, collate x))) k ks)"

text \<open>\<open>GROUP BY route_risk ORDER BY duration DESC NULLS LAST LIMIT 1\<close>, \<open>duration\<close> the longest of the group; of equal groups the
first.\<close>

definition route_risk_of :: "event_row \<Rightarrow> string" where
  "route_risk_of e = (case er_text e ''route'' of None \<Rightarrow> ''chat'' | Some x \<Rightarrow> x) @ '':'' @
     (case er_text e ''risk_level'' of None \<Rightarrow> ''LOW'' | Some x \<Rightarrow> x)"

fun route_groups ::
  "(string \<Rightarrow> exn + pyfloat) \<Rightarrow> event_row list \<Rightarrow> string list \<Rightarrow> exn + (string \<times> pyfloat option) list" where
  "route_groups dbl es [] = Inr []"
| "route_groups dbl es (r # rs) =
     (case durations dbl (filter (\<lambda>e. route_risk_of e = r) es) of
        Inl err \<Rightarrow> Inl err
      | Inr ds \<Rightarrow> (case route_groups dbl es rs of
            Inl err \<Rightarrow> Inl err
          | Inr gs \<Rightarrow> Inr ((r, if ds = [] then None else Some (Max (set ds))) # gs)))"

definition affected_route :: "(string \<Rightarrow> exn + pyfloat) \<Rightarrow> time \<Rightarrow> event_row list \<Rightarrow> exn + string option" where
  "affected_route dbl now es =
     (let rows = filter (\<lambda>e. er_type e = ''run_completed'' \<and> since now 30 e) es
      in case route_groups dbl rows (remdups (map route_risk_of rows)) of
           Inl err \<Rightarrow> Inl err
         | Inr [] \<Rightarrow> Inr None
         | Inr (g # gs) \<Rightarrow> Inr (Some (fst (min_by (\<lambda>g. case snd g of None \<Rightarrow> (1 :: int, 0) | Some q \<Rightarrow> (0, - q)) g gs))))"

definition closure_window :: "time \<Rightarrow> run_window list \<Rightarrow> run_window list" where
  "closure_window now rs = filter (\<lambda>r. now - minutes 30 \<le> rw_started r \<and> rw_started r < now - minutes 5) rs"

definition closed_run :: "run_window \<Rightarrow> bool" where
  "closed_run r \<longleftrightarrow> rw_status r \<in> set [''COMPLETED'', ''FAILED'', ''CANCELLED'', ''NEEDS_CLARIFICATION'']"

text \<open>\<open>a / b if b else dflt\<close>.\<close>

definition rate_or :: "pyfloat \<Rightarrow> int \<Rightarrow> int \<Rightarrow> pyfloat" where
  "rate_or dflt a b = (if b = 0 then dflt else fdiv (of_int a) (of_int b))"

text \<open>\<open>load_signals\<close>: four statements of one transaction, each over the rows committed when it starts (\<open>es1\<close>, \<open>es2\<close>, \<open>es3\<close>,
\<open>rs\<close>), all with the clock reading \<open>now\<close> of the transaction.\<close>

definition load_signals ::
  "(pyfloat list \<Rightarrow> pyfloat) \<Rightarrow> (string \<Rightarrow> exn + pyfloat) \<Rightarrow> (string \<Rightarrow> nat) \<Rightarrow> time \<Rightarrow> event_row list \<Rightarrow> event_row list \<Rightarrow>
   event_row list \<Rightarrow> run_window list \<Rightarrow> exn + rollout_signals" where
  "load_signals percentile dbl collate now es1 es2 es3 rs =
     (let before = (\<lambda>e. \<not> since now 15 e \<and> since now 30 e);
          done_rows = filter (\<lambda>e. er_type e = ''run_completed'' \<and> since now 30 e) es1;
          window = closure_window now rs
      in case seconds_p95 percentile dbl (filter (\<lambda>e. route_class e \<in> {None, Some ''simple''}) done_rows) of
           Inl err \<Rightarrow> Inl err
         | Inr simple \<Rightarrow> (case seconds_p95 percentile dbl (filter (\<lambda>e. route_class e = Some ''complex'') done_rows) of
             Inl err \<Rightarrow> Inl err
           | Inr complex \<Rightarrow> (case affected_route dbl now es3 of
               Inl err \<Rightarrow> Inl err
             | Inr route \<Rightarrow> Inr
                 \<lparr>safety_executions = flag_rows now ''db_copilot.safety_execution'' es1,
                  cross_user_leaks = flag_rows now ''db_copilot.cross_user_leak'' es1,
                  error_count = count_rows (\<lambda>e. er_type e = ''run_failed'' \<and> since now 15 e) es1,
                  sample_count = count_rows (\<lambda>e. closing e \<and> since now 15 e) es1,
                  baseline_error_rate = rate_or 0 (count_rows (\<lambda>e. er_type e = ''run_failed'' \<and> before e) es1)
                    (count_rows (\<lambda>e. closing e \<and> before e) es1),
                  simple_p95_seconds = simple, complex_p95_seconds = complex, p95_breach_minutes = 30,
                  provenance_missing = flag_rows now ''db_copilot.provenance_missing'' es1,
                  non_terminal_closure_rate = rate_or 1 (count_rows closed_run window) (int (length window)),
                  affected_policy_key = affected_policy collate now es2,
                  affected_route_risk = route\<rparr>)))"

subsection \<open>The tables stay valid\<close>

text \<open>Every row passes the constructor; ids and versions are unique; a run has one decision, of a policy that is there.\<close>

definition rollout_rows_ok :: "rollout_tables \<Rightarrow> bool" where
  "rollout_rows_ok s \<longleftrightarrow> (\<forall>p \<in> set (policy_rows s). check_policy p = Inr p \<and> policy_checks p) \<and>
     distinct (map policy_id (policy_rows s)) \<and> distinct (map (\<lambda>q. (policy_key q, version q)) (policy_rows s)) \<and>
     distinct (map fst (decision_rows s)) \<and>
     (\<forall>(rid, d) \<in> set (decision_rows s). rid \<in> set (rollout_runs s) \<and> dec_policy_id d \<in> policy_id ` set (policy_rows s) \<and>
        0 \<le> bucket d \<and> bucket d \<le> 99)"

lemma check_policy_same: "check_policy p = Inr q \<Longrightarrow> q = p"
  using check_policy_Inr by blast

lemma pg_add_policy_cases:
  "(\<exists>e. pg_add_policy ce p s = (Inl e, s)) \<or>
   pg_add_policy ce p s = (Inr p, s\<lparr>policy_rows := policy_rows s @ [p]\<rparr>) \<and> check_policy p = Inr p \<and> policy_checks p \<and>
     policy_id p \<notin> policy_id ` set (policy_rows s) \<and>
     (policy_key p, version p) \<notin> (\<lambda>q. (policy_key q, version q)) ` set (policy_rows s)"
  using check_policy_same [of p] by (simp add: pg_add_policy_def split: option.split sum.split)

lemma pg_add_policy_keeps: "keeps rollout_rows_ok (pg_add_policy ce p)"
proof
  fix s assume s: "rollout_rows_ok s"
  show "rollout_rows_ok (snd (pg_add_policy ce p s))"
    using pg_add_policy_cases [of ce p s] s by (auto simp: rollout_rows_ok_def)
qed

lemma pg_persist_keeps: "keeps rollout_rows_ok (pg_persist_decision rid d)"
  by (rule keepsI) (auto simp: pg_persist_decision_def rollout_rows_ok_def)

lemma pg_ops_sel [simp]:
  "op_policies (pg_rollout_ops ce free) = pg_list_policies" "op_add_policy (pg_rollout_ops ce free) = pg_add_policy ce"
  "op_persist (pg_rollout_ops ce free) = pg_persist_decision" "op_claim (pg_rollout_ops ce free) = pg_claim_monitor_version free"
  by (simp_all add: pg_rollout_ops_def)

lemma checked_policies_ok: "\<forall>p \<in> set ps. check_policy p = Inr p \<Longrightarrow> checked_policies ps = Inr ps"
  by (induction ps) auto

lemma pg_list_policies_ok:
  "rollout_rows_ok s \<Longrightarrow> pg_list_policies b s =
     (Inr (sort_key (\<lambda>p. - version p) (filter (\<lambda>p. active p \<or> \<not> b) (policy_rows s))), s)"
  by (simp add: pg_list_policies_def checked_policies_ok rollout_rows_ok_def)

subsection \<open>The service over the tables\<close>

text \<open>The policies as the in-memory store would hold them.\<close>

definition memory_of :: "rollout_tables \<Rightarrow> rollout_store" where
  "memory_of s = \<lparr>policies = policy_rows s, decisions = decision_rows s, monitor_versions = []\<rparr>"

lemma memory_of_ok: "rollout_rows_ok s \<Longrightarrow> rollout_ok (memory_of s)"
  by (simp add: memory_of_def rollout_ok_def rollout_rows_ok_def)

text \<open>The first least element does not depend on a stable sort by a part of the key.\<close>

lemma min_by_is_first:
  "min_by k x ys = hd (filter (\<lambda>y. \<forall>z \<in> insert x (set ys). k y \<le> k z) (x # ys))"
proof (induction ys arbitrary: x)
  case (Cons y ys)
  show ?case
  proof (cases "k y < k x")
    case True
    then have "(\<forall>z \<in> insert x (set (y # ys)). k w \<le> k z) \<longleftrightarrow> (\<forall>z \<in> insert y (set ys). k w \<le> k z)" for w
      by (auto intro: order_trans less_imp_le)
    moreover have "\<not> k x \<le> k y" using True by simp
    ultimately show ?thesis using Cons.IH [of y] True by simp
  next
    case False
    then have eq: "(\<forall>z \<in> insert x (set (y # ys)). k w \<le> k z) \<longleftrightarrow> (\<forall>z \<in> insert x (set ys). k w \<le> k z)" for w
      by (auto intro: order_trans)
    show ?thesis
    proof (cases "\<forall>z \<in> insert x (set ys). k x \<le> k z")
      case True
      then show ?thesis using Cons.IH [of x] False eq [of x] by simp
    next
      case no: False
      then have "\<not> (\<forall>z \<in> set ys. k x \<le> k z)" by simp
      moreover from this have "\<not> (k y \<le> k x \<and> (\<forall>z \<in> set ys. k y \<le> k z))"
        using False by (meson order_trans linorder_not_less)
      moreover have "k w \<le> k x \<and> k w \<le> k y \<and> (\<forall>z \<in> set ys. k w \<le> k z) \<longleftrightarrow> k w \<le> k x \<and> (\<forall>z \<in> set ys. k w \<le> k z)" for w
        using eq [of w] by auto
      ultimately show ?thesis using Cons.IH [of x] False by auto
    qed
  qed
qed simp

lemma min_by_sort:
  assumes "x # xs = sort_key f ys" and "ys = y # ys'" and "\<And>a b. k a = k b \<Longrightarrow> f a = f b"
  shows "min_by k x xs = min_by k y ys'"
proof -
  have sets: "insert x (set xs) = insert y (set ys')"
    using arg_cong [OF assms(1), of set] arg_cong [OF assms(2), of set] by (simp only: set_sort list.set)
  define P where "P = (\<lambda>w. \<forall>z \<in> insert y (set ys'). k w \<le> k z)"
  have "\<exists>a. \<forall>w \<in> set ys. P w \<longrightarrow> f w = f a"
    using assms(2,3) unfolding P_def by (metis insertCI list.simps(15) order_antisym)
  then obtain a where a: "\<And>w. w \<in> set ys \<Longrightarrow> P w \<Longrightarrow> f w = f a" by blast
  have "filter P zs = filter P (filter (\<lambda>w. f w = f a) zs)" if "set zs = set ys" for zs
    using a that by (auto intro!: filter_cong)
  then have "filter P (sort_key f ys) = filter P ys"
    by (metis sort_key_stable set_sort)
  then show ?thesis
    unfolding min_by_is_first sets P_def [symmetric] using assms(1,2) by simp
qed

lemma pg_decide_agrees:
  assumes "rollout_rows_ok s"
  shows "decide_on (pg_rollout_ops ce free) c s = (fst (decide c (memory_of s)), s)"
proof -
  let ?P = "\<lambda>p. expected_scope c (scope_type p) = Some (scope_value p)"
  let ?A = "filter (applies c) (policy_rows s)"
  have checked: "\<forall>p \<in> set (filter active (policy_rows s)). check_policy p = Inr p"
    using assms by (simp add: rollout_rows_ok_def)
  then have "matching c (sort_key (\<lambda>p. - version p) (filter active (policy_rows s)))
      = Inr (filter ?P (sort_key (\<lambda>p. - version p) (filter active (policy_rows s))))"
    by (intro matching_Inr) simp
  moreover have "filter ?P (sort_key (\<lambda>p. - version p) (filter active (policy_rows s))) = sort_key (\<lambda>p. - version p) ?A"
    by (simp add: filter_sort conj_commute)
  ultimately have m: "matching c (sort_key (\<lambda>p. - version p) (filter active (policy_rows s))) = Inr (sort_key (\<lambda>p. - version p) ?A)"
    by simp
  have m': "matching c (filter active (policy_rows s)) = Inr ?A"
    using matching_Inr [OF checked, of c] by (simp add: conj_commute)
  have "select_policy c (sort_key (\<lambda>p. - version p) (filter active (policy_rows s))) = select_policy c (filter active (policy_rows s))"
  proof (cases "?A")
    case (Cons a as)
    obtain b bs where b: "sort_key (\<lambda>p. - version p) ?A = b # bs"
      by (metis Cons list.exhaust length_sort length_0_conv list.discI)
    have "min_by selection_key b bs = min_by selection_key a as"
      by (rule min_by_sort [OF b [symmetric] Cons]) (simp add: selection_key_def)
    then show ?thesis unfolding select_policy_def m m' b by (simp add: Cons)
  qed (simp add: select_policy_def m m')
  then show ?thesis
    using assms by (simp add: decide_on_def bindM_def pg_list_policies_ok list_policies_def memory_of_def raise_def ret_def
        split: sum.split)
qed

text \<open>A rollback of a known policy writes the next version, unless a column refuses it.\<close>

lemma pg_policies_all:
  assumes "rollout_rows_ok s"
  shows "\<exists>ps. pg_list_policies False s = (Inr ps, s) \<and> set ps = set (policy_rows s) \<and> distinct (map policy_id ps)"
proof (intro exI conjI)
  show "pg_list_policies False s = (Inr (sort_key (\<lambda>p. - version p) (policy_rows s)), s)"
    using assms by (simp add: pg_list_policies_ok)
  show "distinct (map policy_id (sort_key (\<lambda>p. - version p) (policy_rows s)))"
    using assms by (simp add: rollout_rows_ok_def distinct_map)
qed simp

lemma rolled_set: "set ps = set qs \<Longrightarrow> rolled_policy now i a why ps t = rolled_policy now i a why qs t"
  by (simp add: rolled_policy_def)

lemma pg_rollback_known:
  assumes "rollout_rows_ok s" and "t \<in> set (policy_rows s)" and "i \<notin> policy_id ` set (policy_rows s)"
    and "ce (rolled_policy now i a why (policy_rows s) t) = None"
  shows "rollback_on (pg_rollout_ops ce free) now i (policy_id t) a why s =
    (Inr (rolled_policy now i a why (policy_rows s) t),
     s\<lparr>policy_rows := policy_rows s @ [rolled_policy now i a why (policy_rows s) t]\<rparr>)"
proof -
  let ?r = "rolled_policy now i a why (policy_rows s) t"
  have t: "check_policy t = Inr t" "policy_checks t"
    using assms(1,2) by (simp_all add: rollout_rows_ok_def)
  obtain ps where ps: "pg_list_policies False s = (Inr ps, s)" "set ps = set (policy_rows s)" "distinct (map policy_id ps)"
    using pg_policies_all [OF assms(1)] by blast
  have gt: "version q < version ?r" if "q \<in> set (policy_rows s)" "policy_key q = policy_key t" for q
    using that by (rule rolled_version_gt)
  then have "policy_checks ?r"
    using t(2) gt [OF assms(2) refl] by (simp add: policy_checks_def rolled_policy_def)
  moreover have "(policy_key ?r, version ?r) \<notin> (\<lambda>q. (policy_key q, version q)) ` set (policy_rows s)"
    using gt by fastforce
  ultimately have "pg_add_policy ce ?r s = (Inr ?r, s\<lparr>policy_rows := policy_rows s @ [?r]\<rparr>)"
    using assms(3,4) rolled_policy_checks [OF t(1)] by (simp add: pg_add_policy_def)
  then show ?thesis
    using assms(2) ps rolled_policy_checks [OF t(1)] find_by_id [OF ps(3), of t]
    by (simp add: rollback_on_def bindM_def rolled_set [OF ps(2)])
qed

lemma pg_rollback_keeps: "keeps rollout_rows_ok (rollback_on (pg_rollout_ops ce free) now i pid a why)"
proof -
  have "keeps rollout_rows_ok (pg_list_policies b)" for b
    by (simp add: keeps_def pg_list_policies_def)
  then show ?thesis
    unfolding rollback_on_def pg_ops_sel by (intro keeps_rules pg_add_policy_keeps)
qed


subsection \<open>Two monitors\<close>

text \<open>Two monitors that picked the same target before either acted: over the in-memory store the second finds the version
claimed and does nothing. In PostgreSQL the lock is gone when the first claim has returned, so the second claim holds as
well, and the second monitor writes one more downgrade.\<close>

lemma memory_monitor_once:
  assumes "monitor_act memory_rollout_ops now i why t s = (Inr (Some p), s')"
  shows "monitor_act memory_rollout_ops now' j why' t s' = (Inr None, s')"
proof -
  have "keeps (\<lambda>s. (policy_key t, version t) \<in> set (monitor_versions s)) (rollback_on memory_rollout_ops now i pid a w)" for pid a w
    unfolding rollback_on_def memory_rollout_sel
    by (intro keeps_rules) (simp_all add: keeps_def list_policies_def add_policy_def)
  then have "(policy_key t, version t) \<in> set (monitor_versions (snd (rollback_on memory_rollout_ops now i pid a w
      (s\<lparr>monitor_versions := (policy_key t, version t) # monitor_versions s\<rparr>))))" for pid a w
    by (rule keepsD) simp
  then have "(policy_key t, version t) \<in> set (monitor_versions s')"
    using assms by (auto simp: monitor_act_def bindM_def claim_monitor_version_def catchM_def ret_def raise_def
        split: if_splits prod.splits sum.splits) (metis snd_conv)+
  then show ?thesis by (simp add: monitor_act_def bindM_def claim_monitor_version_def ret_def)
qed

theorem pg_monitor_acts_twice:
  assumes "rollout_rows_ok s" and "t \<in> set (policy_rows s)" and "i \<notin> policy_id ` set (policy_rows s)"
    and "j \<notin> insert i (policy_id ` set (policy_rows s))" and "\<And>p. ce p = None"
  shows "\<exists>p q s' s''. monitor_act (pg_rollout_ops ce True) now i why t s = (Inr (Some p), s') \<and>
    monitor_act (pg_rollout_ops ce True) now' j why t s' = (Inr (Some q), s'') \<and>
    policy_key q = policy_key p \<and> version p < version q \<and> {p, q} \<subseteq> set (policy_rows s'') \<and>
    downgrade_reason p = Some why \<and> downgrade_reason q = Some why"
proof -
  let ?ops = "pg_rollout_ops ce True"
  have act: "monitor_act ?ops n x why t u = (Inr (Some (rolled_policy n x ''phase-d-monitor'' why (policy_rows u) t)),
      u\<lparr>policy_rows := policy_rows u @ [rolled_policy n x ''phase-d-monitor'' why (policy_rows u) t]\<rparr>)"
    if "rollout_rows_ok u" "t \<in> set (policy_rows u)" "x \<notin> policy_id ` set (policy_rows u)" for n x u
    using pg_rollback_known [where now = n and a = "''phase-d-monitor''" and why = why and free = True, OF that assms(5)]
    by (simp add: monitor_act_def bindM_def pg_claim_monitor_version_def catchM_def ret_def)
  let ?p = "rolled_policy now i ''phase-d-monitor'' why (policy_rows s) t"
  let ?s = "s\<lparr>policy_rows := policy_rows s @ [?p]\<rparr>"
  let ?q = "rolled_policy now' j ''phase-d-monitor'' why (policy_rows ?s) t"
  have ok: "rollout_rows_ok ?s"
    using keepsD' [OF pg_rollback_keeps assms(1) pg_rollback_known [where ce = ce, OF assms(1-3) assms(5)]] .
  have "version ?p < version ?q" by (rule rolled_version_gt) simp_all
  moreover note act [OF assms(1-3), of now] act [OF ok, of j now'] assms(2,4)
  ultimately show ?thesis by auto
qed

text \<open>\<open>_rollout_monitor_loop\<close> of \<open>main.py\<close>, one turn: an exception of the signals or of the monitor is logged, not raised.\<close>

definition monitor_turn ::
  "'s rollout_ops \<Rightarrow> time \<Rightarrow> string \<Rightarrow> (exn + rollout_signals) \<Rightarrow> ('s, unit) py" where
  "monitor_turn ops now new_id signals =
     catchM
       (bindM (case signals of Inl e \<Rightarrow> raise e | Inr g \<Rightarrow> evaluate_once_on ops now new_id g) (\<lambda>_. ret ()))
       (\<lambda>e. if is_exception e then ret () else raise e)"

lemma monitor_turn_keeps:
  assumes "\<And>b. keeps P (op_policies ops b)" "\<And>p. keeps P (op_add_policy ops p)" "\<And>k v. keeps P (op_claim ops k v)"
  shows "keeps P (monitor_turn ops now i signals)"
  unfolding monitor_turn_def evaluate_once_on_def monitor_act_def rollback_on_def by (intro keeps_rules assms)

lemma pg_list_policies_keeps: "keeps P (pg_list_policies b)"
  by (simp add: keeps_def pg_list_policies_def)

lemma pg_claim_keeps: "keeps P (pg_claim_monitor_version free k v)"
  by (simp add: keeps_def pg_claim_monitor_version_def)

text \<open>A turn of the monitor keeps the tables valid, and writes nothing but policies: no decision is recorded for a
downgrade.\<close>

theorem monitor_turn_valid: "keeps rollout_rows_ok (monitor_turn (pg_rollout_ops ce free) now i signals)"
  by (intro monitor_turn_keeps) (simp_all add: pg_list_policies_keeps pg_claim_keeps pg_add_policy_keeps)

theorem monitor_turn_records_no_decision:
  "decision_rows (snd (monitor_turn (pg_rollout_ops ce free) now i signals s)) = decision_rows s"
proof -
  have "keeps (\<lambda>u. decision_rows u = decision_rows s) (pg_add_policy ce p)" for p
    by (simp add: keeps_def pg_add_policy_def split: option.split sum.split)
  then have "keeps (\<lambda>u. decision_rows u = decision_rows s) (monitor_turn (pg_rollout_ops ce free) now i signals)"
    by (intro monitor_turn_keeps) (simp_all add: pg_list_policies_keeps pg_claim_keeps)
  then show ?thesis by (rule keepsD) simp
qed

subsection \<open>The signals\<close>

lemma count_rows_nonneg: "0 \<le> count_rows P xs"
  by (simp add: count_rows_def)

lemma count_rows_mono: "(\<And>x. P x \<Longrightarrow> Q x) \<Longrightarrow> count_rows P xs \<le> count_rows Q xs"
  unfolding count_rows_def by (induction xs) auto

lemma count_rows_none: "(\<And>x. x \<in> set xs \<Longrightarrow> \<not> P x) \<Longrightarrow> count_rows P xs = 0"
  by (simp add: count_rows_def filter_empty_conv)

lemma rate_or_range:
  "0 \<le> a \<Longrightarrow> a \<le> b \<Longrightarrow> 0 \<le> dflt \<Longrightarrow> dflt \<le> 1 \<Longrightarrow> 0 \<le> rate_or dflt a b \<and> rate_or dflt a b \<le> 1"
  using fdiv_range [of "of_int a" "of_int b"] by (simp add: rate_or_def)

lemma load_signals_obtain:
  assumes "load_signals percentile dbl collate now es1 es2 es3 rs = Inr g"
  obtains simple complex route where
    "seconds_p95 percentile dbl (filter (\<lambda>e. route_class e \<in> {None, Some ''simple''})
       (filter (\<lambda>e. er_type e = ''run_completed'' \<and> since now 30 e) es1)) = Inr simple"
    "seconds_p95 percentile dbl (filter (\<lambda>e. route_class e = Some ''complex'')
       (filter (\<lambda>e. er_type e = ''run_completed'' \<and> since now 30 e) es1)) = Inr complex"
    "simple_p95_seconds g = simple" "complex_p95_seconds g = complex" "affected_route dbl now es3 = Inr route"
  using assms unfolding load_signals_def Let_def by (auto split: sum.splits)

text \<open>The signals that the monitor reads are consistent: no more errors than samples, rates between 0 and 1 (with no
division by zero when a window is empty), and a window of exactly half an hour.\<close>

theorem signals_in_range:
  assumes "load_signals percentile dbl collate now es1 es2 es3 rs = Inr g"
  shows "0 \<le> error_count g \<and> error_count g \<le> sample_count g \<and> p95_breach_minutes g = 30 \<and>
    0 \<le> baseline_error_rate g \<and> baseline_error_rate g \<le> 1 \<and>
    0 \<le> non_terminal_closure_rate g \<and> non_terminal_closure_rate g \<le> 1"
proof -
  have fields: "error_count g = count_rows (\<lambda>e. er_type e = ''run_failed'' \<and> since now 15 e) es1"
    "sample_count g = count_rows (\<lambda>e. closing e \<and> since now 15 e) es1" "p95_breach_minutes g = 30"
    "baseline_error_rate g = rate_or 0 (count_rows (\<lambda>e. er_type e = ''run_failed'' \<and> \<not> since now 15 e \<and> since now 30 e) es1)
       (count_rows (\<lambda>e. closing e \<and> \<not> since now 15 e \<and> since now 30 e) es1)"
    "non_terminal_closure_rate g = rate_or 1 (count_rows closed_run (closure_window now rs)) (int (length (closure_window now rs)))"
    using assms unfolding load_signals_def Let_def by (auto split: sum.splits)
  have failed: "count_rows (\<lambda>e. er_type e = ''run_failed'' \<and> P e) es1 \<le> count_rows (\<lambda>e. closing e \<and> P e) es1" for P
    by (rule count_rows_mono) (simp add: closing_def)
  have "count_rows closed_run xs \<le> int (length xs)" for xs
    by (simp add: count_rows_def)
  then show ?thesis
    unfolding fields using failed by (intro conjI rate_or_range [THEN conjunct1] rate_or_range [THEN conjunct2])
      (simp_all add: count_rows_nonneg)
qed

text \<open>The breach time is not measured: one run of 26 seconds, the only event there is, downgrades the route although nothing
was slow for thirty minutes.\<close>

theorem one_slow_run_triggers:
  assumes "percentile [26] = 26" and "dbl ''26000'' = Inr 26000"
  shows "\<exists>g. load_signals percentile dbl collate 0 [\<lparr>er_type = ''run_completed'', er_created = - 60,
       er_attributes = [(''duration_ms'', Some ''26000'')]\<rparr>] es2 [] [] = Inr g \<and> trigger g = Some ''simple_route_p95''"
proof -
  have "fdiv 26000 1000 = 26"
    using fl_numeral [of "num.Bit0 (num.Bit1 (num.Bit0 (num.Bit1 num.One)))"] by (simp add: fdiv_def)
  then show ?thesis
    using assms by (simp add: load_signals_def seconds_p95_def affected_route_def count_rows_def closing_def since_def minutes_def
        Let_def route_class_def er_text_def duration_of_def flag_rows_def rate_or_def trigger_def closure_window_def)
qed

text \<open>Nothing happens to a service at rest: without an event in the last half hour and with every run of the window
closed, the query returns and the monitor has no reason to act.\<close>

theorem idle_service_is_left_alone:
  assumes "\<And>e. e \<in> set es1 \<union> set es3 \<Longrightarrow> \<not> since now 30 e" and "\<And>r. r \<in> set (closure_window now rs) \<Longrightarrow> closed_run r"
  shows "\<exists>g. load_signals percentile dbl collate now es1 es2 es3 rs = Inr g \<and> trigger g = None"
proof -
  have late: "since now 15 e \<Longrightarrow> since now 30 e" for e
    by (simp add: since_def minutes_def)
  have none: "count_rows (\<lambda>e. P e \<and> since now 15 e) es1 = 0" "count_rows (\<lambda>e. P e \<and> \<not> since now 15 e \<and> since now 30 e) es1 = 0" for P
    using assms(1) late by (auto intro!: count_rows_none)
  have empty: "filter (\<lambda>e. P e \<and> since now 30 e) es1 = []" "filter (\<lambda>e. P e \<and> since now 30 e) es3 = []" for P
    using assms(1) by (auto simp: filter_empty_conv)
  have "count_rows closed_run xs = int (length xs)" if "\<forall>x \<in> set xs. closed_run x" for xs
    using that by (simp add: count_rows_def)
  then have "rate_or 1 (count_rows closed_run (closure_window now rs)) (int (length (closure_window now rs))) = 1"
    using assms(2) by (simp add: rate_or_def fdiv_def)
  then show ?thesis
    unfolding load_signals_def Let_def empty none flag_rows_def affected_route_def seconds_p95_def
    by (simp add: trigger_def rate_or_def)
qed

subsection \<open>Concrete tables\<close>

definition sample_rollout_tables :: rollout_tables where
  "sample_rollout_tables = \<lparr>policy_rows = [sample_policy], decision_rows = [], rollout_runs = []\<rparr>"

lemma sample_rollout_tables_ok: "rollout_rows_ok sample_rollout_tables"
  by (simp add: rollout_rows_ok_def sample_rollout_tables_def policy_checks_def sample_policy_def check_policy_def FEATURES_def)

lemma sample_rollout_tables_decide:
  "decide_on (pg_rollout_ops (\<lambda>_. None) True) sample_request sample_rollout_tables =
     (Inr (decide_with sample_request sample_policy), sample_rollout_tables)"
proof -
  have "memory_of sample_rollout_tables = sample_rollout"
    by (simp add: memory_of_def sample_rollout_tables_def sample_rollout_def)
  then show ?thesis by (simp add: pg_decide_agrees [OF sample_rollout_tables_ok] sample_decides)
qed


theorem signals_in_range_witness:
  "\<exists>g. load_signals (\<lambda>xs. hd xs) (\<lambda>x. Inl (ValueError x)) (\<lambda>_. 0) 0
      [\<lparr>er_type = ''run_failed'', er_created = - 60, er_attributes = [(''route'', Some ''chat'')]\<rparr>] [] [] [] = Inr g \<and>
     sample_count g = 1 \<and> 0 \<le> baseline_error_rate g \<and> error_count g \<le> sample_count g"
proof -
  let ?es = "[\<lparr>er_type = ''run_failed'', er_created = - 60, er_attributes = [(''route'', Some ''chat'')]\<rparr>]"
  obtain g where g: "load_signals (\<lambda>xs. hd xs) (\<lambda>x. Inl (ValueError x)) (\<lambda>_. 0) 0 ?es [] [] [] = Inr g" "sample_count g = 1"
    by (simp add: load_signals_def seconds_p95_def affected_route_def count_rows_def closing_def since_def minutes_def Let_def)
  show ?thesis using signals_in_range [OF g(1)] g by blast
qed

theorem pg_monitor_acts_twice_witness:
  "\<exists>p q s s'. monitor_act (pg_rollout_ops (\<lambda>_. None) True) 5 ''p2'' ''safety_incident'' sample_policy sample_rollout_tables = (Inr (Some p), s) \<and>
     monitor_act (pg_rollout_ops (\<lambda>_. None) True) 5 ''p3'' ''safety_incident'' sample_policy s = (Inr (Some q), s') \<and>
     version p < version q"
  using pg_monitor_acts_twice [OF sample_rollout_tables_ok, of sample_policy "''p2''" "''p3''" "\<lambda>_. None" 5 "''safety_incident''" 5]
  by (auto simp: sample_rollout_tables_def sample_policy_sel)

end
