(* ===== verification/Spec2Isabelle.thy ===== *)
theory Spec2Isabelle
  imports Run_Store_Pg Clarification_Pg Linker Rollout Trace Harness Context_Compiler Plan_Guard Sql_Guard
    Memory_Facts Query_Tools Uncertainty Semantic_Catalog Conversation_State Prompt_Context Rollout_Pg
begin

section \<open>The agent service of Text2SQL-turnrevise\<close>

text \<open>
  The repository is a Text-to-SQL service. Its core is \<open>src/agent-service/app\<close> (Python): a request
  becomes a run of the harness; the harness binds the request, assembles a context within a token budget, searches
  the catalog of tables, columns, metrics and values, lets the model propose a query plan, validates the plan against
  the grounding, checks the SQL against the plan and against a read-only policy, pauses for a clarification when the
  question is ambiguous, remembers what the user confirmed, and records traces and evidence; rollout policies decide
  which of these features enforce and which only observe. This development models that core and proves what makes each
  part correct. Python strings are HOL strings of 8-bit characters, or lists of code points where the code looks into
  Chinese text; dictionaries are association lists in insertion order, exceptions are values, and a call that reads
  or writes a store is a function from the state to a result and the new state (\<open>Prelude\<close>).

  \<^bold>\<open>Theories and what they model\<close>

  \<^item> \<open>Prelude\<close>: exceptions, stateful calls, dictionaries, text functions; the collections
    \<open>keeps_rules\<close> (what a composed call keeps), \<open>py_simps\<close> and \<open>dict_simps\<close>. \<open>Sha256\<close>: the digest,
    computed on 32-bit words. \<open>Py_Float\<close>: binary64 arithmetic by rounding rationals. \<open>Json\<close>: JSON values.
    \<open>Unicode_Text\<close>: texts as code points, their UTF-8 bytes and digest.
  \<^item> \<open>Run_Model\<close>, \<open>Run_Contract\<close>, \<open>Run_Store\<close>: \<open>harness/models.py\<close> and \<open>harness/store.py\<close>. Run
    records, the transition table, the store protocol as a locale, and the in-memory store, which meets it. The
    lemmas show that every method keeps the store well-formed and that runs only evolve.
  \<^item> \<open>Numbered_Rows\<close>, \<open>Run_Store_Pg\<close>: \<open>state/run_store.py\<close>. Every method is one transaction over the
    tables; the store simulates the in-memory one.
  \<^item> \<open>Clarification\<close>, \<open>Clarification_Pg\<close>: \<open>harness/clarification.py\<close>. Cards, resume tokens, both stores,
    and the service over each.
  \<^item> \<open>Harness\<close>: \<open>harness/lifecycle.py\<close> and \<open>harness/request.py\<close>. The tool hooks, the run handle, and the
    request and resume streams with their error paths. \<open>Request_Context\<close>: \<open>harness/context.py\<close> and
    \<open>grounding/context.py\<close>, the context variables of a request and the grounding object its tools share. \<open>Uncertainty\<close>:
    \<open>harness/uncertainty.py\<close>.
  \<^item> \<open>Trace\<close>: \<open>observability/trace.py\<close> and \<open>metrics.py\<close>. \<open>Rollout\<close>: \<open>rollout\<close>, the
    service and the monitor over a record of store operations. \<open>Rollout_Pg\<close>: the PostgreSQL store, the query of the signals and
    the loop of the monitor.
  \<^item> \<open>Context_Compiler\<close>: \<open>context_v2\<close>, the compiler, its manifest stores and the conversation compactor.
    \<open>Conversation_State\<close>: the default extractor of the compactor and the conversation filters of \<open>state/context.py\<close>.
    \<open>Prompt_Context\<close>: the enhancers of \<open>state/context.py\<close>, which compile the prompt and select the messages.
  \<^item> \<open>Grounding_Models\<close>, \<open>Join_Search\<close>, \<open>Linker\<close>: \<open>grounding/models.py\<close> and \<open>grounding/linker.py\<close>. \<open>Semantic_Catalog\<close>:
    \<open>grounding/catalog.py\<close>, the load of the catalog from its tables. \<open>Query_Plan\<close>: \<open>grounding/query_plan.py\<close>. \<open>Plan_Store\<close>:
    \<open>grounding/plan_store.py\<close>. \<open>Evidence\<close>: \<open>evidence/service.py\<close>, what the browser sees of a run.
  \<^item> \<open>Retrieval\<close>: \<open>retrieval.py\<close>, the keyword and vector search over the knowledge tables and their fusion.
  \<^item> \<open>Sql_Tree\<close>, \<open>Plan_Guard\<close>, \<open>Sql_Guard\<close>: the parse trees of \<open>sqlglot\<close> as a datatype with the traversals the
    guards use, \<open>security/query_plan_guard.py\<close> and \<open>security/sql_guard.py\<close>. \<open>Intent_Guard\<close>:
    \<open>security/intent_guard.py\<close> and \<open>result_guard.py\<close>.
  \<^item> \<open>Grounding_Text\<close>, \<open>Query_Tools\<close>: the three query tools of \<open>tools\<close> (search, validate plan, run SQL) with the texts
    they answer, over the run store, the plan store, the request context and the guards.
  \<^item> \<open>Memory_Text\<close>, \<open>Memory_Store\<close>, \<open>Memory_Pg\<close>, \<open>Memory_Service\<close>, \<open>Memory_Facts\<close>: the long-term memory of \<open>state\<close>:
    normalisation and redaction, the in-memory and the PostgreSQL repository, the service with its two adapters, and the
    properties over both repositories.

  \<^bold>\<open>How the parts interact\<close>

  Where one part calls another through a protocol, the operations are a record and the laws a locale whose lemmas are proved
  once: \<open>run_store_contract\<close> and \<open>card_contract\<close> (the harness and the clarification service), \<open>memory_contract\<close> (the
  memory service), \<open>plan_store_contract\<close>, \<open>manifest_contract\<close>, \<open>state_contract\<close> (the conversation filters),
  \<open>trace_contract\<close> and \<open>knowledge_store\<close> (retrieval). The interpretations on the stores of the code carry them to the
  properties. The PostgreSQL run store refuses a second open run of a conversation, which the run contract does not
  allow; it is related to the in-memory store by a simulation instead. The PostgreSQL clarification store shares its
  database with the runs, so its state extends theirs. The linker's snapshot is what the plan validator
  checks a draft against, the validated plan is recorded in the request context, and the SQL tool reads it
  there and checks the query against it; the evidence view reads the stored plan and manifest of the same run.
\<close>

text \<open>
  \<^bold>\<open>What is shown\<close>

  \<^item> Safety of the SQL path: every statement sent in an enforcing request is one read query over allowed tables and
    aligned with a valid plan of the current grounding; a query that passes the plan guard stays inside its plan and
    applies all of it; a plan is valid only when everything it names is grounded and current; the linker exposes only
    current assets; a loaded catalog refers to nothing outside itself; a put question stops further queries.
  \<^item> Life of a run: its history is a path of the transition table, its outcome is final, a request closes it, the
    tool budget holds, restart recovery closes exactly the open runs, and only a safe one is recovered; a
    conversation has at most one open run in the database; interleaved requests do not see each other's grounding.
  \<^item> Clarification: on both stores a card is answered once and a resume claimed once; the token an answer returns
    opens the resume; the references between cards, children and tokens are right.
  \<^item> Context: every item is accounted for and the budget holds; an enforcing prompt is the given one, the selected messages
    keep every tool exchange and fit the budget, a shadowed context changes nothing; a filtered conversation keeps its recent
    turns, its summary depends on no tool output, and the latest constraint of a topic is the one it states.
  \<^item> Memory: a search returns only what the user may see and confirmed, users cannot change each other's memories, phone
    numbers are not stored, one active memory per key.
  \<^item> Rollout: both stores decide alike, a rollback takes effect on the next request, the signals are in range, a service at
    rest is left alone.
  \<^item> Privacy of evidence: stored plans and the evidence view do not depend on private literals and hold listed keys only.
  \<^item> Equivalences: the PostgreSQL run store with the in-memory one, the manifest, plan and conversation stores, the
    connectivity test with reachability, the join search with shortest paths.
  \<^item> Bounds and termination: token budgets, scores and confidence in the unit interval, totality of the linker and of the
    retrieval with its fallback.
  \<^item> Defects the models show: a CTE bypasses the table whitelist, a negated comparison passes for the planned
    filter, a pause inside a resumed stream is raised, a shadow trace can raise, an empty plan is valid, a resubmitted plan
    keeps its old stored verdict, an expired memory can never be stored again, a percent sign matches every document, two monitors
    act on one regression over PostgreSQL, one slow run counts as half an hour of them.

  \<^bold>\<open>Loops and bounds\<close>

  No definition uses fuel. Structural recursion covers most loops; \<open>search_path\<close> (breadth-first search), \<open>reach_tables\<close>
  (the worklist of the validator) and \<open>conjuncts\<close> have termination proofs. The walk over a parse tree goes level by
  level down to the height of the tree, and \<open>set_walk\<close> proves that it visits every node.

  \<^bold>\<open>Arguments of the model\<close>

  Clock readings, fresh identifiers and tokens; the embedders; the parser, renderer and derived node names of \<open>sqlglot\<close>;
  the JSON text of a draft and of a manifest; the text of a number, of a metadata object and the calendar date of a datetime;
  the body of a stream (the agent); the audit client; the error of a record that a column constraint refuses; the collation,
  case mapping, percentile and cast to a number of the database, and whether an advisory lock is free; the groups that the Chinese patterns of a remember instruction captured; the sentence in front
  of quoted memories; whether PostgreSQL accepts the locking clause of \<open>claim_resume_atomic\<close>. A \<open>jsonb\<close> column gives
  back what was written. In the tools, the legacy retrieval and the grounding search are any function.

  \<^bold>\<open>Not modelled\<close>

  The classification of instructions in \<open>harness/models.py\<close> (a list of Chinese verbs); routes,
  configuration, user interface, prompts and exporters, which are glue around third-party interfaces; the tools that only
  forward a call over HTTP; the token resolver, which calls a JWT library; the offline evaluation scripts; the Java business
  service.
\<close>

end
